(* ===== verification/Prelude.thy ===== *)
theory Prelude
  imports Main "HOL-Library.List_Lexorder" "HOL-Library.Char_ord" "HOL-Library.Word"
begin

text \<open>
  Shared vocabulary of the development.  The C++ code of Xaya X reports failures in two
  ways: a failed \<^verbatim>\<open>CHECK\<close> or \<^verbatim>\<open>LOG (FATAL)\<close> ends the process, and
  a base chain or a socket may throw an exception, which the callers catch.  Both are values
  of the type \<open>error\<close> here.  A stateful operation is a function from the state to a
  result and the new state; the state is returned on the error branches too, because a
  thrown exception leaves all the changes made before it in place.  The theory also holds
  the model of the ordered \<^verbatim>\<open>std::map\<close> as an association list sorted by key, and
  the fixed-width bounds of the code's integers.
\<close>

named_theorems prog_simps \<open>evaluation of the program combinators\<close>
named_theorems inv_intros \<open>preservation of component invariants\<close>

subsection \<open>Errors and stateful programs\<close>

datatype exn = StdException string | JsonRpcException int string | ZmqException

text \<open>\<open>Abort\<close>: a failed \<^verbatim>\<open>CHECK\<close> or \<^verbatim>\<open>LOG (FATAL)\<close>.  \<open>Throw\<close>: a C++
  exception.  \<open>Diverges\<close>: a loop whose bound is used up.  \<open>Undefined\<close>: undefined
  behaviour, such as reading the last element of an empty vector.\<close>

datatype error = Abort | Throw exn | Diverges | Undefined

type_synonym ('s, 'a) prog = "'s \<Rightarrow> (error + 'a) \<times> 's"

definition ret :: "'a \<Rightarrow> ('s, 'a) prog" where
  "ret a s = (Inr a, s)"

definition failM :: "error \<Rightarrow> ('s, 'a) prog" where
  "failM e s = (Inl e, s)"

definition bindM :: "('s, 'a) prog \<Rightarrow> ('a \<Rightarrow> ('s, 'b) prog) \<Rightarrow> ('s, 'b) prog" where
  "bindM m f s = (case m s of (r, s') \<Rightarrow> (case r of Inl e \<Rightarrow> (Inl e, s') | Inr a \<Rightarrow> f a s'))"

definition thenM :: "('s, 'a) prog \<Rightarrow> ('s, 'b) prog \<Rightarrow> ('s, 'b) prog" where
  "thenM m n = bindM m (\<lambda>_. n)"

definition getM :: "('s \<Rightarrow> 'a) \<Rightarrow> ('s, 'a) prog" where
  "getM f s = (Inr (f s), s)"

definition modifyM :: "('s \<Rightarrow> 's) \<Rightarrow> ('s, unit) prog" where
  "modifyM f s = (Inr (), f s)"

definition liftE :: "error + 'a \<Rightarrow> ('s, 'a) prog" where
  "liftE r s = (r, s)"

text \<open>The glog macros \<^verbatim>\<open>CHECK\<close>, \<^verbatim>\<open>CHECK_EQ\<close>, ... as statements of a program.\<close>

definition CHECK :: "bool \<Rightarrow> ('s, unit) prog" where
  "CHECK b s = (if b then Inr () else Inl Abort, s)"

definition catchM :: "('s, 'a) prog \<Rightarrow> (exn \<Rightarrow> ('s, 'a) prog) \<Rightarrow> ('s, 'a) prog" where
  "catchM m h s =
     (case m s of (r, s') \<Rightarrow>
        (case r of Inl (Throw e) \<Rightarrow> h e s' | _ \<Rightarrow> (r, s')))"

text \<open>Running an operation of a sub-object inside the state of its owner.\<close>

definition zoomM :: "('s \<Rightarrow> 't) \<Rightarrow> ('t \<Rightarrow> 's \<Rightarrow> 's) \<Rightarrow> ('t, 'a) prog \<Rightarrow> ('s, 'a) prog" where
  "zoomM g p m s = (case m (g s) of (r, t) \<Rightarrow> (r, p t s))"

fun forM :: "'a list \<Rightarrow> ('a \<Rightarrow> ('s, unit) prog) \<Rightarrow> ('s, unit) prog" where
  "forM [] f = ret ()"
| "forM (x # xs) f = thenM (f x) (forM xs f)"

definition preserves :: "('s \<Rightarrow> 'v) \<Rightarrow> ('s, 'a) prog \<Rightarrow> bool" where
  "preserves f m \<longleftrightarrow> (\<forall>s. f (snd (m s)) = f s)"

definition keepsM :: "('s \<Rightarrow> bool) \<Rightarrow> ('s, 'a) prog \<Rightarrow> bool" where
  "keepsM P m \<longleftrightarrow> (\<forall>s. P s \<longrightarrow> P (snd (m s)))"

text \<open>Computations that can fail but have no state.\<close>

definition bindE :: "error + 'a \<Rightarrow> ('a \<Rightarrow> error + 'b) \<Rightarrow> error + 'b" where
  "bindE r f = (case r of Inl e \<Rightarrow> Inl e | Inr a \<Rightarrow> f a)"

definition checkE :: "bool \<Rightarrow> error + unit" where
  "checkE b = (if b then Inr () else Inl Abort)"

fun mapE :: "('a \<Rightarrow> error + 'b) \<Rightarrow> 'a list \<Rightarrow> error + 'b list" where
  "mapE f [] = Inr []"
| "mapE f (x # xs) = bindE (f x) (\<lambda>y. bindE (mapE f xs) (\<lambda>ys. Inr (y # ys)))"

subsection \<open>Integer widths\<close>

abbreviation u64_max :: nat where "u64_max \<equiv> 18446744073709551615"
abbreviation i64_max :: nat where "i64_max \<equiv> 9223372036854775807"
abbreviation u32_max :: nat where "u32_max \<equiv> 4294967295"

text \<open>Unsigned 64-bit values are natural numbers; the operations that can leave the range
  are written with the wrap-around of the C++ type.\<close>

definition u64_add :: "nat \<Rightarrow> nat \<Rightarrow> nat" where
  "u64_add a b = (a + b) mod (u64_max + 1)"

definition u64_sub :: "nat \<Rightarrow> nat \<Rightarrow> nat" where
  "u64_sub a b = nat ((int a - int b) mod int (u64_max + 1))"

text \<open>The implicit conversion of a signed value to \<^verbatim>\<open>uint64_t\<close>.\<close>

definition u64_of_int :: "int \<Rightarrow> nat" where
  "u64_of_int i = nat (i mod int (u64_max + 1))"

text \<open>The conversion of an unsigned value to \<^verbatim>\<open>int64_t\<close>.\<close>

definition int64_of :: "nat \<Rightarrow> int" where
  "int64_of n = (if n mod (u64_max + 1) \<le> i64_max then int (n mod (u64_max + 1))
                 else int (n mod (u64_max + 1)) - int (u64_max + 1))"

text \<open>The implicit conversion to \<^verbatim>\<open>unsigned\<close> (32 bits).\<close>

definition u32_of_int :: "int \<Rightarrow> nat" where
  "u32_of_int i = nat (i mod int (u32_max + 1))"

subsection \<open>Ordered maps\<close>

text \<open>\<^verbatim>\<open>std::map\<close>: an association list whose keys increase strictly.\<close>

definition smap_ok :: "('k::linorder \<times> 'v) list \<Rightarrow> bool" where
  "smap_ok m \<longleftrightarrow> sorted_wrt (<) (map fst m)"

fun smap_set :: "'k::linorder \<Rightarrow> 'v \<Rightarrow> ('k \<times> 'v) list \<Rightarrow> ('k \<times> 'v) list" where
  "smap_set k v [] = [(k, v)]"
| "smap_set k v ((k', v') # m) =
     (if k < k' then (k, v) # (k', v') # m
      else if k = k' then (k, v) # m
      else (k', v') # smap_set k v m)"

text \<open>\<^verbatim>\<open>emplace\<close> keeps an existing entry.\<close>

definition smap_emplace :: "'k::linorder \<Rightarrow> 'v \<Rightarrow> ('k \<times> 'v) list \<Rightarrow> ('k \<times> 'v) list" where
  "smap_emplace k v m = (if map_of m k = None then smap_set k v m else m)"

subsection \<open>Lemmas on programs\<close>

lemma ret_simp [simp, prog_simps]: "ret a s = (Inr a, s)"
  by (simp add: ret_def)

lemma failM_simp [simp, prog_simps]: "failM e s = (Inl e, s)"
  by (simp add: failM_def)

lemma getM_simp [simp, prog_simps]: "getM f s = (Inr (f s), s)"
  by (simp add: getM_def)

lemma modifyM_simp [simp, prog_simps]: "modifyM f s = (Inr (), f s)"
  by (simp add: modifyM_def)

lemma liftE_simp [simp, prog_simps]: "liftE r s = (r, s)"
  by (simp add: liftE_def)

lemma CHECK_True [simp, prog_simps]: "b \<Longrightarrow> CHECK b s = (Inr (), s)"
  by (simp add: CHECK_def)

lemma CHECK_False [simp, prog_simps]: "\<not> b \<Longrightarrow> CHECK b s = (Inl Abort, s)"
  by (simp add: CHECK_def)

lemma bindM_Inr [simp, prog_simps]: "m s = (Inr a, s') \<Longrightarrow> bindM m f s = f a s'"
  by (simp add: bindM_def)

lemma bindM_Inl [simp, prog_simps]: "m s = (Inl e, s') \<Longrightarrow> bindM m f s = (Inl e, s')"
  by (simp add: bindM_def)

lemma thenM_Inr [simp, prog_simps]: "m s = (Inr a, s') \<Longrightarrow> thenM m n s = n s'"
  by (simp add: thenM_def)

lemma thenM_Inl [simp, prog_simps]: "m s = (Inl e, s') \<Longrightarrow> thenM m n s = (Inl e, s')"
  by (simp add: thenM_def)

lemma bindM_eq_Inr:
  "bindM m f s = (Inr b, t) \<longleftrightarrow> (\<exists>a s'. m s = (Inr a, s') \<and> f a s' = (Inr b, t))"
  by (auto simp: bindM_def split: prod.splits sum.splits)

lemma thenM_eq_Inr:
  "thenM m n s = (Inr b, t) \<longleftrightarrow> (\<exists>a s'. m s = (Inr a, s') \<and> n s' = (Inr b, t))"
  by (simp add: thenM_def bindM_eq_Inr)

lemma CHECK_eq_Inr: "CHECK b s = (Inr x, t) \<longleftrightarrow> b \<and> t = s"
  by (auto simp: CHECK_def)

lemmas prog_Inr = bindM_eq_Inr thenM_eq_Inr CHECK_eq_Inr

lemma catchM_Inr [simp, prog_simps]: "m s = (Inr a, s') \<Longrightarrow> catchM m h s = (Inr a, s')"
  by (simp add: catchM_def)

lemma catchM_Throw [simp, prog_simps]: "m s = (Inl (Throw e), s') \<Longrightarrow> catchM m h s = h e s'"
  by (simp add: catchM_def)

lemma zoomM_simp [prog_simps]: "zoomM g p m s = (fst (m (g s)), p (snd (m (g s))) s)"
  by (simp add: zoomM_def split: prod.splits)

text \<open>An invariant of the state kept by every statement of a loop body is kept by the
  loop, whichever way it ends.\<close>

lemma forM_keeps:
  assumes "\<And>x s. x \<in> set xs \<Longrightarrow> P s \<Longrightarrow> P (snd (f x s))" and "P s"
  shows "P (snd (forM xs f s))"
  using assms
proof (induction xs arbitrary: s)
  case Nil
  then show ?case by simp
next
  case (Cons x xs)
  have p: "P (snd (f x s))" using Cons.prems by simp
  obtain r t where fx: "f x s = (r, t)" by (cases "f x s")
  have rest: "P (snd (forM xs f t))"
    using Cons.IH [of t] Cons.prems(1) p fx by simp
  show ?case
    using p rest fx by (cases r) simp_all
qed

lemma forM_append: "forM (xs @ ys) f = thenM (forM xs f) (forM ys f)"
  by (induction xs) (auto simp: fun_eq_iff thenM_def bindM_def split: prod.splits sum.splits)

text \<open>Programs that leave an observation of the state alone.\<close>

lemma preserves_simps [simp]:
  "preserves f (ret a)" "preserves f (failM e)" "preserves f (getM g)" "preserves f (CHECK b)"
  "preserves f (liftE r)"
  by (simp_all add: preserves_def CHECK_def)

lemma preserves_modify [simp]: "(\<And>s. f (g s) = f s) \<Longrightarrow> preserves f (modifyM g)"
  by (simp add: preserves_def)

lemma preserves_bind [intro]:
  assumes "preserves f m" "\<And>a. preserves f (n a)"
  shows "preserves f (bindM m n)"
  unfolding preserves_def
proof
  fix s
  obtain r t where m: "m s = (r, t)" by (cases "m s")
  have "f t = f s" using assms(1) m by (metis preserves_def snd_conv)
  with assms(2) m show "f (snd (bindM m n s)) = f s"
    by (cases r) (simp_all add: preserves_def)
qed

lemma preserves_then [intro]: "preserves f m \<Longrightarrow> preserves f n \<Longrightarrow> preserves f (thenM m n)"
  by (auto simp: thenM_def)

lemma preserves_forM [intro]: "(\<And>x. preserves f (g x)) \<Longrightarrow> preserves f (forM xs g)"
  by (induction xs) auto

lemma preservesD: "preserves f m \<Longrightarrow> m s = (r, t) \<Longrightarrow> f t = f s"
  by (metis preserves_def snd_conv)

text \<open>Programs that keep an invariant of the state, whichever way they end.\<close>

lemma keepsM_simps [simp]:
  "keepsM P (ret a)" "keepsM P (failM e)" "keepsM P (getM g)" "keepsM P (CHECK b)" "keepsM P (liftE r)"
  by (simp_all add: keepsM_def CHECK_def)

lemma keepsM_modify [intro]: "(\<And>s. P s \<Longrightarrow> P (f s)) \<Longrightarrow> keepsM P (modifyM f)"
  by (simp add: keepsM_def)

lemma keepsM_bind [intro]:
  assumes "keepsM P m" "\<And>a. keepsM P (n a)"
  shows "keepsM P (bindM m n)"
  unfolding keepsM_def
proof (intro allI impI)
  fix s assume s: "P s"
  obtain r t where m: "m s = (r, t)" by (cases "m s")
  have t: "P t" using assms(1) s m by (metis keepsM_def snd_conv)
  with assms(2) m show "P (snd (bindM m n s))" by (cases r) (simp_all add: keepsM_def)
qed

lemma keepsM_then [intro]: "keepsM P m \<Longrightarrow> keepsM P n \<Longrightarrow> keepsM P (thenM m n)"
  by (auto simp: thenM_def)

lemma keepsM_forM [intro]: "(\<And>x. x \<in> set xs \<Longrightarrow> keepsM P (f x)) \<Longrightarrow> keepsM P (forM xs f)"
  unfolding keepsM_def [of P "forM xs f"] by (auto intro: forM_keeps simp: keepsM_def)

lemma keepsMD: "keepsM P m \<Longrightarrow> P s \<Longrightarrow> m s = (r, t) \<Longrightarrow> P t"
  by (metis keepsM_def snd_conv)

text \<open>Programs that keep a property of the state when they return normally.\<close>

definition keepsOk :: "('s \<Rightarrow> bool) \<Rightarrow> ('s, 'a) prog \<Rightarrow> bool" where
  "keepsOk P m \<longleftrightarrow> (\<forall>s a s'. P s \<longrightarrow> m s = (Inr a, s') \<longrightarrow> P s')"

lemma keepsOkD: "keepsOk P m \<Longrightarrow> P s \<Longrightarrow> m s = (Inr a, s') \<Longrightarrow> P s'"
  by (auto simp: keepsOk_def)

lemma keepsOk_simps [simp]:
  "keepsOk P (ret a)" "keepsOk P (failM e)" "keepsOk P (getM g)" "keepsOk P (CHECK b)" "keepsOk P (liftE r)"
  by (auto simp: keepsOk_def CHECK_def)

lemma keepsOk_modify: "(\<And>s. P s \<Longrightarrow> P (f s)) \<Longrightarrow> keepsOk P (modifyM f)"
  by (auto simp: keepsOk_def)

lemma keepsOk_preserves:
  assumes "preserves f m" "\<And>s s'. f s' = f s \<Longrightarrow> P s \<Longrightarrow> P s'"
  shows "keepsOk P m"
  unfolding keepsOk_def
proof (intro allI impI)
  fix s a s' assume "P s" "m s = (Inr a, s')"
  then show "P s'" using preservesD [OF assms(1)] assms(2) [of s' s] by simp
qed

lemma keepsOk_bind [intro]: "keepsOk P m \<Longrightarrow> (\<And>a. keepsOk P (n a)) \<Longrightarrow> keepsOk P (bindM m n)"
  unfolding keepsOk_def bindM_eq_Inr by blast

text \<open>A bound value that is known when the rest of the program runs.\<close>

lemma keepsOk_bind_lift: "(\<And>a. r = Inr a \<Longrightarrow> keepsOk P (n a)) \<Longrightarrow> keepsOk P (bindM (liftE r) n)"
  by (auto simp: keepsOk_def bindM_eq_Inr)

lemma keepsOk_then [intro]: "keepsOk P m \<Longrightarrow> keepsOk P n \<Longrightarrow> keepsOk P (thenM m n)"
  by (auto simp: thenM_def)

lemma keepsOk_forM [intro]: "(\<And>x. x \<in> set xs \<Longrightarrow> keepsOk P (f x)) \<Longrightarrow> keepsOk P (forM xs f)"
  by (induction xs) auto

lemma keepsOk_catch_fail:
  assumes "keepsOk P m" "\<And>e s a s'. h e s \<noteq> (Inr a, s')"
  shows "keepsOk P (catchM m h)"
  using assms unfolding keepsOk_def catchM_def by (auto split: prod.splits sum.splits error.splits)

lemma bindE_simps [simp, prog_simps]:
  "bindE (Inr a) f = f a" "bindE (Inl e) f = Inl e"
  by (simp_all add: bindE_def)

lemma checkE_simps [simp, prog_simps]:
  "b \<Longrightarrow> checkE b = Inr ()" "\<not> b \<Longrightarrow> checkE b = Inl Abort"
  by (simp_all add: checkE_def)

lemma bindE_eq_Inr: "bindE r f = Inr b \<longleftrightarrow> (\<exists>a. r = Inr a \<and> f a = Inr b)"
  by (cases r) auto

lemma checkE_eq_Inr: "checkE b = Inr x \<longleftrightarrow> b"
  by (simp add: checkE_def)

lemma mapE_Inr: "(\<And>x. x \<in> set xs \<Longrightarrow> f x = Inr (g x)) \<Longrightarrow> mapE f xs = Inr (map g xs)"
  by (induction xs) auto

lemma mapE_length: "mapE f xs = Inr ys \<Longrightarrow> length ys = length xs"
  by (induction xs arbitrary: ys) (auto simp: bindE_eq_Inr)

subsection \<open>Lemmas on fixed-width integers\<close>

lemma u64_add_exact [simp]: "a + b \<le> u64_max \<Longrightarrow> u64_add a b = a + b"
  by (simp add: u64_add_def)

lemma u64_sub_exact [simp]: "b \<le> a \<Longrightarrow> a \<le> u64_max \<Longrightarrow> u64_sub a b = a - b"
  by (simp add: u64_sub_def nat_diff_distrib')

lemma u64_of_int_exact [simp]: "0 \<le> i \<Longrightarrow> i \<le> int u64_max \<Longrightarrow> u64_of_int i = nat i"
  by (simp add: u64_of_int_def)

lemma u64_of_int_negative: "i < 0 \<Longrightarrow> - int i64_max \<le> i \<Longrightarrow> i64_max < u64_of_int i"
proof -
  assume "i < 0" and "- int i64_max \<le> i"
  then have "i mod int (u64_max + 1) = i + int (u64_max + 1)"
    by (intro mod_pos_pos_trivial [of "i + int (u64_max + 1)" "int (u64_max + 1)", simplified mod_add_self2]) auto
  with \<open>- int i64_max \<le> i\<close> show ?thesis by (simp add: u64_of_int_def)
qed

lemma int64_of_small [simp]: "n \<le> i64_max \<Longrightarrow> int64_of n = int n"
  by (simp add: int64_of_def)

lemma u32_of_int_exact [simp]: "0 \<le> i \<Longrightarrow> i \<le> int u32_max \<Longrightarrow> u32_of_int i = nat i"
  by (simp add: u32_of_int_def)

subsection \<open>Lemmas on ordered maps\<close>

lemma map_of_smap_set [simp]: "map_of (smap_set k v m) = (map_of m)(k \<mapsto> v)"
  by (induction k v m rule: smap_set.induct) (auto simp: fun_eq_iff)

lemma set_keys_smap_set: "fst ` set (smap_set k v m) = insert k (fst ` set m)"
  by (induction k v m rule: smap_set.induct) auto

lemma smap_ok_set [simp]: "smap_ok m \<Longrightarrow> smap_ok (smap_set k v m)"
proof (induction k v m rule: smap_set.induct)
  case (2 k v k' v' m)
  have keys: "set (map fst (smap_set k v m)) = insert k (set (map fst m))"
    using set_keys_smap_set [of k v m] by simp
  from 2 show ?case
    by (auto simp: smap_ok_def keys simp del: set_map)
qed (simp add: smap_ok_def)

lemma smap_ok_Nil [simp]: "smap_ok []"
  by (simp add: smap_ok_def)

lemma smap_ok_emplace [simp]: "smap_ok m \<Longrightarrow> smap_ok (smap_emplace k v m)"
  by (simp add: smap_emplace_def)

lemma map_of_smap_emplace [simp]:
  "map_of (smap_emplace k v m) k' =
     (if k' = k \<and> map_of m k = None then Some v else map_of m k')"
  by (simp add: smap_emplace_def)

lemma smap_ok_distinct: "smap_ok m \<Longrightarrow> distinct (map fst m)"
  by (auto simp: smap_ok_def strict_sorted_iff)

text \<open>Appending an entry with a key above all others is what inserting it does.\<close>

lemma smap_set_snoc: "\<forall>k'\<in>fst ` set m. k' < k \<Longrightarrow> smap_set k v m = m @ [(k, v)]"
  by (induction k v m rule: smap_set.induct) auto

lemma smap_ok_snoc: "smap_ok (m @ [(k, v)]) \<longleftrightarrow> smap_ok m \<and> (\<forall>k'\<in>fst ` set m. k' < k)"
  by (auto simp: smap_ok_def sorted_wrt_append)

lemma smap_emplace_mid:
  assumes "smap_ok ((acc @ [(k, v')]) @ bs)"
  shows "smap_emplace k v acc = acc @ [(k, v)]"
proof -
  from assms have lt: "\<forall>k'\<in>fst ` set acc. k' < k"
    by (auto simp: smap_ok_def sorted_wrt_append)
  then have "map_of acc k = None" by (auto simp: map_of_eq_None_iff)
  with lt show ?thesis by (simp add: smap_emplace_def smap_set_snoc)
qed

subsection \<open>Lemmas on lists ordered by a key\<close>

text \<open>Two lists without repeated keys, ordered by the key and with the same elements, are
  the same list.\<close>

lemma sorted_key_unique:
  fixes k :: "'a \<Rightarrow> 'k::linorder"
  assumes "sorted (map k xs)" "sorted (map k ys)" "distinct (map k xs)" "distinct (map k ys)"
    and "set xs = set ys"
  shows "xs = ys"
proof -
  have "map k xs = map k ys"
    using assms by (intro sorted_distinct_set_unique) simp_all
  moreover have "inj_on k (set xs \<union> set ys)"
    using assms by (simp add: distinct_map)
  ultimately show ?thesis by (rule map_inj_on)
qed

lemma sort_key_distinct:
  "distinct (map k xs) \<Longrightarrow> distinct (map k (sort_key k xs))"
  by (simp add: distinct_map)

lemma sort_key_eqI:
  fixes k :: "'a \<Rightarrow> 'k::linorder"
  assumes "distinct (map k xs)" "sorted (map k ys)" "distinct (map k ys)" "set ys = set xs"
  shows "sort_key k xs = ys"
  using assms by (intro sorted_key_unique [where k = k]) (simp_all add: sort_key_distinct)

end
