(* ===== verification/Json.thy ===== *)
theory Json
  imports Prelude
begin

text \<open>
  The values of \<^verbatim>\<open>Json::Value\<close> (jsoncpp) as far as Xaya X uses them, and the two helpers of
  \<^verbatim>\<open>src/jsonutils.cpp\<close>.  An object is an ordered map from member names to values, as it is
  in jsoncpp.  A floating-point number is kept as its IEEE-754 bit pattern: the code stores and
  forwards such numbers.  The writer and the reader of jsoncpp are library code and thus
  parameters (\<open>json_write\<close> with the settings \<^verbatim>\<open>StoreJson\<close> makes, \<open>json_read\<close> with those
  of \<^verbatim>\<open>LoadJson\<close>).
\<close>

datatype json =
    JNull
  | JBool bool
  | JInt int
  | JReal "64 word"
  | JString string
  | JArray "json list"
  | JObject "(string \<times> json) list"

fun isNull :: "json \<Rightarrow> bool" where
  "isNull JNull = True"
| "isNull _ = False"

fun isObject :: "json \<Rightarrow> bool" where
  "isObject (JObject m) = True"
| "isObject _ = False"

fun isArray :: "json \<Rightarrow> bool" where
  "isArray (JArray xs) = True"
| "isArray _ = False"

fun isMember :: "json \<Rightarrow> string \<Rightarrow> bool" where
  "isMember (JObject m) k = (map_of m k \<noteq> None)"
| "isMember _ k = False"

text \<open>Reading a member: a missing one reads as null.\<close>

fun json_get :: "json \<Rightarrow> string \<Rightarrow> json" where
  "json_get (JObject m) k = (case map_of m k of None \<Rightarrow> JNull | Some v \<Rightarrow> v)"
| "json_get _ k = JNull"

text \<open>Assigning a member of an object; assigning a member of a null value makes it an object.
  The code never assigns a member of any other value.\<close>

fun json_set :: "string \<Rightarrow> json \<Rightarrow> json \<Rightarrow> json" where
  "json_set k v (JObject m) = JObject (smap_set k v m)"
| "json_set k v JNull = JObject [(k, v)]"
| "json_set k v j = j"

fun json_append :: "json \<Rightarrow> json \<Rightarrow> json" where
  "json_append v (JArray xs) = JArray (xs @ [v])"
| "json_append v j = j"

fun json_size :: "json \<Rightarrow> nat" where
  "json_size (JArray xs) = length xs"
| "json_size (JObject m) = length m"
| "json_size _ = 0"

record json_lib =
  json_write :: "json \<Rightarrow> string"
  json_read :: "string \<Rightarrow> json option"

definition StoreJson :: "('z) json_lib_scheme \<Rightarrow> json \<Rightarrow> string" where
  "StoreJson L val = json_write L val"

definition LoadJson :: "('z) json_lib_scheme \<Rightarrow> string \<Rightarrow> error + json" where
  "LoadJson L str = (case json_read L str of None \<Rightarrow> Inl Abort | Some res \<Rightarrow> Inr res)"

text \<open>What the code relies on for a stored value: reading gives back what was written.\<close>

definition json_stable :: "('z) json_lib_scheme \<Rightarrow> json \<Rightarrow> bool" where
  "json_stable L val \<longleftrightarrow> json_read L (json_write L val) = Some val"

lemma LoadJson_StoreJson [simp]: "json_stable L val \<Longrightarrow> LoadJson L (StoreJson L val) = Inr val"
  by (simp add: LoadJson_def StoreJson_def json_stable_def)

lemma isObject_iff: "isObject j \<longleftrightarrow> (\<exists>m. j = JObject m)"
  by (cases j) auto

lemma json_get_set:
  "isObject j \<Longrightarrow> json_get (json_set k v j) k' = (if k' = k then v else json_get j k')"
  by (auto simp: isObject_iff)

lemma isObject_set [simp]: "isObject j \<Longrightarrow> isObject (json_set k v j)"
  by (auto simp: isObject_iff)

lemma isMember_set:
  "isObject j \<Longrightarrow> isMember (json_set k v j) k' \<longleftrightarrow> k' = k \<or> isMember j k'"
  by (auto simp: isObject_iff split: if_splits)

end
