(* ===== verification/BlockData.thy ===== *)
theory BlockData
  imports Json
begin

text \<open>
  \<^verbatim>\<open>src/blockdata.hpp\<close>, \<^verbatim>\<open>src/blockdata.cpp\<close> and \<^verbatim>\<open>src/proto/blockdata.proto\<close>: the
  data of a move and of a block, and the conversion to and from the byte string stored in the
  databases.  The encoder generated from the protocol-buffer schema is library code: the record
  \<open>codec\<close> extends the JSON parameters by it.
\<close>

record MoveData =
  mv_txid :: string
  mv_ns :: string
  mv_name :: string
  mv_mv :: string
  mv_burns :: "(string \<times> json) list"
  mv_metadata :: json

record BlockData =
  blk_hash :: string
  blk_parent :: string
  blk_height :: nat
  blk_rngseed :: string
  blk_metadata :: json
  blk_moves :: "MoveData list"

definition MoveData_eq :: "MoveData \<Rightarrow> MoveData \<Rightarrow> bool" where
  "MoveData_eq a b \<longleftrightarrow> mv_txid a = mv_txid b \<and> mv_ns a = mv_ns b \<and> mv_name a = mv_name b
     \<and> mv_mv a = mv_mv b \<and> mv_burns a = mv_burns b \<and> mv_metadata a = mv_metadata b"

definition BlockData_eq :: "BlockData \<Rightarrow> BlockData \<Rightarrow> bool" where
  "BlockData_eq a b \<longleftrightarrow> blk_hash a = blk_hash b \<and> blk_parent a = blk_parent b
     \<and> blk_height a = blk_height b \<and> blk_rngseed a = blk_rngseed b
     \<and> blk_metadata a = blk_metadata b
     \<and> list_all2 MoveData_eq (blk_moves a) (blk_moves b)"

subsection \<open>The stored messages\<close>

record proto_Move =
  pm_txid :: string
  pm_ns :: string
  pm_name :: string
  pm_mv :: string
  pm_burns :: "(string \<times> string) list"
  pm_metadata :: string

record proto_Block =
  pb_hash :: string
  pb_parent :: string
  pb_height :: nat
  pb_rngseed :: string
  pb_metadata :: string
  pb_moves :: "proto_Move list"

record codec = json_lib +
  SerializeToString :: "proto_Block \<Rightarrow> string"
  ParseFromString :: "string \<Rightarrow> proto_Block option"

subsection \<open>Serialise and Deserialise\<close>

text \<open>The loop over \<^verbatim>\<open>mv.burns\<close>: each entry is inserted into the map of the message.\<close>

fun store_burns :: "codec \<Rightarrow> (string \<times> json) list \<Rightarrow> (string \<times> string) list \<Rightarrow> (string \<times> string) list" where
  "store_burns L [] acc = acc"
| "store_burns L ((k, v) # bs) acc = store_burns L bs (smap_emplace k (StoreJson L v) acc)"

definition store_move :: "codec \<Rightarrow> MoveData \<Rightarrow> error + proto_Move" where
  "store_move L mv =
     (let bs = store_burns L (mv_burns mv) [] in
      bindE (checkE (length bs = length (mv_burns mv))) (\<lambda>_.
      Inr \<lparr>pm_txid = mv_txid mv, pm_ns = mv_ns mv, pm_name = mv_name mv, pm_mv = mv_mv mv,
           pm_burns = bs, pm_metadata = StoreJson L (mv_metadata mv)\<rparr>))"

definition store_block :: "codec \<Rightarrow> BlockData \<Rightarrow> error + proto_Block" where
  "store_block L b =
     bindE (mapE (store_move L) (blk_moves b)) (\<lambda>ms.
     Inr \<lparr>pb_hash = blk_hash b, pb_parent = blk_parent b, pb_height = blk_height b,
          pb_rngseed = blk_rngseed b, pb_metadata = StoreJson L (blk_metadata b),
          pb_moves = ms\<rparr>)"

definition Serialise :: "codec \<Rightarrow> BlockData \<Rightarrow> error + string" where
  "Serialise L b = bindE (store_block L b) (\<lambda>blk. Inr (SerializeToString L blk))"

fun load_burns :: "codec \<Rightarrow> (string \<times> string) list \<Rightarrow> (string \<times> json) list \<Rightarrow> error + (string \<times> json) list" where
  "load_burns L [] acc = Inr acc"
| "load_burns L ((k, v) # bs) acc =
     bindE (LoadJson L v) (\<lambda>j. load_burns L bs (smap_emplace k j acc))"

definition load_move :: "codec \<Rightarrow> proto_Move \<Rightarrow> error + MoveData" where
  "load_move L m =
     bindE (load_burns L (pm_burns m) []) (\<lambda>bs.
     bindE (checkE (length bs = length (pm_burns m))) (\<lambda>_.
     bindE (LoadJson L (pm_metadata m)) (\<lambda>md.
     Inr \<lparr>mv_txid = pm_txid m, mv_ns = pm_ns m, mv_name = pm_name m, mv_mv = pm_mv m,
          mv_burns = bs, mv_metadata = md\<rparr>)))"

definition Deserialise :: "codec \<Rightarrow> string \<Rightarrow> error + BlockData" where
  "Deserialise L data =
     (case ParseFromString L data of
        None \<Rightarrow> Inl Abort
      | Some blk \<Rightarrow>
          bindE (LoadJson L (pb_metadata blk)) (\<lambda>md.
          bindE (mapE (load_move L) (pb_moves blk)) (\<lambda>ms.
          Inr \<lparr>blk_hash = pb_hash blk, blk_parent = pb_parent blk, blk_height = pb_height blk,
               blk_rngseed = pb_rngseed blk, blk_metadata = md, blk_moves = ms\<rparr>)))"

text \<open>Well-formed data: the burns of a move are a \<^verbatim>\<open>std::map\<close>.\<close>

definition move_wf :: "MoveData \<Rightarrow> bool" where
  "move_wf mv \<longleftrightarrow> smap_ok (mv_burns mv)"

definition block_wf :: "BlockData \<Rightarrow> bool" where
  "block_wf b \<longleftrightarrow> list_all move_wf (blk_moves b)"

text \<open>What the code relies on for one block: the JSON values in it are read back as they were
  written, and so is the protocol-buffer message built for it.\<close>

definition move_stable :: "codec \<Rightarrow> MoveData \<Rightarrow> bool" where
  "move_stable L mv \<longleftrightarrow>
     json_stable L (mv_metadata mv) \<and> list_all (\<lambda>e. json_stable L (snd e)) (mv_burns mv)"

definition codec_ok :: "codec \<Rightarrow> BlockData \<Rightarrow> bool" where
  "codec_ok L b \<longleftrightarrow>
     json_stable L (blk_metadata b) \<and> list_all (move_stable L) (blk_moves b) \<and>
     (case store_block L b of
        Inl e \<Rightarrow> True
      | Inr p \<Rightarrow> ParseFromString L (SerializeToString L p) = Some p)"

subsection \<open>Lemmas\<close>

lemma MoveData_eq_iff: "MoveData_eq a b \<longleftrightarrow> a = b"
  by (cases a; cases b) (auto simp: MoveData_eq_def)

lemma BlockData_eq_iff: "BlockData_eq a b \<longleftrightarrow> a = b"
proof -
  have "MoveData_eq = (=)" by (simp add: MoveData_eq_iff fun_eq_iff)
  then show ?thesis
    by (cases a; cases b) (auto simp: BlockData_eq_def list_all2_eq [symmetric])
qed

text \<open>Inserting the entries of an ordered map one by one, in order, copies it.\<close>

lemma store_burns_copy:
  "smap_ok (acc @ map (apsnd (StoreJson L)) bs) \<Longrightarrow>
     store_burns L bs acc = acc @ map (apsnd (StoreJson L)) bs"
proof (induction bs arbitrary: acc)
  case (Cons e bs)
  obtain k v where e: "e = (k, v)" by (cases e)
  have ok: "smap_ok ((acc @ [(k, StoreJson L v)]) @ map (apsnd (StoreJson L)) bs)"
    using Cons.prems e by simp
  then have "smap_emplace k (StoreJson L v) acc = acc @ [(k, StoreJson L v)]"
    by (rule smap_emplace_mid)
  with Cons.IH [OF ok] e show ?case by simp
qed simp

lemma store_burns_eq:
  "smap_ok bs \<Longrightarrow> store_burns L bs [] = map (apsnd (StoreJson L)) bs"
  using store_burns_copy [of "[]" L bs] by (simp add: smap_ok_def comp_def)

lemma load_burns_copy:
  "smap_ok (acc @ bs) \<Longrightarrow> list_all (\<lambda>e. json_stable L (snd e)) bs \<Longrightarrow>
     load_burns L (map (apsnd (StoreJson L)) bs) acc = Inr (acc @ bs)"
proof (induction bs arbitrary: acc)
  case (Cons e bs)
  obtain k v where e: "e = (k, v)" by (cases e)
  have ok: "smap_ok ((acc @ [(k, v)]) @ bs)" using Cons.prems e by simp
  then have "smap_emplace k v acc = acc @ [(k, v)]" by (rule smap_emplace_mid)
  with Cons.IH [OF ok] Cons.prems e show ?case by simp
qed simp

lemma store_load_move:
  assumes "move_wf mv" "move_stable L mv"
  shows "\<exists>p. store_move L mv = Inr p \<and> load_move L p = Inr mv"
  using assms load_burns_copy [of "[]" "mv_burns mv" L]
  by (auto simp: store_move_def load_move_def move_wf_def move_stable_def store_burns_eq)

lemma store_load_moves:
  "list_all move_wf mvs \<Longrightarrow> list_all (move_stable L) mvs \<Longrightarrow>
     \<exists>ps. mapE (store_move L) mvs = Inr ps \<and> mapE (load_move L) ps = Inr mvs"
proof (induction mvs)
  case (Cons mv mvs)
  obtain p where p: "store_move L mv = Inr p" "load_move L p = Inr mv"
    using Cons.prems store_load_move by force
  obtain ps where ps: "mapE (store_move L) mvs = Inr ps" "mapE (load_move L) ps = Inr mvs"
    using Cons by auto
  from p ps have "mapE (store_move L) (mv # mvs) = Inr (p # ps)
      \<and> mapE (load_move L) (p # ps) = Inr (mv # mvs)" by simp
  then show ?case by blast
qed simp

lemma store_block_total:
  assumes "block_wf b" "list_all (move_stable L) (blk_moves b)"
  shows "\<exists>p. store_block L b = Inr p"
  using assms store_load_moves [of "blk_moves b" L]
  by (auto simp: store_block_def block_wf_def)

lemma Serialise_Deserialise:
  assumes "block_wf b" "codec_ok L b"
  shows "\<exists>d. Serialise L b = Inr d \<and> Deserialise L d = Inr b"
proof -
  obtain ps where ps: "mapE (store_move L) (blk_moves b) = Inr ps"
      "mapE (load_move L) ps = Inr (blk_moves b)"
    using assms store_load_moves by (auto simp: block_wf_def codec_ok_def)
  then show ?thesis
    using assms(2) by (auto simp: Serialise_def Deserialise_def store_block_def codec_ok_def)
qed

end
