(* ===== verification/BaseChain.thy ===== *)
theory BaseChain
  imports BlockData
begin

text \<open>
  \<^verbatim>\<open>src/basechain.hpp\<close> and \<^verbatim>\<open>src/basechain.cpp\<close>: the abstract class of the
  blockchains Xaya X can be attached to.  An object of a subclass is a record of its virtual
  methods over a state \<open>'b\<close> of its own.  The documented contract of the query methods is the
  locale \<open>base_chain\<close>: they answer from a main chain that is a function of the state.  The
  callback pointer is \<open>base_cb\<close>, with the two notification methods.
\<close>

subsection \<open>The interface\<close>

text \<open>\<^verbatim>\<open>VerifyMessage\<close> returns the recovered address through an output argument, which is an
  option here.  \<^verbatim>\<open>GetMainchainHeight\<close> is a signed 64-bit value.\<close>

record 'b BaseChain =
  bc_Start :: "('b, unit) prog"
  bc_EnablePending :: "('b, bool) prog"
  bc_GetTipHeight :: "('b, nat) prog"
  bc_GetBlockRange :: "nat \<Rightarrow> nat \<Rightarrow> ('b, BlockData list) prog"
  bc_GetMainchainHeight :: "string \<Rightarrow> ('b, int) prog"
  bc_GetMempool :: "('b, string list) prog"
  bc_VerifyMessage :: "string \<Rightarrow> string \<Rightarrow> ('b, string option) prog"
  bc_GetChain :: "('b, string) prog"
  bc_GetVersion :: "('b, nat) prog"

text \<open>The callbacks class, over the state \<open>'w\<close> of its owner.\<close>

record 'w Callbacks =
  cb_TipChanged :: "string \<Rightarrow> ('w, unit) prog"
  cb_PendingMoves :: "MoveData list \<Rightarrow> ('w, unit) prog"

record 'w base_cb =
  bc_cb :: "'w Callbacks option"

definition SetCallbacks :: "'w Callbacks option \<Rightarrow> 'w base_cb \<Rightarrow> 'w base_cb" where
  "SetCallbacks c b = b\<lparr>bc_cb := c\<rparr>"

definition TipChanged :: "'w base_cb \<Rightarrow> string \<Rightarrow> ('w, unit) prog" where
  "TipChanged b tip = (case bc_cb b of None \<Rightarrow> ret () | Some c \<Rightarrow> cb_TipChanged c tip)"

definition PendingMoves :: "'w base_cb \<Rightarrow> MoveData list \<Rightarrow> ('w, unit) prog" where
  "PendingMoves b moves = (case bc_cb b of None \<Rightarrow> ret () | Some c \<Rightarrow> cb_PendingMoves c moves)"

text \<open>The default implementations of the virtual methods that have one.\<close>

definition default_Start :: "('b, unit) prog" where
  "default_Start = ret ()"

definition default_EnablePending :: "('b, bool) prog" where
  "default_EnablePending = ret False"

subsection \<open>The contract\<close>

text \<open>The main chain as a partial function of the height, and a slice of it.\<close>

type_synonym mainchain = "nat \<Rightarrow> BlockData option"

fun block_slice :: "mainchain \<Rightarrow> nat \<Rightarrow> nat \<Rightarrow> BlockData list" where
  "block_slice v start 0 = []"
| "block_slice v start (Suc n) = (case v start of None \<Rightarrow> [] | Some b \<Rightarrow> b # block_slice v (Suc start) n)"

text \<open>Blocks in a row: each is the child of the one before it and one higher.\<close>

fun linked :: "BlockData list \<Rightarrow> bool" where
  "linked (a # b # bs) \<longleftrightarrow> blk_parent b = blk_hash a \<and> blk_height b = Suc (blk_height a) \<and> linked (b # bs)"
| "linked bs \<longleftrightarrow> True"

text \<open>A well-formed main chain: the blocks sit at their heights, are linked by parent hashes
  from the lowest known one up to the tip, and hashes are not repeated.\<close>

definition mainchain_ok :: "mainchain \<Rightarrow> nat \<Rightarrow> bool" where
  "mainchain_ok v tip \<longleftrightarrow>
     v tip \<noteq> None \<and> tip \<le> i64_max \<and>
     (\<forall>h b. v h = Some b \<longrightarrow> blk_height b = h \<and> h \<le> tip \<and> (\<forall>k. h \<le> k \<and> k \<le> tip \<longrightarrow> v k \<noteq> None)) \<and>
     (\<forall>h a b. v h = Some a \<and> v (Suc h) = Some b \<longrightarrow> blk_parent b = blk_hash a) \<and>
     (\<forall>h k a b. v h = Some a \<and> v k = Some b \<and> blk_hash a = blk_hash b \<longrightarrow> h = k)"

text \<open>The answer of \<^verbatim>\<open>GetMainchainHeight\<close>: the height of the block, or -1 when it is not on the
  main chain.\<close>

definition mainheight_ok :: "mainchain \<Rightarrow> string \<Rightarrow> int \<Rightarrow> bool" where
  "mainheight_ok v hash r \<longleftrightarrow>
     (r = -1 \<and> (\<forall>h b. v h = Some b \<longrightarrow> blk_hash b \<noteq> hash)) \<or>
     (\<exists>h b. r = int h \<and> v h = Some b \<and> blk_hash b = hash)"

text \<open>What the callers of a base chain rely on while it is reachable (\<open>ready\<close>).\<close>

locale base_chain =
  fixes bc :: "'b BaseChain" and view :: "'b \<Rightarrow> mainchain" and tip :: "'b \<Rightarrow> nat"
    and ready :: "'b \<Rightarrow> bool"
  assumes view_ok: "ready b \<Longrightarrow> mainchain_ok (view b) (tip b)"
    and GetTipHeight_law: "ready b \<Longrightarrow>
      \<exists>b'. bc_GetTipHeight bc b = (Inr (tip b), b') \<and> ready b' \<and> view b' = view b \<and> tip b' = tip b"
    and GetBlockRange_law: "ready b \<Longrightarrow> start + count \<le> i64_max \<Longrightarrow>
      \<exists>b'. bc_GetBlockRange bc start count b = (Inr (block_slice (view b) start count), b') \<and>
        ready b' \<and> view b' = view b \<and> tip b' = tip b"
    and GetMainchainHeight_law: "ready b \<Longrightarrow>
      \<exists>r b'. bc_GetMainchainHeight bc hash b = (Inr r, b') \<and> mainheight_ok (view b) hash r \<and>
        ready b' \<and> view b' = view b \<and> tip b' = tip b"
begin

text \<open>A request for the current tip returns exactly that block.\<close>

lemma tip_block:
  assumes "ready b"
  obtains t where "view b (tip b) = Some t" "blk_height t = tip b"
  using view_ok [OF assms] by (fastforce simp: mainchain_ok_def)

end

subsection \<open>Lemmas on slices\<close>

lemma mainchain_okI:
  assumes "\<exists>b. v tip = Some b" "tip \<le> i64_max"
    and "\<And>h b. v h = Some b \<Longrightarrow> blk_height b = h" "\<And>h b. v h = Some b \<Longrightarrow> h \<le> tip"
    and "\<And>h b k. v h = Some b \<Longrightarrow> h \<le> k \<Longrightarrow> k \<le> tip \<Longrightarrow> \<exists>c. v k = Some c"
    and "\<And>h a b. v h = Some a \<Longrightarrow> v (Suc h) = Some b \<Longrightarrow> blk_parent b = blk_hash a"
    and "\<And>h k a b. v h = Some a \<Longrightarrow> v k = Some b \<Longrightarrow> blk_hash a = blk_hash b \<Longrightarrow> h = k"
  shows "mainchain_ok v tip"
  unfolding mainchain_ok_def using assms by auto

lemma mainchain_okD:
  assumes "mainchain_ok v tip"
  shows "v h = Some b \<Longrightarrow> blk_height b = h" "v h = Some b \<Longrightarrow> h \<le> tip"
    "v h = Some b \<Longrightarrow> h \<le> k \<Longrightarrow> k \<le> tip \<Longrightarrow> \<exists>c. v k = Some c"
    "v h = Some b \<Longrightarrow> v (Suc h) = Some c \<Longrightarrow> blk_parent c = blk_hash b"
    "v h = Some b \<Longrightarrow> v k = Some c \<Longrightarrow> blk_hash b = blk_hash c \<Longrightarrow> h = k"
    "\<exists>c. v tip = Some c" "tip \<le> i64_max" "v (Suc tip) = None"
proof -
  show "v (Suc tip) = None" using assms by (cases "v (Suc tip)") (fastforce simp: mainchain_ok_def)+
qed (use assms in \<open>force simp: mainchain_ok_def\<close>)+

lemma slice_length_le: "length (block_slice v s n) \<le> n"
  by (induction v s n rule: block_slice.induct) (auto split: option.split)

lemma slice_nth: "i < length (block_slice v s n) \<Longrightarrow> v (s + i) = Some (block_slice v s n ! i)"
proof (induction v s n arbitrary: i rule: block_slice.induct)
  case (2 v start n)
  then show ?case by (cases i) (auto split: option.splits)
qed simp

lemma slice_full: "(\<And>i. i < n \<Longrightarrow> v (s + i) = Some (f i)) \<Longrightarrow> block_slice v s n = map f [0..<n]"
proof (induction n arbitrary: s f)
  case (Suc n)
  have "block_slice v (Suc s) n = map (f \<circ> Suc) [0..<n]"
    using Suc.prems [of "Suc i" for i] by (intro Suc.IH) simp
  with Suc.prems [of 0] show ?case by (simp add: map_upt_Suc o_def del: upt_Suc)
qed simp

lemma slice_all_iff: "length (block_slice v s n) = n \<longleftrightarrow> (\<forall>i<n. v (s + i) \<noteq> None)"
proof
  assume "length (block_slice v s n) = n"
  then show "\<forall>i<n. v (s + i) \<noteq> None" using slice_nth [of _ v s n] by auto
next
  assume *: "\<forall>i<n. v (s + i) \<noteq> None"
  have "block_slice v s n = map (\<lambda>i. the (v (s + i))) [0..<n]" using * by (intro slice_full) auto
  then show "length (block_slice v s n) = n" by simp
qed

lemma slice_in: "b \<in> set (block_slice v s n) \<Longrightarrow> \<exists>h. s \<le> h \<and> h < s + n \<and> v h = Some b"
proof -
  assume "b \<in> set (block_slice v s n)"
  then obtain i where "i < length (block_slice v s n)" "block_slice v s n ! i = b" by (auto simp: in_set_conv_nth)
  with slice_nth [of i v s n] slice_length_le [of v s n] show ?thesis
    by (intro exI [of _ "s + i"]) auto
qed

lemma slice_cong: "(\<And>h. s \<le> h \<Longrightarrow> h < s + n \<Longrightarrow> v h = w h) \<Longrightarrow> block_slice v s n = block_slice w s n"
  by (induction v s n rule: block_slice.induct) (auto split: option.split)

text \<open>On a well-formed chain a slice stops exactly at the tip.\<close>

lemma slice_length:
  assumes ok: "mainchain_ok v tip"
  shows "v s \<noteq> None \<Longrightarrow> length (block_slice v s n) = min n (Suc tip - s)"
proof (induction n arbitrary: s)
  case (Suc n)
  then obtain b where b: "v s = Some b" by auto
  have le: "s \<le> tip" using mainchain_okD(2) [OF ok b] .
  show ?case
  proof (cases "s = tip")
    case True
    have "v (Suc s) = None" using mainchain_okD(8) [OF ok] True by simp
    then have "block_slice v (Suc s) n = []" by (cases n) simp_all
    with b True show ?thesis by simp
  next
    case False
    then have "v (Suc s) \<noteq> None" using mainchain_okD(3) [OF ok b, of "Suc s"] le by auto
    from Suc.IH [OF this] b le False show ?thesis by simp
  qed
qed simp

text \<open>A slice of a well-formed chain is linked.\<close>

lemma slice_linked: "mainchain_ok v t \<Longrightarrow> linked (block_slice v s n)"
proof (induction n arbitrary: s)
  case (Suc n)
  show ?case
  proof (cases "v s")
    case (Some b)
    from Suc.IH [OF Suc.prems, of "Suc s"] Some show ?thesis
      using mainchain_okD(1,4) [OF Suc.prems] by (cases n) (auto split: option.splits)
  qed simp
qed simp

lemma linked_append:
  "linked (xs @ ys) \<longleftrightarrow> linked xs \<and> linked ys \<and>
     (xs \<noteq> [] \<and> ys \<noteq> [] \<longrightarrow> blk_parent (hd ys) = blk_hash (last xs) \<and> blk_height (hd ys) = Suc (blk_height (last xs)))"
  by (induction xs rule: linked.induct; cases ys) auto

lemma linked_heights: "linked (a # A) \<Longrightarrow> b \<in> set A \<Longrightarrow> blk_height a < blk_height b"
  by (induction "a # A" arbitrary: a A rule: linked.induct) force+

lemma linked_filter:
  assumes "linked A" "\<exists>b\<in>set A. blk_height b = Suc fh"
  shows "\<exists>A1 b A2. A = A1 @ b # A2 \<and> blk_height b = Suc fh \<and> filter (\<lambda>b. blk_height b > fh) A = b # A2 \<and> linked (b # A2)"
  using assms
proof (induction A rule: linked.induct)
  case (1 a b bs)
  show ?case
  proof (cases "blk_height a = Suc fh")
    case True
    with linked_heights [OF "1.prems"(1)] have "\<forall>x\<in>set (a # b # bs). blk_height x > fh" by fastforce
    then have "filter (\<lambda>b. blk_height b > fh) (a # b # bs) = a # b # bs" by (simp only: filter_id_conv)
    with True "1.prems"(1) show ?thesis by (metis append_Nil)
  next
    case False
    with "1.prems" have "linked (b # bs)" "\<exists>x\<in>set (b # bs). blk_height x = Suc fh" by auto
    from "1.IH" [OF this] obtain A1 c A2 where ih: "b # bs = A1 @ c # A2" "blk_height c = Suc fh"
        "filter (\<lambda>b. blk_height b > fh) (b # bs) = c # A2" "linked (c # A2)"
      by blast
    have "\<not> blk_height a > fh"
    proof
      assume "blk_height a > fh"
      with linked_heights [OF "1.prems"(1), of c] ih(1,2) have "blk_height a < Suc fh" by (metis in_set_conv_decomp)
      with \<open>blk_height a > fh\<close> show False by simp
    qed
    with ih show ?thesis by (metis append_Cons filter.simps(2))
  qed
next
  case "2_2"
  then show ?case by (auto intro!: exI [of _ "[]"])
qed auto

end
