(* ===== verification/Database.thy ===== *)
theory Database
  imports Prelude
begin

text \<open>
  \<^verbatim>\<open>src/private/database.hpp\<close> and \<^verbatim>\<open>src/database.cpp\<close>: the wrapper around an SQLite
  connection with its cache of prepared statements.  A cached statement is identified by its SQL
  text and carries the flag \<^verbatim>\<open>used\<close>; a \<^verbatim>\<open>Statement\<close> object is a handle (the text of the
  entry it refers to, or nothing).  SQLite itself is library code: what it answers is a parameter.  Of
  its state the model has what the wrapper is responsible for: the parameters that are bound, the latest
  first, and the statements that were stepped since they were last reset, on which binding is a misuse.
\<close>

datatype sq_value = SQ_NULL | SQ_INTEGER int | SQ_TEXT string | SQ_BLOB string

record Database =
  statements :: "(string \<times> bool) list"
  db_bound :: "(string \<times> int \<times> sq_value) list"
  db_active :: "string list"

type_synonym Statement = "string option"

datatype sqlite_rc = SQLITE_ROW | SQLITE_DONE | SQLITE_OTHER int

subsection \<open>Opening and direct execution\<close>

text \<open>What the library says at start-up: the versions of header and library, and whether the
  configuration and the opening of a file succeed and give a handle.\<close>

record sqlite_env =
  sq_header_version :: int
  sq_library_version :: int
  sq_multithread_ok :: bool
  sq_open_ok :: "string \<Rightarrow> bool"
  sq_open_handle :: "string \<Rightarrow> bool"

text \<open>The constructor; the state is the static flag \<^verbatim>\<open>initialised\<close>.\<close>

definition Database_new :: "sqlite_env \<Rightarrow> string \<Rightarrow> (bool, Database) prog" where
  "Database_new env file =
     thenM (bindM (getM (\<lambda>i. i)) (\<lambda>initialised.
              if initialised then ret ()
              else
                thenM (CHECK (sq_header_version env = sq_library_version env))
               (thenM (CHECK (sq_multithread_ok env))
                  (modifyM (\<lambda>_. True)))))
    (thenM (CHECK (sq_open_ok env file))
    (thenM (CHECK (sq_open_handle env file))
       (ret \<lparr>statements = [], db_bound = [], db_active = []\<rparr>)))"

text \<open>\<^verbatim>\<open>Execute\<close>: the number of result rows, each of which calls \<^verbatim>\<open>ExpectNoResult\<close>, and whether
  \<^verbatim>\<open>sqlite3_exec\<close> succeeds.\<close>

definition ExpectNoResult :: "(Database, unit) prog" where
  "ExpectNoResult = failM Abort"

definition Database_Execute :: "(string \<Rightarrow> nat \<times> bool) \<Rightarrow> string \<Rightarrow> (Database, unit) prog" where
  "Database_Execute exec sql =
     (case exec sql of (rows, ok) \<Rightarrow> thenM (if rows > 0 then ExpectNoResult else ret ()) (CHECK ok))"

definition RowsModified :: "int \<Rightarrow> (Database, nat) prog" where
  "RowsModified changes = thenM (CHECK (changes \<ge> 0)) (ret (nat changes))"

subsection \<open>The statement cache\<close>

definition CachedStatement_Acquire :: "string \<Rightarrow> (Database, unit) prog" where
  "CachedStatement_Acquire sql =
     thenM (bindM (getM statements) (\<lambda>st. CHECK (map_of st sql = Some False)))
           (modifyM (statements_update (smap_set sql True)))"

definition CachedStatement_Release :: "string \<Rightarrow> (Database, unit) prog" where
  "CachedStatement_Release sql =
     thenM (bindM (getM statements) (\<lambda>st. CHECK (map_of st sql = Some True)))
    (thenM (modifyM (statements_update (smap_set sql False)))
    (thenM (modifyM (db_bound_update (filter (\<lambda>b. fst b \<noteq> sql))))
       (modifyM (db_active_update (filter (\<lambda>a. a \<noteq> sql))))))"

text \<open>\<^verbatim>\<open>PrepareRo\<close>: reuse the cached entry or prepare and cache a new one; either way the
  entry is acquired for the new handle.\<close>

definition PrepareRo :: "(string \<Rightarrow> bool) \<Rightarrow> string \<Rightarrow> (Database, Statement) prog" where
  "PrepareRo can_prepare sql =
     bindM (getM statements) (\<lambda>st.
       case map_of st sql of
         Some used \<Rightarrow> thenM (CachedStatement_Acquire sql) (ret (Some sql))
       | None \<Rightarrow>
           thenM (CHECK (can_prepare sql))
             (thenM (modifyM (statements_update (smap_emplace sql False)))
                (thenM (CachedStatement_Acquire sql) (ret (Some sql)))))"

definition Prepare :: "(string \<Rightarrow> bool) \<Rightarrow> string \<Rightarrow> (Database, Statement) prog" where
  "Prepare can_prepare sql = PrepareRo can_prepare sql"

definition Statement_Clear :: "Statement \<Rightarrow> (Database, Statement) prog" where
  "Statement_Clear st =
     (case st of
        None \<Rightarrow> ret None
      | Some sql \<Rightarrow> thenM (CachedStatement_Release sql) (ret None))"

text \<open>Move assignment: the target is cleared and takes over the entry of the source.  The pair
  of the new target and the new source is returned.\<close>

definition Statement_move_assign :: "Statement \<Rightarrow> Statement \<Rightarrow> (Database, Statement \<times> Statement) prog" where
  "Statement_move_assign this src = bindM (Statement_Clear this) (\<lambda>_. ret (src, None))"

definition Statement_move_construct :: "Statement \<Rightarrow> (Database, Statement \<times> Statement) prog" where
  "Statement_move_construct src = Statement_move_assign None src"

definition Statement_destroy :: "Statement \<Rightarrow> (Database, unit) prog" where
  "Statement_destroy st = thenM (Statement_Clear st) (ret ())"

definition Statement_deref :: "Statement \<Rightarrow> (Database, string) prog" where
  "Statement_deref st = (case st of None \<Rightarrow> failM Abort | Some sql \<Rightarrow> ret sql)"

definition Statement_Step :: "(string \<Rightarrow> sqlite_rc) \<Rightarrow> Statement \<Rightarrow> (Database, bool) prog" where
  "Statement_Step step st =
     bindM (Statement_deref st) (\<lambda>sql.
     thenM (modifyM (db_active_update (\<lambda>a. sql # a)))
       (case step sql of
          SQLITE_ROW \<Rightarrow> ret True
        | SQLITE_DONE \<Rightarrow> ret False
        | SQLITE_OTHER rc \<Rightarrow> failM Abort))"

definition Statement_Execute :: "(string \<Rightarrow> sqlite_rc) \<Rightarrow> Statement \<Rightarrow> (Database, unit) prog" where
  "Statement_Execute step st = bindM (Statement_Step step st) (\<lambda>row. CHECK (\<not> row))"

text \<open>Closing: the destructors of the cache entries, and \<^verbatim>\<open>sqlite3_close\<close>, which fails while there are
  prepared statements.\<close>

definition CachedStatement_destroy :: "string \<times> bool \<Rightarrow> (Database, unit) prog" where
  "CachedStatement_destroy e = CHECK (\<not> snd e)"

definition Database_close :: "(Database, unit) prog" where
  "Database_close =
     bindM (getM statements) (\<lambda>st.
       thenM (forM st CachedStatement_destroy)
      (thenM (modifyM (statements_update (\<lambda>_. [])))
         (bindM (getM statements) (\<lambda>st. CHECK (st = [])))))"

subsection \<open>Typed access to parameters and columns\<close>

text \<open>SQLite integers are signed 64-bit values: an unsigned parameter has to fit, and an unsigned
  column has to be non-negative.  The state is that of the caller.\<close>

definition Bind_uint64 :: "nat \<Rightarrow> ('s, int) prog" where
  "Bind_uint64 val = thenM (CHECK (val \<le> i64_max)) (ret (int val))"

definition Get_uint64 :: "int \<Rightarrow> ('s, nat) prog" where
  "Get_uint64 val = thenM (CHECK (val \<ge> 0)) (ret (nat val))"

text \<open>Parameters of a statement.  \<open>bind_ok\<close>: the index is that of a parameter and the value is not too large.\<close>

definition Bind_value :: "(string \<Rightarrow> int \<Rightarrow> bool) \<Rightarrow> Statement \<Rightarrow> int \<Rightarrow> sq_value \<Rightarrow> (Database, unit) prog" where
  "Bind_value bind_ok st ind v =
     bindM (Statement_deref st) (\<lambda>sql.
     bindM (getM db_active) (\<lambda>act.
     thenM (CHECK (sql \<notin> set act \<and> bind_ok sql ind))
       (modifyM (db_bound_update (\<lambda>b. (sql, ind, v) # b)))))"

definition BindNull :: "(string \<Rightarrow> int \<Rightarrow> bool) \<Rightarrow> Statement \<Rightarrow> int \<Rightarrow> (Database, unit) prog" where
  "BindNull bind_ok st ind = Bind_value bind_ok st ind SQ_NULL"

definition Bind_int64 :: "(string \<Rightarrow> int \<Rightarrow> bool) \<Rightarrow> Statement \<Rightarrow> int \<Rightarrow> int \<Rightarrow> (Database, unit) prog" where
  "Bind_int64 bind_ok st ind val = Bind_value bind_ok st ind (SQ_INTEGER val)"

definition Statement_Bind_uint64 :: "(string \<Rightarrow> int \<Rightarrow> bool) \<Rightarrow> Statement \<Rightarrow> int \<Rightarrow> nat \<Rightarrow> (Database, unit) prog" where
  "Statement_Bind_uint64 bind_ok st ind val = bindM (Bind_uint64 val) (\<lambda>v. Bind_int64 bind_ok st ind v)"

definition Bind_string :: "(string \<Rightarrow> int \<Rightarrow> bool) \<Rightarrow> Statement \<Rightarrow> int \<Rightarrow> string \<Rightarrow> (Database, unit) prog" where
  "Bind_string bind_ok st ind val = Bind_value bind_ok st ind (SQ_TEXT val)"

definition BindBlob :: "(string \<Rightarrow> int \<Rightarrow> bool) \<Rightarrow> Statement \<Rightarrow> int \<Rightarrow> string \<Rightarrow> (Database, unit) prog" where
  "BindBlob bind_ok st ind val = Bind_value bind_ok st ind (SQ_BLOB val)"

text \<open>Columns of the current row, as the functions \<^verbatim>\<open>sqlite3_column_...\<close> return them; the pointers to text
  and data may be null.\<close>

record sq_column =
  col_null :: bool
  col_int64 :: int
  col_text :: "string option"
  col_blob :: "string option"
  col_bytes :: nat

definition IsNull :: "(string \<Rightarrow> int \<Rightarrow> sq_column) \<Rightarrow> Statement \<Rightarrow> int \<Rightarrow> (Database, bool) prog" where
  "IsNull row st ind = bindM (Statement_deref st) (\<lambda>sql. ret (col_null (row sql ind)))"

definition Get_int64 :: "(string \<Rightarrow> int \<Rightarrow> sq_column) \<Rightarrow> Statement \<Rightarrow> int \<Rightarrow> (Database, int) prog" where
  "Get_int64 row st ind = bindM (Statement_deref st) (\<lambda>sql. ret (col_int64 (row sql ind)))"

definition Statement_Get_uint64 :: "(string \<Rightarrow> int \<Rightarrow> sq_column) \<Rightarrow> Statement \<Rightarrow> int \<Rightarrow> (Database, nat) prog" where
  "Statement_Get_uint64 row st ind = bindM (Get_int64 row st ind) Get_uint64"

definition bytes_at :: "string option \<Rightarrow> nat \<Rightarrow> (Database, string) prog" where
  "bytes_at ptr len =
     (if len = 0 then ret [] else case ptr of None \<Rightarrow> failM Abort | Some str \<Rightarrow> ret (take len str))"

definition Get_string :: "(string \<Rightarrow> int \<Rightarrow> sq_column) \<Rightarrow> Statement \<Rightarrow> int \<Rightarrow> (Database, string) prog" where
  "Get_string row st ind =
     bindM (Statement_deref st) (\<lambda>sql. bytes_at (col_text (row sql ind)) (col_bytes (row sql ind)))"

definition GetBlob :: "(string \<Rightarrow> int \<Rightarrow> sq_column) \<Rightarrow> Statement \<Rightarrow> int \<Rightarrow> (Database, string) prog" where
  "GetBlob row st ind =
     bindM (Statement_deref st) (\<lambda>sql. bytes_at (col_blob (row sql ind)) (col_bytes (row sql ind)))"

subsection \<open>The invariant of the cache\<close>

text \<open>An entry is marked as used exactly when one live handle refers to it, and only statements of live
  handles have parameters or are being stepped.\<close>

definition live_entries :: "Statement list \<Rightarrow> string list" where
  "live_entries hs = List.map_filter id hs"

definition Database_inv :: "Statement list \<Rightarrow> Database \<Rightarrow> bool" where
  "Database_inv hs db \<longleftrightarrow>
     smap_ok (statements db) \<and> distinct (live_entries hs) \<and>
     (\<forall>sql. map_of (statements db) sql = Some True \<longleftrightarrow> sql \<in> set (live_entries hs)) \<and>
     fst ` set (db_bound db) \<subseteq> set (live_entries hs) \<and> set (db_active db) \<subseteq> set (live_entries hs)"

lemma live_entries_simps [simp]:
  "live_entries [] = []"
  "live_entries (None # hs) = live_entries hs"
  "live_entries (Some sql # hs) = sql # live_entries hs"
  by (simp_all add: live_entries_def List.map_filter_def)

lemma Bind_Get_uint64:
  "val \<le> i64_max \<Longrightarrow> bindM (Bind_uint64 val) Get_uint64 s = (Inr val, s)"
  by (simp add: Bind_uint64_def Get_uint64_def)

lemma Bind_uint64_ok [simp]: "val \<le> i64_max \<Longrightarrow> Bind_uint64 val s = (Inr (int val), s)"
  by (simp add: Bind_uint64_def)

lemma Bind_uint64_abort: "i64_max < val \<Longrightarrow> Bind_uint64 val s = (Inl Abort, s)"
  by (simp add: Bind_uint64_def)

lemma Bind_uint64_state [simp]: "snd (Bind_uint64 val s) = s"
  by (cases "val \<le> i64_max") (simp_all add: Bind_uint64_def)

lemma Acquire_eq:
  "CachedStatement_Acquire sql db =
     (if map_of (statements db) sql = Some False
      then (Inr (), db\<lparr>statements := smap_set sql True (statements db)\<rparr>)
      else (Inl Abort, db))"
  by (simp add: CachedStatement_Acquire_def)

lemma PrepareRo_eq:
  "PrepareRo can sql db =
     (case map_of (statements db) sql of
        Some True \<Rightarrow> (Inl Abort, db)
      | Some False \<Rightarrow> (Inr (Some sql), db\<lparr>statements := smap_set sql True (statements db)\<rparr>)
      | None \<Rightarrow>
          if can sql
          then (Inr (Some sql),
                db\<lparr>statements := smap_set sql True (smap_emplace sql False (statements db))\<rparr>)
          else (Inl Abort, db))"
proof (cases "map_of (statements db) sql")
  case None
  then show ?thesis by (cases "can sql") (simp_all add: PrepareRo_def Acquire_eq)
next
  case (Some used)
  then show ?thesis by (cases used) (simp_all add: PrepareRo_def Acquire_eq)
qed

lemma Database_inv_used:
  "Database_inv hs db \<Longrightarrow> map_of (statements db) sql = Some True \<longleftrightarrow> sql \<in> set (live_entries hs)"
  by (simp add: Database_inv_def)

lemma Database_inv_acquired:
  assumes "Database_inv hs db" and "sql \<notin> set (live_entries hs)"
    and "smap_ok st" and "\<And>s. s \<noteq> sql \<Longrightarrow> map_of st s = map_of (statements db) s"
  shows "Database_inv (Some sql # hs) (db\<lparr>statements := smap_set sql True st\<rparr>)"
  using assms by (auto simp: Database_inv_def split: if_splits)

lemma PrepareRo_inv [inv_intros]:
  assumes inv: "Database_inv hs db" and r: "PrepareRo can sql db = (Inr h, db')"
  shows "h = Some sql \<and> Database_inv (h # hs) db'"
proof -
  have free: "sql \<notin> set (live_entries hs)"
    using r Database_inv_used [OF inv, of sql]
    by (auto simp: PrepareRo_eq split: option.splits bool.splits)
  have ok: "smap_ok (statements db)" using inv by (simp add: Database_inv_def)
  show ?thesis
    using r Database_inv_acquired [OF inv free, of "statements db"]
      Database_inv_acquired [OF inv free, of "smap_emplace sql False (statements db)"] ok
    by (auto simp: PrepareRo_eq split: option.splits bool.splits if_splits)
qed

lemma PrepareRo_in_use:
  assumes "Database_inv hs db" and "sql \<in> set (live_entries hs)"
  shows "PrepareRo can sql db = (Inl Abort, db)"
  using Database_inv_used [OF assms(1), of sql] assms(2) by (simp add: PrepareRo_eq)

lemma PrepareRo_free:
  assumes "Database_inv hs db" and "sql \<notin> set (live_entries hs)" and "can sql"
  shows "\<exists>db'. PrepareRo can sql db = (Inr (Some sql), db')"
  using Database_inv_used [OF assms(1), of sql] assms(2,3)
  by (auto simp: PrepareRo_eq split: option.split bool.split)

lemma Statement_destroy_inv [inv_intros]:
  assumes "Database_inv (h # hs) db"
  shows "\<exists>db'. Statement_destroy h db = (Inr (), db') \<and> Database_inv hs db'"
proof (cases h)
  case None
  with assms show ?thesis
    by (simp add: Statement_destroy_def Statement_Clear_def Database_inv_def)
next
  case (Some sql)
  with assms show ?thesis
    by (auto simp: Statement_destroy_def Statement_Clear_def CachedStatement_Release_def Database_inv_def)
qed

lemma Statement_move_assign_inv [inv_intros]:
  assumes "Database_inv (this # src # hs) db"
  shows "\<exists>db'. Statement_move_assign this src db = (Inr (src, None), db') \<and>
           Database_inv (src # None # hs) db'"
proof (cases this)
  case None
  with assms show ?thesis
    by (cases src) (simp_all add: Statement_move_assign_def Statement_Clear_def Database_inv_def)
next
  case (Some sql)
  with assms show ?thesis
    by (cases src)
      (auto simp: Statement_move_assign_def Statement_Clear_def CachedStatement_Release_def Database_inv_def)
qed

lemma forM_CHECK: "(\<forall>x\<in>set xs. P x) \<Longrightarrow> forM xs (\<lambda>x. CHECK (P x)) s = (Inr (), s)"
  by (induction xs) auto

lemma Database_close_ok:
  assumes "Database_inv hs db" and "live_entries hs = []"
  shows "Database_close db = (Inr (), db\<lparr>statements := []\<rparr>)"
proof -
  have "\<not> snd e" if "e \<in> set (statements db)" for e
  proof -
    have "map_of (statements db) (fst e) = Some (snd e)"
      using assms(1) that by (simp add: Database_inv_def smap_ok_distinct)
    with assms show ?thesis by (auto simp: Database_inv_def)
  qed
  then have "forM (statements db) CachedStatement_destroy db = (Inr (), db)"
    unfolding CachedStatement_destroy_def by (intro forM_CHECK) blast
  then show ?thesis by (simp add: Database_close_def)
qed

lemma Statements_destroyed:
  "Database_inv (hs @ rest) db \<Longrightarrow> \<exists>db'. forM hs Statement_destroy db = (Inr (), db') \<and> Database_inv rest db'"
proof (induction hs arbitrary: db)
  case (Cons h hs)
  then obtain db1 where "Statement_destroy h db = (Inr (), db1)" "Database_inv (hs @ rest) db1"
    using Statement_destroy_inv [of h "hs @ rest" db] by auto
  with Cons.IH [of db1] show ?case by auto
qed simp

subsection \<open>The use of a database\<close>

text \<open>The states of a database with its live handles, in any order.\<close>

inductive db_reachable :: "Statement list \<Rightarrow> Database \<Rightarrow> bool" where
  opened: "Database_new env file i = (Inr db, i') \<Longrightarrow> db_reachable [] db"
| prepared: "db_reachable hs db \<Longrightarrow> PrepareRo can sql db = (Inr h, db') \<Longrightarrow> db_reachable (h # hs) db'"
| bound: "db_reachable hs db \<Longrightarrow> st \<in> set hs \<Longrightarrow> Bind_value bind_ok st ind v db = (Inr (), db') \<Longrightarrow> db_reachable hs db'"
| stepped: "db_reachable hs db \<Longrightarrow> st \<in> set hs \<Longrightarrow> Statement_Step step st db = (Inr row, db') \<Longrightarrow> db_reachable hs db'"
| moved: "db_reachable (this # src # hs) db \<Longrightarrow> Statement_move_assign this src db = (Inr (a, b), db') \<Longrightarrow>
    db_reachable (a # b # hs) db'"
| destroyed: "db_reachable (h # hs) db \<Longrightarrow> Statement_destroy h db = (Inr (), db') \<Longrightarrow> db_reachable hs db'"
| reordered: "db_reachable (hs @ h # hs') db \<Longrightarrow> db_reachable (h # hs @ hs') db"

lemma live_entries_filter: "live_entries hs = map the (filter (\<lambda>h. h \<noteq> None) hs)"
  by (induction hs) (auto simp: live_entries_def List.map_filter_def)

lemma live_entries_member: "Some sql \<in> set hs \<longleftrightarrow> sql \<in> set (live_entries hs)"
  unfolding live_entries_filter by force

lemma Database_inv_reorder:
  assumes "Database_inv (hs @ h # hs') db"
  shows "Database_inv (h # hs @ hs') db"
proof -
  have "live_entries (xs @ ys) = live_entries xs @ live_entries ys" for xs ys by (simp add: live_entries_filter)
  with assms show ?thesis by (cases h) (simp_all add: Database_inv_def)
qed

lemma Bind_value_eq:
  "Bind_value bind_ok (Some sql) ind v db =
     (if sql \<notin> set (db_active db) \<and> bind_ok sql ind then (Inr (), db\<lparr>db_bound := (sql, ind, v) # db_bound db\<rparr>) else (Inl Abort, db))"
  by (simp add: Bind_value_def Statement_deref_def)

lemma Bind_value_inv [inv_intros]:
  assumes "Database_inv hs db" "st \<in> set hs" "Bind_value bind_ok st ind v db = (Inr (), db')"
  shows "Database_inv hs db'"
proof (cases st)
  case None
  with assms(3) show ?thesis by (simp add: Bind_value_def Statement_deref_def)
next
  case (Some sql)
  then have "db' = db\<lparr>db_bound := (sql, ind, v) # db_bound db\<rparr>" using assms(3) by (auto simp: Bind_value_eq split: if_splits)
  with assms Some show ?thesis by (simp add: Database_inv_def live_entries_member)
qed

lemma Statement_Step_inv [inv_intros]:
  assumes "Database_inv hs db" "st \<in> set hs" "Statement_Step step st db = (Inr row, db')"
  shows "Database_inv hs db'"
proof (cases st)
  case None
  with assms(3) show ?thesis by (simp add: Statement_Step_def Statement_deref_def)
next
  case (Some sql)
  then have "db' = db\<lparr>db_active := sql # db_active db\<rparr>"
    using assms(3) by (cases "step sql") (auto simp: Statement_Step_def Statement_deref_def)
  with assms Some show ?thesis by (simp add: Database_inv_def live_entries_member)
qed

lemma db_reachable_inv: "db_reachable hs db \<Longrightarrow> Database_inv hs db"
proof (induction rule: db_reachable.induct)
  case (opened env f i db i')
  then show ?case by (auto simp: Database_new_def prog_Inr Database_inv_def)
next
  case (prepared hs db can sql h db')
  then show ?case using PrepareRo_inv by blast
next
  case (moved this src hs db a b db')
  then show ?case using Statement_move_assign_inv [of this src hs db] by auto
next
  case (destroyed h hs db db')
  then show ?case using Statement_destroy_inv [of h hs db] by auto
next
  case (reordered hs h hs' db)
  then show ?case by (rule_tac Database_inv_reorder)
qed (use Bind_value_inv Statement_Step_inv in blast)+

text \<open>A statement that is handed out is clean: nothing is bound, and it is not being stepped.\<close>

definition clean :: "string \<Rightarrow> Database \<Rightarrow> bool" where
  "clean sql db \<longleftrightarrow> sql \<notin> fst ` set (db_bound db) \<and> sql \<notin> set (db_active db)"

lemma PrepareRo_clean:
  assumes inv: "Database_inv hs db" and sql: "sql \<notin> set (live_entries hs)" and can: "can sql"
  shows "\<exists>db'. PrepareRo can sql db = (Inr (Some sql), db') \<and> Database_inv (Some sql # hs) db' \<and> clean sql db'"
proof -
  obtain db' where run: "PrepareRo can sql db = (Inr (Some sql), db')" using PrepareRo_free [where can = can, OF inv sql can] by blast
  then have "db_bound db' = db_bound db" "db_active db' = db_active db"
    by (auto simp: PrepareRo_eq split: option.splits bool.splits if_splits)
  moreover have "clean sql db" using inv sql by (auto simp: clean_def Database_inv_def)
  ultimately have "clean sql db'" by (simp add: clean_def)
  with run PrepareRo_inv [OF inv run] show ?thesis by simp
qed

end
