(* ===== verification/Chainstate.thy ===== *)
theory Chainstate
  imports BlockData Database
begin

text \<open>
  \<^verbatim>\<open>src/private/chainstate.hpp\<close> and \<^verbatim>\<open>src/chainstate.cpp\<close>: the local database of known
  blocks.  The state is the content of the two SQL tables plus the stack of open savepoints.
  Each SQL text of the source is the function on the table that it denotes: \<open>WHERE\<close> filters,
  \<open>ORDER BY\<close> sorts, \<open>UPDATE\<close> maps, and a statement that breaks the primary key or the
  uniqueness of \<^verbatim>\<open>(branch, height)\<close> makes \<^verbatim>\<open>Statement::Step\<close> abort.  The columns
  \<^verbatim>\<open>height\<close> and \<^verbatim>\<open>branch\<close> are only ever written through \<^verbatim>\<open>Bind<uint64_t>\<close>, so they
  are natural numbers here; the bound that \<^verbatim>\<open>Bind\<close> checks is part of the operations.
\<close>

record dbrow =
  r_hash :: string
  r_parent :: string
  r_height :: nat
  r_branch :: nat
  r_data :: string

type_synonym sql_tables = "dbrow list \<times> (string \<times> string) list"

record chainstate =
  blocks :: "dbrow list"
  variables :: "(string \<times> string) list"
  savepoints :: "sql_tables list"

subsection \<open>SQL statements\<close>

datatype sql_order = ASC | DESC

definition order_by :: "sql_order \<Rightarrow> (dbrow \<Rightarrow> nat) \<Rightarrow> dbrow list \<Rightarrow> dbrow list" where
  "order_by ord key rows = (case ord of ASC \<Rightarrow> sort_key key rows | DESC \<Rightarrow> rev (sort_key key rows))"

text \<open>The constraints of the schema.\<close>

definition schema_ok :: "dbrow list \<Rightarrow> bool" where
  "schema_ok rows \<longleftrightarrow>
     distinct (map r_hash rows) \<and> distinct (map (\<lambda>r. (r_branch r, r_height r)) rows)"

definition sql_insert :: "dbrow \<Rightarrow> (chainstate, unit) prog" where
  "sql_insert r =
     bindM (getM blocks) (\<lambda>rows.
       if schema_ok (rows @ [r]) then modifyM (blocks_update (\<lambda>_. rows @ [r])) else failM Abort)"

definition sql_set_branch :: "nat \<Rightarrow> (dbrow \<Rightarrow> bool) \<Rightarrow> (chainstate, unit) prog" where
  "sql_set_branch b cond =
     bindM (getM blocks) (\<lambda>rows.
       let rows' = map (\<lambda>r. if cond r then r\<lparr>r_branch := b\<rparr> else r) rows in
       if schema_ok rows' then modifyM (blocks_update (\<lambda>_. rows')) else failM Abort)"

text \<open>The pattern of most queries: no row, or one row and then
  \<^verbatim>\<open>CHECK (!stmt.Step ())\<close>.\<close>

definition query1 :: "(chainstate \<Rightarrow> 'a list) \<Rightarrow> (chainstate, 'a option) prog" where
  "query1 q =
     bindM (getM q) (\<lambda>res.
       case res of [] \<Rightarrow> ret None | x # others \<Rightarrow> thenM (CHECK (others = [])) (ret (Some x)))"

definition select_hash :: "string \<Rightarrow> chainstate \<Rightarrow> dbrow list" where
  "select_hash h cs = filter (\<lambda>r. r_hash r = h) (blocks cs)"

subsection \<open>Update batches\<close>

definition UpdateBatch_begin :: "(chainstate, unit) prog" where
  "UpdateBatch_begin =
     modifyM (\<lambda>cs. cs\<lparr>savepoints := (blocks cs, variables cs) # savepoints cs\<rparr>)"

definition sql_release :: "(chainstate, unit) prog" where
  "sql_release =
     bindM (getM savepoints) (\<lambda>sps.
       case sps of [] \<Rightarrow> failM Abort | sp # rest \<Rightarrow> modifyM (savepoints_update (\<lambda>_. rest)))"

definition sql_rollback_to :: "(chainstate, unit) prog" where
  "sql_rollback_to =
     bindM (getM savepoints) (\<lambda>sps.
       case sps of
         [] \<Rightarrow> failM Abort
       | sp # rest \<Rightarrow> modifyM (\<lambda>cs. cs\<lparr>blocks := fst sp, variables := snd sp\<rparr>))"

definition UpdateBatch_Commit :: "(chainstate, unit) prog" where
  "UpdateBatch_Commit = sql_release"

definition UpdateBatch_revert :: "(chainstate, unit) prog" where
  "UpdateBatch_revert = thenM sql_rollback_to sql_release"

text \<open>The life of an \<^verbatim>\<open>UpdateBatch\<close> object around the code it protects: committed when the code
  is done, reverted by the destructor when an exception passes through.\<close>

definition withUpdateBatch :: "(chainstate, 'a) prog \<Rightarrow> (chainstate, 'a) prog" where
  "withUpdateBatch m =
     thenM UpdateBatch_begin
       (bindM (catchM m (\<lambda>e. thenM UpdateBatch_revert (failM (Throw e))))
          (\<lambda>a. thenM UpdateBatch_Commit (ret a)))"

subsection \<open>Helper functions\<close>

definition GetMainchainHeight :: "sql_order \<Rightarrow> chainstate \<Rightarrow> int" where
  "GetMainchainHeight ord cs =
     (case order_by ord r_height (filter (\<lambda>r. r_branch r = 0) (blocks cs)) of
        [] \<Rightarrow> -1
      | r # _ \<Rightarrow> int (r_height r))"

definition GetFreeBranchNumber :: "chainstate \<Rightarrow> nat" where
  "GetFreeBranchNumber cs =
     (case order_by DESC r_branch (blocks cs) of [] \<Rightarrow> 1 | r # _ \<Rightarrow> r_branch r + 1)"

definition InsertBlock :: "codec \<Rightarrow> BlockData \<Rightarrow> nat \<Rightarrow> (chainstate, unit) prog" where
  "InsertBlock L blk branch =
     thenM (Bind_uint64 (blk_height blk))
    (thenM (Bind_uint64 branch)
    (bindM (liftE (Serialise L blk)) (\<lambda>d.
       sql_insert \<lparr>r_hash = blk_hash blk, r_parent = blk_parent blk, r_height = blk_height blk,
                   r_branch = branch, r_data = d\<rparr>)))"

subsection \<open>GetForkBranch\<close>

text \<open>The inner loop: each row is deserialised and compared with its columns.\<close>

definition read_row :: "codec \<Rightarrow> dbrow \<Rightarrow> error + BlockData" where
  "read_row L r =
     bindE (Deserialise L (r_data r)) (\<lambda>blk.
     bindE (checkE (blk_hash blk = r_hash r)) (\<lambda>_.
     bindE (checkE (blk_parent blk = r_parent r)) (\<lambda>_.
     bindE (checkE (blk_height blk = r_height r)) (\<lambda>_. Inr blk))))"

definition select_branch_below :: "nat \<Rightarrow> nat \<Rightarrow> chainstate \<Rightarrow> dbrow list" where
  "select_branch_below b h cs =
     order_by DESC r_height (filter (\<lambda>r. r_branch r = b \<and> r_height r \<le> h) (blocks cs))"

text \<open>The outer loop.  It stops when it meets the main chain or an unknown block; a database
  with a cycle of parents would keep it running, which is the value \<open>Diverges\<close>.\<close>

fun fork_branch_loop ::
  "codec \<Rightarrow> nat \<Rightarrow> BlockData list \<Rightarrow> string \<Rightarrow> (chainstate, bool \<times> BlockData list) prog" where
  "fork_branch_loop L 0 branch curHash = failM Diverges"
| "fork_branch_loop L (Suc n) branch curHash =
     bindM (query1 (select_hash curHash)) (\<lambda>res.
       case res of
         None \<Rightarrow> ret (branch \<noteq> [], branch)
       | Some cur \<Rightarrow>
           if r_branch cur = 0 then ret (True, branch)
           else
             bindM (getM (select_branch_below (r_branch cur) (r_height cur))) (\<lambda>rows.
             bindM (liftE (mapE (read_row L) rows)) (\<lambda>blks.
               let branch' = branch @ blks in
               if branch' = [] then failM Undefined
               else fork_branch_loop L n branch' (blk_parent (last branch')))))"

definition GetForkBranch :: "codec \<Rightarrow> string \<Rightarrow> (chainstate, bool \<times> BlockData list) prog" where
  "GetForkBranch L hash =
     bindM (getM (length \<circ> blocks)) (\<lambda>n. fork_branch_loop L (n + 1) [] hash)"

subsection \<open>MarkAsTip\<close>

definition MarkAsTip :: "codec \<Rightarrow> BlockData \<Rightarrow> (chainstate, unit) prog" where
  "MarkAsTip L blk =
     bindM (query1 (select_hash (blk_hash blk))) (\<lambda>res.
       case res of
         None \<Rightarrow> failM Abort
       | Some old \<Rightarrow>
           if r_branch old = 0 then
             bindM (getM GetFreeBranchNumber) (\<lambda>new.
             thenM (Bind_uint64 new)
            (thenM (Bind_uint64 (blk_height blk))
               (sql_set_branch new (\<lambda>r. r_branch r = 0 \<and> r_height r > blk_height blk))))
           else
             bindM (GetForkBranch L (blk_hash blk)) (\<lambda>(ok, branch).
             thenM (CHECK ok)
            (thenM (CHECK (branch \<noteq> []))
            (bindM (getM GetFreeBranchNumber) (\<lambda>new.
             thenM (Bind_uint64 new)
            (thenM (Bind_uint64 (blk_height (last branch)))
            (thenM (sql_set_branch new
                      (\<lambda>r. r_branch r = 0 \<and> r_height r \<ge> blk_height (last branch)))
               (forM branch (\<lambda>d. sql_set_branch 0 (\<lambda>r. r_hash r = blk_hash d)))))))))
     )"

subsection \<open>The methods of Chainstate\<close>

definition Chainstate_new :: chainstate where
  "Chainstate_new = \<lparr>blocks = [], variables = [], savepoints = []\<rparr>"

definition SetChain :: "string \<Rightarrow> (chainstate, unit) prog" where
  "SetChain chain =
     bindM (query1 (\<lambda>cs. filter (\<lambda>e. fst e = ''chain'') (variables cs))) (\<lambda>res.
       case res of
         Some e \<Rightarrow> CHECK (chain = snd e)
       | None \<Rightarrow> modifyM (variables_update (\<lambda>vs. vs @ [(''chain'', chain)])))"

definition GetTipHeight :: "chainstate \<Rightarrow> int" where
  "GetTipHeight cs = GetMainchainHeight DESC cs"

definition GetLowestUnprunedHeight :: "chainstate \<Rightarrow> int" where
  "GetLowestUnprunedHeight cs = GetMainchainHeight ASC cs"

text \<open>The methods with a boolean result and an output argument return an option.\<close>

definition GetHashForHeight :: "nat \<Rightarrow> (chainstate, string option) prog" where
  "GetHashForHeight height =
     thenM (Bind_uint64 height)
       (query1 (\<lambda>cs. map r_hash (filter (\<lambda>r. r_branch r = 0 \<and> r_height r = height) (blocks cs))))"

definition GetHeightForHash :: "string \<Rightarrow> (chainstate, nat option) prog" where
  "GetHeightForHash hash = query1 (\<lambda>cs. map r_height (select_hash hash cs))"

definition Prune :: "nat \<Rightarrow> (chainstate, unit) prog" where
  "Prune untilHeight =
     withUpdateBatch
       (thenM (Bind_uint64 untilHeight)
          (modifyM (\<lambda>cs. cs\<lparr>blocks :=
             filter (\<lambda>r. \<not> (r_branch r = 0 \<and> r_height r \<le> untilHeight)) (blocks cs)\<rparr>)))"

definition ImportTip :: "codec \<Rightarrow> BlockData \<Rightarrow> (chainstate, unit) prog" where
  "ImportTip L tip =
     bindM (getM GetTipHeight) (\<lambda>oldTip.
     thenM (CHECK (oldTip \<noteq> -1 \<longrightarrow> oldTip < int (blk_height tip)))
    (thenM (withUpdateBatch
       (bindM (GetHeightForHash (blk_hash tip)) (\<lambda>known.
        thenM (if known \<noteq> None then MarkAsTip L tip else InsertBlock L tip 0)
          (if blk_height tip > 0 then Prune (blk_height tip - 1) else ret ()))))
    (thenM (bindM (getM GetLowestUnprunedHeight) (\<lambda>h. CHECK (h = int (blk_height tip))))
       (bindM (getM GetTipHeight) (\<lambda>h. CHECK (h = int (blk_height tip)))))))"

definition select_tip :: "chainstate \<Rightarrow> string list" where
  "select_tip cs =
     map r_hash (take 1 (order_by DESC r_height (filter (\<lambda>r. r_branch r = 0) (blocks cs))))"

text \<open>\<^verbatim>\<open>SetTip\<close> returns its boolean result and the output argument \<^verbatim>\<open>oldTip\<close>.\<close>

definition SetTip :: "codec \<Rightarrow> BlockData \<Rightarrow> (chainstate, bool \<times> string) prog" where
  "SetTip L blk =
     bindM (query1 select_tip) (\<lambda>tip.
       case tip of
         None \<Rightarrow> ret (False, '''')
       | Some oldTip \<Rightarrow>
           bindM (query1 (select_hash (blk_hash blk))) (\<lambda>known.
             case known of
               Some r \<Rightarrow>
                 thenM (CHECK (blk_parent blk = r_parent r))
                (thenM (CHECK (blk_height blk = r_height r))
                (thenM (withUpdateBatch (MarkAsTip L blk))
                   (ret (True, oldTip))))
             | None \<Rightarrow>
                 bindM (query1 (select_hash (blk_parent blk))) (\<lambda>par.
                   case par of
                     None \<Rightarrow> ret (False, oldTip)
                   | Some p \<Rightarrow>
                       thenM (CHECK (blk_height blk = r_height p + 1))
                      (thenM (withUpdateBatch
                         (bindM (getM GetFreeBranchNumber) (\<lambda>new.
                          thenM (InsertBlock L blk new) (MarkAsTip L blk))))
                         (ret (True, oldTip))))))"

subsection \<open>SanityCheck\<close>

text \<open>The loop over the rows of one branch, with \<^verbatim>\<open>lastHeight\<close> and \<^verbatim>\<open>expectedParent\<close>.\<close>

fun sanity_rows :: "codec \<Rightarrow> dbrow list \<Rightarrow> int \<Rightarrow> string \<Rightarrow> error + (int \<times> string)" where
  "sanity_rows L [] lastHeight expectedParent = Inr (lastHeight, expectedParent)"
| "sanity_rows L (r # rows) lastHeight expectedParent =
     bindE (read_row L r) (\<lambda>blk.
     bindE (checkE (lastHeight \<noteq> -1 \<longrightarrow>
              int (r_height r) = lastHeight - 1 \<and> r_hash r = expectedParent)) (\<lambda>_.
     sanity_rows L rows (int (r_height r)) (r_parent r)))"

definition sanity_branch :: "codec \<Rightarrow> nat \<Rightarrow> (chainstate, unit) prog" where
  "sanity_branch L branch =
     (if branch = 0 then ret ()
      else
        bindM (getM (\<lambda>cs. order_by DESC r_height (filter (\<lambda>r. r_branch r = branch) (blocks cs)))) (\<lambda>rows.
        bindM (liftE (sanity_rows L rows (-1) '''')) (\<lambda>(lastHeight, expectedParent).
        bindM (query1 (select_hash expectedParent)) (\<lambda>res.
          case res of
            None \<Rightarrow> bindM (getM GetLowestUnprunedHeight) (\<lambda>low. CHECK (lastHeight \<le> low))
          | Some p \<Rightarrow>
              thenM (CHECK (r_branch p \<noteq> branch)) (CHECK (int (r_height p) = lastHeight - 1))))))"

definition SanityCheck :: "codec \<Rightarrow> (chainstate, unit) prog" where
  "SanityCheck L =
     bindM (getM blocks) (\<lambda>rows.
       if rows = [] then ret ()
       else
         let branches = remdups (map r_branch rows) in
         thenM (forM branches (sanity_branch L)) (CHECK (0 \<in> set branches)))"

end
