(* ===== verification/ChainstateFork.thy ===== *)
theory ChainstateFork
  imports Chainstate
begin

text \<open>
  The invariant of the block table and the correctness of the read operations of
  \<^verbatim>\<open>src/chainstate.cpp\<close>.  The reference for \<^verbatim>\<open>GetForkBranch\<close> is \<open>side_path\<close>: follow
  the parent hashes one block at a time until the main chain, or an unknown block, is met.  The
  code instead reads whole branches with one query each; the two agree on every database that
  satisfies the invariant, and the loop ends.
\<close>

subsection \<open>The invariant\<close>

text \<open>The stored data of a row deserialises and agrees with its columns.\<close>

definition row_ok :: "codec \<Rightarrow> dbrow \<Rightarrow> bool" where
  "row_ok L r \<longleftrightarrow> (\<exists>b. read_row L r = Inr b)"

definition row_block :: "codec \<Rightarrow> dbrow \<Rightarrow> BlockData" where
  "row_block L r = projr (read_row L r)"

text \<open>Heights follow the parent relation.\<close>

definition heights_linked :: "dbrow list \<Rightarrow> bool" where
  "heights_linked rows \<longleftrightarrow>
     (\<forall>r\<in>set rows. \<forall>p\<in>set rows. r_parent r = r_hash p \<longrightarrow> r_height r = Suc (r_height p))"

text \<open>The rows of one branch form a segment without gaps: all but the lowest have their parent
  on the same branch.\<close>

definition branches_contiguous :: "dbrow list \<Rightarrow> bool" where
  "branches_contiguous rows \<longleftrightarrow>
     (\<forall>r\<in>set rows. \<forall>q\<in>set rows. r_branch q = r_branch r \<longrightarrow> r_height q < r_height r \<longrightarrow>
        (\<exists>p\<in>set rows. r_branch p = r_branch r \<and> r_hash p = r_parent r))"

text \<open>A block off the main chain has a known parent, unless that parent was pruned.\<close>

definition branches_rooted :: "dbrow list \<Rightarrow> bool" where
  "branches_rooted rows \<longleftrightarrow>
     (\<forall>r\<in>set rows. r_branch r \<noteq> 0 \<longrightarrow>
        (\<exists>p\<in>set rows. r_hash p = r_parent r) \<or>
        (\<forall>m\<in>set rows. r_branch m = 0 \<longrightarrow> r_height r \<le> r_height m))"

definition has_main :: "dbrow list \<Rightarrow> bool" where
  "has_main rows \<longleftrightarrow> rows = [] \<or> (\<exists>r\<in>set rows. r_branch r = 0)"

text \<open>Every height went through \<^verbatim>\<open>Bind<uint64_t>\<close>.\<close>

definition heights_bounded :: "dbrow list \<Rightarrow> bool" where
  "heights_bounded rows \<longleftrightarrow> (\<forall>r\<in>set rows. r_height r \<le> i64_max)"

definition rows_inv :: "codec \<Rightarrow> dbrow list \<Rightarrow> bool" where
  "rows_inv L rows \<longleftrightarrow>
     schema_ok rows \<and> (\<forall>r\<in>set rows. row_ok L r) \<and> heights_linked rows \<and>
     branches_contiguous rows \<and> branches_rooted rows \<and> has_main rows \<and> heights_bounded rows"

abbreviation chain_inv :: "codec \<Rightarrow> chainstate \<Rightarrow> bool" where
  "chain_inv L cs \<equiv> rows_inv L (blocks cs)"

text \<open>The row with a given hash.\<close>

definition row_at :: "dbrow list \<Rightarrow> string \<Rightarrow> dbrow option" where
  "row_at rows h = find (\<lambda>r. r_hash r = h) rows"

text \<open>The reference definition of the fork branch.\<close>

inductive side_path :: "dbrow list \<Rightarrow> string \<Rightarrow> dbrow list \<Rightarrow> bool" for rows where
  stop: "\<forall>r\<in>set rows. r_hash r = h \<longrightarrow> r_branch r = 0 \<Longrightarrow> side_path rows h []"
| step: "r \<in> set rows \<Longrightarrow> r_branch r \<noteq> 0 \<Longrightarrow> side_path rows (r_parent r) rs \<Longrightarrow>
     side_path rows (r_hash r) (r # rs)"

inductive_cases side_path_NilE: "side_path rows h []"
inductive_cases side_path_ConsE: "side_path rows h (r # rs)"

subsection \<open>Queries\<close>

lemma schema_distinct: "schema_ok rows \<Longrightarrow> distinct (map r_hash rows)"
  by (simp add: schema_ok_def)

lemma schema_hash_unique:
  "schema_ok rows \<Longrightarrow> a \<in> set rows \<Longrightarrow> b \<in> set rows \<Longrightarrow> r_hash a = r_hash b \<Longrightarrow> a = b"
  by (auto simp: schema_ok_def distinct_map inj_on_def)

lemma schema_slot_unique:
  "schema_ok rows \<Longrightarrow> a \<in> set rows \<Longrightarrow> b \<in> set rows \<Longrightarrow>
     r_branch a = r_branch b \<Longrightarrow> r_height a = r_height b \<Longrightarrow> a = b"
  by (auto simp: schema_ok_def distinct_map inj_on_def)

lemma row_at_None: "row_at rows h = None \<longleftrightarrow> (\<forall>r\<in>set rows. r_hash r \<noteq> h)"
  by (auto simp: row_at_def find_None_iff)

lemma row_at_SomeD: "row_at rows h = Some r \<Longrightarrow> r \<in> set rows \<and> r_hash r = h"
  by (auto simp: row_at_def find_Some_iff)

lemma row_at_SomeI:
  "schema_ok rows \<Longrightarrow> r \<in> set rows \<Longrightarrow> row_at rows (r_hash r) = Some r"
  by (cases "row_at rows (r_hash r)")
    (auto simp: row_at_None dest: row_at_SomeD schema_hash_unique)

lemma filter_unique:
  assumes "distinct xs" and "\<And>x y. x \<in> set xs \<Longrightarrow> y \<in> set xs \<Longrightarrow> P x \<Longrightarrow> P y \<Longrightarrow> x = y"
    and "x \<in> set xs" "P x"
  shows "filter P xs = [x]"
proof -
  have set1: "set (filter P xs) = {x}" using assms by auto
  have "length (filter P xs) = card (set (filter P xs))"
    using assms(1) by (intro distinct_card [symmetric] distinct_filter)
  then have "length (filter P xs) = Suc 0" by (simp only: set1 card.insert) simp
  then obtain y where "filter P xs = [y]" by (auto simp: length_Suc_conv)
  with set1 show ?thesis by simp
qed

lemma schema_rows_distinct: "schema_ok rows \<Longrightarrow> distinct rows"
  by (auto simp: schema_ok_def distinct_map)

lemma query1_Nil [simp]: "q cs = [] \<Longrightarrow> query1 q cs = (Inr None, cs)"
  by (simp add: query1_def)

lemma query1_single [simp]: "q cs = [x] \<Longrightarrow> query1 q cs = (Inr (Some x), cs)"
  by (simp add: query1_def)

lemma query1_state: "snd (query1 q cs) = cs"
proof (cases "q cs")
  case Nil
  then show ?thesis by simp
next
  case (Cons x xs)
  then show ?thesis by (cases "xs = []") (simp_all add: query1_def)
qed

lemma select_hash_eq:
  "schema_ok (blocks cs) \<Longrightarrow>
     select_hash h cs = (case row_at (blocks cs) h of None \<Rightarrow> [] | Some r \<Rightarrow> [r])"
proof (cases "row_at (blocks cs) h")
  case None
  then have "filter (\<lambda>r. r_hash r = h) (blocks cs) = []"
    by (simp add: row_at_None filter_empty_conv)
  with None show ?thesis by (simp add: select_hash_def)
next
  case (Some r)
  assume ok: "schema_ok (blocks cs)"
  have "filter (\<lambda>x. r_hash x = h) (blocks cs) = [r]"
    using row_at_SomeD [OF Some] ok
    by (intro filter_unique) (auto simp: schema_rows_distinct dest: schema_hash_unique)
  with Some show ?thesis by (simp add: select_hash_def)
qed

lemma query_hash [simp]:
  "schema_ok (blocks cs) \<Longrightarrow> query1 (select_hash h) cs = (Inr (row_at (blocks cs) h), cs)"
  by (cases "row_at (blocks cs) h") (simp_all add: select_hash_eq)

lemma GetHeightForHash_eq:
  "schema_ok (blocks cs) \<Longrightarrow>
     GetHeightForHash h cs = (Inr (map_option r_height (row_at (blocks cs) h)), cs)"
  by (cases "row_at (blocks cs) h") (simp_all add: GetHeightForHash_def select_hash_eq)

lemma GetHashForHeight_None:
  assumes "h \<le> i64_max" and "\<And>r. r \<in> set (blocks cs) \<Longrightarrow> r_branch r = 0 \<Longrightarrow> r_height r \<noteq> h"
  shows "GetHashForHeight h cs = (Inr None, cs)"
proof -
  have "filter (\<lambda>r. r_branch r = 0 \<and> r_height r = h) (blocks cs) = []"
    using assms(2) by (auto simp: filter_empty_conv)
  with assms(1) show ?thesis by (simp add: GetHashForHeight_def)
qed

lemma GetHashForHeight_Some:
  assumes "schema_ok (blocks cs)" and "h \<le> i64_max"
    and "r \<in> set (blocks cs)" "r_branch r = 0" "r_height r = h"
  shows "GetHashForHeight h cs = (Inr (Some (r_hash r)), cs)"
proof -
  have "filter (\<lambda>x. r_branch x = 0 \<and> r_height x = h) (blocks cs) = [r]"
    using assms by (intro filter_unique) (auto simp: schema_rows_distinct intro: schema_slot_unique)
  with assms(2) show ?thesis by (simp add: GetHashForHeight_def)
qed

subsection \<open>Ordered results\<close>

lemma set_order_by [simp]: "set (order_by ord k rows) = set rows"
  by (cases ord) (simp_all add: order_by_def)

lemma order_by_DESC_hd: "order_by DESC k rows = x # xs \<Longrightarrow> y \<in> set rows \<Longrightarrow> k y \<le> k x"
proof -
  assume a: "order_by DESC k rows = x # xs" and y: "y \<in> set rows"
  then have "rev (x # xs) = sort_key k rows" by (auto simp: order_by_def)
  then have "sorted (map k (rev (x # xs)))" by simp
  moreover have "y \<in> set (x # xs)" using y a by (metis set_order_by)
  ultimately show ?thesis by (auto simp: sorted_append)
qed

lemma order_by_ASC_hd: "order_by ASC k rows = x # xs \<Longrightarrow> y \<in> set rows \<Longrightarrow> k x \<le> k y"
proof -
  assume a: "order_by ASC k rows = x # xs" and y: "y \<in> set rows"
  then have "sorted (map k (x # xs))" by (metis order_by_def sorted_sort_key sql_order.case(1))
  moreover have "y \<in> set (x # xs)" using y a by (metis set_order_by)
  ultimately show ?thesis by auto
qed

lemma order_by_Nil [simp]: "order_by ord k rows = [] \<longleftrightarrow> rows = []"
  by (metis set_empty set_order_by)

lemma order_by_in: "order_by ord k rows = x # xs \<Longrightarrow> x \<in> set rows"
  by (metis list.set_intros(1) set_order_by)

lemma free_branch_above: "r \<in> set (blocks cs) \<Longrightarrow> r_branch r < GetFreeBranchNumber cs"
  by (auto simp: GetFreeBranchNumber_def less_Suc_eq_le split: list.split dest: order_by_DESC_hd)

lemma free_branch_pos [simp]: "0 < GetFreeBranchNumber cs"
  by (auto simp: GetFreeBranchNumber_def split: list.split)

text \<open>The tip and the lowest block of the main chain.\<close>

lemma GetTipHeight_eqI:
  assumes "t \<in> set (blocks cs)" "r_branch t = 0"
    and "\<And>m. m \<in> set (blocks cs) \<Longrightarrow> r_branch m = 0 \<Longrightarrow> r_height m \<le> r_height t"
  shows "GetTipHeight cs = int (r_height t)"
proof (cases "order_by DESC r_height (filter (\<lambda>r. r_branch r = 0) (blocks cs))")
  case Nil
  with assms show ?thesis by (auto simp: filter_empty_conv)
next
  case (Cons x xs)
  have "r_height t \<le> r_height x" using order_by_DESC_hd [OF Cons, of t] assms by simp
  moreover have "r_height x \<le> r_height t" using order_by_in [OF Cons] assms by simp
  ultimately show ?thesis using Cons by (simp add: GetTipHeight_def GetMainchainHeight_def)
qed

lemma GetLowest_eqI:
  assumes "t \<in> set (blocks cs)" "r_branch t = 0"
    and "\<And>m. m \<in> set (blocks cs) \<Longrightarrow> r_branch m = 0 \<Longrightarrow> r_height t \<le> r_height m"
  shows "GetLowestUnprunedHeight cs = int (r_height t)"
proof (cases "order_by ASC r_height (filter (\<lambda>r. r_branch r = 0) (blocks cs))")
  case Nil
  with assms show ?thesis by (auto simp: filter_empty_conv)
next
  case (Cons x xs)
  have "r_height x \<le> r_height t" using order_by_ASC_hd [OF Cons, of t] assms by simp
  moreover have "r_height t \<le> r_height x" using order_by_in [OF Cons] assms by simp
  ultimately show ?thesis using Cons by (simp add: GetLowestUnprunedHeight_def GetMainchainHeight_def)
qed

lemma GetLowest_le:
  assumes "m \<in> set (blocks cs)" "r_branch m = 0"
  shows "GetLowestUnprunedHeight cs \<le> int (r_height m)"
proof (cases "order_by ASC r_height (filter (\<lambda>r. r_branch r = 0) (blocks cs))")
  case Nil
  with assms show ?thesis by (auto simp: filter_empty_conv)
next
  case (Cons x xs)
  then show ?thesis
    using order_by_ASC_hd [OF Cons, of m] assms
    by (simp add: GetLowestUnprunedHeight_def GetMainchainHeight_def)
qed

lemma GetLowest_obtain:
  assumes "m \<in> set (blocks cs)" "r_branch m = 0"
  obtains l where "l \<in> set (blocks cs)" "r_branch l = 0"
    "GetLowestUnprunedHeight cs = int (r_height l)"
proof (cases "order_by ASC r_height (filter (\<lambda>r. r_branch r = 0) (blocks cs))")
  case Nil
  with assms show ?thesis by (auto simp: filter_empty_conv)
next
  case (Cons x xs)
  then show ?thesis
    using that [of x] order_by_in [OF Cons]
    by (simp add: GetLowestUnprunedHeight_def GetMainchainHeight_def)
qed

lemma GetTip_obtain:
  assumes "m \<in> set (blocks cs)" "r_branch m = 0"
  obtains t where "t \<in> set (blocks cs)" "r_branch t = 0" "GetTipHeight cs = int (r_height t)"
    "\<And>x. x \<in> set (blocks cs) \<Longrightarrow> r_branch x = 0 \<Longrightarrow> r_height x \<le> r_height t"
    "select_tip cs = [r_hash t]"
proof (cases "order_by DESC r_height (filter (\<lambda>r. r_branch r = 0) (blocks cs))")
  case Nil
  with assms show ?thesis by (auto simp: filter_empty_conv)
next
  case (Cons x xs)
  then show ?thesis
    using that [of x] order_by_in [OF Cons] order_by_DESC_hd [OF Cons]
    by (simp add: GetTipHeight_def GetMainchainHeight_def select_tip_def)
qed

lemma no_main_heights:
  assumes "\<And>r. r \<in> set (blocks cs) \<Longrightarrow> r_branch r \<noteq> 0"
  shows "GetTipHeight cs = -1" "GetLowestUnprunedHeight cs = -1" "select_tip cs = []"
proof -
  have "filter (\<lambda>r. r_branch r = 0) (blocks cs) = []" using assms by (simp add: filter_empty_conv)
  then show "GetTipHeight cs = -1" "GetLowestUnprunedHeight cs = -1" "select_tip cs = []"
    by (simp_all add: GetTipHeight_def GetLowestUnprunedHeight_def GetMainchainHeight_def
        select_tip_def order_by_def split: sql_order.split)
qed

subsection \<open>Reading a row\<close>

lemma read_row_ok:
  assumes "row_ok L r"
  shows "read_row L r = Inr (row_block L r)"
    "blk_hash (row_block L r) = r_hash r" "blk_parent (row_block L r) = r_parent r"
    "blk_height (row_block L r) = r_height r"
  using assms by (auto simp: row_ok_def row_block_def read_row_def bindE_eq_Inr checkE_eq_Inr)

lemma row_ok_set_branch [simp]: "row_ok L (r\<lparr>r_branch := b\<rparr>) \<longleftrightarrow> row_ok L r"
  by (simp add: row_ok_def read_row_def)

lemma row_block_set_branch [simp]: "row_block L (r\<lparr>r_branch := b\<rparr>) = row_block L r"
  by (simp add: row_block_def read_row_def)

subsection \<open>The reference walk\<close>

lemma side_path_subset: "side_path rows h rs \<Longrightarrow> set rs \<subseteq> set rows"
  by (induction rule: side_path.induct) auto

lemma side_path_side: "side_path rows h rs \<Longrightarrow> r \<in> set rs \<Longrightarrow> r_branch r \<noteq> 0"
  by (induction rule: side_path.induct) auto

lemma side_path_hd: "side_path rows h (r # rs) \<Longrightarrow> r_hash r = h"
  by (auto elim: side_path_ConsE)

lemma side_path_Nil_iff:
  "side_path rows h rs \<Longrightarrow> rs = [] \<longleftrightarrow> (\<forall>r\<in>set rows. r_hash r = h \<longrightarrow> r_branch r = 0)"
  by (induction rule: side_path.induct) auto

lemma side_path_det:
  assumes "schema_ok rows"
  shows "side_path rows h rs \<Longrightarrow> side_path rows h rs' \<Longrightarrow> rs' = rs"
proof (induction arbitrary: rs' rule: side_path.induct)
  case (stop h)
  from side_path_Nil_iff [OF stop.prems] stop.hyps show ?case by simp
next
  case (step r rs)
  have "rs' \<noteq> []" using side_path_Nil_iff [OF step.prems] step.hyps by auto
  then obtain q qs where rs': "rs' = q # qs" by (cases rs') auto
  with step.prems have q: "q \<in> set rows" "r_hash q = r_hash r" "side_path rows (r_parent q) qs"
    by (auto elim: side_path_ConsE)
  have "q = r" using schema_hash_unique [OF assms q(1) step.hyps(1) q(2)] .
  with q(3) step.IH rs' show ?case by simp
qed

lemma side_path_exists:
  assumes "heights_linked rows"
  shows "\<exists>rs. side_path rows h rs"
proof -
  have "\<exists>rs. side_path rows (r_hash r) rs" if "r \<in> set rows" "r_branch r \<noteq> 0" for r
    using that
  proof (induction "r_height r" arbitrary: r rule: less_induct)
    case less
    have "\<exists>rs. side_path rows (r_parent r) rs"
    proof (cases "\<exists>p\<in>set rows. r_hash p = r_parent r \<and> r_branch p \<noteq> 0")
      case True
      then obtain p where p: "p \<in> set rows" "r_hash p = r_parent r" "r_branch p \<noteq> 0" by blast
      then have "r_height p < r_height r"
        using assms less.prems by (auto simp: heights_linked_def)
      from less.hyps [OF this p(1,3)] p(2) show ?thesis by simp
    next
      case False
      then show ?thesis by (blast intro: side_path.stop)
    qed
    with less.prems show ?case by (blast intro: side_path.step)
  qed
  then show ?thesis by (metis side_path.stop)
qed

text \<open>Heights fall strictly along the walk, so it meets no block twice and is no longer than
  the table.\<close>

lemma side_path_heights:
  assumes "heights_linked rows"
  shows "side_path rows h rs \<Longrightarrow> sorted_wrt (\<lambda>a b. r_height b < r_height a) rs"
proof (induction rule: side_path.induct)
  case (step a rs)
  have "r_height b < r_height a" if "b \<in> set rs" for b
  proof (cases rs)
    case Nil
    with that show ?thesis by simp
  next
    case (Cons c rs')
    have c: "c \<in> set rows" "r_hash c = r_parent a"
      using step.hyps Cons by (auto dest: side_path_subset side_path_hd)
    then have "r_height c < r_height a" using assms step.hyps by (auto simp: heights_linked_def)
    with step.IH Cons that show ?thesis by auto
  qed
  with step.IH show ?case by simp
qed simp

lemma side_path_last_min:
  assumes "heights_linked rows" "side_path rows h rs" "r \<in> set rs"
  shows "r_height (last rs) \<le> r_height r"
proof -
  have "rs = butlast rs @ [last rs]" using assms(3) by (cases rs) auto
  with side_path_heights [OF assms(1,2)] assms(3) show ?thesis
    by (metis (mono_tags, lifting) in_set_conv_decomp less_imp_le order_refl rotate1.simps(2)
        set_ConsD set_rotate1 sorted_wrt_append list.set_intros(1))
qed

lemma side_path_distinct:
  assumes "heights_linked rows" "side_path rows h rs"
  shows "distinct rs" "inj_on r_height (set rs)"
proof -
  have s: "sorted_wrt (\<lambda>a b. r_height b < r_height a) rs" using assms by (rule side_path_heights)
  then have "distinct (map r_height rs)" by (induction rs) auto
  then show "distinct rs" "inj_on r_height (set rs)" by (simp_all add: distinct_map)
qed

lemma side_path_length:
  assumes "schema_ok rows" "heights_linked rows" "side_path rows h rs"
  shows "length rs \<le> length rows"
proof -
  have "length rs = card (set rs)" using side_path_distinct [OF assms(2,3)] by (simp add: distinct_card)
  also have "\<dots> \<le> card (set rows)" using side_path_subset [OF assms(3)] by (intro card_mono) auto
  finally show ?thesis using card_length le_trans by blast
qed

lemma side_path_parent:
  "side_path rows h rs \<Longrightarrow> r \<in> set rs \<Longrightarrow>
     (\<exists>p\<in>set rs. r_hash p = r_parent r) \<or>
     (r = last rs \<and> (\<forall>p\<in>set rows. r_hash p = r_parent r \<longrightarrow> r_branch p = 0))"
proof (induction rule: side_path.induct)
  case (step a rs)
  show ?case
  proof (cases "r = a")
    case True
    show ?thesis
    proof (cases rs)
      case Nil
      with step.hyps(3) True show ?thesis by (auto elim: side_path_NilE)
    next
      case (Cons b rs')
      with step.hyps(3) True show ?thesis by (auto dest: side_path_hd)
    qed
  next
    case False
    with step show ?thesis by auto
  qed
qed simp

lemma heights_linkedD:
  "heights_linked rows \<Longrightarrow> r \<in> set rows \<Longrightarrow> p \<in> set rows \<Longrightarrow> r_hash p = r_parent r \<Longrightarrow>
     r_height r = Suc (r_height p)"
  by (auto simp: heights_linked_def)

lemma branches_contiguousD:
  "branches_contiguous rows \<Longrightarrow> r \<in> set rows \<Longrightarrow> q \<in> set rows \<Longrightarrow> r_branch q = r_branch r \<Longrightarrow>
     r_height q < r_height r \<Longrightarrow> \<exists>p\<in>set rows. r_branch p = r_branch r \<and> r_hash p = r_parent r"
  by (auto simp: branches_contiguous_def)

text \<open>The walk takes every block of a branch below the point where it enters the branch.\<close>

lemma side_path_closed:
  assumes "schema_ok rows" "heights_linked rows" "branches_contiguous rows" "side_path rows h rs"
  shows "r \<in> set rs \<Longrightarrow> q \<in> set rows \<Longrightarrow> r_branch q = r_branch r \<Longrightarrow> r_height q < r_height r \<Longrightarrow>
           q \<in> set rs"
proof (induction "r_height r" arbitrary: r rule: less_induct)
  case less
  have r: "r \<in> set rows" "r_branch r \<noteq> 0"
    using less.prems assms(4) side_path_subset side_path_side by blast+
  obtain p where p: "p \<in> set rows" "r_branch p = r_branch r" "r_hash p = r_parent r"
    using branches_contiguousD [OF assms(3) r(1) less.prems(2-4)] by blast
  have h: "r_height r = Suc (r_height p)" using heights_linkedD [OF assms(2) r(1) p(1,3)] .
  have "p \<in> set rs"
    using side_path_parent [OF assms(4) less.prems(1)] p r side_path_subset [OF assms(4)]
    by (metis assms(1) schema_hash_unique subsetD)
  show ?case
  proof (cases "r_height q = r_height p")
    case True
    then have "q = p" using schema_slot_unique [OF assms(1) less.prems(2) p(1)] less.prems p by simp
    with \<open>p \<in> set rs\<close> show ?thesis by simp
  next
    case False
    then have "r_height q < r_height p" using less.prems h by simp
    with less.hyps [of p] h \<open>p \<in> set rs\<close> less.prems p show ?thesis by simp
  qed
qed

subsection \<open>GetForkBranch\<close>

text \<open>Removing the row with the highest key from an ordered query.\<close>

lemma order_by_DESC_Cons:
  assumes "schema_ok rows" "a \<in> set rows" "P a" "\<And>x. P x \<Longrightarrow> r_branch x = r_branch a"
    and "\<And>x. x \<in> set rows \<Longrightarrow> P x \<longleftrightarrow> x = a \<or> Q x"
    and "\<And>x. x \<in> set rows \<Longrightarrow> Q x \<Longrightarrow> r_height x < r_height a"
  shows "order_by DESC r_height (filter P rows) = a # order_by DESC r_height (filter Q rows)"
proof -
  have inj: "inj_on r_height (set (filter P rows))"
    using assms(1,4) by (auto simp: inj_on_def intro: schema_slot_unique)
  have sub: "set (filter Q rows) \<subseteq> set (filter P rows)" using assms(5) by auto
  have d: "distinct rows" using assms(1) by (rule schema_rows_distinct)
  have dP: "distinct (map r_height (filter P rows))"
    using inj d by (simp add: distinct_map)
  have dQ: "distinct (map r_height (filter Q rows))"
    using inj_on_subset [OF inj sub] d by (simp add: distinct_map)
  have "sort_key r_height (filter P rows) = sort_key r_height (filter Q rows) @ [a]"
  proof (rule sort_key_eqI [OF dP])
    show "sorted (map r_height (sort_key r_height (filter Q rows) @ [a]))"
      using assms(6) by (auto simp: sorted_append less_imp_le)
    have "distinct (map r_height (sort_key r_height (filter Q rows)))"
      using dQ by (rule sort_key_distinct)
    then show "distinct (map r_height (sort_key r_height (filter Q rows) @ [a]))"
      using assms(6) by fastforce
    show "set (sort_key r_height (filter Q rows) @ [a]) = set (filter P rows)"
      using assms(2,3,5) by auto
  qed
  then show ?thesis by (simp add: order_by_def)
qed

text \<open>One query of the code covers an initial part of the reference walk.\<close>

lemma branch_query_prefix:
  assumes "schema_ok (blocks cs)" "heights_linked (blocks cs)" "branches_contiguous (blocks cs)"
  shows "a \<in> set (blocks cs) \<Longrightarrow> r_branch a \<noteq> 0 \<Longrightarrow> side_path (blocks cs) (r_hash a) rs \<Longrightarrow>
     \<exists>seg rs'. select_branch_below (r_branch a) (r_height a) cs = seg \<and> seg \<noteq> [] \<and> rs = seg @ rs' \<and>
       side_path (blocks cs) (r_parent (last seg)) rs'"
proof (induction "r_height a" arbitrary: a rs rule: less_induct)
  case less
  let ?rows = "blocks cs"
  let ?b = "r_branch a"
  obtain rs1 where rs: "rs = a # rs1" and rs1: "side_path ?rows (r_parent a) rs1"
  proof -
    have "rs \<noteq> []" using side_path_Nil_iff [OF less.prems(3)] less.prems(1,2) by auto
    then obtain q qs where q: "rs = q # qs" by (cases rs) auto
    with less.prems(3) have "q \<in> set ?rows" "r_hash q = r_hash a" "side_path ?rows (r_parent q) qs"
      by (auto elim: side_path_ConsE)
    with q that show thesis using schema_hash_unique [OF assms(1)] less.prems(1) by blast
  qed
  show ?case
  proof (cases "\<exists>q\<in>set ?rows. r_branch q = ?b \<and> r_height q < r_height a")
    case True
    then obtain p where p: "p \<in> set ?rows" "r_branch p = ?b" "r_hash p = r_parent a"
      using branches_contiguousD [OF assms(3) less.prems(1)] by blast
    have h: "r_height a = Suc (r_height p)" using heights_linkedD [OF assms(2) less.prems(1) p(1,3)] .
    have seg: "select_branch_below ?b (r_height a) cs = a # select_branch_below ?b (r_height p) cs"
      unfolding select_branch_below_def
    proof (rule order_by_DESC_Cons [OF assms(1) less.prems(1)])
      fix x assume x: "x \<in> set ?rows"
      show "(r_branch x = ?b \<and> r_height x \<le> r_height a) \<longleftrightarrow>
              x = a \<or> (r_branch x = ?b \<and> r_height x \<le> r_height p)"
        using schema_slot_unique [OF assms(1) x less.prems(1)] h by (auto simp: le_Suc_eq)
    qed (use h in auto)
    obtain seg' rs' where "select_branch_below ?b (r_height p) cs = seg'" "seg' \<noteq> []"
      "rs1 = seg' @ rs'" "side_path ?rows (r_parent (last seg')) rs'"
      using less.hyps [of p rs1] h p rs1 less.prems(2) by auto
    with seg rs show ?thesis by auto
  next
    case False
    have "select_branch_below ?b (r_height a) cs = [a]"
    proof -
      have "filter (\<lambda>r. r_branch r = ?b \<and> r_height r \<le> r_height a) ?rows = [a]"
        using False less.prems(1) schema_slot_unique [OF assms(1)]
        by (intro filter_unique) (auto simp: schema_rows_distinct [OF assms(1)] le_less)
      then show ?thesis by (simp add: select_branch_below_def order_by_def)
    qed
    with rs rs1 show ?thesis by auto
  qed
qed

lemma read_rows: "\<forall>r\<in>set rs. row_ok L r \<Longrightarrow> mapE (read_row L) rs = Inr (map (row_block L) rs)"
  by (rule mapE_Inr) (simp add: read_row_ok)

lemma fork_branch_loop_eq:
  assumes "rows_inv L (blocks cs)"
  shows "side_path (blocks cs) h rs \<Longrightarrow> length rs < n \<Longrightarrow> rs' = map (row_block L) rs \<Longrightarrow>
     fork_branch_loop L n acc h cs =
       (Inr (acc @ rs' \<noteq> [] \<or> row_at (blocks cs) h \<noteq> None, acc @ rs'), cs)"
proof (induction n arbitrary: acc h rs rs')
  case (Suc n)
  have ok: "schema_ok (blocks cs)" "heights_linked (blocks cs)" "branches_contiguous (blocks cs)"
    using assms by (simp_all add: rows_inv_def)
  show ?case
  proof (cases "row_at (blocks cs) h")
    case None
    then have "rs = []" using side_path_Nil_iff [OF Suc.prems(1)] by (auto simp: row_at_None)
    with None ok Suc.prems show ?thesis by simp
  next
    case (Some a)
    have a: "a \<in> set (blocks cs)" "r_hash a = h" using row_at_SomeD [OF Some] by auto
    show ?thesis
    proof (cases "r_branch a = 0")
      case True
      then have "rs = []"
        using side_path_Nil_iff [OF Suc.prems(1)] a schema_hash_unique [OF ok(1)] by metis
      with True Some ok Suc.prems show ?thesis by simp
    next
      case False
      obtain seg rs1 where seg: "select_branch_below (r_branch a) (r_height a) cs = seg" "seg \<noteq> []"
        "rs = seg @ rs1" "side_path (blocks cs) (r_parent (last seg)) rs1"
        using branch_query_prefix [OF ok a(1) False] Suc.prems(1) a(2) by blast
      have seg_ok: "\<forall>r\<in>set seg. row_ok L r"
        using seg(3) side_path_subset [OF Suc.prems(1)] assms by (auto simp: rows_inv_def)
      have last: "blk_parent (last (acc @ map (row_block L) seg)) = r_parent (last seg)"
        using seg(2) seg_ok by (simp add: last_map read_row_ok)
      have "length rs1 < n" using Suc.prems(2) seg(2,3) by (cases seg) auto
      note IH = Suc.IH [OF seg(4) this refl, of "acc @ map (row_block L) seg"]
      from False Some ok seg seg_ok last IH Suc.prems(3) show ?thesis
        by (simp add: Let_def read_rows)
    qed
  qed
qed simp

lemma GetForkBranch_eq:
  assumes "chain_inv L cs" and "side_path (blocks cs) h rs"
  shows "GetForkBranch L h cs =
     (Inr (row_at (blocks cs) h \<noteq> None, map (row_block L) rs), cs)"
proof -
  have len: "length rs < length (blocks cs) + 1"
    using assms side_path_length [of "blocks cs" h rs] by (simp add: rows_inv_def)
  have "rs = [] \<or> row_at (blocks cs) h \<noteq> None"
    using side_path_Nil_iff [OF assms(2)] by (auto simp: row_at_None)
  with fork_branch_loop_eq [OF assms len refl, of "[]"]
  show ?thesis by (auto simp: GetForkBranch_def)
qed

end
