(* ===== verification/ChainstateTip.thy ===== *)
theory ChainstateTip
  imports ChainstateFork
begin

text \<open>
  The write operations of \<^verbatim>\<open>src/chainstate.cpp\<close> keep the invariant and do what they promise.
  All reorganisations of the table have one shape: the blocks of a set become the main chain, and
  the main-chain blocks from a fork height on move to a fresh branch (\<open>rebranch\<close>).
\<close>

subsection \<open>Moving blocks between branches\<close>

definition rebranch :: "nat \<Rightarrow> nat \<Rightarrow> string set \<Rightarrow> dbrow \<Rightarrow> dbrow" where
  "rebranch new hk S r =
     (if r_hash r \<in> S then r\<lparr>r_branch := 0\<rparr>
      else if r_branch r = 0 \<and> hk \<le> r_height r then r\<lparr>r_branch := new\<rparr>
      else r)"

text \<open>When such a move is legitimate: the branch number is unused, the blocks that join the main
  chain are the lower parts of their branches, form a chain from the fork height up and attach to
  the main chain, and the fork height is not below the stored main chain.\<close>

definition reorg_ok :: "dbrow list \<Rightarrow> nat \<Rightarrow> nat \<Rightarrow> string set \<Rightarrow> bool" where
  "reorg_ok rows new hk S \<longleftrightarrow>
     0 < new \<and> (\<forall>r\<in>set rows. r_branch r < new) \<and>
     (\<forall>r\<in>set rows. r_hash r \<in> S \<longrightarrow> r_branch r \<noteq> 0 \<and> hk \<le> r_height r) \<and>
     (\<forall>r\<in>set rows. \<forall>q\<in>set rows. r_hash r \<in> S \<longrightarrow> r_hash q \<in> S \<longrightarrow>
        r_height r = r_height q \<longrightarrow> r = q) \<and>
     (\<forall>r\<in>set rows. r_hash r \<in> S \<longrightarrow>
        (\<exists>p\<in>set rows. r_hash p \<in> S \<and> r_hash p = r_parent r) \<or>
        (r_height r = hk \<and> (\<forall>p\<in>set rows. r_hash p = r_parent r \<longrightarrow> r_branch p = 0))) \<and>
     (\<forall>r\<in>set rows. \<forall>q\<in>set rows. r_hash r \<in> S \<longrightarrow> r_branch q = r_branch r \<longrightarrow>
        r_height q < r_height r \<longrightarrow> r_hash q \<in> S) \<and>
     (\<exists>m\<in>set rows. r_branch m = 0 \<and> r_height m \<le> hk) \<and>
     ((\<exists>r\<in>set rows. r_hash r \<in> S) \<or> (\<exists>m\<in>set rows. r_branch m = 0 \<and> r_height m < hk))"

lemma rebranch_sel [simp]:
  "r_hash (rebranch new hk S r) = r_hash r" "r_parent (rebranch new hk S r) = r_parent r"
  "r_height (rebranch new hk S r) = r_height r" "r_data (rebranch new hk S r) = r_data r"
  by (simp_all add: rebranch_def)

lemma rebranch_row_ok [simp]: "row_ok L (rebranch new hk S r) \<longleftrightarrow> row_ok L r"
  by (simp add: rebranch_def)

lemma rebranch_row_block [simp]: "row_block L (rebranch new hk S r) = row_block L r"
  by (simp add: rebranch_def)

lemma rebranch_branch:
  "r_branch (rebranch new hk S r) =
     (if r_hash r \<in> S then 0 else if r_branch r = 0 \<and> hk \<le> r_height r then new else r_branch r)"
  by (simp add: rebranch_def)

text \<open>A change of the branch column keeps the schema constraints if it keeps branch and height
  together unique.\<close>

lemma schema_ok_map:
  assumes "schema_ok rows" and "\<And>r. r_hash (f r) = r_hash r" "\<And>r. r_height (f r) = r_height r"
    and "\<And>a b. a \<in> set rows \<Longrightarrow> b \<in> set rows \<Longrightarrow> r_branch (f a) = r_branch (f b) \<Longrightarrow>
           r_height a = r_height b \<Longrightarrow> a = b"
  shows "schema_ok (map f rows)"
proof -
  have "distinct rows" using assms(1) by (rule schema_rows_distinct)
  then have "distinct (map (\<lambda>r. (r_branch (f r), r_height r)) rows)"
    using assms(4) by (auto simp: distinct_map inj_on_def)
  with assms show ?thesis by (simp add: schema_ok_def comp_def)
qed

lemma reorg_okD:
  assumes "reorg_ok rows new hk S"
  shows "0 < new" "\<And>r. r \<in> set rows \<Longrightarrow> r_branch r < new"
    "\<And>r. r \<in> set rows \<Longrightarrow> r_hash r \<in> S \<Longrightarrow> r_branch r \<noteq> 0 \<and> hk \<le> r_height r"
    "\<And>r. r \<in> set rows \<Longrightarrow> r_hash r \<in> S \<Longrightarrow>
        (\<exists>p\<in>set rows. r_hash p \<in> S \<and> r_hash p = r_parent r) \<or>
        (r_height r = hk \<and> (\<forall>p\<in>set rows. r_hash p = r_parent r \<longrightarrow> r_branch p = 0))"
    "\<And>r q. r \<in> set rows \<Longrightarrow> q \<in> set rows \<Longrightarrow> r_hash r \<in> S \<Longrightarrow> r_branch q = r_branch r \<Longrightarrow>
        r_height q < r_height r \<Longrightarrow> r_hash q \<in> S"
    "\<exists>m\<in>set rows. r_branch m = 0 \<and> r_height m \<le> hk"
    "(\<exists>r\<in>set rows. r_hash r \<in> S) \<or> (\<exists>m\<in>set rows. r_branch m = 0 \<and> r_height m < hk)"
    "\<And>r q. r \<in> set rows \<Longrightarrow> q \<in> set rows \<Longrightarrow> r_hash r \<in> S \<Longrightarrow> r_hash q \<in> S \<Longrightarrow>
        r_height r = r_height q \<Longrightarrow> r = q"
  using assms unfolding reorg_ok_def by blast+

lemma rebranch_schema:
  assumes "schema_ok rows" "reorg_ok rows new hk S" "S' \<subseteq> S"
  shows "schema_ok (map (rebranch new hk S') rows)"
proof (rule schema_ok_map [OF assms(1)])
  fix a b
  assume ab: "a \<in> set rows" "b \<in> set rows" "r_height a = r_height b"
    and eq: "r_branch (rebranch new hk S' a) = r_branch (rebranch new hk S' b)"
  have fresh: "r_branch a < new" "r_branch b < new" "0 < new"
    using reorg_okD(1,2) [OF assms(2)] ab by blast+
  have side: "r_branch r \<noteq> 0 \<and> hk \<le> r_height r" if "r \<in> set rows" "r_hash r \<in> S'" for r
    using reorg_okD(3) [OF assms(2) that(1)] that(2) assms(3) by blast
  have inj: "r_hash a \<in> S' \<Longrightarrow> r_hash b \<in> S' \<Longrightarrow> a = b"
    using reorg_okD(8) [OF assms(2) ab(1,2)] ab(3) assms(3) by blast
  have slot: "r_branch a = r_branch b \<Longrightarrow> a = b"
    using schema_slot_unique [OF assms(1) ab(1,2)] ab(3) by blast
  show "a = b"
    using eq fresh side [OF ab(1)] side [OF ab(2)] inj slot ab(3)
    by (auto simp: rebranch_branch split: if_splits)
qed simp_all

lemma heights_linked_rebranch [simp]:
  "heights_linked (map (rebranch new hk S) rows) \<longleftrightarrow> heights_linked rows"
  by (auto simp: heights_linked_def)

text \<open>The three kinds of rows after the move, each with its parent.\<close>

lemma rebranch_parent_main:
  assumes inv: "rows_inv L rows" and ro: "reorg_ok rows new hk S"
    and r: "r \<in> set rows" "r_hash r \<in> S \<or> (r_branch r = 0 \<and> r_height r < hk)"
    and q: "q \<in> set rows" "r_hash q \<in> S \<or> (r_branch q = 0 \<and> r_height q < hk)"
      "r_height q < r_height r"
  shows "\<exists>p\<in>set rows. (r_hash p \<in> S \<or> (r_branch p = 0 \<and> r_height p < hk)) \<and> r_hash p = r_parent r"
proof (cases "r_hash r \<in> S")
  case True
  note side = reorg_okD(3) [OF ro]
  show ?thesis
  proof (cases "\<exists>p\<in>set rows. r_hash p \<in> S \<and> r_hash p = r_parent r")
    case True
    then show ?thesis by blast
  next
    case False
    with reorg_okD(4) [OF ro r(1) \<open>r_hash r \<in> S\<close>]
    have h: "r_height r = hk" and mains: "\<And>p. p \<in> set rows \<Longrightarrow> r_hash p = r_parent r \<Longrightarrow> r_branch p = 0"
      by blast+
    have qm: "r_branch q = 0" using q h side [OF q(1)] by auto
    have "\<exists>p\<in>set rows. r_hash p = r_parent r"
      using inv r(1) side [OF r(1) \<open>r_hash r \<in> S\<close>] q qm
      by (fastforce simp: rows_inv_def branches_rooted_def)
    then obtain p where p: "p \<in> set rows" "r_hash p = r_parent r" by blast
    have "r_height r = Suc (r_height p)"
      using inv heights_linkedD [of rows r p] r p by (simp add: rows_inv_def)
    with p mains h show ?thesis by auto
  qed
next
  case False
  with r have rm: "r_branch r = 0" "r_height r < hk" by auto
  have "r_branch q = 0" using q rm reorg_okD(3) [OF ro q(1)] by auto
  then obtain p where p: "p \<in> set rows" "r_branch p = 0" "r_hash p = r_parent r"
    using inv branches_contiguousD [of rows r q] r(1) q rm by (auto simp: rows_inv_def)
  have "r_height r = Suc (r_height p)"
    using inv heights_linkedD [of rows r p] r p by (simp add: rows_inv_def)
  with p rm show ?thesis by auto
qed

lemma rebranch_parent_moved:
  assumes inv: "rows_inv L rows"
    and r: "r \<in> set rows" "r_branch r = 0"
    and q: "q \<in> set rows" "r_branch q = 0" "hk \<le> r_height q" "r_height q < r_height r"
  shows "\<exists>p\<in>set rows. r_branch p = 0 \<and> hk \<le> r_height p \<and> r_hash p = r_parent r"
proof -
  obtain p where p: "p \<in> set rows" "r_branch p = 0" "r_hash p = r_parent r"
    using inv branches_contiguousD [of rows r q] r q by (auto simp: rows_inv_def)
  have "r_height r = Suc (r_height p)"
    using inv heights_linkedD [of rows r p] r p by (simp add: rows_inv_def)
  with p q show ?thesis by auto
qed

lemma rebranch_parent_side:
  assumes inv: "rows_inv L rows" and ro: "reorg_ok rows new hk S"
    and r: "r \<in> set rows" "r_branch r \<noteq> 0" "r_hash r \<notin> S"
    and q: "q \<in> set rows" "r_branch q = r_branch r" "r_hash q \<notin> S" "r_height q < r_height r"
  shows "\<exists>p\<in>set rows. r_branch p = r_branch r \<and> r_hash p \<notin> S \<and> r_hash p = r_parent r"
proof -
  obtain p where p: "p \<in> set rows" "r_branch p = r_branch r" "r_hash p = r_parent r"
    using inv branches_contiguousD [of rows r q] r q by (auto simp: rows_inv_def)
  have h: "r_height r = Suc (r_height p)"
    using inv heights_linkedD [of rows r p] r p by (simp add: rows_inv_def)
  have "r_hash p \<notin> S"
  proof
    assume pS: "r_hash p \<in> S"
    have "r_height q \<noteq> r_height p"
    proof
      assume "r_height q = r_height p"
      then have "q = p" using inv schema_slot_unique [of rows q p] p q by (simp add: rows_inv_def)
      with pS q show False by simp
    qed
    then have "r_height q < r_height p" using q h by simp
    then have "r_hash q \<in> S" using reorg_okD(5) [OF ro p(1) q(1) pS] p q by simp
    with q show False by simp
  qed
  with p show ?thesis by blast
qed

lemma rebranch_contiguous:
  assumes inv: "rows_inv L rows" and ro: "reorg_ok rows new hk S"
  shows "branches_contiguous (map (rebranch new hk S) rows)"
proof -
  have "\<exists>p\<in>set rows. r_branch (rebranch new hk S p) = r_branch (rebranch new hk S r) \<and> r_hash p = r_parent r"
    if rq: "r \<in> set rows" "q \<in> set rows" "r_height q < r_height r"
      and eq: "r_branch (rebranch new hk S q) = r_branch (rebranch new hk S r)" for r q
  proof -
    have fresh: "0 < new" "r_branch r < new" "r_branch q < new"
      using reorg_okD(1,2) [OF ro] rq by auto
    consider (main) "r_hash r \<in> S \<or> (r_branch r = 0 \<and> r_height r < hk)"
      | (moved) "r_hash r \<notin> S" "r_branch r = 0" "hk \<le> r_height r"
      | (side) "r_hash r \<notin> S" "r_branch r \<noteq> 0" by linarith
    then show ?thesis
    proof cases
      case main
      then have "r_hash q \<in> S \<or> (r_branch q = 0 \<and> r_height q < hk)"
        using eq fresh by (auto simp: rebranch_branch split: if_splits)
      from rebranch_parent_main [OF inv ro rq(1) main rq(2) this rq(3)] main show ?thesis
        by (fastforce simp: rebranch_branch)
    next
      case moved
      then have "r_hash q \<notin> S" "r_branch q = 0" "hk \<le> r_height q"
        using eq fresh by (auto simp: rebranch_branch split: if_splits)
      from rebranch_parent_moved [OF inv rq(1) moved(2) rq(2) this(2,3) rq(3)]
      obtain p where p: "p \<in> set rows" "r_branch p = 0" "hk \<le> r_height p" "r_hash p = r_parent r"
        by blast
      moreover have "r_hash p \<notin> S" using reorg_okD(3) [OF ro p(1)] p by auto
      ultimately show ?thesis using moved by (intro bexI [of _ p]) (auto simp: rebranch_branch)
    next
      case side
      then have "r_hash q \<notin> S" "r_branch q = r_branch r"
        using eq fresh by (auto simp: rebranch_branch split: if_splits)
      from rebranch_parent_side [OF inv ro rq(1) side(2,1) rq(2) this(2,1) rq(3)]
      obtain p where "p \<in> set rows" "r_branch p = r_branch r" "r_hash p \<notin> S" "r_hash p = r_parent r"
        by blast
      with side show ?thesis by (intro bexI [of _ p]) (auto simp: rebranch_branch)
    qed
  qed
  then show ?thesis by (fastforce simp: branches_contiguous_def)
qed

lemma rebranch_rooted:
  assumes inv: "rows_inv L rows" and ro: "reorg_ok rows new hk S"
  shows "branches_rooted (map (rebranch new hk S) rows)"
proof -
  obtain m where m: "m \<in> set rows" "r_branch m = 0" "r_height m \<le> hk"
    using reorg_okD(6) [OF ro] by blast
  have "(\<exists>p\<in>set rows. r_hash p = r_parent r) \<or>
      (\<forall>x\<in>set rows. r_branch (rebranch new hk S x) = 0 \<longrightarrow> r_height r \<le> r_height x)"
    if r: "r \<in> set rows" "r_branch (rebranch new hk S r) \<noteq> 0" for r
  proof (cases "\<exists>p\<in>set rows. r_hash p = r_parent r")
    case np: False
    have low: "r_height r \<le> r_height x" if x: "x \<in> set rows" "r_branch x = 0" for x
    proof (cases "r_branch r = 0")
      case True
      then show ?thesis
        using inv branches_contiguousD [of rows r x] r x np by (fastforce simp: rows_inv_def)
    next
      case False
      with inv r np x show ?thesis by (auto simp: rows_inv_def branches_rooted_def)
    qed
    have "r_height r \<le> hk" using low [OF m(1,2)] m(3) by simp
    then show ?thesis
      using low reorg_okD(1,3) [OF ro]
      by (auto simp: rebranch_branch split: if_splits intro: le_trans)
  qed simp
  then show ?thesis by (auto simp: branches_rooted_def)
qed

lemma rebranch_inv [inv_intros]:
  assumes inv: "rows_inv L rows" and ro: "reorg_ok rows new hk S"
  shows "rows_inv L (map (rebranch new hk S) rows)"
proof -
  have "has_main (map (rebranch new hk S) rows)"
    using reorg_okD(3,7) [OF ro] by (fastforce simp: has_main_def rebranch_branch)
  then show ?thesis
    using rebranch_schema [OF _ ro subset_refl] rebranch_contiguous [OF inv ro]
      rebranch_rooted [OF inv ro] inv
    by (auto simp: rows_inv_def heights_bounded_def)
qed

lemma rows_invD:
  assumes "rows_inv L rows"
  shows "schema_ok rows" "\<And>r. r \<in> set rows \<Longrightarrow> row_ok L r" "heights_linked rows"
    "branches_contiguous rows" "branches_rooted rows" "has_main rows"
    "\<And>r. r \<in> set rows \<Longrightarrow> r_height r \<le> i64_max"
  using assms by (auto simp: rows_inv_def heights_bounded_def)

text \<open>The two moves that \<^verbatim>\<open>MarkAsTip\<close> makes are legitimate.\<close>

lemma reorg_ok_main:
  assumes "t \<in> set rows" "r_branch t = 0" "\<forall>r\<in>set rows. r_branch r < new" "0 < new"
  shows "reorg_ok rows new (Suc (r_height t)) {}"
  using assms by (auto simp: reorg_ok_def intro!: bexI [of _ t])

lemma side_path_hash_mem:
  assumes "schema_ok rows" "side_path rows h rs" "r \<in> set rows"
  shows "r_hash r \<in> r_hash ` set rs \<longleftrightarrow> r \<in> set rs"
proof
  assume "r_hash r \<in> r_hash ` set rs"
  then obtain a where a: "a \<in> set rs" "r_hash r = r_hash a" by blast
  then have "a \<in> set rows" using side_path_subset [OF assms(2)] by blast
  with a schema_hash_unique [OF assms(1,3)] show "r \<in> set rs" by blast
qed simp

lemma reorg_ok_side:
  assumes inv: "rows_inv L rows" and path: "side_path rows h rs" and ne: "rs \<noteq> []"
    and fresh: "\<forall>r\<in>set rows. r_branch r < new" "0 < new"
    and low: "m \<in> set rows" "r_branch m = 0" "r_height m \<le> r_height (last rs)"
  shows "reorg_ok rows new (r_height (last rs)) (r_hash ` set rs)"
proof -
  note D = rows_invD [OF inv]
  note mem = side_path_hash_mem [OF D(1) path]
  have sub: "r \<in> set rows" if "r \<in> set rs" for r using that side_path_subset [OF path] by blast
  have par: "(\<exists>p\<in>set rows. r_hash p \<in> r_hash ` set rs \<and> r_hash p = r_parent r) \<or>
      (r_height r = r_height (last rs) \<and> (\<forall>p\<in>set rows. r_hash p = r_parent r \<longrightarrow> r_branch p = 0))"
    if "r \<in> set rs" for r
    using side_path_parent [OF path that] sub by blast
  show ?thesis
    unfolding reorg_ok_def
  proof (intro conjI ballI impI)
    fix r assume "r \<in> set rows" "r_hash r \<in> r_hash ` set rs"
    then have r: "r \<in> set rs" using mem by blast
    show "r_branch r \<noteq> 0" using side_path_side [OF path r] .
    show "r_height (last rs) \<le> r_height r" using side_path_last_min [OF D(3) path r] .
    show "(\<exists>p\<in>set rows. r_hash p \<in> r_hash ` set rs \<and> r_hash p = r_parent r) \<or>
      (r_height r = r_height (last rs) \<and> (\<forall>p\<in>set rows. r_hash p = r_parent r \<longrightarrow> r_branch p = 0))"
      using par [OF r] .
  next
    fix r q assume "r \<in> set rows" "q \<in> set rows" "r_hash r \<in> r_hash ` set rs"
      "r_hash q \<in> r_hash ` set rs" "r_height r = r_height q"
    then show "r = q"
      using mem side_path_distinct(2) [OF D(3) path] by (metis inj_onD)
  next
    fix r q assume "r \<in> set rows" "q \<in> set rows" "r_hash r \<in> r_hash ` set rs"
      "r_branch q = r_branch r" "r_height q < r_height r"
    then show "r_hash q \<in> r_hash ` set rs"
      using mem side_path_closed [OF D(1,3,4) path] by blast
  next
    show "(\<exists>r\<in>set rows. r_hash r \<in> r_hash ` set rs) \<or>
        (\<exists>m\<in>set rows. r_branch m = 0 \<and> r_height m < r_height (last rs))"
      using ne sub [of "hd rs"] hd_in_set [OF ne] by blast
  qed (use fresh low in auto)
qed

subsection \<open>MarkAsTip\<close>

lemma sql_set_branch_ok:
  assumes "schema_ok (map f (blocks cs))"
    and "\<And>r. f r = (if cond r then r\<lparr>r_branch := b\<rparr> else r)"
  shows "sql_set_branch b cond cs = (Inr (), cs\<lparr>blocks := map f (blocks cs)\<rparr>)"
proof -
  have "(\<lambda>r. if cond r then r\<lparr>r_branch := b\<rparr> else r) = f" using assms(2) by auto
  with assms(1) show ?thesis by (simp add: sql_set_branch_def Let_def)
qed

lemma rebranch_insert:
  "rebranch new hk (insert h S) r =
     (if r_hash (rebranch new hk S r) = h then (rebranch new hk S r)\<lparr>r_branch := 0\<rparr>
      else rebranch new hk S r)"
  by (simp add: rebranch_def)

lemma mark_branch_loop:
  assumes "schema_ok rows" "reorg_ok rows new hk S"
  shows "S0 \<union> r_hash ` set rs \<subseteq> S \<Longrightarrow> \<forall>r\<in>set rs. row_ok L r \<Longrightarrow>
     forM (map (row_block L) rs) (\<lambda>d. sql_set_branch 0 (\<lambda>r. r_hash r = blk_hash d))
       (cs\<lparr>blocks := map (rebranch new hk S0) rows\<rparr>) =
     (Inr (), cs\<lparr>blocks := map (rebranch new hk (S0 \<union> r_hash ` set rs)) rows\<rparr>)"
proof (induction rs arbitrary: S0)
  case (Cons a rs)
  let ?f = "\<lambda>r. if r_hash r = r_hash a then r\<lparr>r_branch := 0\<rparr> else r"
  have comp: "?f \<circ> rebranch new hk S0 = rebranch new hk (insert (r_hash a) S0)"
    by (simp add: fun_eq_iff rebranch_insert)
  have "schema_ok (map (rebranch new hk (insert (r_hash a) S0)) rows)"
    using rebranch_schema [OF assms] Cons.prems(1) by simp
  then have "sql_set_branch 0 (\<lambda>r. r_hash r = blk_hash (row_block L a))
      (cs\<lparr>blocks := map (rebranch new hk S0) rows\<rparr>) =
      (Inr (), cs\<lparr>blocks := map (rebranch new hk (insert (r_hash a) S0)) rows\<rparr>)"
    using sql_set_branch_ok [of ?f "cs\<lparr>blocks := map (rebranch new hk S0) rows\<rparr>"
        "\<lambda>r. r_hash r = r_hash a" 0] Cons.prems(2) comp
    by (simp add: read_row_ok)
  with Cons.IH [of "insert (r_hash a) S0"] Cons.prems show ?case by simp
qed simp

lemma rebranch_empty:
  "rebranch new hk {} r = (if r_branch r = 0 \<and> hk \<le> r_height r then r\<lparr>r_branch := new\<rparr> else r)"
  by (simp add: rebranch_def)

lemma MarkAsTip_main:
  assumes inv: "chain_inv L cs" and t: "t \<in> set (blocks cs)" "r_branch t = 0"
    and blk: "blk_hash blk = r_hash t" "blk_height blk = r_height t"
    and room: "GetFreeBranchNumber cs \<le> i64_max"
  shows "MarkAsTip L blk cs =
     (Inr (), cs\<lparr>blocks := map (rebranch (GetFreeBranchNumber cs) (Suc (r_height t)) {}) (blocks cs)\<rparr>)"
proof -
  note D = rows_invD [OF inv]
  let ?new = "GetFreeBranchNumber cs"
  have ro: "reorg_ok (blocks cs) ?new (Suc (r_height t)) {}"
    using reorg_ok_main [OF t] free_branch_above by simp
  have "sql_set_branch ?new (\<lambda>r. r_branch r = 0 \<and> r_height r > blk_height blk) cs =
      (Inr (), cs\<lparr>blocks := map (rebranch ?new (Suc (r_height t)) {}) (blocks cs)\<rparr>)"
    using rebranch_schema [OF D(1) ro] blk
    by (intro sql_set_branch_ok) (auto simp: rebranch_empty less_eq_Suc_le)
  moreover have "blk_height blk \<le> i64_max" using D(7) t blk by simp
  ultimately show ?thesis
    using t row_at_SomeI [OF D(1) t(1)] D(1) blk room by (simp add: MarkAsTip_def)
qed

lemma MarkAsTip_side:
  assumes inv: "chain_inv L cs" and path: "side_path (blocks cs) (blk_hash blk) rs" "rs \<noteq> []"
    and low: "m \<in> set (blocks cs)" "r_branch m = 0" "r_height m \<le> r_height (last rs)"
    and room: "GetFreeBranchNumber cs \<le> i64_max"
  shows "MarkAsTip L blk cs =
     (Inr (), cs\<lparr>blocks := map (rebranch (GetFreeBranchNumber cs) (r_height (last rs)) (r_hash ` set rs))
        (blocks cs)\<rparr>)"
proof -
  note D = rows_invD [OF inv]
  let ?new = "GetFreeBranchNumber cs" and ?hk = "r_height (last rs)"
  obtain t rs' where rs: "rs = t # rs'" using path(2) by (cases rs) auto
  have t: "t \<in> set (blocks cs)" "r_hash t = blk_hash blk" "r_branch t \<noteq> 0"
    using path rs by (auto dest: side_path_subset side_path_hd side_path_side)
  have known: "row_at (blocks cs) (blk_hash blk) = Some t" using row_at_SomeI [OF D(1) t(1)] t by simp
  have ok: "\<forall>r\<in>set rs. row_ok L r" using D(2) side_path_subset [OF path(1)] by blast
  have lastok: "blk_height (last (map (row_block L) rs)) = ?hk"
    using path(2) ok by (simp add: last_map read_row_ok)
  have ro: "reorg_ok (blocks cs) ?new ?hk (r_hash ` set rs)"
    using reorg_ok_side [OF inv path _ _ low] free_branch_above by simp
  have upd: "sql_set_branch ?new (\<lambda>r. r_branch r = 0 \<and> r_height r \<ge> ?hk) cs =
      (Inr (), cs\<lparr>blocks := map (rebranch ?new ?hk {}) (blocks cs)\<rparr>)"
    using rebranch_schema [OF D(1) ro] by (intro sql_set_branch_ok) (auto simp: rebranch_empty)
  have loop: "forM (map (row_block L) rs) (\<lambda>d. sql_set_branch 0 (\<lambda>r. r_hash r = blk_hash d))
       (cs\<lparr>blocks := map (rebranch ?new ?hk {}) (blocks cs)\<rparr>) =
     (Inr (), cs\<lparr>blocks := map (rebranch ?new ?hk (r_hash ` set rs)) (blocks cs)\<rparr>)"
    using mark_branch_loop [OF D(1) ro, of "{}" rs L] ok by simp
  have "?hk \<le> i64_max" using D(7) path side_path_subset [OF path(1)] last_in_set by blast
  with GetForkBranch_eq [OF inv path(1)] known t(3) upd loop room lastok path(2) D(1) show ?thesis
    by (simp add: MarkAsTip_def)
qed

end
