(* ===== verification/ChainstateOps.thy ===== *)
theory ChainstateOps
  imports ChainstateTip
begin

text \<open>
  The public methods of \<^verbatim>\<open>Chainstate\<close>: what \<^verbatim>\<open>SetTip\<close>, \<^verbatim>\<open>ImportTip\<close>, \<^verbatim>\<open>Prune\<close> and
  \<^verbatim>\<open>SanityCheck\<close> do on a database that satisfies the invariant, that the invariant holds in
  every reachable state, and that an update is atomic when the process dies inside it.
\<close>

subsection \<open>The contract of SetTip\<close>

text \<open>The caller's promise about pruning: the fork branch of a block does not start below the
  stored part of the main chain.\<close>

definition fork_within_pruning :: "codec \<Rightarrow> chainstate \<Rightarrow> string \<Rightarrow> bool" where
  "fork_within_pruning L cs h \<longleftrightarrow>
     (case fst (GetForkBranch L h cs) of
        Inl e \<Rightarrow> False
      | Inr (ok, branch) \<Rightarrow>
          branch \<noteq> [] \<longrightarrow> GetLowestUnprunedHeight cs \<le> int (blk_height (last branch)))"

text \<open>Known blocks are consistent with a new one: its children and its parent have the
  neighbouring heights.\<close>

definition heights_fit :: "chainstate \<Rightarrow> BlockData \<Rightarrow> bool" where
  "heights_fit cs blk \<longleftrightarrow>
     blk_parent blk \<noteq> blk_hash blk \<and>
     (\<forall>r\<in>set (blocks cs). r_parent r = blk_hash blk \<longrightarrow> r_height r = Suc (blk_height blk)) \<and>
     (\<forall>r\<in>set (blocks cs). r_hash r = blk_parent blk \<longrightarrow> blk_height blk = Suc (r_height r))"

text \<open>The block can be stored, and branch numbers are left.\<close>

definition storable :: "codec \<Rightarrow> chainstate \<Rightarrow> BlockData \<Rightarrow> bool" where
  "storable L cs blk \<longleftrightarrow>
     block_wf blk \<and> codec_ok L blk \<and> blk_height blk \<le> i64_max \<and> GetFreeBranchNumber cs < i64_max"

text \<open>What \<^verbatim>\<open>SetTip\<close> finds out about the block.\<close>

definition block_known :: "chainstate \<Rightarrow> BlockData \<Rightarrow> bool" where
  "block_known cs blk \<longleftrightarrow>
     (case row_at (blocks cs) (blk_hash blk) of
        None \<Rightarrow> False
      | Some r \<Rightarrow> r_parent r = blk_parent blk \<and> r_height r = blk_height blk)"

definition block_attachable :: "chainstate \<Rightarrow> BlockData \<Rightarrow> bool" where
  "block_attachable cs blk \<longleftrightarrow>
     row_at (blocks cs) (blk_hash blk) = None \<and> row_at (blocks cs) (blk_parent blk) \<noteq> None"

definition tip_update_ok :: "codec \<Rightarrow> chainstate \<Rightarrow> BlockData \<Rightarrow> bool" where
  "tip_update_ok L cs blk \<longleftrightarrow>
     storable L cs blk \<and> heights_fit cs blk \<and>
     fork_within_pruning L cs (blk_hash blk) \<and>
     (row_at (blocks cs) (blk_hash blk) = None \<longrightarrow> fork_within_pruning L cs (blk_parent blk))"

definition import_ok :: "codec \<Rightarrow> chainstate \<Rightarrow> BlockData \<Rightarrow> bool" where
  "import_ok L cs blk \<longleftrightarrow>
     storable L cs blk \<and> heights_fit cs blk \<and> fork_within_pruning L cs (blk_hash blk) \<and>
     (row_at (blocks cs) (blk_hash blk) \<noteq> None \<longrightarrow> block_known cs blk)"

text \<open>What holds after a block became the tip.\<close>

definition tip_is :: "chainstate \<Rightarrow> BlockData \<Rightarrow> bool" where
  "tip_is cs blk \<longleftrightarrow>
     select_tip cs = [blk_hash blk] \<and> GetTipHeight cs = int (blk_height blk) \<and>
     (\<exists>r\<in>set (blocks cs). r_branch r = 0 \<and> r_hash r = blk_hash blk \<and>
        r_parent r = blk_parent blk \<and> r_height r = blk_height blk)"

text \<open>The summary of a tip update: the block is the tip, the invariant holds, no known block was
  lost or altered, and the pruning height is the same.\<close>

definition row_key :: "dbrow \<Rightarrow> string \<times> string \<times> nat" where
  "row_key r = (r_hash r, r_parent r, r_height r)"

definition blk_key :: "BlockData \<Rightarrow> string \<times> string \<times> nat" where
  "blk_key b = (blk_hash b, blk_parent b, blk_height b)"

definition tip_updated :: "codec \<Rightarrow> chainstate \<Rightarrow> BlockData \<Rightarrow> chainstate \<Rightarrow> bool" where
  "tip_updated L cs blk cs' \<longleftrightarrow>
     chain_inv L cs' \<and> tip_is cs' blk \<and>
     row_key ` set (blocks cs') = insert (blk_key blk) (row_key ` set (blocks cs)) \<and>
     GetLowestUnprunedHeight cs' = GetLowestUnprunedHeight cs \<and>
     GetFreeBranchNumber cs' \<le> GetFreeBranchNumber cs + 2 \<and>
     variables cs' = variables cs \<and> savepoints cs' = savepoints cs"

text \<open>After an import the main chain is the imported block alone.\<close>

definition tip_imported :: "codec \<Rightarrow> chainstate \<Rightarrow> BlockData \<Rightarrow> chainstate \<Rightarrow> bool" where
  "tip_imported L cs blk cs' \<longleftrightarrow>
     chain_inv L cs' \<and> tip_is cs' blk \<and> GetLowestUnprunedHeight cs' = int (blk_height blk) \<and>
     (\<forall>r\<in>set (blocks cs'). r_branch r = 0 \<longrightarrow> r_hash r = blk_hash blk) \<and>
     row_key ` set (blocks cs') \<subseteq> insert (blk_key blk) (row_key ` set (blocks cs)) \<and>
     GetFreeBranchNumber cs' \<le> GetFreeBranchNumber cs + 2 \<and>
     variables cs' = variables cs \<and> savepoints cs' = savepoints cs"

definition prune_rows :: "nat \<Rightarrow> dbrow list \<Rightarrow> dbrow list" where
  "prune_rows h rows = filter (\<lambda>r. \<not> (r_branch r = 0 \<and> r_height r \<le> h)) rows"

text \<open>The states the public methods can produce when they are used as documented.\<close>

inductive chain_step :: "codec \<Rightarrow> chainstate \<Rightarrow> chainstate \<Rightarrow> bool" for L where
  set_tip: "tip_update_ok L cs blk \<Longrightarrow> SetTip L blk cs = (Inr res, cs') \<Longrightarrow> chain_step L cs cs'"
| import_tip: "import_ok L cs blk \<Longrightarrow> ImportTip L blk cs = (Inr res, cs') \<Longrightarrow>
     chain_step L cs cs'"
| prune: "int h < GetTipHeight cs \<Longrightarrow> Prune h cs = (Inr res, cs') \<Longrightarrow> chain_step L cs cs'"
| set_chain: "SetChain c cs = (Inr res, cs') \<Longrightarrow> chain_step L cs cs'"

inductive chain_reachable :: "codec \<Rightarrow> chainstate \<Rightarrow> bool" for L where
  fresh: "chain_reachable L Chainstate_new"
| next_state: "chain_reachable L cs \<Longrightarrow> chain_step L cs cs' \<Longrightarrow> chain_reachable L cs'"

inductive_cases chain_stepE: "chain_step L cs cs'"

text \<open>The content of the database file: what is in it when the process ends now.\<close>

definition committed :: "chainstate \<Rightarrow> sql_tables" where
  "committed cs = (if savepoints cs = [] then (blocks cs, variables cs) else last (savepoints cs))"

subsection \<open>Update batches\<close>

lemma withUpdateBatch_ok:
  assumes "m (cs\<lparr>savepoints := (blocks cs, variables cs) # savepoints cs\<rparr>) = (Inr a, cs1)"
    and "savepoints cs1 = sp # savepoints cs"
  shows "withUpdateBatch m cs = (Inr a, cs1\<lparr>savepoints := savepoints cs\<rparr>)"
  using assms
  by (simp add: withUpdateBatch_def UpdateBatch_begin_def UpdateBatch_Commit_def sql_release_def)

lemma preserves_query1 [simp]: "preserves f (query1 q)"
  by (simp add: preserves_def query1_state)

lemma preserves_Bind [simp]: "preserves f (Bind_uint64 v)"
  by (simp add: preserves_def)

lemma preserves_sql_set_branch [simp]: "preserves savepoints (sql_set_branch b cond)"
  by (auto simp: sql_set_branch_def Let_def intro!: preserves_bind split: if_split)

lemma preserves_fork_loop [simp]: "preserves f (fork_branch_loop L n acc h)"
  by (induction n arbitrary: acc h)
    (auto simp: Let_def intro!: preserves_bind split: option.split if_split)

lemma preserves_GetForkBranch [simp]: "preserves f (GetForkBranch L h)"
  by (auto simp: GetForkBranch_def intro!: preserves_bind simp del: fork_branch_loop.simps)

lemma preserves_MarkAsTip [simp]: "preserves savepoints (MarkAsTip L blk)"
  by (auto simp: MarkAsTip_def intro!: preserves_bind preserves_then preserves_forM
      split: option.split if_split prod.split)

lemma preserves_InsertBlock [simp]: "preserves savepoints (InsertBlock L blk b)"
  by (auto simp: InsertBlock_def sql_insert_def intro!: preserves_bind preserves_then split: if_split)

subsection \<open>Inserting a block\<close>

lemma order_by_DESC_snoc_max:
  assumes "\<And>r. r \<in> set rows \<Longrightarrow> k r < k x"
  shows "\<exists>xs. order_by DESC k (rows @ [x]) = x # xs"
proof (cases "order_by DESC k (rows @ [x])")
  case (Cons y ys)
  have "k x \<le> k y" using order_by_DESC_hd [OF Cons, of x] by simp
  with order_by_in [OF Cons] assms have "y = x" by force
  with Cons show ?thesis by blast
qed simp

lemma free_branch_snoc:
  "r_branch x = GetFreeBranchNumber cs \<Longrightarrow>
     GetFreeBranchNumber (cs\<lparr>blocks := blocks cs @ [x]\<rparr>) = Suc (GetFreeBranchNumber cs)"
  using order_by_DESC_snoc_max [of "blocks cs" r_branch x] free_branch_above
  by (auto simp: GetFreeBranchNumber_def [of "cs\<lparr>blocks := blocks cs @ [x]\<rparr>"])

lemma GetFree_blocks: "blocks cs' = blocks cs \<Longrightarrow> GetFreeBranchNumber cs' = GetFreeBranchNumber cs"
  by (simp add: GetFreeBranchNumber_def)

lemma stored_row_ok:
  assumes "block_wf blk" "codec_ok L blk"
  obtains d where "Serialise L blk = Inr d"
    "\<And>b. row_ok L \<lparr>r_hash = blk_hash blk, r_parent = blk_parent blk, r_height = blk_height blk,
           r_branch = b, r_data = d\<rparr>"
proof -
  obtain d where "Serialise L blk = Inr d" "Deserialise L d = Inr blk"
    using Serialise_Deserialise [OF assms] by blast
  with that [of d] show thesis by (simp add: row_ok_def read_row_def)
qed

lemma schema_ok_snoc:
  "schema_ok (rows @ [x]) \<longleftrightarrow>
     schema_ok rows \<and> (\<forall>r\<in>set rows. r_hash r \<noteq> r_hash x) \<and>
     (\<forall>r\<in>set rows. r_branch r \<noteq> r_branch x \<or> r_height r \<noteq> r_height x)"
  unfolding schema_ok_def by (simp add: image_iff) metis

text \<open>A block whose parent is known can be added on a branch of its own.\<close>

lemma insert_inv [inv_intros]:
  assumes inv: "rows_inv L rows"
    and x: "row_ok L x" "r_height x \<le> i64_max" "r_branch x \<noteq> 0" "\<forall>r\<in>set rows. r_branch r < r_branch x"
    and fresh: "\<forall>r\<in>set rows. r_hash r \<noteq> r_hash x"
    and p: "p \<in> set rows" "r_hash p = r_parent x"
    and fit: "\<forall>r\<in>set rows. r_parent r = r_hash x \<longrightarrow> r_height r = Suc (r_height x)"
      "r_height x = Suc (r_height p)"
  shows "rows_inv L (rows @ [x])"
proof -
  note D = rows_invD [OF inv]
  have neq: "r_branch r \<noteq> r_branch x" if "r \<in> set rows" for r using that x(4) by auto
  have "schema_ok (rows @ [x])" using D(1) fresh neq by (auto simp: schema_ok_snoc)
  moreover have "heights_linked (rows @ [x])"
  proof -
    have "r_height x = Suc (r_height q)" if "q \<in> set rows" "r_parent x = r_hash q" for q
      using that schema_hash_unique [OF D(1) that(1) p(1)] p(2) fit(2) by simp
    moreover have "r_parent x \<noteq> r_hash x" using p fresh by auto
    moreover have "r_height r = Suc (r_height q)"
      if "r \<in> set rows" "q \<in> set rows" "r_parent r = r_hash q" for r q
      using heights_linkedD [OF D(3) that(1,2)] that(3) by simp
    ultimately show ?thesis using fit(1) by (simp add: heights_linked_def)
  qed
  moreover have "branches_contiguous (rows @ [x])"
    using D(4) neq by (fastforce simp: branches_contiguous_def)
  moreover have "branches_rooted (rows @ [x])"
    using D(5) p x(3) by (fastforce simp: branches_rooted_def)
  moreover have "has_main (rows @ [x])"
    using D(6) p by (auto simp: has_main_def)
  ultimately show ?thesis
    using D(2,7) x by (auto simp: rows_inv_def heights_bounded_def)
qed

lemma side_path_shrink:
  "side_path (rows @ [x]) h rs \<Longrightarrow> x \<notin> set rs \<Longrightarrow> side_path rows h rs"
  by (induction rule: side_path.induct) (auto intro: side_path.intros)

subsection \<open>Making a known block the tip\<close>

lemma fork_within_pruning_iff:
  assumes "chain_inv L cs" "side_path (blocks cs) h rs"
  shows "fork_within_pruning L cs h \<longleftrightarrow>
     (rs \<noteq> [] \<longrightarrow> GetLowestUnprunedHeight cs \<le> int (r_height (last rs)))"
proof -
  have "blk_height (last (map (row_block L) rs)) = r_height (last rs)" if "rs \<noteq> []"
    using that rows_invD(2) [OF assms(1)] side_path_subset [OF assms(2)]
    by (simp add: last_map read_row_ok subset_iff)
  with GetForkBranch_eq [OF assms] show ?thesis by (auto simp: fork_within_pruning_def)
qed

lemma inv_has_main:
  assumes "chain_inv L cs" "r \<in> set (blocks cs)"
  obtains m where "m \<in> set (blocks cs)" "r_branch m = 0"
  using rows_invD(6) [OF assms(1)] assms(2) by (auto simp: has_main_def)

lemma tip_isI:
  assumes "schema_ok (blocks cs)" "t \<in> set (blocks cs)" "r_branch t = 0"
    and max: "\<And>m. m \<in> set (blocks cs) \<Longrightarrow> r_branch m = 0 \<Longrightarrow> r_height m \<le> r_height t"
    and blk: "r_hash t = blk_hash blk" "r_parent t = blk_parent blk" "r_height t = blk_height blk"
  shows "tip_is cs blk"
proof -
  obtain u where u: "u \<in> set (blocks cs)" "r_branch u = 0" "GetTipHeight cs = int (r_height u)"
      "r_height t \<le> r_height u" "select_tip cs = [r_hash u]"
    using GetTip_obtain [OF assms(2,3)] assms(2,3) by metis
  have "u = t" using schema_slot_unique [OF assms(1) u(1) assms(2)] u assms(3) max [of u] by simp
  with u assms(2,3) blk show ?thesis by (auto simp: tip_is_def)
qed

lemma tip_is_rebranch:
  assumes inv: "rows_inv L rows" and ro: "reorg_ok rows new hk S"
    and cs: "blocks cs = map (rebranch new hk S) rows"
    and t: "t \<in> set rows" "r_branch (rebranch new hk S t) = 0" "hk \<le> Suc (r_height t)"
    and top: "\<And>r. r \<in> set rows \<Longrightarrow> r_hash r \<in> S \<Longrightarrow> r_height r \<le> r_height t"
    and blk: "r_hash t = blk_hash blk" "r_parent t = blk_parent blk" "r_height t = blk_height blk"
  shows "tip_is cs blk"
proof (rule tip_isI [where t = "rebranch new hk S t"])
  show "schema_ok (blocks cs)" using rebranch_schema [OF rows_invD(1) [OF inv] ro] cs by simp
  fix m assume "m \<in> set (blocks cs)" "r_branch m = 0"
  then obtain r where r: "r \<in> set rows" "m = rebranch new hk S r" "r_branch (rebranch new hk S r) = 0"
    using cs by auto
  then have "r_hash r \<in> S \<or> r_height r < hk"
    using reorg_okD(1) [OF ro] by (auto simp: rebranch_branch split: if_splits)
  with r top [OF r(1)] t(3) show "r_height m \<le> r_height (rebranch new hk S t)" by auto
qed (use t cs blk in auto)

lemma rebranch_lowest:
  assumes inv: "rows_inv L rows" and ro: "reorg_ok rows new hk S"
    and cs: "blocks cs = rows" "blocks cs' = map (rebranch new hk S) rows"
  shows "GetLowestUnprunedHeight cs' = GetLowestUnprunedHeight cs"
proof -
  obtain m where m: "m \<in> set rows" "r_branch m = 0" "r_height m \<le> hk"
    using ro by (auto simp: reorg_ok_def)
  obtain l where l: "l \<in> set rows" "r_branch l = 0" "GetLowestUnprunedHeight cs = int (r_height l)"
    using GetLowest_obtain [of m cs] m cs(1) by metis
  have min: "r_height l \<le> r_height r" if "r \<in> set rows" "r_branch r = 0" for r
    using GetLowest_le [of r cs] that l(3) cs(1) by simp
  have S_high: "hk \<le> r_height r" if "r \<in> set rows" "r_hash r \<in> S" for r
    using ro that by (auto simp: reorg_ok_def)
  have l_hk: "r_height l \<le> hk" using min [OF m(1,2)] m(3) by simp
  have bound: "r_height l \<le> r_height r" if r: "r \<in> set rows" "r_branch (rebranch new hk S r) = 0" for r
  proof (cases "r_hash r \<in> S")
    case True
    then show ?thesis using S_high [OF r(1)] l_hk by simp
  next
    case False
    then have "r_branch r = 0" using r(2) by (auto simp: rebranch_branch split: if_splits)
    then show ?thesis using min [OF r(1)] by simp
  qed
  have "\<exists>t\<in>set rows. r_branch (rebranch new hk S t) = 0 \<and> r_height t = r_height l"
  proof (cases "r_height l < hk")
    case True
    then show ?thesis using l S_high [OF l(1)] by (intro bexI [of _ l]) (auto simp: rebranch_branch)
  next
    case False
    with l_hk have eq: "r_height l = hk" by simp
    then have "\<not> (\<exists>m\<in>set rows. r_branch m = 0 \<and> r_height m < hk)" using min by fastforce
    then have "\<exists>r. r \<in> set rows \<and> r_hash r \<in> S" using ro unfolding reorg_ok_def by blast
    then obtain r where r: "r \<in> set rows" "r_hash r \<in> S"
        "\<forall>q. q \<in> set rows \<and> r_hash q \<in> S \<longrightarrow> r_height r \<le> r_height q"
      using ex_has_least_nat [of "\<lambda>r. r \<in> set rows \<and> r_hash r \<in> S" _ r_height] by metis
    have "r_height r = hk"
    proof (rule ccontr)
      assume "r_height r \<noteq> hk"
      then obtain p where p: "p \<in> set rows" "r_hash p \<in> S" "r_hash p = r_parent r"
        using ro r(1,2) unfolding reorg_ok_def by blast
      with heights_linkedD [OF rows_invD(3) [OF inv] r(1) p(1,3)] r(3) show False by auto
    qed
    with r eq show ?thesis by (intro bexI [of _ r]) (auto simp: rebranch_branch)
  qed
  then obtain t where t: "t \<in> set rows" "r_branch (rebranch new hk S t) = 0" "r_height t = r_height l" by blast
  have "GetLowestUnprunedHeight cs' = int (r_height (rebranch new hk S t))"
    using t bound cs by (intro GetLowest_eqI) auto
  with t(3) l(3) show ?thesis by simp
qed

lemma free_branch_le:
  assumes "\<And>r. r \<in> set (blocks cs) \<Longrightarrow> r_branch r < n" "0 < n"
  shows "GetFreeBranchNumber cs \<le> n"
  using assms order_by_in [of DESC r_branch "blocks cs"]
  by (auto simp: GetFreeBranchNumber_def Suc_le_eq split: list.split)

lemma rebranch_free:
  assumes "blocks cs' = map (rebranch (GetFreeBranchNumber cs) hk S) (blocks cs)"
  shows "GetFreeBranchNumber cs' \<le> Suc (GetFreeBranchNumber cs)"
  using free_branch_above [of _ cs] assms
  by (intro free_branch_le) (auto simp: rebranch_branch less_Suc_eq split: if_splits)

lemma rebranch_keys [simp]: "row_key (rebranch new hk S r) = row_key r"
  by (simp add: row_key_def)

lemma block_known_key: "block_known cs blk \<Longrightarrow> blk_key blk \<in> row_key ` set (blocks cs)"
  by (auto simp: block_known_def blk_key_def row_key_def split: option.splits
      dest!: row_at_SomeD intro: rev_image_eqI)

lemma MarkAsTip_ok:
  assumes inv: "chain_inv L cs" and known: "block_known cs blk"
    and deep: "fork_within_pruning L cs (blk_hash blk)" and room: "GetFreeBranchNumber cs \<le> i64_max"
  shows "\<exists>new hk S cs'. MarkAsTip L blk cs = (Inr (), cs') \<and>
     cs' = cs\<lparr>blocks := map (rebranch new hk S) (blocks cs)\<rparr> \<and>
     reorg_ok (blocks cs) new hk S \<and> tip_is cs' blk \<and> new = GetFreeBranchNumber cs"
proof -
  let ?rows = "blocks cs" and ?new = "GetFreeBranchNumber cs"
  obtain t where t: "t \<in> set ?rows" "r_hash t = blk_hash blk" "r_parent t = blk_parent blk"
      "r_height t = blk_height blk"
    using known by (auto simp: block_known_def split: option.splits dest: row_at_SomeD)
  show ?thesis
  proof (cases "r_branch t = 0")
    case True
    let ?S = "{}" and ?hk = "Suc (r_height t)"
    let ?cs = "cs\<lparr>blocks := map (rebranch ?new ?hk ?S) ?rows\<rparr>"
    have ro: "reorg_ok ?rows ?new ?hk ?S" using reorg_ok_main [OF t(1) True] free_branch_above by simp
    have "tip_is ?cs blk"
      by (rule tip_is_rebranch [OF inv ro _ t(1)]) (use True t in \<open>simp_all add: rebranch_branch\<close>)
    with MarkAsTip_main [OF inv t(1) True _ _ room] t ro show ?thesis by metis
  next
    case False
    obtain rs where rs: "side_path ?rows (blk_hash blk) rs"
      using side_path_exists [OF rows_invD(3) [OF inv]] by blast
    have ne: "rs \<noteq> []" using side_path_Nil_iff [OF rs] t(1,2) False by auto
    obtain m where "m \<in> set ?rows" "r_branch m = 0" using inv_has_main [OF inv t(1)] .
    then obtain l where l: "l \<in> set ?rows" "r_branch l = 0" "GetLowestUnprunedHeight cs = int (r_height l)"
      using GetLowest_obtain by blast
    have low: "r_height l \<le> r_height (last rs)"
      using deep ne l(3) fork_within_pruning_iff [OF inv rs] by simp
    let ?S = "r_hash ` set rs" and ?hk = "r_height (last rs)"
    let ?cs = "cs\<lparr>blocks := map (rebranch ?new ?hk ?S) ?rows\<rparr>"
    have ro: "reorg_ok ?rows ?new ?hk ?S"
      using reorg_ok_side [OF inv rs ne _ _ l(1,2) low] free_branch_above by simp
    have hd: "hd rs = t"
      using rs ne t side_path_subset [OF rs] schema_hash_unique [OF rows_invD(1) [OF inv]]
      by (cases rs) (auto dest: side_path_hd)
    then have t_in: "t \<in> set rs" using ne hd_in_set by blast
    have top: "r_height r \<le> r_height t" if "r \<in> set ?rows" "r_hash r \<in> ?S" for r
    proof -
      have "r \<in> set rs" using that side_path_hash_mem [OF rows_invD(1) [OF inv] rs] by blast
      with side_path_heights [OF rows_invD(3) [OF inv] rs] hd ne show ?thesis by (cases rs) auto
    qed
    have br: "r_branch (rebranch ?new ?hk ?S t) = 0"
      using imageI [OF t_in, of r_hash] by (simp only: rebranch_branch if_True simp_thms)
    have hk: "?hk \<le> Suc (r_height t)"
      using side_path_last_min [OF rows_invD(3) [OF inv] rs t_in] by simp
    have "tip_is ?cs blk"
      by (rule tip_is_rebranch [OF inv ro _ t(1) br hk top]) (use t in auto)
    with MarkAsTip_side [OF inv rs ne l(1,2) low room] ro show ?thesis by metis
  qed
qed

subsection \<open>SetTip\<close>

lemma blocks_only:
  assumes "blocks cs' = blocks cs"
  shows "GetLowestUnprunedHeight cs' = GetLowestUnprunedHeight cs"
    "GetFreeBranchNumber cs' = GetFreeBranchNumber cs"
    "tip_is cs' blk \<longleftrightarrow> tip_is cs blk" "block_known cs' blk \<longleftrightarrow> block_known cs blk"
  using assms
  by (simp_all add: GetLowestUnprunedHeight_def GetMainchainHeight_def GetFreeBranchNumber_def
      tip_is_def select_tip_def GetTipHeight_def block_known_def)

lemma fork_within_pruning_blocks:
  assumes "blocks cs' = blocks cs" "chain_inv L cs"
  shows "fork_within_pruning L cs' h \<longleftrightarrow> fork_within_pruning L cs h"
proof -
  obtain rs where "side_path (blocks cs) h rs" using side_path_exists rows_invD(3) [OF assms(2)] by blast
  then show ?thesis
    using fork_within_pruning_iff [of L cs h rs] fork_within_pruning_iff [of L cs' h rs]
      assms(2) blocks_only(1) [OF assms(1)]
    by (simp add: assms(1))
qed

text \<open>The fork branch of a block that was just added starts where that of its parent does.\<close>

lemma fork_within_pruning_insert:
  assumes inv: "chain_inv L cs" and inv': "rows_inv L (blocks cs @ [x])"
    and x: "r_branch x \<noteq> 0" and p: "p \<in> set (blocks cs)" "r_hash p = r_parent x"
    and deep: "fork_within_pruning L cs (r_parent x)"
    and cs1: "blocks cs1 = blocks cs @ [x]"
  shows "fork_within_pruning L cs1 (r_hash x)"
proof -
  note D = rows_invD [OF inv']
  obtain rs where rs: "side_path (blocks cs @ [x]) (r_parent x) rs"
    using side_path_exists [OF D(3)] by blast
  have full: "side_path (blocks cs @ [x]) (r_hash x) (x # rs)"
    using x rs by (intro side_path.step) auto
  have "x \<notin> set rs" using side_path_heights [OF D(3) full] by auto
  then have rs0: "side_path (blocks cs) (r_parent x) rs" using rs by (rule side_path_shrink [rotated])
  have low_eq: "GetLowestUnprunedHeight cs1 = GetLowestUnprunedHeight cs"
    using x cs1 by (simp add: GetLowestUnprunedHeight_def GetMainchainHeight_def)
  have "GetLowestUnprunedHeight cs \<le> int (r_height (last (x # rs)))"
  proof (cases "rs = []")
    case True
    then have "r_branch p = 0" using side_path_Nil_iff [OF rs0] p by simp
    then have "GetLowestUnprunedHeight cs \<le> int (r_height p)" using GetLowest_le p(1) by blast
    moreover have "r_height x = Suc (r_height p)" using heights_linkedD [OF D(3), of x p] p by simp
    ultimately show ?thesis using True by simp
  next
    case False
    then show ?thesis using deep fork_within_pruning_iff [OF inv rs0] by simp
  qed
  with full cs1 inv' low_eq show ?thesis
    using fork_within_pruning_iff [of L cs1 "r_hash x" "x # rs"] by simp
qed

lemma tip_query:
  assumes "chain_inv L cs" "r \<in> set (blocks cs)"
  obtains old where "select_tip cs = [old]"
proof -
  obtain m where "m \<in> set (blocks cs)" "r_branch m = 0" using inv_has_main [OF assms] .
  then show thesis using that GetTip_obtain by metis
qed

lemma withBatch_MarkAsTip:
  assumes inv: "chain_inv L cs" and known: "block_known cs blk"
    and deep: "fork_within_pruning L cs (blk_hash blk)" and room: "GetFreeBranchNumber cs \<le> i64_max"
  shows "\<exists>cs'. withUpdateBatch (MarkAsTip L blk) cs = (Inr (), cs') \<and> tip_updated L cs blk cs'"
proof -
  let ?cs = "cs\<lparr>savepoints := (blocks cs, variables cs) # savepoints cs\<rparr>"
  have b: "blocks ?cs = blocks cs" by simp
  obtain new hk S cs1 where m: "MarkAsTip L blk ?cs = (Inr (), cs1)"
      "cs1 = ?cs\<lparr>blocks := map (rebranch new hk S) (blocks cs)\<rparr>" "reorg_ok (blocks cs) new hk S"
      "tip_is cs1 blk" "new = GetFreeBranchNumber cs"
    using MarkAsTip_ok [of L ?cs blk] assms fork_within_pruning_blocks [OF b inv] blocks_only [OF b]
    by auto
  let ?cs' = "cs1\<lparr>savepoints := savepoints cs\<rparr>"
  have "withUpdateBatch (MarkAsTip L blk) cs = (Inr (), ?cs')"
    using m by (intro withUpdateBatch_ok) auto
  moreover have "tip_updated L cs blk ?cs'"
    using m rebranch_inv [OF inv m(3)] blocks_only(3) [of ?cs' cs1 blk] block_known_key [OF known]
      rebranch_lowest [OF inv m(3), of cs ?cs'] rebranch_free [of ?cs' cs hk S]
    by (auto simp: tip_updated_def image_image insert_absorb)
  ultimately show ?thesis by blast
qed

lemma SetTip_known:
  assumes inv: "chain_inv L cs" and ok: "tip_update_ok L cs blk" and known: "block_known cs blk"
  shows "\<exists>old cs'. select_tip cs = [old] \<and> SetTip L blk cs = (Inr (True, old), cs') \<and>
           tip_updated L cs blk cs'"
proof -
  obtain r where r: "row_at (blocks cs) (blk_hash blk) = Some r" "r_parent r = blk_parent blk"
      "r_height r = blk_height blk"
    using known by (auto simp: block_known_def split: option.splits)
  obtain old where old: "select_tip cs = [old]" using tip_query inv row_at_SomeD [OF r(1)] by metis
  obtain cs' where cs': "withUpdateBatch (MarkAsTip L blk) cs = (Inr (), cs')" "tip_updated L cs blk cs'"
    using withBatch_MarkAsTip [OF inv known] ok by (auto simp: tip_update_ok_def storable_def)
  then have "SetTip L blk cs = (Inr (True, old), cs')"
    using old r rows_invD(1) [OF inv] by (simp add: SetTip_def)
  with old cs' show ?thesis by blast
qed

lemma SetTip_attach:
  assumes inv: "chain_inv L cs" and ok: "tip_update_ok L cs blk" and att: "block_attachable cs blk"
  shows "\<exists>old cs'. select_tip cs = [old] \<and> SetTip L blk cs = (Inr (True, old), cs') \<and>
           tip_updated L cs blk cs'"
proof -
  note D = rows_invD [OF inv]
  let ?new = "GetFreeBranchNumber cs" and ?sp = "(blocks cs, variables cs) # savepoints cs"
  let ?cs = "cs\<lparr>savepoints := ?sp\<rparr>"
  obtain p where p: "row_at (blocks cs) (blk_parent blk) = Some p" "p \<in> set (blocks cs)"
      "r_hash p = blk_parent blk"
    using att row_at_SomeD by (auto simp: block_attachable_def)
  obtain old where old: "select_tip cs = [old]" using tip_query inv p(2) by metis
  obtain d where d: "Serialise L blk = Inr d" "\<And>b. row_ok L \<lparr>r_hash = blk_hash blk,
      r_parent = blk_parent blk, r_height = blk_height blk, r_branch = b, r_data = d\<rparr>"
    using stored_row_ok ok by (metis storable_def tip_update_ok_def)
  define x where "x = \<lparr>r_hash = blk_hash blk, r_parent = blk_parent blk, r_height = blk_height blk,
      r_branch = ?new, r_data = d\<rparr>"
  have x: "r_hash x = blk_hash blk" "r_parent x = blk_parent blk" "r_height x = blk_height blk"
      "r_branch x = ?new" "row_ok L x"
    using d(2) by (simp_all add: x_def)
  have nohash: "\<forall>r\<in>set (blocks cs). r_hash r \<noteq> r_hash x"
    using att x(1) by (simp add: block_attachable_def row_at_None)
  have height: "blk_height blk = r_height p + 1" using ok p by (auto simp: tip_update_ok_def heights_fit_def)
  have small: "blk_height blk \<le> i64_max" "?new < i64_max"
    using ok by (auto simp: tip_update_ok_def storable_def)
  have inv1: "rows_inv L (blocks cs @ [x])"
  proof (rule insert_inv [OF inv, where p = p])
    show "\<forall>r\<in>set (blocks cs). r_parent r = r_hash x \<longrightarrow> r_height r = Suc (r_height x)"
      using ok x by (simp add: tip_update_ok_def heights_fit_def)
  qed (use x small nohash p height free_branch_above in \<open>auto simp: less_imp_neq\<close>)
  let ?cs1 = "?cs\<lparr>blocks := blocks cs @ [x]\<rparr>"
  have ins: "InsertBlock L blk ?new ?cs = (Inr (), ?cs1)"
    using small d(1) rows_invD(1) [OF inv1]
    by (simp add: InsertBlock_def sql_insert_def flip: x_def)
  have known1: "block_known ?cs1 blk"
    using row_at_SomeI [OF rows_invD(1) [OF inv1], of x] x by (simp add: block_known_def)
  have deep1: "fork_within_pruning L ?cs1 (blk_hash blk)"
    using fork_within_pruning_insert [OF inv inv1, of p ?cs1] x p ok att
    by (simp add: tip_update_ok_def block_attachable_def)
  have free1: "GetFreeBranchNumber ?cs1 = Suc ?new"
    using free_branch_snoc [of x ?cs] x(4) GetFree_blocks [of ?cs cs] by simp
  then obtain new hk S cs2 where m: "MarkAsTip L blk ?cs1 = (Inr (), cs2)"
      "cs2 = ?cs1\<lparr>blocks := map (rebranch new hk S) (blocks ?cs1)\<rparr>" "reorg_ok (blocks ?cs1) new hk S"
      "tip_is cs2 blk" "new = GetFreeBranchNumber ?cs1"
    using MarkAsTip_ok [of L ?cs1 blk] inv1 known1 deep1 small by auto
  let ?cs' = "cs2\<lparr>savepoints := savepoints cs\<rparr>"
  have "withUpdateBatch (bindM (getM GetFreeBranchNumber) (\<lambda>new.
       thenM (InsertBlock L blk new) (MarkAsTip L blk))) cs = (Inr (), ?cs')"
    using m ins GetFree_blocks [of ?cs cs] by (intro withUpdateBatch_ok) auto
  then have "SetTip L blk cs = (Inr (True, old), ?cs')"
    using old att p height D(1) by (simp add: SetTip_def block_attachable_def)
  moreover have "r_branch x \<noteq> 0" using x(4) free_branch_pos by (metis less_irrefl)
  then have "GetLowestUnprunedHeight ?cs1 = GetLowestUnprunedHeight cs"
    by (simp add: GetLowestUnprunedHeight_def GetMainchainHeight_def)
  then have low: "GetLowestUnprunedHeight ?cs' = GetLowestUnprunedHeight cs"
    using rebranch_lowest [OF inv1, of new hk S ?cs1 ?cs'] m(2,3) by simp
  have free: "GetFreeBranchNumber ?cs' \<le> ?new + 2"
    using rebranch_free [of ?cs' ?cs1 hk S] m(2,5) free1 by simp
  have "row_key x = blk_key blk" using x by (simp add: row_key_def blk_key_def)
  then have "tip_updated L cs blk ?cs'"
    using m rebranch_inv [OF inv1, of new hk S] blocks_only(3) [of ?cs' cs2 blk] low free
    by (auto simp: tip_updated_def image_image)
  ultimately show ?thesis using old by blast
qed

text \<open>The branches on which nothing is stored.\<close>

lemma SetTip_empty: "blocks cs = [] \<Longrightarrow> SetTip L blk cs = (Inr (False, ''''), cs)"
  using no_main_heights(3) [of cs] by (simp add: SetTip_def)

lemma SetTip_unknown_parent:
  assumes "chain_inv L cs" "row_at (blocks cs) (blk_hash blk) = None"
    and "row_at (blocks cs) (blk_parent blk) = None" "select_tip cs = [old]"
  shows "SetTip L blk cs = (Inr (False, old), cs)"
  using assms rows_invD(1) [OF assms(1)] by (simp add: SetTip_def)

subsection \<open>Prune\<close>

lemma Prune_eq:
  assumes "h \<le> i64_max"
  shows "Prune h cs = (Inr (), cs\<lparr>blocks := prune_rows h (blocks cs)\<rparr>)"
proof -
  let ?cs1 = "cs\<lparr>savepoints := (blocks cs, variables cs) # savepoints cs, blocks := prune_rows h (blocks cs)\<rparr>"
  have "Prune h cs = (Inr (), ?cs1\<lparr>savepoints := savepoints cs\<rparr>)"
    unfolding Prune_def by (rule withUpdateBatch_ok) (use assms in \<open>simp_all add: prune_rows_def\<close>)
  then show ?thesis by simp
qed

lemma prune_inv [inv_intros]:
  assumes inv: "rows_inv L rows" and m: "m \<in> set rows" "r_branch m = 0" "h < r_height m"
  shows "rows_inv L (prune_rows h rows)"
proof -
  note D = rows_invD [OF inv]
  let ?rows = "prune_rows h rows"
  have mem: "r \<in> set ?rows \<longleftrightarrow> r \<in> set rows \<and> (r_branch r = 0 \<longrightarrow> h < r_height r)" for r
    by (auto simp: prune_rows_def)
  have "schema_ok ?rows" using D(1) by (auto simp: schema_ok_def prune_rows_def distinct_map_filter)
  moreover have "heights_linked ?rows" using D(3) by (auto simp: heights_linked_def mem)
  moreover have "branches_contiguous ?rows"
    unfolding branches_contiguous_def
  proof (intro ballI impI)
    fix r q assume rq: "r \<in> set ?rows" "q \<in> set ?rows" "r_branch q = r_branch r" "r_height q < r_height r"
    then obtain p where p: "p \<in> set rows" "r_branch p = r_branch r" "r_hash p = r_parent r"
      using branches_contiguousD [OF D(4), of r q] mem by auto
    have "r_height r = Suc (r_height p)" using heights_linkedD [OF D(3), of r p] rq p mem by simp
    with p rq show "\<exists>p\<in>set ?rows. r_branch p = r_branch r \<and> r_hash p = r_parent r"
      by (intro bexI [of _ p]) (auto simp: mem)
  qed
  moreover have "branches_rooted ?rows"
    unfolding branches_rooted_def
  proof (intro ballI impI)
    fix r assume r: "r \<in> set ?rows" "r_branch r \<noteq> 0"
    show "(\<exists>p\<in>set ?rows. r_hash p = r_parent r) \<or>
        (\<forall>m\<in>set ?rows. r_branch m = 0 \<longrightarrow> r_height r \<le> r_height m)"
    proof (cases "\<exists>p\<in>set rows. r_hash p = r_parent r")
      case True
      then obtain p where p: "p \<in> set rows" "r_hash p = r_parent r" by blast
      have "r_height r = Suc (r_height p)" using heights_linkedD [OF D(3), of r p] r p mem by simp
      with p show ?thesis by (cases "p \<in> set ?rows") (auto simp: mem)
    next
      case False
      with D(5) r show ?thesis by (auto simp: branches_rooted_def mem)
    qed
  qed
  moreover have "has_main ?rows" using m by (auto simp: has_main_def mem)
  ultimately show ?thesis using D(2,7) by (auto simp: rows_inv_def heights_bounded_def mem)
qed

text \<open>What is pruned: exactly the main-chain blocks up to the given height; a block off the main
  chain is never lost.\<close>

lemma prune_set:
  "set (prune_rows h rows) = {r \<in> set rows. r_branch r \<noteq> 0 \<or> h < r_height r}"
  by (auto simp: prune_rows_def)

subsection \<open>ImportTip\<close>

text \<open>Importing an unknown block: the main chain is replaced by it.\<close>

lemma import_new_inv:
  assumes inv: "rows_inv L rows"
    and x: "row_ok L x" "r_height x \<le> i64_max" "r_branch x = 0"
    and fresh: "\<forall>r\<in>set rows. r_hash r \<noteq> r_hash x"
    and above: "\<forall>r\<in>set rows. r_branch r = 0 \<longrightarrow> r_height r < r_height x"
    and fit: "\<forall>r\<in>set rows. r_parent r = r_hash x \<longrightarrow> r_height r = Suc (r_height x)"
      "\<forall>r\<in>set rows. r_hash r = r_parent x \<longrightarrow> r_height x = Suc (r_height r)"
      "r_parent x \<noteq> r_hash x"
  shows "rows_inv L (filter (\<lambda>r. r_branch r \<noteq> 0) rows @ [x])"
proof -
  note D = rows_invD [OF inv]
  let ?side = "filter (\<lambda>r. r_branch r \<noteq> 0) rows"
  have "schema_ok ?side" using D(1) by (auto simp: schema_ok_def distinct_map_filter)
  then have "schema_ok (?side @ [x])" using fresh x by (auto simp: schema_ok_snoc)
  moreover have "heights_linked (?side @ [x])"
    using D(3) fit by (auto simp: heights_linked_def)
  moreover have "branches_contiguous (?side @ [x])"
    using D(4) x(3) by (fastforce simp: branches_contiguous_def)
  moreover have "branches_rooted (?side @ [x])"
    unfolding branches_rooted_def
  proof (intro ballI impI)
    fix r assume "r \<in> set (?side @ [x])" "r_branch r \<noteq> 0"
    with x have r: "r \<in> set rows" "r_branch r \<noteq> 0" by auto
    obtain m where m: "m \<in> set rows" "r_branch m = 0" using D(6) r by (auto simp: has_main_def)
    have "r_height r \<le> r_height x" if "\<not> (\<exists>p\<in>set ?side. r_hash p = r_parent r)"
    proof (cases "\<exists>p\<in>set rows. r_hash p = r_parent r")
      case True
      then obtain p where p: "p \<in> set rows" "r_hash p = r_parent r" by blast
      with that have "r_branch p = 0" by auto
      have "r_height r = Suc (r_height p)" using heights_linkedD [OF D(3), of r p] r p by simp
      with above p \<open>r_branch p = 0\<close> show ?thesis by auto
    next
      case False
      with D(5) r m have "r_height r \<le> r_height m" by (auto simp: branches_rooted_def)
      with above m show ?thesis by fastforce
    qed
    then show "(\<exists>p\<in>set (?side @ [x]). r_hash p = r_parent r) \<or>
        (\<forall>m\<in>set (?side @ [x]). r_branch m = 0 \<longrightarrow> r_height r \<le> r_height m)"
      by (cases "\<exists>p\<in>set ?side. r_hash p = r_parent r") auto
  qed
  moreover have "has_main (?side @ [x])" using x by (simp add: has_main_def)
  ultimately show ?thesis using D(2,7) x by (auto simp: rows_inv_def heights_bounded_def)
qed

lemma tip_importedI:
  assumes inv: "chain_inv L cs" and t: "t \<in> set (blocks cs)" "r_branch t = 0"
    and only: "\<And>m. m \<in> set (blocks cs) \<Longrightarrow> r_branch m = 0 \<Longrightarrow> m = t"
    and blk: "r_hash t = blk_hash blk" "r_parent t = blk_parent blk" "r_height t = blk_height blk"
    and rest: "row_key ` set (blocks cs) \<subseteq> insert (blk_key blk) (row_key ` set (blocks old))"
      "GetFreeBranchNumber cs \<le> GetFreeBranchNumber old + 2"
      "variables cs = variables old" "savepoints cs = savepoints old"
  shows "tip_imported L old blk cs"
proof -
  have "tip_is cs blk" by (rule tip_isI [OF rows_invD(1) [OF inv] t]) (use only blk in auto)
  moreover have "GetLowestUnprunedHeight cs = int (r_height t)"
    using only by (intro GetLowest_eqI [OF t]) auto
  ultimately show ?thesis using inv only blk rest by (auto simp: tip_imported_def)
qed

text \<open>The common frame of both cases: once the batch has produced a state whose main chain is
  the block alone, the final checks of \<^verbatim>\<open>ImportTip\<close> succeed.\<close>

lemma ImportTip_frame:
  assumes above: "GetTipHeight cs \<noteq> -1 \<Longrightarrow> GetTipHeight cs < int (blk_height blk)"
    and body: "bindM (GetHeightForHash (blk_hash blk)) (\<lambda>known.
        thenM (if known \<noteq> None then MarkAsTip L blk else InsertBlock L blk 0)
          (if blk_height blk > 0 then Prune (blk_height blk - 1) else ret ()))
        (cs\<lparr>savepoints := (blocks cs, variables cs) # savepoints cs\<rparr>) = (Inr (), cs1)"
    and sp: "savepoints cs1 = (blocks cs, variables cs) # savepoints cs"
    and imp: "tip_imported L cs blk (cs1\<lparr>savepoints := savepoints cs\<rparr>)"
  shows "ImportTip L blk cs = (Inr (), cs1\<lparr>savepoints := savepoints cs\<rparr>)"
proof -
  let ?cs' = "cs1\<lparr>savepoints := savepoints cs\<rparr>"
  have "GetTipHeight ?cs' = int (blk_height blk)" "GetLowestUnprunedHeight ?cs' = int (blk_height blk)"
    using imp by (auto simp: tip_imported_def tip_is_def)
  moreover have "withUpdateBatch (bindM (GetHeightForHash (blk_hash blk)) (\<lambda>known.
        thenM (if known \<noteq> None then MarkAsTip L blk else InsertBlock L blk 0)
          (if blk_height blk > 0 then Prune (blk_height blk - 1) else ret ()))) cs = (Inr (), ?cs')"
    by (rule withUpdateBatch_ok) (use body sp in auto)
  ultimately show ?thesis using above by (simp add: ImportTip_def)
qed

lemma main_below_tip:
  assumes "r \<in> set (blocks cs)" "r_branch r = 0" "GetTipHeight cs = -1 \<or> GetTipHeight cs < int h"
  shows "r_height r < h"
proof (rule GetTip_obtain [OF assms(1,2)])
  fix t assume t: "GetTipHeight cs = int (r_height t)"
    "\<And>x. x \<in> set (blocks cs) \<Longrightarrow> r_branch x = 0 \<Longrightarrow> r_height x \<le> r_height t"
  show ?thesis using t(1) t(2) [OF assms(1,2)] assms(3) by simp
qed

lemma ImportTip_new:
  assumes inv: "chain_inv L cs" and ok: "import_ok L cs blk"
    and above: "GetTipHeight cs = -1 \<or> GetTipHeight cs < int (blk_height blk)"
    and unknown: "row_at (blocks cs) (blk_hash blk) = None"
  shows "\<exists>cs'. ImportTip L blk cs = (Inr (), cs') \<and> tip_imported L cs blk cs'"
proof -
  let ?rows = "blocks cs" and ?h = "blk_height blk"
  let ?cs = "cs\<lparr>savepoints := (blocks cs, variables cs) # savepoints cs\<rparr>"
  obtain d where d: "Serialise L blk = Inr d" "\<And>b. row_ok L \<lparr>r_hash = blk_hash blk,
      r_parent = blk_parent blk, r_height = ?h, r_branch = b, r_data = d\<rparr>"
    using stored_row_ok ok by (metis storable_def import_ok_def)
  define x where "x = \<lparr>r_hash = blk_hash blk, r_parent = blk_parent blk, r_height = ?h,
      r_branch = 0, r_data = d\<rparr>"
  have x: "r_hash x = blk_hash blk" "r_parent x = blk_parent blk" "r_height x = ?h"
      "r_branch x = 0" "row_ok L x"
    using d(2) by (simp_all add: x_def)
  have nohash: "\<forall>r\<in>set ?rows. r_hash r \<noteq> r_hash x" using unknown x(1) by (simp add: row_at_None)
  have below: "\<forall>r\<in>set ?rows. r_branch r = 0 \<longrightarrow> r_height r < r_height x"
    using main_below_tip above x(3) by simp
  have fit: "\<forall>r\<in>set ?rows. r_parent r = r_hash x \<longrightarrow> r_height r = Suc (r_height x)"
      "\<forall>r\<in>set ?rows. r_hash r = r_parent x \<longrightarrow> r_height x = Suc (r_height r)" "r_parent x \<noteq> r_hash x"
    using ok x by (auto simp: import_ok_def heights_fit_def)
  have small: "?h \<le> i64_max" using ok by (simp add: import_ok_def storable_def)
  let ?new = "filter (\<lambda>r. r_branch r \<noteq> 0) ?rows @ [x]"
  have inv1: "rows_inv L ?new" using import_new_inv [OF inv _ _ _ nohash below fit] x small by simp
  have "schema_ok (?rows @ [x])" using rows_invD(1) [OF inv] nohash below x(4) by (auto simp: schema_ok_snoc)
  then have ins: "InsertBlock L blk 0 ?cs = (Inr (), ?cs\<lparr>blocks := ?rows @ [x]\<rparr>)"
    using small d(1) by (simp add: InsertBlock_def sql_insert_def flip: x_def)
  have pruned: "(if 0 < ?h then Prune (?h - 1) else ret ()) (?cs\<lparr>blocks := ?rows @ [x]\<rparr>) =
      (Inr (), ?cs\<lparr>blocks := ?new\<rparr>)"
  proof (cases "0 < ?h")
    case True
    have "filter (\<lambda>r. \<not> (r_branch r = 0 \<and> r_height r \<le> ?h - 1)) ?rows = filter (\<lambda>r. r_branch r \<noteq> 0) ?rows"
      using below x(3) by (intro filter_cong) auto
    then have "prune_rows (?h - 1) (?rows @ [x]) = ?new" using True x by (simp add: prune_rows_def)
    with True small show ?thesis by (simp add: Prune_eq)
  next
    case False
    then have "filter (\<lambda>r. r_branch r \<noteq> 0) ?rows = ?rows" using below x(3) by (auto intro: filter_True)
    with False show ?thesis by simp
  qed
  have "GetFreeBranchNumber (cs\<lparr>blocks := ?new\<rparr>) \<le> GetFreeBranchNumber cs"
    using free_branch_above [of _ cs] x(4) by (intro free_branch_le) auto
  moreover have "row_key x = blk_key blk" using x by (simp add: row_key_def blk_key_def)
  ultimately have imp: "tip_imported L cs blk (cs\<lparr>blocks := ?new\<rparr>)"
    by (intro tip_importedI [of _ _ x]) (use inv1 x in auto)
  have "ImportTip L blk cs = (Inr (), (?cs\<lparr>blocks := ?new\<rparr>)\<lparr>savepoints := savepoints cs\<rparr>)"
  proof (rule ImportTip_frame)
    show "bindM (GetHeightForHash (blk_hash blk)) (\<lambda>known.
        thenM (if known \<noteq> None then MarkAsTip L blk else InsertBlock L blk 0)
          (if ?h > 0 then Prune (?h - 1) else ret ())) ?cs = (Inr (), ?cs\<lparr>blocks := ?new\<rparr>)"
      using pruned ins unknown rows_invD(1) [OF inv] GetHeightForHash_eq [of ?cs "blk_hash blk"] by simp
  qed (use above imp in auto)
  with imp show ?thesis by auto
qed

lemma ImportTip_known:
  assumes inv: "chain_inv L cs" and ok: "import_ok L cs blk"
    and above: "GetTipHeight cs = -1 \<or> GetTipHeight cs < int (blk_height blk)"
    and known: "row_at (blocks cs) (blk_hash blk) = Some r"
  shows "\<exists>cs'. ImportTip L blk cs = (Inr (), cs') \<and> tip_imported L cs blk cs'"
proof -
  let ?h = "blk_height blk"
  let ?cs = "cs\<lparr>savepoints := (blocks cs, variables cs) # savepoints cs\<rparr>"
  have b: "blocks ?cs = blocks cs" by simp
  have small: "?h \<le> i64_max" using ok by (simp add: import_ok_def storable_def)
  obtain m where "m \<in> set (blocks cs)" "r_branch m = 0"
    using inv_has_main [OF inv] row_at_SomeD [OF known] by blast
  then have pos: "0 < ?h" using main_below_tip above by fastforce
  obtain new hk S cs1 where mk: "MarkAsTip L blk ?cs = (Inr (), cs1)"
      "cs1 = ?cs\<lparr>blocks := map (rebranch new hk S) (blocks cs)\<rparr>" "reorg_ok (blocks cs) new hk S"
      "tip_is cs1 blk" "new = GetFreeBranchNumber cs"
    using MarkAsTip_ok [of L ?cs blk] inv ok known fork_within_pruning_blocks [OF b inv] blocks_only [OF b]
    by (auto simp: import_ok_def storable_def)
  have inv1: "rows_inv L (blocks cs1)" using rebranch_inv [OF inv mk(3)] mk(2) by simp
  obtain t where t: "t \<in> set (blocks cs1)" "r_branch t = 0" "r_hash t = blk_hash blk"
      "r_parent t = blk_parent blk" "r_height t = ?h"
    and top: "GetTipHeight cs1 = int ?h"
    using mk(4) by (auto simp: tip_is_def)
  let ?rows = "prune_rows (?h - 1) (blocks cs1)"
  have inv2: "rows_inv L ?rows" using prune_inv [OF inv1 t(1,2)] t(5) pos by simp
  have only: "m = t" if "m \<in> set ?rows" "r_branch m = 0" for m
  proof -
    have m: "m \<in> set (blocks cs1)" "?h \<le> r_height m" using that pos by (auto simp: prune_set)
    then have "r_height m = ?h" using main_below_tip [of m cs1 "Suc ?h"] that(2) top by simp
    then show "m = t" using schema_slot_unique [OF rows_invD(1) [OF inv1] m(1) t(1)] that t by simp
  qed
  have "GetFreeBranchNumber (cs\<lparr>blocks := ?rows\<rparr>) \<le> GetFreeBranchNumber cs1"
    using free_branch_above [of _ cs1] by (intro free_branch_le) (auto simp: prune_set)
  also have "\<dots> \<le> Suc (GetFreeBranchNumber cs)" using rebranch_free [of cs1 cs hk S] mk(2,5) by simp
  finally have imp: "tip_imported L cs blk (cs\<lparr>blocks := ?rows\<rparr>)"
    by (intro tip_importedI [of _ _ t]) (use inv2 only t pos mk(2) in \<open>auto simp: prune_set image_iff\<close>)
  have pr: "Prune (?h - 1) cs1 = (Inr (), cs1\<lparr>blocks := ?rows\<rparr>)" using small by (simp add: Prune_eq)
  have "ImportTip L blk cs = (Inr (), (cs1\<lparr>blocks := ?rows\<rparr>)\<lparr>savepoints := savepoints cs\<rparr>)"
  proof (rule ImportTip_frame)
    show "bindM (GetHeightForHash (blk_hash blk)) (\<lambda>known.
        thenM (if known \<noteq> None then MarkAsTip L blk else InsertBlock L blk 0)
          (if ?h > 0 then Prune (?h - 1) else ret ())) ?cs = (Inr (), cs1\<lparr>blocks := ?rows\<rparr>)"
      using pos mk(1) pr known rows_invD(1) [OF inv] GetHeightForHash_eq [of ?cs "blk_hash blk"] by simp
  qed (use above imp mk(2) in auto)
  with imp mk(2) show ?thesis by auto
qed

lemma ImportTip_ok:
  assumes "chain_inv L cs" "import_ok L cs blk"
    and "GetTipHeight cs = -1 \<or> GetTipHeight cs < int (blk_height blk)"
  shows "\<exists>cs'. ImportTip L blk cs = (Inr (), cs') \<and> tip_imported L cs blk cs'"
  using ImportTip_new [OF assms] ImportTip_known [OF assms]
  by (cases "row_at (blocks cs) (blk_hash blk)") auto

subsection \<open>SanityCheck\<close>

lemma order_by_DESC_last:
  assumes "order_by DESC k rows = xs" "y \<in> set xs"
  shows "k (last xs) \<le> k y"
proof -
  have "sorted (map k (rev xs))" using assms(1) by (auto simp: order_by_def)
  then show ?thesis using assms(2)
    by (cases xs rule: rev_cases) (auto simp: sorted_wrt_append sorted_wrt_rev)
qed

lemma sanity_rows_path:
  assumes "heights_linked rows" "\<forall>r\<in>set rows. row_ok L r"
  shows "side_path rows h (seg @ rs) \<Longrightarrow> seg \<noteq> [] \<Longrightarrow>
     lh = -1 \<or> (e = h \<and> int (r_height (hd seg)) = lh - 1) \<Longrightarrow>
     sanity_rows L seg lh e = Inr (int (r_height (last seg)), r_parent (last seg))"
proof (induction seg arbitrary: h lh e)
  case (Cons r seg)
  have r: "r \<in> set rows" "r_hash r = h" "side_path rows (r_parent r) (seg @ rs)"
    using Cons.prems(1) by (auto elim: side_path_ConsE)
  have first: "sanity_rows L (r # seg) lh e = sanity_rows L seg (int (r_height r)) (r_parent r)"
    using Cons.prems(3) r assms(2) by (auto simp: read_row_ok)
  show ?case
  proof (cases "seg = []")
    case False
    then obtain q seg' where q: "seg = q # seg'" by (cases seg) auto
    with r(3) have "q \<in> set rows" "r_hash q = r_parent r" by (auto elim: side_path_ConsE)
    then have "r_height r = Suc (r_height q)" using heights_linkedD [OF assms(1) r(1)] by simp
    with Cons.IH [OF r(3) False, of "int (r_height r)" "r_parent r"] first q show ?thesis by simp
  qed (use first in simp)
qed simp

lemma sanity_branch_ok:
  assumes inv: "chain_inv L cs" and b: "b \<in> r_branch ` set (blocks cs)"
  shows "sanity_branch L b cs = (Inr (), cs)"
proof (cases "b = 0")
  case False
  note D = rows_invD [OF inv]
  let ?q = "order_by DESC r_height (filter (\<lambda>r. r_branch r = b) (blocks cs))"
  obtain a as where a: "?q = a # as" using b by (cases ?q) (auto simp: filter_empty_conv)
  have ain: "a \<in> set (blocks cs)" "r_branch a = b" using order_by_in [OF a] by auto
  have "?q = select_branch_below b (r_height a) cs"
    unfolding select_branch_below_def using order_by_DESC_hd [OF a]
    by (intro arg_cong [where f = "order_by DESC r_height"] filter_cong) auto
  moreover obtain rs where rs: "side_path (blocks cs) (r_hash a) rs"
    using side_path_exists [OF D(3)] by blast
  ultimately obtain rs' where path: "side_path (blocks cs) (r_hash a) (?q @ rs')"
    using branch_query_prefix [OF D(1,3,4) ain(1) _ rs] ain(2) False by auto
  let ?l = "last ?q"
  have "?q \<noteq> []" using a by simp
  then have "?l \<in> set ?q" by (rule last_in_set)
  then have l: "?l \<in> set (blocks cs)" "r_branch ?l = b" by simp_all
  have run: "sanity_rows L ?q (-1) '''' = Inr (int (r_height ?l), r_parent ?l)"
    by (rule sanity_rows_path [OF D(3) _ path]) (use D(2) a in simp_all)
  have final: "(case row_at (blocks cs) (r_parent ?l) of
      None \<Rightarrow> bindM (getM GetLowestUnprunedHeight) (\<lambda>low. CHECK (int (r_height ?l) \<le> low))
    | Some p \<Rightarrow> thenM (CHECK (r_branch p \<noteq> b)) (CHECK (int (r_height p) = int (r_height ?l) - 1))) cs
    = (Inr (), cs)"
  proof (cases "row_at (blocks cs) (r_parent ?l)")
    case None
    obtain m where m: "m \<in> set (blocks cs)" "r_branch m = 0" using inv_has_main [OF inv l(1)] .
    obtain k where k: "k \<in> set (blocks cs)" "r_branch k = 0" "GetLowestUnprunedHeight cs = int (r_height k)"
      using GetLowest_obtain [OF m] .
    have "r_height ?l \<le> r_height k"
      using D(5) l False k None by (auto simp: branches_rooted_def row_at_None)
    with None k show ?thesis by simp
  next
    case (Some p)
    then have p: "p \<in> set (blocks cs)" "r_hash p = r_parent ?l" using row_at_SomeD by auto
    have h: "r_height ?l = Suc (r_height p)" using heights_linkedD [OF D(3) l(1) p] .
    have "r_branch p \<noteq> b" using order_by_DESC_last [of r_height _ ?q p] p(1) h by auto
    with Some h show ?thesis by simp
  qed
  show ?thesis
    using False run final D(1) by (simp add: sanity_branch_def)
qed (simp add: sanity_branch_def)

lemma SanityCheck_ok:
  assumes inv: "chain_inv L cs"
  shows "SanityCheck L cs = (Inr (), cs)"
proof (cases "blocks cs = []")
  case False
  have loop: "forM bs (sanity_branch L) cs = (Inr (), cs)" if "set bs \<subseteq> r_branch ` set (blocks cs)" for bs
    using that by (induction bs) (simp_all add: sanity_branch_ok [OF inv])
  have "0 \<in> r_branch ` set (blocks cs)"
    using False inv_has_main [OF inv] by (metis image_eqI list.set_intros(1) list.exhaust)
  with False loop [of "remdups (map r_branch (blocks cs))"] show ?thesis
    by (simp add: SanityCheck_def Let_def)
qed (simp add: SanityCheck_def)

subsection \<open>Reachable states\<close>

lemma chain_inv_blocks: "blocks cs' = blocks cs \<Longrightarrow> chain_inv L cs' \<longleftrightarrow> chain_inv L cs"
  by simp

lemma SetTip_inv [inv_intros]:
  assumes inv: "chain_inv L cs" and ok: "tip_update_ok L cs blk" and res: "SetTip L blk cs = (Inr r, cs')"
  shows "chain_inv L cs'"
proof (cases "blocks cs = []")
  case True
  then show ?thesis using SetTip_empty [of cs L blk] res inv by simp
next
  case False
  then obtain x where "x \<in> set (blocks cs)" by (cases "blocks cs") auto
  then obtain old where old: "select_tip cs = [old]" using tip_query [OF inv] by metis
  note schema = rows_invD(1) [OF inv]
  consider (known) r where "row_at (blocks cs) (blk_hash blk) = Some r"
    | (attach) "block_attachable cs blk"
    | (orphan) "row_at (blocks cs) (blk_hash blk) = None" "row_at (blocks cs) (blk_parent blk) = None"
    unfolding block_attachable_def by (cases "row_at (blocks cs) (blk_hash blk)") blast+
  then show ?thesis
  proof cases
    case known
    then have "block_known cs blk"
      using res old schema by (auto simp: SetTip_def block_known_def prog_Inr)
    then show ?thesis using SetTip_known [OF inv ok] res by (auto simp: tip_updated_def)
  next
    case attach
    then show ?thesis using SetTip_attach [OF inv ok] res by (auto simp: tip_updated_def)
  next
    case orphan
    then show ?thesis using SetTip_unknown_parent [OF inv orphan old] res inv by simp
  qed
qed

lemma ImportTip_inv [inv_intros]:
  assumes inv: "chain_inv L cs" and ok: "import_ok L cs blk" and res: "ImportTip L blk cs = (Inr r, cs')"
  shows "chain_inv L cs'"
proof -
  have "GetTipHeight cs = -1 \<or> GetTipHeight cs < int (blk_height blk)"
    using res by (auto simp: ImportTip_def prog_Inr)
  then show ?thesis using ImportTip_ok [OF inv ok] res by (auto simp: tip_imported_def)
qed

lemma Prune_inv [inv_intros]:
  assumes inv: "chain_inv L cs" and h: "int h < GetTipHeight cs" and res: "Prune h cs = (Inr r, cs')"
  shows "chain_inv L cs'"
proof -
  obtain m where m: "m \<in> set (blocks cs)" "r_branch m = 0" using no_main_heights(1) [of cs] h by fastforce
  obtain t where t: "t \<in> set (blocks cs)" "r_branch t = 0" "h < r_height t"
    by (rule GetTip_obtain [OF m]) (use that h in simp)
  have "h \<le> i64_max"
    using t rows_invD(7) [OF inv] by (fastforce simp: heights_bounded_def)
  then show ?thesis using res prune_inv [OF inv t] by (auto simp: Prune_eq)
qed

lemma SetChain_blocks: "blocks (snd (SetChain c cs)) = blocks cs"
proof -
  have "preserves blocks (SetChain c)"
    unfolding SetChain_def by (intro preserves_bind) (auto split: option.split)
  then show ?thesis by (simp add: preserves_def)
qed

lemma chain_step_inv [inv_intros]: "chain_step L cs cs' \<Longrightarrow> chain_inv L cs \<Longrightarrow> chain_inv L cs'"
proof (induction rule: chain_step.induct)
  case (set_chain c cs res cs')
  then show ?case using SetChain_blocks [of c cs] by simp
qed (auto intro: inv_intros)

lemma chain_reachable_inv: "chain_reachable L cs \<Longrightarrow> chain_inv L cs"
proof (induction rule: chain_reachable.induct)
  case fresh
  show ?case
    by (simp add: Chainstate_new_def rows_inv_def schema_ok_def heights_linked_def
        branches_contiguous_def branches_rooted_def has_main_def heights_bounded_def)
qed (auto intro: chain_step_inv)

text \<open>The main chain has no gaps and is linked by parent hashes.\<close>

lemma main_rows_down:
  assumes inv: "chain_inv L cs" and l: "l \<in> set (blocks cs)" "r_branch l = 0"
    and r: "r \<in> set (blocks cs)" "r_branch r = 0"
  shows "r_height l + k \<le> r_height r \<Longrightarrow>
     \<exists>p\<in>set (blocks cs). r_branch p = 0 \<and> r_height p = r_height r - k"
proof (induction k)
  case 0
  then show ?case using r by auto
next
  case (Suc k)
  then obtain q where q: "q \<in> set (blocks cs)" "r_branch q = 0" "r_height q = r_height r - k" by auto
  have "r_height l < r_height q" using Suc.prems q(3) by arith
  then obtain p where p: "p \<in> set (blocks cs)" "r_branch p = 0" "r_hash p = r_parent q"
    using branches_contiguousD [OF rows_invD(4) [OF inv] q(1) l(1)] l(2) q(2) by auto
  with heights_linkedD [OF rows_invD(3) [OF inv] q(1) p(1)] q show ?case by (intro bexI [of _ p]) auto
qed

lemma main_row_at:
  assumes inv: "chain_inv L cs" and h: "GetLowestUnprunedHeight cs \<le> int h" "int h \<le> GetTipHeight cs"
  obtains r where "r \<in> set (blocks cs)" "r_branch r = 0" "r_height r = h"
proof -
  obtain m where m: "m \<in> set (blocks cs)" "r_branch m = 0" using no_main_heights(1) [of cs] h by fastforce
  obtain l where l: "l \<in> set (blocks cs)" "r_branch l = 0" "GetLowestUnprunedHeight cs = int (r_height l)"
    using GetLowest_obtain [OF m] .
  obtain t where t: "t \<in> set (blocks cs)" "r_branch t = 0" "GetTipHeight cs = int (r_height t)"
    by (rule GetTip_obtain [OF m]) (use that in simp)
  have "r_height l + (r_height t - h) \<le> r_height t" "r_height t - (r_height t - h) = h" using h l t by auto
  then show thesis using main_rows_down [OF inv l(1,2) t(1,2), of "r_height t - h"] that by auto
qed

text \<open>Pruning keeps the tip and moves the lowest main-chain block up to the pruned height.\<close>

lemma Prune_ok:
  assumes inv: "chain_inv L cs" and h: "int h < GetTipHeight cs"
  shows "\<exists>cs'. Prune h cs = (Inr (), cs') \<and> chain_inv L cs' \<and> blocks cs' = prune_rows h (blocks cs) \<and>
    GetTipHeight cs' = GetTipHeight cs \<and>
    GetLowestUnprunedHeight cs' = max (GetLowestUnprunedHeight cs) (int h + 1)"
proof -
  let ?cs = "cs\<lparr>blocks := prune_rows h (blocks cs)\<rparr>"
  obtain m where m: "m \<in> set (blocks cs)" "r_branch m = 0"
    using h no_main_heights(1) [of cs] by force
  obtain t where t: "t \<in> set (blocks cs)" "r_branch t = 0" "GetTipHeight cs = int (r_height t)"
      "\<And>x. x \<in> set (blocks cs) \<Longrightarrow> r_branch x = 0 \<Longrightarrow> r_height x \<le> r_height t"
    using GetTip_obtain [OF m] by metis
  obtain l where l: "l \<in> set (blocks cs)" "r_branch l = 0" "GetLowestUnprunedHeight cs = int (r_height l)"
    using GetLowest_obtain [OF m] by metis
  have low: "r_height l \<le> r_height x" if "x \<in> set (blocks cs)" "r_branch x = 0" for x
    using GetLowest_le [OF that] l(3) by simp
  have "r_height t \<le> i64_max" using rows_invD(7) [OF inv t(1)] .
  then have run: "Prune h cs = (Inr (), ?cs)" using Prune_eq [of h cs] h t(3) by simp
  have inv': "chain_inv L ?cs" using prune_inv [OF inv t(1,2)] h t(3) by simp
  have tip: "GetTipHeight ?cs = int (r_height t)"
    using t h by (intro GetTipHeight_eqI) (auto simp: prune_set)
  have "GetLowestUnprunedHeight ?cs = max (int (r_height l)) (int h + 1)"
  proof (cases "h < r_height l")
    case True
    then show ?thesis using l low by (subst GetLowest_eqI [of l]) (auto simp: prune_set)
  next
    case False
    obtain r where r: "r \<in> set (blocks cs)" "r_branch r = 0" "r_height r = Suc h"
      using main_row_at [OF inv, of "Suc h"] h False l(3) by auto
    then show ?thesis using False by (subst GetLowest_eqI [of r]) (auto simp: prune_set)
  qed
  with run inv' tip t(3) l(3) show ?thesis by simp
qed

lemma main_chain_linked:
  assumes inv: "chain_inv L cs" and h: "GetLowestUnprunedHeight cs \<le> int h" "int h < GetTipHeight cs"
  shows "\<exists>(p::dbrow) r. GetHashForHeight h cs = (Inr (Some (r_hash p)), cs) \<and>
     GetHashForHeight (Suc h) cs = (Inr (Some (r_hash r)), cs) \<and> r \<in> set (blocks cs) \<and> r_parent r = r_hash p"
proof -
  note D = rows_invD [OF inv]
  obtain q where q: "q \<in> set (blocks cs)" "r_branch q = 0" "r_height q = h"
    using main_row_at [OF inv, of h] h by auto
  obtain r where r: "r \<in> set (blocks cs)" "r_branch r = 0" "r_height r = Suc h"
    using main_row_at [OF inv, of "Suc h"] h by auto
  obtain p where p: "p \<in> set (blocks cs)" "r_branch p = 0" "r_hash p = r_parent r"
    using branches_contiguousD [OF D(4) r(1) q(1)] q r by auto
  have "r_height p = r_height q" using heights_linkedD [OF D(3) r(1) p(1,3)] q(3) r(3) by arith
  then have "p = q" using schema_slot_unique [OF D(1) p(1) q(1)] p(2) q(2) by metis
  have bound: "r_height r \<le> i64_max" "r_height q \<le> i64_max" using D(7) r(1) q(1) by (simp_all add: heights_bounded_def)
  have "GetHashForHeight (Suc h) cs = (Inr (Some (r_hash r)), cs)"
    using GetHashForHeight_Some [OF D(1) bound(1) r(1,2) refl] r(3) by simp
  moreover have "GetHashForHeight h cs = (Inr (Some (r_hash q)), cs)"
    using GetHashForHeight_Some [OF D(1) bound(2) q(1,2) refl] q(3) by simp
  ultimately show ?thesis using \<open>p = q\<close> p(3) r(1) by (intro exI [of _ q] exI [of _ r]) simp
qed

subsection \<open>Atomicity\<close>

text \<open>Inside a batch an operation only works above the savepoints it found; it drops its own
  ones unless the process dies.\<close>

definition batch_frame :: "(chainstate, 'a) prog \<Rightarrow> bool" where
  "batch_frame m \<longleftrightarrow> (\<forall>s. case fst (m s) of
      Inr _ \<Rightarrow> savepoints (snd (m s)) = savepoints s
    | Inl (Throw _) \<Rightarrow> savepoints (snd (m s)) = savepoints s
    | Inl _ \<Rightarrow> \<exists>pre. savepoints (snd (m s)) = pre @ savepoints s)"

lemma preserves_batch_frame: "preserves savepoints m \<Longrightarrow> batch_frame m"
  by (auto simp: batch_frame_def preserves_def split: sum.split error.split)

text \<open>When the protected code does not finish, the file is as it was before.\<close>

lemma withUpdateBatch_atomic:
  assumes frame: "batch_frame m" and res: "withUpdateBatch m cs = (Inl e, cs')"
  shows "committed cs' = committed cs"
proof -
  let ?sp = "(blocks cs, variables cs)"
  let ?cs = "cs\<lparr>savepoints := ?sp # savepoints cs\<rparr>"
  obtain r t where m: "m ?cs = (r, t)" by (cases "m ?cs")
  have f: "case r of Inr _ \<Rightarrow> savepoints t = ?sp # savepoints cs
      | Inl (Throw _) \<Rightarrow> savepoints t = ?sp # savepoints cs
      | Inl _ \<Rightarrow> \<exists>pre. savepoints t = pre @ ?sp # savepoints cs"
    using spec [OF frame [unfolded batch_frame_def], of ?cs] unfolding m
    by (cases r) (auto split: error.splits)
  show ?thesis
  proof (cases r)
    case (Inr a)
    with m f res show ?thesis
      by (simp add: withUpdateBatch_def UpdateBatch_begin_def UpdateBatch_Commit_def sql_release_def)
  next
    case (Inl x)
    have w: "withUpdateBatch m cs =
        bindM (catchM m (\<lambda>e. thenM UpdateBatch_revert (failM (Throw e)))) (\<lambda>a. thenM UpdateBatch_Commit (ret a)) ?cs"
      by (simp add: withUpdateBatch_def UpdateBatch_begin_def)
    show ?thesis
    proof (cases "\<exists>ex. x = Throw ex")
      case True
      then obtain ex where "x = Throw ex" ..
      then have "cs' = t\<lparr>blocks := blocks cs, variables := variables cs, savepoints := savepoints cs\<rparr>"
        using w res m f Inl
        by (simp add: UpdateBatch_revert_def sql_rollback_to_def sql_release_def)
      then show ?thesis by (auto simp: committed_def)
    next
      case False
      with Inl m have "catchM m h ?cs = (Inl x, t)" for h by (cases x) (simp_all add: catchM_def)
      with w res have "cs' = t" by simp
      moreover obtain pre where "savepoints t = pre @ ?sp # savepoints cs"
        using f Inl False by (cases x) auto
      ultimately show ?thesis by (auto simp: committed_def)
    qed
  qed
qed

lemma query1_Inl_state: "query1 q cs = (Inl e, cs') \<Longrightarrow> cs' = cs"
  using query1_state [of q cs] by simp

lemma SetTip_atomic:
  assumes "SetTip L blk cs = (Inl e, cs')"
  shows "committed cs' = committed cs"
proof -
  have mark: "batch_frame (MarkAsTip L blk)" by (simp add: preserves_batch_frame)
  have ins: "batch_frame (bindM (getM GetFreeBranchNumber) (\<lambda>new. thenM (InsertBlock L blk new) (MarkAsTip L blk)))"
    by (intro preserves_batch_frame preserves_bind preserves_then) simp_all
  have q: "fst (query1 f cs) = Inl x \<Longrightarrow> query1 f cs = (Inl x, cs)" for f :: "chainstate \<Rightarrow> 'b list" and x
    using query1_state [of f cs] by (cases "query1 f cs") simp
  show ?thesis
    using assms withUpdateBatch_atomic [OF mark, of cs] withUpdateBatch_atomic [OF ins, of cs]
      query1_state [of select_tip cs] query1_state [of "select_hash (blk_hash blk)" cs]
      query1_state [of "select_hash (blk_parent blk)" cs]
    unfolding SetTip_def bindM_def thenM_def CHECK_def
    by (auto split: prod.splits sum.splits option.splits if_splits)
qed

lemma Prune_atomic: "Prune h cs = (Inl e, cs') \<Longrightarrow> committed cs' = committed cs"
  unfolding Prune_def
  by (erule withUpdateBatch_atomic [rotated]) (intro preserves_batch_frame preserves_then, simp_all)

end
