(* ===== verification/CxxString.thy ===== *)
theory CxxString
  imports Prelude
begin

text \<open>
  The operations of \<^verbatim>\<open>std::string\<close> the connectors use to take texts apart: \<^verbatim>\<open>find\<close> for a
  character from a position, \<^verbatim>\<open>substr\<close> with its range check and its clamped length, and the
  hexadecimal output of a stream.  The reference definition \<open>split_on\<close> cuts a text at every
  occurrence of a character; the loops of the code over \<^verbatim>\<open>find\<close> and \<^verbatim>\<open>substr\<close> are compared with it.
\<close>

abbreviation npos :: nat where "npos \<equiv> u64_max"

definition str_find :: "string \<Rightarrow> char \<Rightarrow> nat \<Rightarrow> nat" where
  "str_find s c pos =
     (let pre = takeWhile (\<lambda>x. x \<noteq> c) (drop pos s) in
      if pos + length pre < length s then pos + length pre else npos)"

definition str_substr :: "string \<Rightarrow> nat \<Rightarrow> nat \<Rightarrow> error + string" where
  "str_substr s pos n =
     (if pos > length s then Inl (Throw (StdException ''out_of_range'')) else Inr (take n (drop pos s)))"

text \<open>\<^verbatim>\<open>substr\<close> without a length.\<close>

definition str_from :: "string \<Rightarrow> nat \<Rightarrow> error + string" where
  "str_from s pos = (if pos > length s then Inl (Throw (StdException ''out_of_range'')) else Inr (drop pos s))"

text \<open>Writing an unsigned number to a stream.\<close>

fun show_nat :: "nat \<Rightarrow> string" where
  "show_nat n =
     (if n < 10 then [char_of (48 + n)] else show_nat (n div 10) @ [char_of (48 + n mod 10)])"

declare show_nat.simps [simp del]

definition show_int :: "int \<Rightarrow> string" where
  "show_int i = (if i < 0 then CHR ''-'' # show_nat (nat (- i)) else show_nat (nat i))"

text \<open>Output of an unsigned number with \<^verbatim>\<open>std::hex\<close>.\<close>

definition hex_digit :: "nat \<Rightarrow> char" where
  "hex_digit d = char_of (if d < 10 then 48 + d else 87 + d)"

fun show_hex :: "nat \<Rightarrow> string" where
  "show_hex n = (if n < 16 then [hex_digit n] else show_hex (n div 16) @ [hex_digit (n mod 16)])"

declare show_hex.simps [simp del]

text \<open>The fields of a text between the separators.\<close>

fun split_on :: "char \<Rightarrow> string \<Rightarrow> string list" where
  "split_on c [] = [[]]"
| "split_on c (x # xs) =
     (if x = c then [] # split_on c xs
      else (case split_on c xs of [] \<Rightarrow> [[x]] | f # fs \<Rightarrow> (x # f) # fs))"

fun join_with :: "char \<Rightarrow> string list \<Rightarrow> string" where
  "join_with c [] = []"
| "join_with c [f] = f"
| "join_with c (f # fs) = f @ c # join_with c fs"

subsection \<open>Lemmas\<close>

lemma split_on_ne: "split_on c s \<noteq> []"
  by (cases s) (auto split: list.split)

lemma split_on_absent: "c \<notin> set s \<Longrightarrow> split_on c s = [s]"
  by (induction s) auto

lemma split_on_sep: "c \<notin> set f \<Longrightarrow> split_on c (f @ c # s) = f # split_on c s"
  by (induction f) auto

lemma split_on_join: "fs \<noteq> [] \<Longrightarrow> \<forall>f\<in>set fs. c \<notin> set f \<Longrightarrow> split_on c (join_with c fs) = fs"
  by (induction c fs rule: join_with.induct) (auto simp: split_on_absent split_on_sep)

text \<open>What \<^verbatim>\<open>find\<close> says about the text from a position on.\<close>

lemma takeWhile_first:
  "c \<in> set s \<Longrightarrow> s = takeWhile (\<lambda>x. x \<noteq> c) s @ c # drop (Suc (length (takeWhile (\<lambda>x. x \<noteq> c) s))) s"
  by (induction s) auto

lemma takeWhile_all: "c \<notin> set s \<Longrightarrow> takeWhile (\<lambda>x. x \<noteq> c) s = s"
  by (induction s) auto

lemma str_find_cases [case_names absent present]:
  assumes "length s < npos" "pos \<le> length s"
  obtains "c \<notin> set (drop pos s)" "str_find s c pos = npos"
  | f r where "drop pos s = f @ c # r" "c \<notin> set f" "str_find s c pos = pos + length f"
      "pos + length f < length s" "pos + length f \<noteq> npos"
proof (cases "c \<in> set (drop pos s)")
  case False
  then have "pos + length (takeWhile (\<lambda>x. x \<noteq> c) (drop pos s)) = length s"
    using assms(2) by (simp add: takeWhile_all)
  with that(1) False show thesis by (simp add: str_find_def)
next
  case True
  let ?f = "takeWhile (\<lambda>x. x \<noteq> c) (drop pos s)"
  have eq: "drop pos s = ?f @ c # drop (Suc (length ?f)) (drop pos s)" using takeWhile_first [OF True] .
  have "length (drop pos s) = length ?f + Suc (length (drop (Suc (length ?f)) (drop pos s)))"
    by (subst eq) simp
  then have lt: "pos + length ?f < length s" using assms(2) by simp
  have "c \<notin> set ?f" by (auto dest: set_takeWhileD)
  with that(2) [OF eq] lt assms(1) show thesis by (simp add: str_find_def)
qed

lemma str_find_range: "str_find s c pos \<noteq> npos \<Longrightarrow> pos \<le> str_find s c pos \<and> str_find s c pos < length s"
  by (auto simp: str_find_def Let_def split: if_splits)

end
