(* ===== verification/TestBaseChain.thy ===== *)
theory TestBaseChain
  imports BaseChain ChainstateOps CxxString
begin

text \<open>
  \<^verbatim>\<open>TestBaseChain\<close> of \<^verbatim>\<open>src/testutils.cpp\<close>: the base chain of the repository that is
  implemented in full by its own code, a \<^verbatim>\<open>Chainstate\<close> for the tree of blocks plus a map with
  the data of all of them.  It is the instance of the contract \<open>base_chain\<close> on which the
  lemmas of the clients (the block cache, the sync worker, the controller) are interpreted.  The
  notifier thread is one step, taken when the condition variable was notified.
\<close>

record TestBaseChain =
  tc_chain :: chainstate
  tc_blocks :: "string \<Rightarrow> BlockData option"
  tc_notified :: bool
  tc_started :: bool
  tc_hashCounter :: nat
  tc_mempool :: "string list"
  tc_chainString :: string
  tc_version :: nat
  tc_shouldThrow :: bool
  tc_getBlockRangeCalls :: nat

definition TestBaseChain_new :: TestBaseChain where
  "TestBaseChain_new =
     \<lparr>tc_chain = Chainstate_new, tc_blocks = Map.empty, tc_notified = False, tc_started = False,
      tc_hashCounter = 0, tc_mempool = [], tc_chainString = ''test'', tc_version = 0,
      tc_shouldThrow = False, tc_getBlockRangeCalls = 0\<rparr>"

subsection \<open>Operations\<close>

definition on_chain :: "(chainstate, 'a) prog \<Rightarrow> (TestBaseChain, 'a) prog" where
  "on_chain m = zoomM tc_chain (\<lambda>c t. t\<lparr>tc_chain := c\<rparr>) m"

definition map_at :: "string \<Rightarrow> (TestBaseChain, BlockData) prog" where
  "map_at h = bindM (getM tc_blocks) (\<lambda>m.
     case m h of None \<Rightarrow> failM (Throw (StdException ''out_of_range'')) | Some b \<Rightarrow> ret b)"

definition NewBlockHash :: "(TestBaseChain, string) prog" where
  "NewBlockHash =
     thenM (modifyM (\<lambda>t. t\<lparr>tc_hashCounter := (tc_hashCounter t + 1) mod (u32_max + 1)\<rparr>))
       (getM (\<lambda>t. ''block '' @ show_nat (tc_hashCounter t)))"

definition MaybeThrow :: "(TestBaseChain, unit) prog" where
  "MaybeThrow = bindM (getM tc_shouldThrow) (\<lambda>b.
     if b then failM (Throw (StdException ''simulated base-chain error'')) else ret ())"

definition empty_block :: BlockData where
  "empty_block = \<lparr>blk_hash = '''', blk_parent = '''', blk_height = 0, blk_rngseed = '''',
     blk_metadata = JNull, blk_moves = []\<rparr>"

definition NewGenesis :: "nat \<Rightarrow> (TestBaseChain, BlockData) prog" where
  "NewGenesis h = bindM NewBlockHash (\<lambda>x.
     ret (empty_block\<lparr>blk_hash := x, blk_parent := ''pregenesis'', blk_height := h\<rparr>))"

definition NewBlock_on :: "string \<Rightarrow> (TestBaseChain, BlockData) prog" where
  "NewBlock_on parent = bindM NewBlockHash (\<lambda>x. bindM (map_at parent) (\<lambda>p.
     ret (empty_block\<lparr>blk_hash := x, blk_parent := parent, blk_height := u64_add (blk_height p) 1\<rparr>)))"

text \<open>The tip height is converted to \<^verbatim>\<open>uint64_t\<close> before it is compared with zero.\<close>

definition NewBlock :: "(TestBaseChain, BlockData) prog" where
  "NewBlock =
     bindM (on_chain (getM GetTipHeight)) (\<lambda>h.
     bindM (on_chain (GetHashForHeight (u64_of_int h))) (\<lambda>res.
       case res of None \<Rightarrow> failM Abort | Some parent \<Rightarrow> NewBlock_on parent))"

definition Test_SetGenesis :: "codec \<Rightarrow> BlockData \<Rightarrow> (TestBaseChain, BlockData) prog" where
  "Test_SetGenesis L blk =
     thenM (modifyM (\<lambda>t. t\<lparr>tc_blocks := (tc_blocks t)(blk_hash blk \<mapsto> blk)\<rparr>))
    (thenM (on_chain (ImportTip L blk))
    (thenM (modifyM (tc_notified_update (\<lambda>_. True))) (ret blk)))"

definition Test_SetTip :: "codec \<Rightarrow> BlockData \<Rightarrow> (TestBaseChain, BlockData) prog" where
  "Test_SetTip L blk =
     thenM (modifyM (\<lambda>t. t\<lparr>tc_blocks := (tc_blocks t)(blk_hash blk \<mapsto> blk)\<rparr>))
    (bindM (on_chain (SetTip L blk)) (\<lambda>(ok, oldTip).
     thenM (CHECK ok)
    (thenM (modifyM (tc_notified_update (\<lambda>_. True))) (ret blk))))"

fun AttachBranch_from :: "codec \<Rightarrow> string \<Rightarrow> nat \<Rightarrow> nat \<Rightarrow> (TestBaseChain, BlockData list) prog" where
  "AttachBranch_from L parent i 0 = ret []"
| "AttachBranch_from L parent i (Suc n) =
     bindM (if i = 0 then NewBlock_on parent else NewBlock) (\<lambda>blk.
     thenM (Test_SetTip L blk)
    (bindM (AttachBranch_from L parent (Suc i) n) (\<lambda>res. ret (blk # res))))"

definition AttachBranch :: "codec \<Rightarrow> string \<Rightarrow> nat \<Rightarrow> (TestBaseChain, BlockData list) prog" where
  "AttachBranch L parent n = AttachBranch_from L parent 0 n"

text \<open>The callbacks run on the state of their owner.\<close>

definition AddPending :: "'w base_cb \<Rightarrow> MoveData list \<Rightarrow> (TestBaseChain \<times> 'w, unit) prog" where
  "AddPending b moves =
     thenM (CHECK (moves \<noteq> []))
    (thenM (modifyM (\<lambda>(t, w). (t\<lparr>tc_mempool := tc_mempool t @ [mv_txid (hd moves)]\<rparr>, w)))
       (zoomM snd (\<lambda>w (t, _). (t, w)) (PendingMoves b moves)))"

definition Test_SetChain :: "string \<Rightarrow> (TestBaseChain, unit) prog" where
  "Test_SetChain s = modifyM (tc_chainString_update (\<lambda>_. s))"

definition SetVersion :: "nat \<Rightarrow> (TestBaseChain, unit) prog" where
  "SetVersion v = modifyM (tc_version_update (\<lambda>_. v))"

definition SetShouldThrow :: "bool \<Rightarrow> (TestBaseChain, unit) prog" where
  "SetShouldThrow v = modifyM (tc_shouldThrow_update (\<lambda>_. v))"

definition Test_Start :: "(TestBaseChain, unit) prog" where
  "Test_Start = thenM (bindM (getM tc_started) (\<lambda>s. CHECK (\<not> s)))
     (modifyM (\<lambda>t. t\<lparr>tc_started := True\<rparr>))"

text \<open>One round of the notifier thread, with the hash passed to \<^verbatim>\<open>TipChanged\<close>.\<close>

definition Test_notifier :: "(TestBaseChain, string) prog" where
  "Test_notifier =
     thenM (modifyM (tc_notified_update (\<lambda>_. False)))
    (bindM (on_chain (getM GetTipHeight)) (\<lambda>h.
     bindM (on_chain (GetHashForHeight (u64_of_int h))) (\<lambda>res.
       case res of None \<Rightarrow> failM Abort | Some newTip \<Rightarrow> ret newTip)))"

definition Test_GetTipHeight :: "(TestBaseChain, nat) prog" where
  "Test_GetTipHeight =
     thenM MaybeThrow
    (bindM (on_chain (getM GetTipHeight)) (\<lambda>h. thenM (CHECK (h \<ge> 0)) (ret (u64_of_int h))))"

text \<open>The loop stops at the first height without a block.\<close>

fun Test_range_loop :: "nat list \<Rightarrow> (TestBaseChain, BlockData list) prog" where
  "Test_range_loop [] = ret []"
| "Test_range_loop (h # hs) =
     bindM (on_chain (GetHashForHeight h)) (\<lambda>res.
       case res of
         None \<Rightarrow> ret []
       | Some x \<Rightarrow> bindM (map_at x) (\<lambda>b. bindM (Test_range_loop hs) (\<lambda>bs. ret (b # bs))))"

definition Test_GetBlockRange :: "nat \<Rightarrow> nat \<Rightarrow> (TestBaseChain, BlockData list) prog" where
  "Test_GetBlockRange start count =
     thenM MaybeThrow
    (thenM (modifyM (\<lambda>t. t\<lparr>tc_getBlockRangeCalls := (tc_getBlockRangeCalls t + 1) mod (u32_max + 1)\<rparr>))
       (Test_range_loop [start..<u64_add start count]))"

definition Test_GetMainchainHeight :: "string \<Rightarrow> (TestBaseChain, int) prog" where
  "Test_GetMainchainHeight hash =
     thenM MaybeThrow
    (bindM (on_chain (GetHeightForHash hash)) (\<lambda>res.
       case res of
         None \<Rightarrow> ret (-1)
       | Some height \<Rightarrow>
           bindM (on_chain (GetHashForHeight height)) (\<lambda>main.
             if main = Some hash then ret (int height) else ret (-1))))"

definition Test_GetMempool :: "(TestBaseChain, string list) prog" where
  "Test_GetMempool = thenM MaybeThrow (getM tc_mempool)"

definition Test_GetChain :: "(TestBaseChain, string) prog" where
  "Test_GetChain = thenM MaybeThrow (getM tc_chainString)"

definition Test_GetVersion :: "(TestBaseChain, nat) prog" where
  "Test_GetVersion = thenM MaybeThrow (getM tc_version)"

definition Test_EnablePending :: "(TestBaseChain, bool) prog" where
  "Test_EnablePending = ret True"

definition Test_VerifyMessage :: "string \<Rightarrow> string \<Rightarrow> (TestBaseChain, string option) prog" where
  "Test_VerifyMessage msg signature = failM Abort"

definition GetBlockRangeCalls :: "(TestBaseChain, nat) prog" where
  "GetBlockRangeCalls = getM tc_getBlockRangeCalls"

text \<open>The destructor joins the notifier, when there is one.\<close>

definition TestBaseChain_destroy :: "(TestBaseChain, unit) prog" where
  "TestBaseChain_destroy =
     bindM (getM tc_started) (\<lambda>notifier.
       if notifier then modifyM (\<lambda>t. t\<lparr>tc_started := False\<rparr>) else ret ())"

definition TestChain :: "TestBaseChain BaseChain" where
  "TestChain =
     \<lparr>bc_Start = Test_Start, bc_EnablePending = Test_EnablePending, bc_GetTipHeight = Test_GetTipHeight,
      bc_GetBlockRange = Test_GetBlockRange, bc_GetMainchainHeight = Test_GetMainchainHeight,
      bc_GetMempool = Test_GetMempool, bc_VerifyMessage = Test_VerifyMessage,
      bc_GetChain = Test_GetChain, bc_GetVersion = Test_GetVersion\<rparr>"

subsection \<open>The main chain it represents\<close>

definition Test_view :: "TestBaseChain \<Rightarrow> mainchain" where
  "Test_view t h =
     (case fst (GetHashForHeight h (tc_chain t)) of
        Inr (Some x) \<Rightarrow> tc_blocks t x
      | _ \<Rightarrow> None)"

definition Test_tip :: "TestBaseChain \<Rightarrow> nat" where
  "Test_tip t = nat (GetTipHeight (tc_chain t))"

text \<open>The map has the data of every block of the tree.\<close>

definition Test_data_ok :: "TestBaseChain \<Rightarrow> bool" where
  "Test_data_ok t \<longleftrightarrow>
     (\<forall>r\<in>set (blocks (tc_chain t)).
        case tc_blocks t (r_hash r) of
          None \<Rightarrow> False
        | Some b \<Rightarrow> blk_hash b = r_hash r \<and> blk_parent b = r_parent r \<and> blk_height b = r_height r)"

definition Test_ready :: "codec \<Rightarrow> TestBaseChain \<Rightarrow> bool" where
  "Test_ready L t \<longleftrightarrow> chain_inv L (tc_chain t) \<and> Test_data_ok t \<and> \<not> tc_shouldThrow t \<and>
     0 \<le> GetTipHeight (tc_chain t)"

subsection \<open>It satisfies the contract\<close>

lemma on_chain_Inr [simp]:
  "m (tc_chain t) = (Inr a, c) \<Longrightarrow> on_chain m t = (Inr a, t\<lparr>tc_chain := c\<rparr>)"
  by (simp add: on_chain_def zoomM_def)

lemma same_chain [simp]: "t\<lparr>tc_chain := tc_chain t\<rparr> = t"
  by simp

lemma MaybeThrow_ready [simp]: "\<not> tc_shouldThrow t \<Longrightarrow> MaybeThrow t = (Inr (), t)"
  by (simp add: MaybeThrow_def)

text \<open>What a height of the main chain holds.\<close>

lemma Test_view_Some:
  assumes "chain_inv L (tc_chain t)" "Test_data_ok t"
    and r: "r \<in> set (blocks (tc_chain t))" "r_branch r = 0"
  obtains b where "Test_view t (r_height r) = Some b" "tc_blocks t (r_hash r) = Some b"
    "blk_hash b = r_hash r" "blk_parent b = r_parent r" "blk_height b = r_height r"
proof -
  note D = rows_invD [OF assms(1)]
  have "r_height r \<le> i64_max" using D(7) r by (simp add: heights_bounded_def)
  then have "GetHashForHeight (r_height r) (tc_chain t) = (Inr (Some (r_hash r)), tc_chain t)"
    using GetHashForHeight_Some [OF D(1) _ r refl] by simp
  with assms(2) r(1) that show thesis
    by (fastforce simp: Test_view_def Test_data_ok_def split: option.splits)
qed

lemma Test_view_SomeD:
  assumes inv: "chain_inv L (tc_chain t)" and "Test_data_ok t" and v: "Test_view t h = Some b"
  obtains r where "r \<in> set (blocks (tc_chain t))" "r_branch r = 0" "r_height r = h"
    "blk_hash b = r_hash r" "blk_parent b = r_parent r" "blk_height b = h"
proof -
  have bound: "h \<le> i64_max"
    using v by (auto simp: Test_view_def GetHashForHeight_def thenM_def bindM_def Bind_uint64_def CHECK_def
        split: if_splits)
  have "\<exists>r\<in>set (blocks (tc_chain t)). r_branch r = 0 \<and> r_height r = h"
  proof (rule ccontr)
    assume "\<not> (\<exists>r\<in>set (blocks (tc_chain t)). r_branch r = 0 \<and> r_height r = h)"
    then have "GetHashForHeight h (tc_chain t) = (Inr None, tc_chain t)"
      using GetHashForHeight_None [OF bound, of "tc_chain t"] by blast
    with v show False by (simp add: Test_view_def)
  qed
  then obtain r where r: "r \<in> set (blocks (tc_chain t))" "r_branch r = 0" "r_height r = h" by blast
  with Test_view_Some [OF assms(1,2) r(1,2)] v that show thesis by auto
qed

lemma Test_mainchain_ok:
  assumes "Test_ready L t"
  shows "mainchain_ok (Test_view t) (Test_tip t)"
proof -
  let ?cs = "tc_chain t"
  have inv: "chain_inv L ?cs" and ok: "Test_data_ok t" and pos: "0 \<le> GetTipHeight ?cs"
    using assms by (auto simp: Test_ready_def)
  note D = rows_invD [OF inv]
  have tip: "int (Test_tip t) = GetTipHeight ?cs" using pos by (simp add: Test_tip_def)
  have have_at: "\<exists>b. Test_view t k = Some b" if "GetLowestUnprunedHeight ?cs \<le> int k" "k \<le> Test_tip t" for k
    using main_row_at [OF inv that(1)] that(2) tip Test_view_Some [OF inv ok] by (metis of_nat_le_iff)
  have low: "GetLowestUnprunedHeight ?cs \<le> int h" "h \<le> Test_tip t" if v: "Test_view t h = Some b" for h b
  proof -
    obtain r where r: "r \<in> set (blocks ?cs)" "r_branch r = 0" "r_height r = h"
      using Test_view_SomeD [OF inv ok v] by metis
    show "GetLowestUnprunedHeight ?cs \<le> int h" using GetLowest_le [OF r(1,2)] r(3) by simp
    show "h \<le> Test_tip t" using main_below_tip [OF r(1,2), of "Suc (Test_tip t)"] tip r(3) by simp
  qed
  have link: "blk_parent b = blk_hash a" if v: "Test_view t h = Some a" "Test_view t (Suc h) = Some b" for h a b
  proof -
    obtain q where q: "q \<in> set (blocks ?cs)" "r_branch q = 0" "r_height q = h" "blk_hash a = r_hash q"
      using Test_view_SomeD [OF inv ok v(1)] by metis
    obtain r where r: "r \<in> set (blocks ?cs)" "r_branch r = 0" "r_height r = Suc h" "blk_parent b = r_parent r"
      using Test_view_SomeD [OF inv ok v(2)] by metis
    obtain p where p: "p \<in> set (blocks ?cs)" "r_branch p = 0" "r_hash p = r_parent r"
      using branches_contiguousD [OF D(4) r(1) q(1)] q(2,3) r(2,3) by auto
    have "r_height p = r_height q" using heights_linkedD [OF D(3) r(1) p(1,3)] q(3) r(3) by arith
    then have "p = q" using schema_slot_unique [OF D(1) p(1) q(1)] p(2) q(2) by metis
    with p q r show ?thesis by simp
  qed
  have uniq: "h = k" if "Test_view t h = Some a" "Test_view t k = Some b" "blk_hash a = blk_hash b" for h k a b
    using Test_view_SomeD [OF inv ok that(1)] Test_view_SomeD [OF inv ok that(2)] that(3)
      schema_hash_unique [OF D(1)] by metis
  have height: "blk_height b = h" if "Test_view t h = Some b" for h b
    using Test_view_SomeD [OF inv ok that] by metis
  obtain m where m: "m \<in> set (blocks ?cs)" "r_branch m = 0" using no_main_heights(1) [of ?cs] pos by fastforce
  have top: "(\<exists>b. Test_view t (Test_tip t) = Some b) \<and> Test_tip t \<le> i64_max"
  proof (rule GetTip_obtain [OF m])
    fix x assume x: "x \<in> set (blocks ?cs)" "r_branch x = 0" "GetTipHeight ?cs = int (r_height x)"
    then have "Test_tip t = r_height x" by (simp add: Test_tip_def)
    with x Test_view_Some [OF inv ok x(1,2)] D(7)
    show "(\<exists>b. Test_view t (Test_tip t) = Some b) \<and> Test_tip t \<le> i64_max"
      by (auto simp: heights_bounded_def)
  qed
  show ?thesis
  proof (rule mainchain_okI)
    show "\<exists>c. Test_view t k = Some c" if "Test_view t h = Some b" "h \<le> k" "k \<le> Test_tip t" for h b k
      using have_at [of k] low(1) [OF that(1)] that(2,3) by simp
  qed (use top in \<open>simp_all add: height low(2) link uniq\<close>)
qed

lemma Test_range_loop_eq:
  assumes inv: "chain_inv L (tc_chain t)" and ok: "Test_data_ok t"
  shows "start + count \<le> i64_max \<Longrightarrow>
     Test_range_loop [start..<start + count] t = (Inr (block_slice (Test_view t) start count), t)"
proof (induction count arbitrary: start)
  case (Suc n)
  then have small: "start \<le> i64_max" by simp
  have IH: "Test_range_loop [Suc start..<start + Suc n] t = (Inr (block_slice (Test_view t) (Suc start) n), t)"
    using Suc.IH [of "Suc start"] Suc.prems by simp
  have list: "[start..<start + Suc n] = start # [Suc start..<start + Suc n]" by (simp add: upt_rec)
  show ?case
  proof (cases "\<exists>r\<in>set (blocks (tc_chain t)). r_branch r = 0 \<and> r_height r = start")
    case True
    then obtain r where r: "r \<in> set (blocks (tc_chain t))" "r_branch r = 0" "r_height r = start" by blast
    have "GetHashForHeight start (tc_chain t) = (Inr (Some (r_hash r)), tc_chain t)"
      using GetHashForHeight_Some [OF rows_invD(1) [OF inv] small r] .
    moreover obtain b where "Test_view t start = Some b" "tc_blocks t (r_hash r) = Some b"
      using Test_view_Some [OF inv ok r(1,2)] r(3) by metis
    ultimately show ?thesis using IH unfolding list by (simp add: map_at_def)
  next
    case False
    then have "GetHashForHeight start (tc_chain t) = (Inr None, tc_chain t)"
      using GetHashForHeight_None [OF small, of "tc_chain t"] by blast
    then show ?thesis unfolding list by (simp add: Test_view_def)
  qed
qed simp

text \<open>Only the counter of calls changes in a query.\<close>

lemma Test_calls_irrelevant [simp]:
  "Test_view (t\<lparr>tc_getBlockRangeCalls := n\<rparr>) = Test_view t"
  "Test_tip (t\<lparr>tc_getBlockRangeCalls := n\<rparr>) = Test_tip t"
  "Test_ready L (t\<lparr>tc_getBlockRangeCalls := n\<rparr>) \<longleftrightarrow> Test_ready L t"
  by (auto simp: fun_eq_iff Test_view_def Test_tip_def Test_ready_def Test_data_ok_def
      split: sum.split option.split)

lemma Test_GetTipHeight_eq:
  assumes "Test_ready L t"
  shows "Test_GetTipHeight t = (Inr (Test_tip t), t)"
proof -
  have "GetTipHeight (tc_chain t) \<le> int i64_max"
    using mainchain_okD(7) [OF Test_mainchain_ok [OF assms]] assms by (simp add: Test_tip_def Test_ready_def)
  with assms show ?thesis by (simp add: Test_GetTipHeight_def Test_ready_def Test_tip_def)
qed

lemma Test_GetBlockRange_eq:
  assumes "Test_ready L t" "start + count \<le> i64_max"
  shows "\<exists>n. Test_GetBlockRange start count t =
     (Inr (block_slice (Test_view t) start count), t\<lparr>tc_getBlockRangeCalls := n\<rparr>)"
proof -
  let ?t = "t\<lparr>tc_getBlockRangeCalls := (tc_getBlockRangeCalls t + 1) mod (u32_max + 1)\<rparr>"
  have "Test_ready L ?t" using assms(1) by simp
  then have "Test_range_loop [start..<start + count] ?t = (Inr (block_slice (Test_view ?t) start count), ?t)"
    using Test_range_loop_eq [OF _ _ assms(2)] unfolding Test_ready_def by blast
  with assms have "Test_GetBlockRange start count t = (Inr (block_slice (Test_view t) start count), ?t)"
    by (simp add: Test_GetBlockRange_def Test_ready_def)
  then show ?thesis by blast
qed

lemma Test_GetMainchainHeight_eq:
  assumes "Test_ready L t"
  shows "\<exists>r. Test_GetMainchainHeight hash t = (Inr r, t) \<and> mainheight_ok (Test_view t) hash r"
proof -
  have inv: "chain_inv L (tc_chain t)" and ok: "Test_data_ok t" and thr: "\<not> tc_shouldThrow t"
    using assms by (auto simp: Test_ready_def)
  note D = rows_invD [OF inv]
  note look = GetHeightForHash_eq [OF D(1), of hash]
  have none: "mainheight_ok (Test_view t) hash (-1)"
    if "\<And>r. r \<in> set (blocks (tc_chain t)) \<Longrightarrow> r_hash r = hash \<Longrightarrow> r_branch r \<noteq> 0"
    using that Test_view_SomeD [OF inv ok] unfolding mainheight_ok_def by metis
  show ?thesis
  proof (cases "row_at (blocks (tc_chain t)) hash")
    case None
    then have "mainheight_ok (Test_view t) hash (-1)" using none by (auto simp: row_at_None)
    with None look thr show ?thesis by (simp add: Test_GetMainchainHeight_def)
  next
    case (Some r)
    then have r: "r \<in> set (blocks (tc_chain t))" "r_hash r = hash" using row_at_SomeD by auto
    have small: "r_height r \<le> i64_max" using D(7) r(1) by (simp add: heights_bounded_def)
    show ?thesis
    proof (cases "\<exists>m\<in>set (blocks (tc_chain t)). r_branch m = 0 \<and> r_height m = r_height r")
      case True
      then obtain m where m: "m \<in> set (blocks (tc_chain t))" "r_branch m = 0" "r_height m = r_height r" by blast
      have q: "GetHashForHeight (r_height r) (tc_chain t) = (Inr (Some (r_hash m)), tc_chain t)"
        using GetHashForHeight_Some [OF D(1) small m] .
      show ?thesis
      proof (cases "r_hash m = hash")
        case True
        obtain b where "Test_view t (r_height m) = Some b" "blk_hash b = r_hash m"
          using Test_view_Some [OF inv ok m(1,2)] by metis
        then have "mainheight_ok (Test_view t) hash (int (r_height r))"
          using True m(3) by (auto simp: mainheight_ok_def)
        with Some look thr q True show ?thesis by (simp add: Test_GetMainchainHeight_def)
      next
        case False
        have "r_branch r \<noteq> 0"
          using schema_slot_unique [OF D(1) r(1) m(1)] m(2,3) False r(2) by metis
        then have "mainheight_ok (Test_view t) hash (-1)" using none schema_hash_unique [OF D(1) _ r(1)] r(2) by metis
        with Some look thr q False show ?thesis by (simp add: Test_GetMainchainHeight_def)
      qed
    next
      case False
      then have q: "GetHashForHeight (r_height r) (tc_chain t) = (Inr None, tc_chain t)"
        using GetHashForHeight_None [OF small, of "tc_chain t"] by blast
      have "r_branch r \<noteq> 0" using False r(1) by auto
      then have "mainheight_ok (Test_view t) hash (-1)" using none schema_hash_unique [OF D(1) _ r(1)] r(2) by metis
      with Some look thr q show ?thesis by (simp add: Test_GetMainchainHeight_def)
    qed
  qed
qed

interpretation test: base_chain TestChain Test_view Test_tip "Test_ready L"
  for L
proof
  fix b start count hash
  show "Test_ready L b \<Longrightarrow> \<exists>r b'. bc_GetMainchainHeight TestChain hash b = (Inr r, b') \<and>
      mainheight_ok (Test_view b) hash r \<and> Test_ready L b' \<and> Test_view b' = Test_view b \<and> Test_tip b' = Test_tip b"
    using Test_GetMainchainHeight_eq [of L b hash] by (auto simp: TestChain_def)
  show "Test_ready L b \<Longrightarrow> mainchain_ok (Test_view b) (Test_tip b)" by (rule Test_mainchain_ok)
  show "Test_ready L b \<Longrightarrow> \<exists>b'. bc_GetTipHeight TestChain b = (Inr (Test_tip b), b') \<and>
      Test_ready L b' \<and> Test_view b' = Test_view b \<and> Test_tip b' = Test_tip b"
    by (simp add: TestChain_def Test_GetTipHeight_eq)
  show "Test_ready L b \<Longrightarrow> start + count \<le> i64_max \<Longrightarrow>
      \<exists>b'. bc_GetBlockRange TestChain start count b = (Inr (block_slice (Test_view b) start count), b') \<and>
        Test_ready L b' \<and> Test_view b' = Test_view b \<and> Test_tip b' = Test_tip b"
    using Test_GetBlockRange_eq [of L b start count] by (auto simp: TestChain_def)
qed

end
