(* ===== verification/BlockCache.thy ===== *)
theory BlockCache
  imports TestBaseChain
begin

text \<open>
  \<^verbatim>\<open>src/blockcache.hpp\<close>, \<^verbatim>\<open>src/blockcache.cpp\<close> and \<^verbatim>\<open>src/cache/mysql.cpp\<close>: the base
  chain that caches blocks deep below the tip, and its two storages.  The interface
  \<^verbatim>\<open>BlockCacheChain::Storage\<close> is the locale \<open>block_storage\<close>; the cache is verified once
  in the locale \<open>block_cache\<close> for every base chain and storage that keep their contracts, and
  is a base chain again.
\<close>

subsection \<open>BlockCacheChain\<close>

record 's Storage =
  st_Store :: "BlockData list \<Rightarrow> ('s, unit) prog"
  st_GetRange :: "nat \<Rightarrow> nat \<Rightarrow> ('s, BlockData list) prog"

record ('b, 's) cache_state =
  cc_base :: 'b
  cc_store :: 's
  cc_lastTipHeight :: nat

definition on_base :: "('b, 'a) prog \<Rightarrow> (('b, 's) cache_state, 'a) prog" where
  "on_base m = zoomM cc_base (\<lambda>b c. c\<lparr>cc_base := b\<rparr>) m"

definition on_store :: "('s, 'a) prog \<Rightarrow> (('b, 's) cache_state, 'a) prog" where
  "on_store m = zoomM cc_store (\<lambda>s c. c\<lparr>cc_store := s\<rparr>) m"

definition Cache_GetTipHeight :: "'b BaseChain \<Rightarrow> (('b, 's) cache_state, nat) prog" where
  "Cache_GetTipHeight base =
     bindM (on_base (bc_GetTipHeight base)) (\<lambda>h.
     thenM (modifyM (\<lambda>c. c\<lparr>cc_lastTipHeight := h\<rparr>)) (getM cc_lastTipHeight))"

text \<open>All sums are sums of \<^verbatim>\<open>uint64_t\<close>.\<close>

definition Cache_GetBlockRange ::
  "'b BaseChain \<Rightarrow> 's Storage \<Rightarrow> nat \<Rightarrow> nat \<Rightarrow> nat \<Rightarrow> (('b, 's) cache_state, BlockData list) prog" where
  "Cache_GetBlockRange base store minDepth start count =
     bindM (getM cc_lastTipHeight) (\<lambda>lastTipHeight.
       if u64_add (u64_add start count) minDepth > u64_add lastTipHeight 1 then
         on_base (bc_GetBlockRange base start count)
       else
         bindM (on_store (st_GetRange store start count)) (\<lambda>res.
           if length res = count then ret res
           else
             bindM (on_base (bc_GetBlockRange base start count)) (\<lambda>res.
             thenM (on_store (st_Store store res)) (ret res))))"

definition BlockCacheChain :: "'b BaseChain \<Rightarrow> 's Storage \<Rightarrow> nat \<Rightarrow> ('b, 's) cache_state BaseChain" where
  "BlockCacheChain base store minDepth =
     \<lparr>bc_Start = on_base (bc_Start base), bc_EnablePending = on_base (bc_EnablePending base),
      bc_GetTipHeight = Cache_GetTipHeight base,
      bc_GetBlockRange = Cache_GetBlockRange base store minDepth,
      bc_GetMainchainHeight = (\<lambda>h. on_base (bc_GetMainchainHeight base h)),
      bc_GetMempool = on_base (bc_GetMempool base),
      bc_VerifyMessage = (\<lambda>m s. on_base (bc_VerifyMessage base m s)),
      bc_GetChain = on_base (bc_GetChain base), bc_GetVersion = on_base (bc_GetVersion base)\<rparr>"

subsection \<open>InMemoryBlockStorage\<close>

type_synonym mem_store = "(nat \<times> BlockData) list"

definition Mem_Store :: "BlockData list \<Rightarrow> (mem_store, unit) prog" where
  "Mem_Store bs = forM bs (\<lambda>blk. modifyM (smap_emplace (blk_height blk) blk))"

text \<open>The loop from the iterator found, over the entries behind it.\<close>

fun Mem_range_loop :: "nat \<Rightarrow> BlockData list \<Rightarrow> mem_store \<Rightarrow> BlockData list" where
  "Mem_range_loop count res rest =
     (if length res < count then
        (case rest of
           [] \<Rightarrow> []
         | e # rest' \<Rightarrow>
             if blk_height (snd e) \<noteq> u64_add (blk_height (last res)) 1 then []
             else Mem_range_loop count (res @ [snd e]) rest')
      else res)"

declare Mem_range_loop.simps [simp del]

definition Mem_GetRange :: "nat \<Rightarrow> nat \<Rightarrow> (mem_store, BlockData list) prog" where
  "Mem_GetRange start count =
     getM (\<lambda>data.
       case dropWhile (\<lambda>e. fst e \<noteq> start) data of
         [] \<Rightarrow> []
       | e # rest \<Rightarrow> Mem_range_loop count [snd e] rest)"

definition InMemoryBlockStorage :: "mem_store Storage" where
  "InMemoryBlockStorage = \<lparr>st_Store = Mem_Store, st_GetRange = Mem_GetRange\<rparr>"

subsection \<open>MySqlBlockStorage\<close>

text \<open>The table with primary key \<^verbatim>\<open>height\<close>, and the outcomes of the statements still to be
  executed: \<open>False\<close> makes \<^verbatim>\<open>Execute\<close> or \<^verbatim>\<open>Query\<close> throw a \<^verbatim>\<open>mypp::Error\<close>.  A height is
  bound as \<^verbatim>\<open>int64_t\<close>; a negative value does not fit the unsigned column and is an error.\<close>

record mysql =
  my_rows :: "(nat \<times> string) list"
  my_outcomes :: "bool list"

definition mypp_outcome :: "(mysql, bool) prog" where
  "mypp_outcome = bindM (getM my_outcomes) (\<lambda>os.
     case os of [] \<Rightarrow> ret True | ok # rest \<Rightarrow> thenM (modifyM (my_outcomes_update (\<lambda>_. rest))) (ret ok))"

definition MySql_Store :: "codec \<Rightarrow> BlockData list \<Rightarrow> (mysql, unit) prog" where
  "MySql_Store L bs = forM bs (\<lambda>b.
     bindM (liftE (Serialise L b)) (\<lambda>d.
     bindM mypp_outcome (\<lambda>ok.
       if ok \<and> int64_of (blk_height b) \<ge> 0 then
         modifyM (\<lambda>s. s\<lparr>my_rows := smap_set (nat (int64_of (blk_height b))) d (my_rows s)\<rparr>)
       else ret ())))"

definition MySql_GetRange :: "codec \<Rightarrow> nat \<Rightarrow> nat \<Rightarrow> (mysql, BlockData list) prog" where
  "MySql_GetRange L start count =
     bindM mypp_outcome (\<lambda>ok.
       if \<not> ok then ret []
       else
         bindM (getM (\<lambda>s. filter (\<lambda>e. int64_of start \<le> int (fst e) \<and>
                 int (fst e) < int64_of (u64_add start count)) (my_rows s))) (\<lambda>rows.
         liftE (mapE (\<lambda>e. Deserialise L (snd e)) rows)))"

definition MySqlBlockStorage :: "codec \<Rightarrow> mysql Storage" where
  "MySqlBlockStorage L = \<lparr>st_Store = MySql_Store L, st_GetRange = MySql_GetRange L\<rparr>"

text \<open>Connecting: the parser of the URL and the connection of the \<^verbatim>\<open>mypp\<close> library are
  parameters; a parse error is \<open>None\<close>.\<close>

record mypp_url =
  url_host :: string
  url_port :: nat
  url_user :: string
  url_password :: string
  url_database :: string
  url_table :: "string option"
  url_HasOption :: "string \<Rightarrow> bool"
  url_GetOption :: "string \<Rightarrow> string"

record mypp_lib =
  mypp_parse :: "string \<Rightarrow> mypp_url option"
  mypp_connect :: "mypp_url \<Rightarrow> (string \<times> string \<times> string) option \<Rightarrow> mysql option"

text \<open>\<^verbatim>\<open>Connect\<close> of the implementation catches the error of mypp.\<close>

definition Impl_Connect :: "mypp_lib \<Rightarrow> mypp_url \<Rightarrow> (string \<times> string \<times> string) option \<Rightarrow> bool \<times> mysql option" where
  "Impl_Connect M u cert = (case mypp_connect M u cert of None \<Rightarrow> (False, None) | Some conn \<Rightarrow> (True, Some conn))"

definition UseCert :: "mypp_url \<Rightarrow> (string \<times> string \<times> string) option" where
  "UseCert u =
     (if url_HasOption u ''ssl-cert''
      then Some (url_GetOption u ''ssl-ca'', url_GetOption u ''ssl-cert'', url_GetOption u ''ssl-key'')
      else None)"

definition MySql_Connect :: "mypp_lib \<Rightarrow> string \<Rightarrow> (mysql option, bool) prog" where
  "MySql_Connect M url =
     thenM (bindM (getM (\<lambda>impl. impl)) (\<lambda>impl. CHECK (impl = None)))
       (case mypp_parse M url of
          None \<Rightarrow> ret False
        | Some u \<Rightarrow>
            if url_table u = None then ret False
            else
              let (ok, impl) = Impl_Connect M u (UseCert u) in
              thenM (CHECK ok) (thenM (modifyM (\<lambda>_. impl)) (ret True)))"

subsection \<open>The contract of a storage\<close>

locale block_storage =
  fixes st :: "'s Storage" and content :: "'s \<Rightarrow> mainchain" and st_inv :: "'s \<Rightarrow> bool"
    and st_block :: "BlockData \<Rightarrow> bool"
  assumes Store_law: "st_inv s \<Longrightarrow> \<forall>b\<in>set bs. st_block b \<Longrightarrow>
      \<exists>s'. st_Store st bs s = (Inr (), s') \<and> st_inv s' \<and>
        (\<forall>h b. content s' h = Some b \<longrightarrow> content s h = Some b \<or> (b \<in> set bs \<and> blk_height b = h))"
    and GetRange_law: "st_inv s \<Longrightarrow> start + count \<le> i64_max \<Longrightarrow>
      \<exists>res s'. st_GetRange st start count s = (Inr res, s') \<and> st_inv s' \<and> content s' = content s \<and>
        (length res = count \<longrightarrow> res = block_slice (content s) start count \<and> length (block_slice (content s) start count) = count)"

text \<open>The cache agrees with the main chain: what is stored is on it.\<close>

definition cache_agrees :: "mainchain \<Rightarrow> mainchain \<Rightarrow> bool" where
  "cache_agrees stored v \<longleftrightarrow> (\<forall>h b. stored h = Some b \<longrightarrow> v h = Some b)"

definition cache_valid ::
  "('b \<Rightarrow> mainchain) \<Rightarrow> ('b \<Rightarrow> bool) \<Rightarrow> ('s \<Rightarrow> mainchain) \<Rightarrow> ('s \<Rightarrow> bool) \<Rightarrow> (BlockData \<Rightarrow> bool) \<Rightarrow>
     nat \<Rightarrow> ('b, 's) cache_state \<Rightarrow> bool" where
  "cache_valid view ready content st_inv st_block minDepth c \<longleftrightarrow>
     minDepth \<le> i64_max \<and> ready (cc_base c) \<and> st_inv (cc_store c) \<and> cc_lastTipHeight c \<le> i64_max \<and>
     cache_agrees (content (cc_store c)) (view (cc_base c)) \<and>
     (\<forall>h b. view (cc_base c) h = Some b \<longrightarrow> st_block b)"

lemma slice_agrees:
  assumes "cache_agrees stored v" "length (block_slice stored start count) = count"
  shows "block_slice stored start count = block_slice v start count"
proof (rule slice_cong)
  fix h assume h: "start \<le> h" "h < start + count"
  then have "stored (start + (h - start)) \<noteq> None"
    using assms(2) [unfolded slice_all_iff, rule_format, of "h - start"] by simp
  then obtain b where "stored h = Some b" using h by auto
  with assms(1) show "stored h = v h" by (simp add: cache_agrees_def)
qed

locale block_cache = base_chain bc view tip ready + block_storage st content st_inv st_block
  for bc :: "'b BaseChain" and view tip ready and st :: "'s Storage" and content st_inv st_block +
  fixes minDepth :: nat
begin

abbreviation cache_ready where "cache_ready \<equiv> cache_valid view ready content st_inv st_block minDepth"

abbreviation cache_chain where "cache_chain \<equiv> BlockCacheChain bc st minDepth"

lemma on_base_Inr [simp]: "m (cc_base c) = (Inr a, b) \<Longrightarrow> on_base m c = (Inr a, c\<lparr>cc_base := b\<rparr>)"
  by (simp add: on_base_def zoomM_def)

lemma on_store_Inr [simp]: "m (cc_store c) = (Inr a, s) \<Longrightarrow> on_store m c = (Inr a, c\<lparr>cc_store := s\<rparr>)"
  by (simp add: on_store_def zoomM_def)

lemma cache_tip:
  assumes "cache_ready c"
  shows "\<exists>c'. bc_GetTipHeight cache_chain c = (Inr (tip (cc_base c)), c') \<and> cache_ready c' \<and>
     view (cc_base c') = view (cc_base c) \<and> tip (cc_base c') = tip (cc_base c)"
proof -
  have r: "ready (cc_base c)" using assms by (simp add: cache_valid_def)
  obtain b' where b: "bc_GetTipHeight bc (cc_base c) = (Inr (tip (cc_base c)), b')" "ready b'"
      "view b' = view (cc_base c)" "tip b' = tip (cc_base c)"
    using GetTipHeight_law [OF r] by blast
  have "tip (cc_base c) \<le> i64_max" using mainchain_okD(7) [OF view_ok [OF r]] .
  with b assms show ?thesis
    by (simp add: BlockCacheChain_def Cache_GetTipHeight_def cache_valid_def)
qed

text \<open>Blocks that get stored are at least \<open>minDepth\<close> below the last tip seen.\<close>

lemma cache_range_full:
  assumes rdy: "cache_ready c" and bound: "start + count \<le> i64_max"
  shows "\<exists>c'. bc_GetBlockRange cache_chain start count c =
       (Inr (block_slice (view (cc_base c)) start count), c') \<and> cache_ready c' \<and>
     view (cc_base c') = view (cc_base c) \<and> tip (cc_base c') = tip (cc_base c) \<and>
     (\<forall>h b. content (cc_store c') h = Some b \<longrightarrow>
        content (cc_store c) h = Some b \<or> h + minDepth \<le> cc_lastTipHeight c)"
proof -
  have r: "ready (cc_base c)" and si: "st_inv (cc_store c)" and lt: "cc_lastTipHeight c \<le> i64_max"
    and minDepth_bound: "minDepth \<le> i64_max"
    and ag: "cache_agrees (content (cc_store c)) (view (cc_base c))"
    and sb: "\<And>h b. view (cc_base c) h = Some b \<Longrightarrow> st_block b"
    using rdy by (auto simp: cache_valid_def)
  let ?slice = "block_slice (view (cc_base c)) start count"
  obtain b' where b: "bc_GetBlockRange bc start count (cc_base c) = (Inr ?slice, b')" "ready b'"
      "view b' = view (cc_base c)" "tip b' = tip (cc_base c)"
    using GetBlockRange_law [OF r bound] by blast
  have nowrap: "u64_add (u64_add start count) minDepth = start + count + minDepth"
      "u64_add (cc_lastTipHeight c) 1 = cc_lastTipHeight c + 1"
    using bound minDepth_bound lt by simp_all
  show ?thesis
  proof (cases "start + count + minDepth > cc_lastTipHeight c + 1")
    case True
    with b nowrap rdy show ?thesis
      by (simp add: BlockCacheChain_def Cache_GetBlockRange_def cache_valid_def)
  next
    case deep: False
    obtain res s' where s: "st_GetRange st start count (cc_store c) = (Inr res, s')" "st_inv s'"
        "content s' = content (cc_store c)"
        "length res = count \<longrightarrow> res = block_slice (content (cc_store c)) start count \<and>
           length (block_slice (content (cc_store c)) start count) = count"
      using GetRange_law [OF si bound] by metis
    show ?thesis
    proof (cases "length res = count")
      case True
      then have "res = ?slice" using s(4) slice_agrees [OF ag] by simp
      with True deep s nowrap rdy show ?thesis
        by (simp add: BlockCacheChain_def Cache_GetBlockRange_def cache_valid_def)
    next
      case False
      have in_view: "view (cc_base c) (blk_height x) = Some x \<and> blk_height x < start + count"
        if x: "x \<in> set ?slice" for x
      proof -
        obtain h where "view (cc_base c) h = Some x" "h < start + count" using slice_in [OF x] by blast
        with mainchain_okD(1) [OF view_ok [OF r]] show ?thesis by metis
      qed
      have "\<forall>x\<in>set ?slice. st_block x" using in_view sb by blast
      then obtain s2 where s2: "st_Store st ?slice s' = (Inr (), s2)" "st_inv s2"
          "\<forall>h b. content s2 h = Some b \<longrightarrow> content s' h = Some b \<or> (b \<in> set ?slice \<and> blk_height b = h)"
        using Store_law [OF s(2)] by blast
      let ?c' = "c\<lparr>cc_store := s2, cc_base := b'\<rparr>"
      have run: "bc_GetBlockRange cache_chain start count c = (Inr ?slice, ?c')"
        using deep False s(1) b(1) s2(1) nowrap by (simp add: BlockCacheChain_def Cache_GetBlockRange_def)
      have "cache_agrees (content s2) (view b')"
        using s2(3) s(3) ag in_view b(3) by (fastforce simp: cache_agrees_def)
      then have "cache_ready ?c'" using b s2(2) lt sb minDepth_bound by (simp add: cache_valid_def)
      moreover have "content (cc_store c) h = Some x \<or> h + minDepth \<le> cc_lastTipHeight c"
        if "content s2 h = Some x" for h x
        using s2(3) [rule_format, OF that] s(3) in_view [of x] deep by auto
      ultimately show ?thesis using run b by simp
    qed
  qed
qed

lemma cache_range:
  assumes "cache_ready c" "start + count \<le> i64_max"
  shows "\<exists>c'. bc_GetBlockRange cache_chain start count c =
       (Inr (block_slice (view (cc_base c)) start count), c') \<and> cache_ready c' \<and>
     view (cc_base c') = view (cc_base c) \<and> tip (cc_base c') = tip (cc_base c)"
  using cache_range_full [OF assms] by blast

lemma cache_mainheight:
  assumes "cache_ready c"
  shows "\<exists>r c'. bc_GetMainchainHeight cache_chain hash c = (Inr r, c') \<and>
     mainheight_ok (view (cc_base c)) hash r \<and> cache_ready c' \<and>
     view (cc_base c') = view (cc_base c) \<and> tip (cc_base c') = tip (cc_base c)"
proof -
  have r: "ready (cc_base c)" using assms by (simp add: cache_valid_def)
  obtain h b' where b: "bc_GetMainchainHeight bc hash (cc_base c) = (Inr h, b')" "mainheight_ok (view (cc_base c)) hash h"
      "ready b'" "view b' = view (cc_base c)" "tip b' = tip (cc_base c)"
    using GetMainchainHeight_law [OF r] by blast
  with assms show ?thesis by (simp add: BlockCacheChain_def cache_valid_def)
qed

text \<open>A reorganisation of the base chain that leaves the cached heights alone keeps the cache
  valid.\<close>

lemma cache_reorg:
  assumes "cache_ready c" "ready b'"
    and "\<And>h. content (cc_store c) h \<noteq> None \<Longrightarrow> view b' h = view (cc_base c) h"
    and "\<And>h b. view b' h = Some b \<Longrightarrow> st_block b"
  shows "cache_ready (c\<lparr>cc_base := b'\<rparr>)"
  using assms by (fastforce simp: cache_valid_def cache_agrees_def)

end

text \<open>A cache over a base chain is a base chain.\<close>

sublocale block_cache \<subseteq> cached: base_chain "BlockCacheChain bc st minDepth"
    "\<lambda>c. view (cc_base c)" "\<lambda>c. tip (cc_base c)" cache_ready
proof
  fix c start count hash
  show "cache_ready c \<Longrightarrow> \<exists>r c'. bc_GetMainchainHeight cache_chain hash c = (Inr r, c') \<and>
      mainheight_ok (view (cc_base c)) hash r \<and> cache_ready c' \<and>
      view (cc_base c') = view (cc_base c) \<and> tip (cc_base c') = tip (cc_base c)"
    by (rule cache_mainheight)
  show "cache_ready c \<Longrightarrow> mainchain_ok (view (cc_base c)) (tip (cc_base c))"
    by (rule view_ok) (simp add: cache_valid_def)
  show "cache_ready c \<Longrightarrow> \<exists>c'. bc_GetTipHeight cache_chain c = (Inr (tip (cc_base c)), c') \<and>
      cache_ready c' \<and> view (cc_base c') = view (cc_base c) \<and> tip (cc_base c') = tip (cc_base c)"
    by (rule cache_tip)
  show "cache_ready c \<Longrightarrow> start + count \<le> i64_max \<Longrightarrow>
      \<exists>c'. bc_GetBlockRange cache_chain start count c =
        (Inr (block_slice (view (cc_base c)) start count), c') \<and>
      cache_ready c' \<and> view (cc_base c') = view (cc_base c) \<and> tip (cc_base c') = tip (cc_base c)"
    by (rule cache_range)
qed

context block_cache
begin

lemma cache_is_base_chain:
  "base_chain (BlockCacheChain bc st minDepth) (\<lambda>c. view (cc_base c)) (\<lambda>c. tip (cc_base c)) cache_ready"
  by (rule cached.base_chain_axioms)

end

subsection \<open>InMemoryBlockStorage keeps the contract\<close>

definition Mem_inv :: "mem_store \<Rightarrow> bool" where
  "Mem_inv d \<longleftrightarrow> smap_ok d \<and> (\<forall>e\<in>set d. blk_height (snd e) = fst e \<and> fst e \<le> i64_max)"

definition Mem_block :: "BlockData \<Rightarrow> bool" where
  "Mem_block b \<longleftrightarrow> blk_height b \<le> i64_max"

lemma set_smap_set_sub: "set (smap_set k v m) \<subseteq> insert (k, v) (set m)"
  by (induction k v m rule: smap_set.induct) auto

lemma Mem_inv_emplace:
  "Mem_inv d \<Longrightarrow> Mem_block b \<Longrightarrow> Mem_inv (smap_emplace (blk_height b) b d)"
  using set_smap_set_sub [of "blk_height b" b d]
  by (fastforce simp: Mem_inv_def Mem_block_def smap_emplace_def)

lemma Mem_Store_eq:
  "Mem_inv d \<Longrightarrow> \<forall>b\<in>set bs. Mem_block b \<Longrightarrow>
     \<exists>d'. Mem_Store bs d = (Inr (), d') \<and> Mem_inv d' \<and>
       (\<forall>h b. map_of d' h = Some b \<longrightarrow> map_of d h = Some b \<or> (b \<in> set bs \<and> blk_height b = h))"
proof (induction bs arbitrary: d)
  case Nil
  then show ?case by (simp add: Mem_Store_def)
next
  case (Cons a bs)
  let ?d = "smap_emplace (blk_height a) a d"
  obtain d' where d': "Mem_Store bs ?d = (Inr (), d')" "Mem_inv d'"
      "\<And>h b. map_of d' h = Some b \<Longrightarrow> map_of ?d h = Some b \<or> (b \<in> set bs \<and> blk_height b = h)"
    using Cons.IH [of ?d] Mem_inv_emplace Cons.prems by auto
  have "map_of d h = Some b \<or> (b \<in> set (a # bs) \<and> blk_height b = h)" if "map_of d' h = Some b" for h b
    using d'(3) [OF that] by (auto split: if_splits)
  with d'(1,2) show ?case by (auto simp: Mem_Store_def)
qed

lemma Mem_range_loop_sound:
  assumes "\<And>e. e \<in> set d \<Longrightarrow> map_of d (fst e) = Some (snd e)" "\<And>e. e \<in> set d \<Longrightarrow> blk_height (snd e) = fst e"
  shows "set rest \<subseteq> set d \<Longrightarrow> res \<noteq> [] \<Longrightarrow> blk_height (last res) + 1 = start + length res \<Longrightarrow>
     start + count \<le> i64_max \<Longrightarrow>
     (\<forall>i<length res. map_of d (start + i) = Some (res ! i)) \<Longrightarrow>
     length (Mem_range_loop count res rest) = count \<Longrightarrow>
     \<forall>i<count. map_of d (start + i) = Some (Mem_range_loop count res rest ! i)"
proof (induction rest arbitrary: res)
  case Nil
  then show ?case by (simp add: Mem_range_loop.simps [of count res] split: if_splits)
next
  case (Cons e rest)
  show ?case
  proof (cases "length res < count")
    case True
    have bound: "u64_add (blk_height (last res)) 1 = start + length res" using Cons.prems(3,4) True by simp
    show ?thesis
    proof (cases "blk_height (snd e) = start + length res")
      case eq: True
      have e: "map_of d (start + length res) = Some (snd e)"
        using assms(1) [of e] assms(2) [of e] Cons.prems(1) eq by simp
      have step: "Mem_range_loop count res (e # rest) = Mem_range_loop count (res @ [snd e]) rest"
        using True eq bound by (simp add: Mem_range_loop.simps [of count res])
      have all: "\<forall>i<length (res @ [snd e]). map_of d (start + i) = Some ((res @ [snd e]) ! i)"
        using Cons.prems(5) e by (simp add: nth_append less_Suc_eq)
      show ?thesis
        using Cons.IH [of "res @ [snd e]"] Cons.prems eq all unfolding step by simp
    next
      case False
      with True bound Cons.prems(6) show ?thesis by (simp add: Mem_range_loop.simps [of count res])
    qed
  next
    case False
    then show ?thesis using Cons.prems(5,6) by (simp add: Mem_range_loop.simps [of count res])
  qed
qed

lemma smap_lookup: "smap_ok d \<Longrightarrow> e \<in> set d \<Longrightarrow> map_of d (fst e) = Some (snd e)"
  by (simp add: smap_ok_distinct)

lemma dropWhile_key:
  assumes "dropWhile (\<lambda>e. fst e \<noteq> k) d = e # rest"
  shows "fst e = k" "e \<in> set d" "set rest \<subseteq> set d"
proof -
  show "fst e = k" using hd_dropWhile [of "\<lambda>e. fst e \<noteq> k" d] assms by auto
  have "set (dropWhile (\<lambda>e. fst e \<noteq> k) d) \<subseteq> set d" by (auto dest: set_dropWhileD)
  with assms show "e \<in> set d" "set rest \<subseteq> set d" by auto
qed

lemma Mem_GetRange_sound:
  assumes inv: "Mem_inv d" and bound: "start + count \<le> i64_max"
    and res: "Mem_GetRange start count d = (Inr res, d')" "length res = count"
  shows "res = block_slice (map_of d) start count"
proof (cases "count = 0")
  case False
  then obtain e rest where e: "dropWhile (\<lambda>e. fst e \<noteq> start) d = e # rest"
    and r: "res = Mem_range_loop count [snd e] rest"
    using res by (auto simp: Mem_GetRange_def split: list.splits)
  have ok: "smap_ok d" "\<And>e. e \<in> set d \<Longrightarrow> blk_height (snd e) = fst e" using inv by (auto simp: Mem_inv_def)
  have "\<forall>i<count. map_of d (start + i) = Some (res ! i)"
    unfolding r
    by (rule Mem_range_loop_sound)
      (use ok smap_lookup [OF ok(1)] dropWhile_key [OF e] bound res(2) r in auto)
  then have "block_slice (map_of d) start count = map ((!) res) [0..<count]" by (intro slice_full) simp
  with res(2) map_nth [of res] show ?thesis by simp
qed (use res in simp)

interpretation mem: block_storage InMemoryBlockStorage map_of Mem_inv Mem_block
proof
  fix s bs start count
  show "Mem_inv s \<Longrightarrow> \<forall>b\<in>set bs. Mem_block b \<Longrightarrow>
      \<exists>s'. st_Store InMemoryBlockStorage bs s = (Inr (), s') \<and> Mem_inv s' \<and>
        (\<forall>h b. map_of s' h = Some b \<longrightarrow> map_of s h = Some b \<or> (b \<in> set bs \<and> blk_height b = h))"
    using Mem_Store_eq by (simp add: InMemoryBlockStorage_def)
  show "Mem_inv s \<Longrightarrow> start + count \<le> i64_max \<Longrightarrow>
      \<exists>res s'. st_GetRange InMemoryBlockStorage start count s = (Inr res, s') \<and> Mem_inv s' \<and>
        map_of s' = map_of s \<and> (length res = count \<longrightarrow>
          res = block_slice (map_of s) start count \<and> length (block_slice (map_of s) start count) = count)"
    using Mem_GetRange_sound [of s start count]
    by (fastforce simp: InMemoryBlockStorage_def Mem_GetRange_def)
qed

interpretation mem_cache: block_cache TestChain Test_view Test_tip "Test_ready L"
    InMemoryBlockStorage map_of Mem_inv Mem_block minDepth
  for L minDepth
  by unfold_locales

subsection \<open>MySqlBlockStorage keeps the contract\<close>

definition MySql_content :: "codec \<Rightarrow> mysql \<Rightarrow> mainchain" where
  "MySql_content L s h =
     (case map_of (my_rows s) h of
        None \<Rightarrow> None
      | Some d \<Rightarrow> (case Deserialise L d of Inl e \<Rightarrow> None | Inr b \<Rightarrow> Some b))"

definition MySql_inv :: "codec \<Rightarrow> mysql \<Rightarrow> bool" where
  "MySql_inv L s \<longleftrightarrow> smap_ok (my_rows s) \<and>
     (\<forall>e\<in>set (my_rows s). case Deserialise L (snd e) of Inl x \<Rightarrow> False | Inr b \<Rightarrow> True)"

definition MySql_block :: "codec \<Rightarrow> BlockData \<Rightarrow> bool" where
  "MySql_block L b \<longleftrightarrow> block_wf b \<and> codec_ok L b \<and> blk_height b \<le> i64_max"

lemma mypp_outcome_cases:
  obtains ok os where "mypp_outcome s = (Inr ok, s\<lparr>my_outcomes := os\<rparr>)"
proof (cases "my_outcomes s")
  case Nil
  then have "mypp_outcome s = (Inr True, s\<lparr>my_outcomes := []\<rparr>)" by (simp add: mypp_outcome_def)
  with that show thesis by blast
next
  case (Cons ok os)
  then have "mypp_outcome s = (Inr ok, s\<lparr>my_outcomes := os\<rparr>)" by (simp add: mypp_outcome_def)
  with that show thesis by blast
qed

lemma MySql_outcomes_irrelevant [simp]:
  "MySql_content L (s\<lparr>my_outcomes := os\<rparr>) = MySql_content L s"
  "MySql_inv L (s\<lparr>my_outcomes := os\<rparr>) \<longleftrightarrow> MySql_inv L s"
  by (simp_all add: fun_eq_iff MySql_content_def MySql_inv_def)

lemma MySql_set:
  assumes "MySql_inv L s" "Deserialise L d = Inr b"
  shows "MySql_inv L (s\<lparr>my_rows := smap_set k d (my_rows s)\<rparr>)"
    "MySql_content L (s\<lparr>my_rows := smap_set k d (my_rows s)\<rparr>) = (MySql_content L s)(k \<mapsto> b)"
  using assms set_smap_set_sub [of k d "my_rows s"]
  by (force simp: MySql_inv_def, simp add: fun_eq_iff MySql_content_def)

lemma MySql_Store_eq:
  "MySql_inv L s \<Longrightarrow> \<forall>b\<in>set bs. MySql_block L b \<Longrightarrow>
     \<exists>s'. MySql_Store L bs s = (Inr (), s') \<and> MySql_inv L s' \<and>
       (\<forall>h b. MySql_content L s' h = Some b \<longrightarrow>
          MySql_content L s h = Some b \<or> (b \<in> set bs \<and> blk_height b = h))"
proof (induction bs arbitrary: s)
  case Nil
  then show ?case by (simp add: MySql_Store_def)
next
  case (Cons a bs)
  have a: "block_wf a" "codec_ok L a" "blk_height a \<le> i64_max" using Cons.prems by (simp_all add: MySql_block_def)
  obtain d where d: "Serialise L a = Inr d" "Deserialise L d = Inr a"
    using Serialise_Deserialise [OF a(1,2)] by blast
  obtain ok os where o: "mypp_outcome s = (Inr ok, s\<lparr>my_outcomes := os\<rparr>)" by (rule mypp_outcome_cases)
  let ?t = "s\<lparr>my_outcomes := os\<rparr>"
  let ?s = "if ok then ?t\<lparr>my_rows := smap_set (blk_height a) d (my_rows s)\<rparr> else ?t"
  have first: "MySql_Store L (a # bs) s = MySql_Store L bs ?s"
    using d(1) o a(3) by (simp add: MySql_Store_def)
  have keep: "MySql_inv L ?s" "MySql_content L ?s = (if ok then (MySql_content L s)(blk_height a \<mapsto> a) else MySql_content L s)"
    using MySql_set [of L ?t d a "blk_height a"] Cons.prems(1) d(2) by simp_all
  obtain s' where s': "MySql_Store L bs ?s = (Inr (), s')" "MySql_inv L s'"
      "\<And>h b. MySql_content L s' h = Some b \<Longrightarrow> MySql_content L ?s h = Some b \<or> (b \<in> set bs \<and> blk_height b = h)"
    using Cons.IH [OF keep(1)] Cons.prems(2) by auto
  have "MySql_content L s h = Some b \<or> (b \<in> set (a # bs) \<and> blk_height b = h)"
    if "MySql_content L s' h = Some b" for h b
    using s'(3) [OF that] unfolding keep(2) by (auto split: if_splits)
  with s'(1,2) first show ?case by auto
qed

lemma MySql_rows:
  assumes inv: "MySql_inv L s"
  shows "mapE (\<lambda>e. Deserialise L (snd e)) (filter P (my_rows s)) =
     Inr (map (\<lambda>e. the (MySql_content L s (fst e))) (filter P (my_rows s)))"
proof (rule mapE_Inr)
  fix e assume "e \<in> set (filter P (my_rows s))"
  then have e: "e \<in> set (my_rows s)" by simp
  then have "map_of (my_rows s) (fst e) = Some (snd e)" using smap_lookup [of "my_rows s" e] inv by (simp add: MySql_inv_def)
  with inv e show "Deserialise L (snd e) = Inr (the (MySql_content L s (fst e)))"
    by (fastforce simp: MySql_content_def MySql_inv_def split: sum.splits)
qed

text \<open>A result of full length has one row for every height of the range, in order.\<close>

lemma range_keys_full:
  assumes "smap_ok d" and len: "length (filter (\<lambda>e. start \<le> fst e \<and> fst e < start + count) d) = count"
  shows "map fst (filter (\<lambda>e. start \<le> fst e \<and> fst e < start + count) d) = [start..<start + count]"
proof -
  let ?f = "filter (\<lambda>e. start \<le> fst e \<and> fst e < start + count) d"
  have sorted: "sorted (map fst ?f)" "distinct (map fst ?f)"
    using assms(1) by (auto simp: smap_ok_def strict_sorted_iff sorted_filter distinct_map_filter)
  have "set (map fst ?f) = set [start..<start + count]"
  proof (rule card_subset_eq)
    show "set (map fst ?f) \<subseteq> set [start..<start + count]" by auto
    show "card (set (map fst ?f)) = card (set [start..<start + count])"
      using distinct_card [OF sorted(2)] len by simp
  qed simp
  with sorted show ?thesis by (intro sorted_distinct_set_unique) simp_all
qed

lemma MySql_GetRange_eq:
  assumes inv: "MySql_inv L s" and bound: "start + count \<le> i64_max"
  shows "\<exists>res s'. MySql_GetRange L start count s = (Inr res, s') \<and> MySql_inv L s' \<and>
     MySql_content L s' = MySql_content L s \<and>
     (length res = count \<longrightarrow> res = block_slice (MySql_content L s) start count)"
proof -
  obtain ok os where o: "mypp_outcome s = (Inr ok, s\<lparr>my_outcomes := os\<rparr>)" by (rule mypp_outcome_cases)
  let ?f = "filter (\<lambda>e. start \<le> fst e \<and> fst e < start + count) (my_rows s)"
  let ?res = "map (\<lambda>e. the (MySql_content L s (fst e))) ?f"
  have sum: "u64_add start count = start + count" using bound by simp
  have P: "(\<lambda>e. int64_of start \<le> int (fst e) \<and> int (fst e) < int64_of (u64_add start count)) =
      (\<lambda>e :: nat \<times> string. start \<le> fst e \<and> fst e < start + count)"
    unfolding sum using bound by (auto simp: fun_eq_iff simp flip: of_nat_add)
  have run: "MySql_GetRange L start count s = (Inr (if ok then ?res else []), s\<lparr>my_outcomes := os\<rparr>)"
    unfolding MySql_GetRange_def P using o MySql_rows [OF inv] by simp
  have "?res = block_slice (MySql_content L s) start count" if "length ?f = count"
  proof -
    have keys: "map fst ?f = [start..<start + count]"
      using range_keys_full [OF _ that] inv by (simp add: MySql_inv_def)
    have res: "?res = map (\<lambda>h. the (MySql_content L s h)) (map fst ?f)" by simp
    have "MySql_content L s (start + i) = Some (the (MySql_content L s (start + i)))" if "i < count" for i
    proof -
      have "start + i \<in> set (map fst ?f)" unfolding keys using that by simp
      then obtain e where "e \<in> set (my_rows s)" "fst e = start + i" by auto
      with inv smap_lookup [of "my_rows s" e] show ?thesis
        by (fastforce simp: MySql_content_def MySql_inv_def split: sum.splits)
    qed
    then have "block_slice (MySql_content L s) start count =
        map (\<lambda>i. the (MySql_content L s (start + i))) [0..<count]"
      by (rule slice_full)
    also have "\<dots> = ?res" unfolding res keys by (rule nth_equalityI) simp_all
    finally show ?thesis by simp
  qed
  then show ?thesis
    using run inv by (cases ok; cases "count = 0") auto
qed

interpretation my: block_storage "MySqlBlockStorage L" "MySql_content L" "MySql_inv L" "MySql_block L"
  for L
proof
  fix s bs start count
  show "MySql_inv L s \<Longrightarrow> \<forall>b\<in>set bs. MySql_block L b \<Longrightarrow>
      \<exists>s'. st_Store (MySqlBlockStorage L) bs s = (Inr (), s') \<and> MySql_inv L s' \<and>
        (\<forall>h b. MySql_content L s' h = Some b \<longrightarrow>
           MySql_content L s h = Some b \<or> (b \<in> set bs \<and> blk_height b = h))"
    using MySql_Store_eq by (simp add: MySqlBlockStorage_def)
  show "MySql_inv L s \<Longrightarrow> start + count \<le> i64_max \<Longrightarrow>
      \<exists>res s'. st_GetRange (MySqlBlockStorage L) start count s = (Inr res, s') \<and> MySql_inv L s' \<and>
        MySql_content L s' = MySql_content L s \<and> (length res = count \<longrightarrow>
          res = block_slice (MySql_content L s) start count \<and>
          length (block_slice (MySql_content L s) start count) = count)"
    using MySql_GetRange_eq [of L s start count] by (fastforce simp: MySqlBlockStorage_def)
qed

interpretation my_cache: block_cache TestChain Test_view Test_tip "Test_ready L"
    "MySqlBlockStorage L" "MySql_content L" "MySql_inv L" "MySql_block L" minDepth
  for L minDepth
  by unfold_locales

end
