(* ===== verification/Sync.thy ===== *)
theory Sync
  imports TestBaseChain
begin

text \<open>
  \<^verbatim>\<open>src/private/sync.hpp\<close> and \<^verbatim>\<open>src/sync.cpp\<close>: the worker that brings the chain state to the
  main chain of the base chain.  The state holds the base chain, the chain state and the data of
  the owner of the callbacks next to the fields of the class, because the update step runs
  under the lock of the chain state and calls all of them.  One pass of the worker's loop is
  \<open>Sync_iteration\<close>; the time it sleeps between two passes is not modelled.
\<close>

record ('b, 'w) Sync =
  sy_base :: 'b
  sy_chain :: chainstate
  sy_owner :: 'w
  sy_numBlocks :: nat
  sy_nextStartHeight :: int
  sy_updater :: bool
  sy_shouldStop :: bool

text \<open>\<^verbatim>\<open>Sync::Callbacks\<close>: the pointer may be null.\<close>

type_synonym ('b, 'w) sync_cb = "(string \<Rightarrow> BlockData list \<Rightarrow> (('b, 'w) Sync, unit) prog) option"

definition sy_on_base :: "('b, 'a) prog \<Rightarrow> (('b, 'w) Sync, 'a) prog" where
  "sy_on_base m = zoomM sy_base (\<lambda>b s. s\<lparr>sy_base := b\<rparr>) m"

definition sy_on_chain :: "(chainstate, 'a) prog \<Rightarrow> (('b, 'w) Sync, 'a) prog" where
  "sy_on_chain m = zoomM sy_chain (\<lambda>c s. s\<lparr>sy_chain := c\<rparr>) m"

definition TipUpdatedFrom_cb :: "('b, 'w) sync_cb \<Rightarrow> string \<Rightarrow> BlockData list \<Rightarrow> (('b, 'w) Sync, unit) prog" where
  "TipUpdatedFrom_cb cb oldTip attaches = (case cb of None \<Rightarrow> ret () | Some f \<Rightarrow> f oldTip attaches)"

text \<open>\<open>block_range\<close> is the flag \<^verbatim>\<open>--xayax_block_range\<close>, an \<^verbatim>\<open>int32\<close>; \<^verbatim>\<open>numBlocks\<close> is an
  \<^verbatim>\<open>unsigned\<close>.\<close>

definition IncreaseNumBlocks :: "int \<Rightarrow> (('b, 'w) Sync, unit) prog" where
  "IncreaseNumBlocks block_range =
     thenM (CHECK (block_range \<ge> 1))
       (modifyM (\<lambda>s. s\<lparr>sy_numBlocks := min (u32_of_int block_range) ((sy_numBlocks s * 2) mod (u32_max + 1))\<rparr>))"

definition ImportNewTip ::
  "codec \<Rightarrow> 'b BaseChain \<Rightarrow> ('b, 'w) sync_cb \<Rightarrow> nat \<Rightarrow> (('b, 'w) Sync, bool) prog" where
  "ImportNewTip L bc cb height =
     bindM (sy_on_base (bc_GetBlockRange bc height 1)) (\<lambda>blocks.
       if blocks = [] then ret False
       else
         thenM (CHECK (length blocks = 1))
        (thenM (sy_on_chain (ImportTip L (hd blocks)))
        (thenM (TipUpdatedFrom_cb cb '''' blocks)
           (ret True))))"

text \<open>The loop over the blocks after the first one.\<close>

fun attach_loop :: "codec \<Rightarrow> BlockData \<Rightarrow> BlockData list \<Rightarrow> (chainstate, unit) prog" where
  "attach_loop L before [] = ret ()"
| "attach_loop L before (b # bs) =
     bindM (SetTip L b) (\<lambda>(ok, prev).
       thenM (CHECK ok)
      (thenM (CHECK (prev = blk_parent b))
      (thenM (CHECK (prev = blk_hash before))
         (attach_loop L b bs))))"

text \<open>The step after the start height is known.\<close>

definition UpdateStep_from ::
  "codec \<Rightarrow> 'b BaseChain \<Rightarrow> ('b, 'w) sync_cb \<Rightarrow> int \<Rightarrow> nat \<Rightarrow> int \<Rightarrow> (('b, 'w) Sync, bool) prog" where
  "UpdateStep_from L bc cb block_range genesisHeight startHeight =
     bindM (getM (\<lambda>s. max (sy_numBlocks s) 3)) (\<lambda>num.
     thenM (CHECK (startHeight \<ge> 0))
    (bindM (sy_on_base (bc_GetBlockRange bc (u64_of_int startHeight) num)) (\<lambda>blocks.
     bindM (if blocks = [] then ret (False, [])
            else sy_on_chain (GetForkBranch L (blk_parent (hd blocks)))) (\<lambda>(_, oldForkBranch).
     bindM (if blocks = [] then ret (False, '''')
            else sy_on_chain (SetTip L (hd blocks))) (\<lambda>(ok, oldTip).
       if \<not> ok then
         thenM (IncreaseNumBlocks block_range)
        (bindM (getM (\<lambda>s. max (GetLowestUnprunedHeight (sy_chain s)) (startHeight - int num))) (\<lambda>next.
         thenM (modifyM (\<lambda>s. s\<lparr>sy_nextStartHeight := next\<rparr>))
        (thenM (CHECK (next < startHeight)) (ret True))))
       else
         thenM (modifyM (\<lambda>s. s\<lparr>sy_nextStartHeight := -1\<rparr>))
        (thenM (sy_on_chain (withUpdateBatch (attach_loop L (hd blocks) (tl blocks))))
        (thenM (if oldTip \<noteq> blk_hash (last blocks)
                then TipUpdatedFrom_cb cb oldTip (rev oldForkBranch @ blocks) else ret ())
           (if length blocks < num then
              thenM (modifyM (\<lambda>s. s\<lparr>sy_numBlocks := 1\<rparr>)) (ret False)
            else
              bindM (if blk_height (last blocks) < genesisHeight
                     then ImportNewTip L bc cb genesisHeight else ret False) (\<lambda>imported.
                if imported then ret True
                else thenM (IncreaseNumBlocks block_range) (ret True))))))))))"

definition UpdateStep ::
  "codec \<Rightarrow> 'b BaseChain \<Rightarrow> ('b, 'w) sync_cb \<Rightarrow> int \<Rightarrow> nat \<Rightarrow> (('b, 'w) Sync, bool) prog" where
  "UpdateStep L bc cb block_range pruningDepth =
     bindM (sy_on_base (bc_GetTipHeight bc)) (\<lambda>baseTip.
       let genesisHeight = (if baseTip < pruningDepth then 0 else baseTip - pruningDepth) in
       bindM (getM sy_nextStartHeight) (\<lambda>next.
         if next = -1 then
           bindM (getM (\<lambda>s. GetTipHeight (sy_chain s))) (\<lambda>tipHeight.
             if tipHeight = -1 then ImportNewTip L bc cb genesisHeight
             else UpdateStep_from L bc cb block_range genesisHeight tipHeight)
         else UpdateStep_from L bc cb block_range genesisHeight next))"

text \<open>Exceptions of the base chain end the pass; the worker goes on.\<close>

definition Sync_iteration ::
  "codec \<Rightarrow> 'b BaseChain \<Rightarrow> ('b, 'w) sync_cb \<Rightarrow> int \<Rightarrow> nat \<Rightarrow> (('b, 'w) Sync, bool) prog" where
  "Sync_iteration L bc cb block_range pruningDepth =
     catchM (UpdateStep L bc cb block_range pruningDepth) (\<lambda>_. ret False)"

definition Sync_Start :: "'b BaseChain \<Rightarrow> (('b, 'w) Sync, unit) prog" where
  "Sync_Start bc =
     thenM (bindM (getM sy_updater) (\<lambda>u. CHECK (\<not> u)))
    (thenM (modifyM (\<lambda>s. s\<lparr>sy_shouldStop := False, sy_numBlocks := 1, sy_nextStartHeight := -1\<rparr>))
    (thenM (catchM (bindM (sy_on_base (bc_GetChain bc)) (\<lambda>c. sy_on_chain (SetChain c)))
              (\<lambda>_. failM Abort))
       (modifyM (\<lambda>s. s\<lparr>sy_updater := True\<rparr>))))"

text \<open>The destructor stops the worker; the pass it is in is finished before.\<close>

definition Sync_destroy :: "(('b, 'w) Sync, unit) prog" where
  "Sync_destroy =
     bindM (getM sy_updater) (\<lambda>u.
       if u then thenM (modifyM (\<lambda>s. s\<lparr>sy_shouldStop := True\<rparr>)) (modifyM (\<lambda>s. s\<lparr>sy_updater := False\<rparr>))
       else ret ())"

text \<open>The loop of the worker while it reports more steps: the number of passes is bounded by
  the first argument, and running out of it is \<open>Diverges\<close>.\<close>

fun Sync_run ::
  "nat \<Rightarrow> codec \<Rightarrow> 'b BaseChain \<Rightarrow> ('b, 'w) sync_cb \<Rightarrow> int \<Rightarrow> nat \<Rightarrow> (('b, 'w) Sync, unit) prog" where
  "Sync_run 0 L bc cb block_range pruningDepth = failM Diverges"
| "Sync_run (Suc n) L bc cb block_range pruningDepth =
     bindM (Sync_iteration L bc cb block_range pruningDepth) (\<lambda>more.
       if more then Sync_run n L bc cb block_range pruningDepth else ret ())"

end
