(* ===== verification/ChainstateData.thy ===== *)
theory ChainstateData
  imports ChainstateOps
begin

text \<open>
  What the operations of the chain state do to the stored rows apart from their branch numbers: a
  tip update keeps every row with its data and adds at most the serialised form of the new block;
  an import and a pruning only remove rows beyond that.
\<close>

definition data_only :: "(string \<Rightarrow> bool) \<Rightarrow> chainstate \<Rightarrow> bool" where
  "data_only P cs \<longleftrightarrow> (\<forall>r\<in>set (blocks cs). P (r_data r))"

definition rows_kept :: "dbrow list \<Rightarrow> chainstate \<Rightarrow> bool" where
  "rows_kept rows cs \<longleftrightarrow> (\<forall>r\<in>set rows. \<exists>b. r\<lparr>r_branch := b\<rparr> \<in> set (blocks cs))"

subsection \<open>Statements\<close>

lemma set_branch_data [intro!]: "keepsOk (data_only P) (sql_set_branch b c)"
  unfolding sql_set_branch_def Let_def
  by (auto intro!: keepsOk_bind keepsOk_modify simp: keepsOk_def prog_Inr data_only_def split: if_splits)

lemma set_branch_rows [intro!]: "keepsOk (rows_kept rows) (sql_set_branch b c)"
proof -
  have "rows_kept rows (cs\<lparr>blocks := map (\<lambda>r. if c r then r\<lparr>r_branch := b\<rparr> else r) (blocks cs)\<rparr>)" if kept: "rows_kept rows cs" for cs
    unfolding rows_kept_def
  proof
    fix r assume "r \<in> set rows"
    then obtain a where a: "r\<lparr>r_branch := a\<rparr> \<in> set (blocks cs)" using kept by (auto simp: rows_kept_def)
    show "\<exists>b'. r\<lparr>r_branch := b'\<rparr> \<in> set (blocks (cs\<lparr>blocks := map (\<lambda>r. if c r then r\<lparr>r_branch := b\<rparr> else r) (blocks cs)\<rparr>))"
    proof (cases "c (r\<lparr>r_branch := a\<rparr>)")
      case True
      then have "r\<lparr>r_branch := b\<rparr> \<in> (\<lambda>r. if c r then r\<lparr>r_branch := b\<rparr> else r) ` set (blocks cs)"
        using imageI [OF a, of "\<lambda>r. if c r then r\<lparr>r_branch := b\<rparr> else r"] by simp
      then show ?thesis by auto
    next
      case False
      then have "r\<lparr>r_branch := a\<rparr> \<in> (\<lambda>r. if c r then r\<lparr>r_branch := b\<rparr> else r) ` set (blocks cs)"
        using imageI [OF a, of "\<lambda>r. if c r then r\<lparr>r_branch := b\<rparr> else r"] by simp
      then show ?thesis by auto
    qed
  qed
  then show ?thesis unfolding sql_set_branch_def Let_def keepsOk_def by (auto simp: prog_Inr split: if_splits)
qed

lemma InsertBlock_row:
  assumes "InsertBlock L blk b cs = (Inr x, cs')"
  obtains d where "Serialise L blk = Inr d" "blocks cs' = blocks cs @ [\<lparr>r_hash = blk_hash blk, r_parent = blk_parent blk,
     r_height = blk_height blk, r_branch = b, r_data = d\<rparr>]"
  using assms that unfolding InsertBlock_def sql_insert_def by (auto simp: prog_Inr Bind_uint64_def split: if_splits)

lemma insert_data:
  assumes "\<And>d. Serialise L blk = Inr d \<Longrightarrow> P d"
  shows "keepsOk (data_only P) (InsertBlock L blk b)"
  unfolding keepsOk_def using assms by (auto simp: data_only_def elim!: InsertBlock_row)

lemma insert_rows [intro!]: "keepsOk (rows_kept rows) (InsertBlock L blk b)"
  unfolding keepsOk_def rows_kept_def by (fastforce elim!: InsertBlock_row)

subsection \<open>Operations\<close>

text \<open>A property of the state that the queries and the bookkeeping of the batches cannot affect.\<close>

lemma query_keeps [intro!]:
  "keepsOk P (query1 q)" "keepsOk P (Bind_uint64 n)" "keepsOk P (GetForkBranch L h)"
  by (rule keepsOk_preserves [where f = id]; simp)+

lemma MarkAsTip_keeps:
  assumes "\<And>b c. keepsOk P (sql_set_branch b c)"
  shows "keepsOk P (MarkAsTip L blk)"
  unfolding MarkAsTip_def using assms
  by (intro keepsOk_bind query_keeps)
    (auto split: option.split prod.split intro!: keepsOk_bind keepsOk_then keepsOk_forM query_keeps)

lemma withUpdateBatch_keeps:
  assumes m: "keepsOk P m" and sp: "\<And>s s'. blocks s' = blocks s \<Longrightarrow> P s \<Longrightarrow> P s'"
  shows "keepsOk P (withUpdateBatch m)"
  unfolding withUpdateBatch_def
proof (intro keepsOk_then keepsOk_bind)
  show "keepsOk P UpdateBatch_begin"
    unfolding UpdateBatch_begin_def by (rule keepsOk_modify) (auto intro: sp)
  show "keepsOk P (catchM m (\<lambda>e. thenM UpdateBatch_revert (failM (Throw e))))"
    by (rule keepsOk_catch_fail [OF m]) (auto simp: prog_Inr)
  show "keepsOk P UpdateBatch_Commit"
    unfolding UpdateBatch_Commit_def sql_release_def
    by (intro keepsOk_bind keepsOk_simps) (auto intro!: keepsOk_modify intro: sp split: list.split)
qed simp

lemma Prune_data: "keepsOk (data_only P) (Prune h)"
  unfolding Prune_def
  by (intro withUpdateBatch_keeps keepsOk_then query_keeps keepsOk_modify) (auto simp: data_only_def)

lemma SetTip_keeps:
  assumes "\<And>b c. keepsOk P (sql_set_branch b c)" "\<And>b. keepsOk P (InsertBlock L blk b)"
    and "\<And>s s'. blocks s' = blocks s \<Longrightarrow> P s \<Longrightarrow> P s'"
  shows "keepsOk P (SetTip L blk)"
proof -
  have mark: "keepsOk P (MarkAsTip L blk)" by (rule MarkAsTip_keeps [OF assms(1)])
  have batch: "keepsOk P (withUpdateBatch m)" if "keepsOk P m" for m :: "(chainstate, unit) prog"
    using that assms(3) by (rule withUpdateBatch_keeps)
  show ?thesis
    unfolding SetTip_def
    by (intro keepsOk_bind query_keeps)
      (auto split: option.split intro!: keepsOk_then keepsOk_bind query_keeps batch mark assms(2))
qed

lemma SetTip_data:
  assumes "\<And>d. Serialise L blk = Inr d \<Longrightarrow> P d"
  shows "keepsOk (data_only P) (SetTip L blk)"
  by (rule SetTip_keeps) (auto intro: insert_data assms simp: data_only_def)

lemma SetTip_rows: "keepsOk (rows_kept rows) (SetTip L blk)"
  by (rule SetTip_keeps) (auto simp: rows_kept_def)

lemma ImportTip_data:
  assumes "\<And>d. Serialise L blk = Inr d \<Longrightarrow> P d"
  shows "keepsOk (data_only P) (ImportTip L blk)"
proof -
  have "keepsOk (data_only P) (GetHeightForHash h)" for h unfolding GetHeightForHash_def by auto
  then show ?thesis
    unfolding ImportTip_def
    by (intro keepsOk_bind keepsOk_then withUpdateBatch_keeps)
      (auto intro!: MarkAsTip_keeps insert_data assms Prune_data simp: data_only_def)
qed

end
