(* ===== verification/SyncStep.thy ===== *)
theory SyncStep
  imports Sync ChainstateData
begin

text \<open>
  The update step of the sync worker against a base chain that keeps its contract.  The
  blocks both sides know come from one tree of blocks (a hash determines parent and height),
  and the lowest stored main-chain block is still on the base chain, which is the assumption that
  no reorganisation goes below the pruning depth.  The theory shows that every tip update the
  worker asks for is one that \<^verbatim>\<open>Chainstate\<close> accepts, and that the chain state ends on the
  main chain of the base chain.
\<close>

subsection \<open>A common tree of blocks\<close>

type_synonym block_tree = "string \<Rightarrow> (string \<times> nat) option"

abbreviation height_limit :: nat where "height_limit \<equiv> 4611686018427387904"

definition tree_ok :: "block_tree \<Rightarrow> bool" where
  "tree_ok T \<longleftrightarrow> T [] = None \<and>
     (\<forall>h p n. T h = Some (p, n) \<longrightarrow> n \<le> height_limit \<and> (\<forall>q m. T p = Some (q, m) \<longrightarrow> n = Suc m))"

definition rows_in_tree :: "block_tree \<Rightarrow> dbrow list \<Rightarrow> bool" where
  "rows_in_tree T rows \<longleftrightarrow> (\<forall>r\<in>set rows. T (r_hash r) = Some (r_parent r, r_height r))"

definition base_in_tree :: "codec \<Rightarrow> block_tree \<Rightarrow> mainchain \<Rightarrow> bool" where
  "base_in_tree L T v \<longleftrightarrow>
     (\<forall>h b. v h = Some b \<longrightarrow> T (blk_hash b) = Some (blk_parent b, h) \<and> block_wf b \<and> codec_ok L b)"

definition root_in_view :: "mainchain \<Rightarrow> chainstate \<Rightarrow> bool" where
  "root_in_view v cs \<longleftrightarrow>
     (\<exists>l\<in>set (blocks cs). r_branch l = 0 \<and> GetLowestUnprunedHeight cs = int (r_height l) \<and>
        (\<exists>b. v (r_height l) = Some b \<and> blk_hash b = r_hash l))"

definition chain_synced :: "codec \<Rightarrow> block_tree \<Rightarrow> mainchain \<Rightarrow> chainstate \<Rightarrow> bool" where
  "chain_synced L T v cs \<longleftrightarrow> chain_inv L cs \<and> rows_in_tree T (blocks cs) \<and> root_in_view v cs"

text \<open>The main chains agree up to the tip of the chain state.\<close>

definition chain_aligned :: "mainchain \<Rightarrow> chainstate \<Rightarrow> bool" where
  "chain_aligned v cs \<longleftrightarrow>
     (case v (nat (GetTipHeight cs)) of None \<Rightarrow> False | Some b \<Rightarrow> tip_is cs b)"

subsection \<open>Paths below a block of the base chain\<close>

lemma tree_okD:
  assumes "tree_ok T" "T h = Some (p, n)"
  shows "n \<le> height_limit" "T p = Some (q, m) \<Longrightarrow> n = Suc m" "p \<noteq> h"
proof -
  have all: "n \<le> height_limit \<and> (\<forall>q m. T p = Some (q, m) \<longrightarrow> n = Suc m)"
    using assms(1) [unfolded tree_ok_def] assms(2) by blast
  then show "n \<le> height_limit" "T p = Some (q, m) \<Longrightarrow> n = Suc m" by blast+
  show "p \<noteq> h"
  proof
    assume "p = h"
    then have "n = Suc n" using all assms(2) by blast
    then show False by simp
  qed
qed

lemma rows_in_treeD: "rows_in_tree T rows \<Longrightarrow> r \<in> set rows \<Longrightarrow> T (r_hash r) = Some (r_parent r, r_height r)"
  by (simp add: rows_in_tree_def)

lemma base_in_treeD:
  assumes "base_in_tree L T v" "v h = Some b"
  shows "T (blk_hash b) = Some (blk_parent b, h)" "block_wf b" "codec_ok L b"
  using assms by (auto simp: base_in_tree_def)

lemma same_hash_row:
  assumes "rows_in_tree T rows" "base_in_tree L T v" "v h = Some b" "r \<in> set rows" "r_hash r = blk_hash b"
  shows "r_parent r = blk_parent b" "r_height r = h"
  using rows_in_treeD [OF assms(1,4)] base_in_treeD(1) [OF assms(2,3)] assms(5) by auto

lemma view_path_above_root:
  assumes T: "rows_in_tree T rows" "base_in_tree L T v" and ok: "mainchain_ok v tip"
    and l: "l \<in> set rows" "r_branch l = 0" "v (r_height l) = Some bl" "blk_hash bl = r_hash l"
    and schema: "schema_ok rows"
  shows "v h = Some b \<Longrightarrow> r_height l \<le> h \<Longrightarrow> side_path rows (blk_hash b) rs \<Longrightarrow> r \<in> set rs \<Longrightarrow>
     r_height l < r_height r"
proof (induction "h - r_height l" arbitrary: h b rs)
  case 0
  then have "h = r_height l" by simp
  with 0 l have hash: "blk_hash b = r_hash l" by simp
  have "\<And>x. x \<in> set rows \<Longrightarrow> r_hash x = r_hash l \<Longrightarrow> x = l" using schema_hash_unique [OF schema _ l(1)] by simp
  with l(2) have "rs = []" using side_path_Nil_iff [OF "0.prems"(3)] unfolding hash by auto
  with 0 show ?case by simp
next
  case (Suc k)
  then obtain g where g: "h = Suc g" "r_height l \<le> g" by (cases h) auto
  have "g \<le> tip" using mainchain_okD(2) [OF ok Suc.prems(1)] g by simp
  then obtain c where c: "v g = Some c" using mainchain_okD(3) [OF ok l(3) g(2)] by blast
  have par: "blk_parent b = blk_hash c" using mainchain_okD(4) [OF ok c] Suc.prems(1) g(1) by simp
  obtain q qs where q: "rs = q # qs" using Suc.prems(4) by (cases rs) auto
  have qr: "q \<in> set rows" "r_hash q = blk_hash b" "side_path rows (r_parent q) qs"
    using Suc.prems(3) q by (auto elim: side_path_ConsE)
  have "r_height q = h" "r_parent q = blk_hash c"
    using same_hash_row [OF T Suc.prems(1) qr(1,2)] par by auto
  with Suc.hyps(1) [OF _ c g(2), of qs] Suc.hyps(2) Suc.prems(4) g q qr(3) show ?case by auto
qed

lemma view_fork_within_pruning:
  assumes sy: "chain_synced L T v cs" and B: "base_in_tree L T v" and ok: "mainchain_ok v tip"
    and b: "v h = Some b" "GetLowestUnprunedHeight cs \<le> int h"
  shows "fork_within_pruning L cs (blk_hash b)"
proof -
  have inv: "chain_inv L cs" and R: "rows_in_tree T (blocks cs)" using sy by (auto simp: chain_synced_def)
  obtain l bl where l: "l \<in> set (blocks cs)" "r_branch l = 0" "GetLowestUnprunedHeight cs = int (r_height l)"
      "v (r_height l) = Some bl" "blk_hash bl = r_hash l"
    using sy by (auto simp: chain_synced_def root_in_view_def)
  obtain rs where rs: "side_path (blocks cs) (blk_hash b) rs"
    using side_path_exists [OF rows_invD(3) [OF inv]] by blast
  have "r_height l < r_height (last rs)" if "rs \<noteq> []"
    using view_path_above_root [OF R B ok l(1,2,4,5) rows_invD(1) [OF inv] b(1) _ rs] that b(2) l(3) by simp
  then show ?thesis using fork_within_pruning_iff [OF inv rs] l(3) by fastforce
qed

text \<open>A block of the base chain can be handed to \<^verbatim>\<open>SetTip\<close> and \<^verbatim>\<open>ImportTip\<close>.\<close>

lemma view_storable:
  assumes "tree_ok T" "base_in_tree L T v" "v h = Some b" "mainchain_ok v tip" "GetFreeBranchNumber cs < i64_max"
  shows "storable L cs b"
  using base_in_treeD [OF assms(2,3)] mainchain_okD(1,2,7) [OF assms(4)] assms(3,5)
  by (fastforce simp: storable_def)

lemma view_heights_fit:
  assumes T: "tree_ok T" and R: "rows_in_tree T (blocks cs)" and B: "base_in_tree L T v" "v h = Some b"
    and ok: "mainchain_ok v tip"
  shows "heights_fit cs b"
proof -
  have Tb: "T (blk_hash b) = Some (blk_parent b, h)" and h: "blk_height b = h"
    using base_in_treeD [OF B] mainchain_okD(1) [OF ok B(2)] by auto
  have "r_height r = Suc h" if "r \<in> set (blocks cs)" "r_parent r = blk_hash b" for r
    using tree_okD(2) [OF T rows_in_treeD [OF R that(1)]] that(2) Tb by simp
  moreover have "h = Suc (r_height r)" if "r \<in> set (blocks cs)" "r_hash r = blk_parent b" for r
    using tree_okD(2) [OF T Tb] rows_in_treeD [OF R that(1)] that(2) by simp
  ultimately show ?thesis using tree_okD(3) [OF T Tb] h by (simp add: heights_fit_def)
qed

lemma view_tip_update_ok:
  assumes T: "tree_ok T" and sy: "chain_synced L T v cs" and B: "base_in_tree L T v" and ok: "mainchain_ok v tip"
    and b: "v h = Some b" "GetLowestUnprunedHeight cs \<le> int h" and room: "GetFreeBranchNumber cs < i64_max"
  shows "tip_update_ok L cs b"
proof -
  have R: "rows_in_tree T (blocks cs)" using sy by (simp add: chain_synced_def)
  have "fork_within_pruning L cs (blk_parent b)" if new: "row_at (blocks cs) (blk_hash b) = None"
  proof -
    obtain l bl where l: "l \<in> set (blocks cs)" "GetLowestUnprunedHeight cs = int (r_height l)"
        "v (r_height l) = Some bl" "blk_hash bl = r_hash l"
      using sy by (auto simp: chain_synced_def root_in_view_def)
    have "h \<noteq> r_height l" using new l b(1) by (auto simp: row_at_None)
    with b(2) l(2) obtain g where g: "h = Suc g" "r_height l \<le> g" by (cases h) auto
    have "g \<le> tip" using mainchain_okD(2) [OF ok b(1)] g by simp
    then obtain c where c: "v g = Some c" using mainchain_okD(3) [OF ok l(3) g(2)] by blast
    have "blk_parent b = blk_hash c" using mainchain_okD(4) [OF ok c] b(1) g(1) by simp
    then show ?thesis using view_fork_within_pruning [OF sy B ok c] g(2) l(2) by simp
  qed
  then show ?thesis
    using view_storable [OF T B b(1) ok room] view_heights_fit [OF T R B b(1) ok]
      view_fork_within_pruning [OF sy B ok b]
    by (simp add: tip_update_ok_def)
qed

lemma view_known:
  assumes R: "rows_in_tree T (blocks cs)" and B: "base_in_tree L T v" and ok: "mainchain_ok v tip"
    and b: "v h = Some b" and r: "row_at (blocks cs) (blk_hash b) = Some r"
  shows "block_known cs b"
  using same_hash_row [OF R B b] row_at_SomeD [OF r] mainchain_okD(1) [OF ok b] r
  by (simp add: block_known_def)

text \<open>The first block of a request is accepted exactly when it or its parent is known.\<close>

lemma SetTip_view:
  assumes T: "tree_ok T" and sy: "chain_synced L T v cs" and B: "base_in_tree L T v" and ok: "mainchain_ok v tip"
    and b: "v h = Some b" "GetLowestUnprunedHeight cs \<le> int h" and room: "GetFreeBranchNumber cs < i64_max"
  shows "\<exists>old. select_tip cs = [old] \<and>
     (if row_at (blocks cs) (blk_hash b) = None \<and> row_at (blocks cs) (blk_parent b) = None
      then SetTip L b cs = (Inr (False, old), cs)
      else \<exists>cs'. SetTip L b cs = (Inr (True, old), cs') \<and> tip_updated L cs b cs')"
proof -
  have inv: "chain_inv L cs" and R: "rows_in_tree T (blocks cs)" and "root_in_view v cs"
    using sy by (auto simp: chain_synced_def)
  then obtain l where "l \<in> set (blocks cs)" by (auto simp: root_in_view_def)
  then obtain old where old: "select_tip cs = [old]" using tip_query [OF inv] by metis
  note tok = view_tip_update_ok [OF T sy B ok b room]
  consider (known) r where "row_at (blocks cs) (blk_hash b) = Some r"
    | (attach) "block_attachable cs b"
    | (orphan) "row_at (blocks cs) (blk_hash b) = None" "row_at (blocks cs) (blk_parent b) = None"
    unfolding block_attachable_def by (cases "row_at (blocks cs) (blk_hash b)") blast+
  then show ?thesis
  proof cases
    case known
    then show ?thesis using SetTip_known [OF inv tok view_known [OF R B ok b(1)]] by auto
  next
    case attach
    then show ?thesis using SetTip_attach [OF inv tok attach] by (auto simp: block_attachable_def)
  next
    case orphan
    then show ?thesis using SetTip_unknown_parent [OF inv orphan old] old by auto
  qed
qed

subsection \<open>The main chain follows the base chain\<close>

lemma main_on_view:
  assumes inv: "chain_inv L cs" and R: "rows_in_tree T (blocks cs)" and B: "base_in_tree L T v"
    and ok: "mainchain_ok v tip" and t: "tip_is cs b" "v h = Some b"
    and low: "GetLowestUnprunedHeight cs = int k" "v k = Some c"
  shows "k + j \<le> h \<Longrightarrow> \<exists>r\<in>set (blocks cs). r_branch r = 0 \<and> r_height r = h - j \<and>
     (\<exists>x. v (h - j) = Some x \<and> r_hash r = blk_hash x)"
proof (induction j)
  case 0
  have "blk_height b = h" using mainchain_okD(1) [OF ok t(2)] .
  with t show ?case by (auto simp: tip_is_def)
next
  case (Suc j)
  then obtain q x where q: "q \<in> set (blocks cs)" "r_branch q = 0" "r_height q = h - j"
      "v (h - j) = Some x" "r_hash q = blk_hash x" by auto
  obtain l where l: "l \<in> set (blocks cs)" "r_branch l = 0" "GetLowestUnprunedHeight cs = int (r_height l)"
    using GetLowest_obtain [OF q(1,2)] .
  have "r_height l < r_height q" using l(3) low(1) q(3) Suc.prems by simp
  then obtain p where p: "p \<in> set (blocks cs)" "r_branch p = 0" "r_hash p = r_parent q"
    using branches_contiguousD [OF rows_invD(4) [OF inv] q(1) l(1)] l(2) q(2) by auto
  have hp: "r_height p = h - Suc j"
    using heights_linkedD [OF rows_invD(3) [OF inv] q(1) p(1,3)] q(3) by simp
  have bound: "k \<le> h - Suc j" "h - Suc j \<le> tip"
    using Suc.prems mainchain_okD(2) [OF ok t(2)] by simp_all
  then obtain y where y: "v (h - Suc j) = Some y" using mainchain_okD(3) [OF ok low(2)] by blast
  have "Suc (h - Suc j) = h - j" using Suc.prems by simp
  then have "blk_parent x = blk_hash y" using mainchain_okD(4) [OF ok y] q(4) by simp
  with same_hash_row(1) [OF R B q(4,1,5)] p y hp show ?case by auto
qed

lemma synced_when_tip_on_view:
  assumes inv: "chain_inv L cs" and R: "rows_in_tree T (blocks cs)" and B: "base_in_tree L T v"
    and ok: "mainchain_ok v tip" and t: "tip_is cs b" "v h = Some b"
    and low: "GetLowestUnprunedHeight cs = int k" "v k \<noteq> None"
  shows "chain_synced L T v cs" "chain_aligned v cs" "k \<le> h"
proof -
  obtain c where c: "v k = Some c" using low(2) by auto
  have bh: "blk_height b = h" using mainchain_okD(1) [OF ok t(2)] .
  obtain m where m: "m \<in> set (blocks cs)" "r_branch m = 0" "r_height m = h" using t(1) bh by (auto simp: tip_is_def)
  show kh: "k \<le> h" using GetLowest_le [OF m(1,2)] m(3) low(1) by simp
  then obtain r x where "r \<in> set (blocks cs)" "r_branch r = 0" "r_height r = k" "v k = Some x" "r_hash r = blk_hash x"
    using main_on_view [OF inv R B ok t low(1) c, of "h - k"] by auto
  then have "root_in_view v cs" using low(1) by (force simp: root_in_view_def)
  with inv R show "chain_synced L T v cs" by (simp add: chain_synced_def)
  show "chain_aligned v cs" using t bh by (simp add: chain_aligned_def tip_is_def)
qed

lemma rows_in_tree_keys:
  "rows_in_tree T rows \<longleftrightarrow> (\<forall>(h, p, n)\<in>row_key ` set rows. T h = Some (p, n))"
  by (auto simp: rows_in_tree_def row_key_def)

lemma rows_in_tree_insert:
  assumes "rows_in_tree T rows" "base_in_tree L T v" "mainchain_ok v tip" "v h = Some b"
    and "row_key ` set rows' \<subseteq> insert (blk_key b) (row_key ` set rows)"
  shows "rows_in_tree T rows'"
  using assms(1,5) base_in_treeD(1) [OF assms(2,4)] mainchain_okD(1) [OF assms(3,4)]
  unfolding rows_in_tree_keys by (fastforce simp: blk_key_def)

lemma tip_updated_synced:
  assumes sy: "chain_synced L T v cs" and B: "base_in_tree L T v" and ok: "mainchain_ok v tip"
    and b: "v h = Some b" and up: "tip_updated L cs b cs'"
  shows "chain_synced L T v cs'" "chain_aligned v cs'"
proof -
  obtain l :: dbrow and bl where l: "GetLowestUnprunedHeight cs = int (r_height l)" "v (r_height l) = Some bl"
    using sy by (auto simp: chain_synced_def root_in_view_def)
  have R: "rows_in_tree T (blocks cs')"
    using rows_in_tree_insert [OF _ B ok b, of "blocks cs" "blocks cs'"] sy up
    by (simp add: chain_synced_def tip_updated_def)
  have up': "chain_inv L cs'" "tip_is cs' b" "GetLowestUnprunedHeight cs' = int (r_height l)"
    using up l(1) by (auto simp: tip_updated_def)
  show "chain_synced L T v cs'" "chain_aligned v cs'"
    using synced_when_tip_on_view [OF up'(1) R B ok up'(2) b up'(3)] l(2) by auto
qed

subsection \<open>Attaching a range of blocks\<close>

lemma tip_known:
  assumes "tip_is cs b"
  shows "select_tip cs = [blk_hash b]" "\<exists>r\<in>set (blocks cs). r_hash r = blk_hash b"
  using assms by (auto simp: tip_is_def)

lemma attach_loop_ok:
  assumes T: "tree_ok T" and B: "base_in_tree L T v" and ok: "mainchain_ok v tip"
  shows "v h = Some b \<Longrightarrow> block_slice v (Suc h) n = bs \<Longrightarrow> chain_synced L T v cs \<Longrightarrow> tip_is cs b \<Longrightarrow>
     GetFreeBranchNumber cs + 2 * length bs < i64_max \<Longrightarrow>
     \<exists>cs'. attach_loop L b bs cs = (Inr (), cs') \<and> chain_synced L T v cs' \<and> tip_is cs' (last (b # bs)) \<and>
       GetLowestUnprunedHeight cs' = GetLowestUnprunedHeight cs \<and>
       GetFreeBranchNumber cs' \<le> GetFreeBranchNumber cs + 2 * length bs \<and>
       variables cs' = variables cs \<and> savepoints cs' = savepoints cs"
proof (induction n arbitrary: h b bs cs)
  case 0
  then show ?case by auto
next
  case (Suc n)
  show ?case
  proof (cases "v (Suc h)")
    case None
    then show ?thesis using Suc.prems by auto
  next
    case (Some b')
    let ?bs = "block_slice v (Suc (Suc h)) n"
    have bs: "bs = b' # ?bs" using Suc.prems(2) Some by simp
    have par: "blk_parent b' = blk_hash b" using mainchain_okD(4) [OF ok Suc.prems(1) Some] .
    have hb: "blk_height b = h" using mainchain_okD(1) [OF ok Suc.prems(1)] .
    have low: "GetLowestUnprunedHeight cs \<le> int (Suc h)"
      using Suc.prems(4) hb GetLowest_le [of _ cs] by (fastforce simp: tip_is_def)
    have known: "row_at (blocks cs) (blk_parent b') \<noteq> None"
      using tip_known(2) [OF Suc.prems(4)] par by (auto simp: row_at_None)
    have room: "GetFreeBranchNumber cs < i64_max" using Suc.prems(5) by simp
    obtain cs1 where st: "SetTip L b' cs = (Inr (True, blk_hash b), cs1)" "tip_updated L cs b' cs1"
      using SetTip_view [OF T Suc.prems(3) B ok Some low room] known tip_known(1) [OF Suc.prems(4)] by auto
    have up: "tip_is cs1 b'" "GetFreeBranchNumber cs1 \<le> GetFreeBranchNumber cs + 2"
        "GetLowestUnprunedHeight cs1 = GetLowestUnprunedHeight cs"
        "variables cs1 = variables cs" "savepoints cs1 = savepoints cs"
      using st(2) by (auto simp: tip_updated_def)
    have room1: "GetFreeBranchNumber cs1 + 2 * length ?bs < i64_max" using Suc.prems(5) bs up(2) by simp
    obtain cs' where cs': "attach_loop L b' ?bs cs1 = (Inr (), cs')" "chain_synced L T v cs'"
        "tip_is cs' (last (b' # ?bs))" "GetLowestUnprunedHeight cs' = GetLowestUnprunedHeight cs1"
        "GetFreeBranchNumber cs' \<le> GetFreeBranchNumber cs1 + 2 * length ?bs"
        "variables cs' = variables cs1" "savepoints cs' = savepoints cs1"
      using Suc.IH [OF Some refl tip_updated_synced(1) [OF Suc.prems(3) B ok Some st(2)] up(1) room1] by blast
    have "attach_loop L b bs cs = (Inr (), cs')" using bs st(1) par cs'(1) by simp
    with cs' up bs show ?thesis by auto
  qed
qed

end
