(* ===== verification/SyncClient.thy ===== *)
theory SyncClient
  imports SyncStep
begin

text \<open>
  The interface between the sync worker and the owner of its callbacks.  \<open>update_ok\<close> is what the
  worker promises about the arguments of \<^verbatim>\<open>TipUpdatedFrom\<close>: the attached blocks are linked, end at
  the new tip, and go back at least to the fork point with the old tip.  The locale \<open>sync_client\<close>
  has what the worker relies on in return; its parameter \<open>E\<close> is an invariant of the owner, indexed
  by the tip that was announced last.
\<close>

subsection \<open>The state of the worker\<close>

definition base_same :: "('b \<Rightarrow> mainchain) \<Rightarrow> ('b \<Rightarrow> nat) \<Rightarrow> ('b \<Rightarrow> bool) \<Rightarrow> 'b \<Rightarrow> 'b \<Rightarrow> bool" where
  "base_same view tip ready b b' \<longleftrightarrow> ready b' \<and> view b' = view b \<and> tip b' = tip b"

text \<open>The height of the block that an import starts at.\<close>

definition genesis_height :: "nat \<Rightarrow> nat \<Rightarrow> nat" where
  "genesis_height depth t = (if t < depth then 0 else t - depth)"

text \<open>The arguments of the callback.  Where the branch of the old tip ends, the block above the end
  is among the attached ones unless the end is the new tip itself.\<close>

definition update_ok :: "codec \<Rightarrow> mainchain \<Rightarrow> chainstate \<Rightarrow> string \<Rightarrow> BlockData list \<Rightarrow> bool" where
  "update_ok L v cs old att \<longleftrightarrow>
     att \<noteq> [] \<and> linked att \<and> tip_is cs (last att) \<and>
     (\<forall>b\<in>set att. GetLowestUnprunedHeight cs < int (blk_height b) \<longrightarrow> (\<exists>x. v (blk_height b) = Some x \<and> blk_key x = blk_key b)) \<and>
     (\<forall>b\<in>set att. (\<exists>h. v h = Some b) \<or> (\<exists>r\<in>set (blocks cs). Deserialise L (r_data r) = Inr b)) \<and>
     (old \<noteq> [] \<longrightarrow> old \<noteq> blk_hash (last att) \<and> row_at (blocks cs) old \<noteq> None \<and>
        (\<forall>ps. side_path (blocks cs) old ps \<longrightarrow>
           (\<exists>m\<in>set (blocks cs). r_branch m = 0 \<and> blk_height (hd att) \<le> Suc (r_height m) \<and>
              r_hash m = (if ps = [] then old else r_parent (last ps)))))"

text \<open>Every stored block was stored before or is one of the base chain.\<close>

definition data_from :: "codec \<Rightarrow> mainchain \<Rightarrow> chainstate \<Rightarrow> chainstate \<Rightarrow> bool" where
  "data_from L v cs cs' \<longleftrightarrow>
     data_only (\<lambda>d. (\<exists>r\<in>set (blocks cs). r_data r = d) \<or> (\<exists>h b. v h = Some b \<and> Serialise L b = Inr d)) cs'"

text \<open>What the worker relies on in its callback: it may prune the chain state, and leaves the
  worker and the base chain alone.\<close>

definition callback_result ::
  "codec \<Rightarrow> ('b \<Rightarrow> mainchain) \<Rightarrow> ('b \<Rightarrow> nat) \<Rightarrow> ('b \<Rightarrow> bool) \<Rightarrow> BlockData \<Rightarrow> ('b, 'w) Sync \<Rightarrow> ('b, 'w) Sync \<Rightarrow> bool" where
  "callback_result L view tip ready b s s' \<longleftrightarrow>
     base_same view tip ready (sy_base s) (sy_base s') \<and>
     sy_numBlocks s' = sy_numBlocks s \<and> sy_nextStartHeight s' = sy_nextStartHeight s \<and>
     chain_inv L (sy_chain s') \<and> tip_is (sy_chain s') b \<and>
     row_key ` set (blocks (sy_chain s')) \<subseteq> row_key ` set (blocks (sy_chain s)) \<and>
     GetLowestUnprunedHeight (sy_chain s) \<le> GetLowestUnprunedHeight (sy_chain s') \<and>
     GetFreeBranchNumber (sy_chain s') \<le> GetFreeBranchNumber (sy_chain s)"

locale sync_client = base_chain bc view tip ready
  for bc :: "'b BaseChain" and view tip ready +
  fixes L :: codec and T :: block_tree and depth :: nat
    and E :: "string \<Rightarrow> ('b, 'w) Sync \<Rightarrow> bool" and cb :: "('b, 'w) sync_cb"
  assumes frame_law: "E h s \<Longrightarrow> sy_owner s' = sy_owner s \<Longrightarrow> view (sy_base s') = view (sy_base s) \<Longrightarrow>
      data_from L (view (sy_base s)) (sy_chain s) (sy_chain s') \<Longrightarrow> E h s'"
    and callback_law: "E h s \<Longrightarrow> ready (sy_base s) \<Longrightarrow> tree_ok T \<Longrightarrow> base_in_tree L T (view (sy_base s)) \<Longrightarrow>
      chain_synced L T (view (sy_base s)) (sy_chain s) \<Longrightarrow> update_ok L (view (sy_base s)) (sy_chain s) old att \<Longrightarrow>
      (if old = [] then length att = 1 \<and> blk_height (hd att) = genesis_height depth (tip (sy_base s)) else old = h) \<Longrightarrow>
      \<exists>s'. TipUpdatedFrom_cb cb old att s = (Inr (), s') \<and> callback_result L view tip ready (last att) s s' \<and>
        E (blk_hash (last att)) s'"

definition sync_inv ::
  "codec \<Rightarrow> block_tree \<Rightarrow> ('b \<Rightarrow> mainchain) \<Rightarrow> ('b \<Rightarrow> bool) \<Rightarrow> (string \<Rightarrow> ('b, 'w) Sync \<Rightarrow> bool) \<Rightarrow> int \<Rightarrow>
     ('b, 'w) Sync \<Rightarrow> bool" where
  "sync_inv L T view ready E block_range s \<longleftrightarrow>
     tree_ok T \<and> ready (sy_base s) \<and> base_in_tree L T (view (sy_base s)) \<and>
     1 \<le> block_range \<and> block_range \<le> 2147483647 \<and>
     1 \<le> sy_numBlocks s \<and> sy_numBlocks s \<le> nat block_range \<and>
     chain_inv L (sy_chain s) \<and> rows_in_tree T (blocks (sy_chain s)) \<and>
     (blocks (sy_chain s) \<noteq> [] \<longrightarrow> root_in_view (view (sy_base s)) (sy_chain s)) \<and>
     (sy_nextStartHeight s \<noteq> -1 \<longrightarrow> blocks (sy_chain s) \<noteq> [] \<and>
        GetLowestUnprunedHeight (sy_chain s) \<le> sy_nextStartHeight s \<and>
        sy_nextStartHeight s \<le> GetTipHeight (sy_chain s)) \<and>
     (\<exists>h. E h s \<and> (blocks (sy_chain s) \<noteq> [] \<longrightarrow> select_tip (sy_chain s) = [h]))"

text \<open>The height the next request starts at.\<close>

definition start_height :: "('b, 'w) Sync \<Rightarrow> int" where
  "start_height s = (if sy_nextStartHeight s = -1 then GetTipHeight (sy_chain s) else sy_nextStartHeight s)"

text \<open>Branch numbers one pass can use up.\<close>

definition step_cost :: "int \<Rightarrow> nat" where
  "step_cost block_range = 2 * max (nat block_range) 3 + 4"

definition has_room :: "int \<Rightarrow> nat \<Rightarrow> ('b, 'w) Sync \<Rightarrow> bool" where
  "has_room block_range n s \<longleftrightarrow> GetFreeBranchNumber (sy_chain s) + n * step_cost block_range < i64_max"

text \<open>What a pass achieves once its first block fits.\<close>

definition advanced ::
  "codec \<Rightarrow> block_tree \<Rightarrow> ('b \<Rightarrow> mainchain) \<Rightarrow> ('b \<Rightarrow> nat) \<Rightarrow> ('b \<Rightarrow> bool) \<Rightarrow> (string \<Rightarrow> ('b, 'w) Sync \<Rightarrow> bool) \<Rightarrow> int \<Rightarrow>
     ('b, 'w) Sync \<Rightarrow> nat \<Rightarrow> bool \<Rightarrow> ('b, 'w) Sync \<Rightarrow> bool" where
  "advanced L T view tip ready E block_range s st again s' \<longleftrightarrow>
     sync_inv L T view ready E block_range s' \<and> base_same view tip ready (sy_base s) (sy_base s') \<and>
     sy_nextStartHeight s' = -1 \<and> blocks (sy_chain s') \<noteq> [] \<and>
     chain_aligned (view (sy_base s)) (sy_chain s') \<and>
     (if again then int st + 2 \<le> GetTipHeight (sy_chain s') \<and> GetTipHeight (sy_chain s') \<le> int (tip (sy_base s))
      else GetTipHeight (sy_chain s') = int (tip (sy_base s))) \<and>
     GetFreeBranchNumber (sy_chain s') \<le> GetFreeBranchNumber (sy_chain s) + step_cost block_range"

text \<open>The worker has nothing left to do.\<close>

definition caught_up :: "('b \<Rightarrow> mainchain) \<Rightarrow> ('b \<Rightarrow> nat) \<Rightarrow> ('b, 'w) Sync \<Rightarrow> bool" where
  "caught_up view tip s \<longleftrightarrow>
     (case view (sy_base s) (tip (sy_base s)) of None \<Rightarrow> False | Some b \<Rightarrow> tip_is (sy_chain s) b)"

text \<open>A pass that found no fork point yet: only the request changes.\<close>

definition went_back ::
  "codec \<Rightarrow> block_tree \<Rightarrow> ('b \<Rightarrow> mainchain) \<Rightarrow> ('b \<Rightarrow> nat) \<Rightarrow> ('b \<Rightarrow> bool) \<Rightarrow> (string \<Rightarrow> ('b, 'w) Sync \<Rightarrow> bool) \<Rightarrow> int \<Rightarrow>
     ('b, 'w) Sync \<Rightarrow> ('b, 'w) Sync \<Rightarrow> bool" where
  "went_back L T view tip ready E block_range s s' \<longleftrightarrow>
     sync_inv L T view ready E block_range s' \<and> base_same view tip ready (sy_base s) (sy_base s') \<and>
     sy_chain s' = sy_chain s \<and> 0 \<le> sy_nextStartHeight s' \<and> sy_nextStartHeight s' < start_height s"

text \<open>How many passes are left at most.\<close>

definition passes_left :: "('b \<Rightarrow> mainchain) \<Rightarrow> ('b \<Rightarrow> nat) \<Rightarrow> ('b, 'w) Sync \<Rightarrow> nat" where
  "passes_left view tip s =
     (if chain_aligned (view (sy_base s)) (sy_chain s) \<and> sy_nextStartHeight s = -1
      then tip (sy_base s) - nat (GetTipHeight (sy_chain s))
      else tip (sy_base s) + 2 + nat (start_height s))"

definition passes_needed :: "('b \<Rightarrow> mainchain) \<Rightarrow> ('b \<Rightarrow> nat) \<Rightarrow> ('b, 'w) Sync \<Rightarrow> nat" where
  "passes_needed view tip s =
     (if blocks (sy_chain s) = [] then Suc (tip (sy_base s)) else passes_left view tip s)"

subsection \<open>Lemmas on the parts of a pass\<close>

lemma sy_on_base_Inr [simp]: "m (sy_base s) = (Inr a, b) \<Longrightarrow> sy_on_base m s = (Inr a, s\<lparr>sy_base := b\<rparr>)"
  by (simp add: sy_on_base_def zoomM_def)

lemma sy_on_chain_Inr [simp]: "m (sy_chain s) = (Inr a, c) \<Longrightarrow> sy_on_chain m s = (Inr a, s\<lparr>sy_chain := c\<rparr>)"
  by (simp add: sy_on_chain_def zoomM_def)

lemma IncreaseNumBlocks_eq:
  assumes "1 \<le> block_range" "block_range \<le> 2147483647" "1 \<le> sy_numBlocks s" "sy_numBlocks s \<le> nat block_range"
  shows "\<exists>n. IncreaseNumBlocks block_range s = (Inr (), s\<lparr>sy_numBlocks := n\<rparr>) \<and> 1 \<le> n \<and> n \<le> nat block_range"
proof -
  have "u32_of_int block_range = nat block_range" using assms by simp
  moreover have "(sy_numBlocks s * 2) mod (u32_max + 1) = sy_numBlocks s * 2" using assms by simp
  ultimately show ?thesis
    using assms by (intro exI [of _ "min (nat block_range) (sy_numBlocks s * 2)"]) (simp add: IncreaseNumBlocks_def)
qed

lemma fork_within_pruning_empty:
  assumes "blocks cs = []" "chain_inv L cs"
  shows "fork_within_pruning L cs h"
proof -
  have "side_path (blocks cs) h []" using assms(1) by (simp add: side_path.intros)
  then show ?thesis using fork_within_pruning_iff [OF assms(2)] by blast
qed

lemma block_slice_one: "v h = Some b \<Longrightarrow> block_slice v h 1 = [b]"
  unfolding One_nat_def by simp

lemma rows_in_tree_subset:
  assumes "rows_in_tree T rows" "row_key ` set rows' \<subseteq> row_key ` set rows"
  shows "rows_in_tree T rows'"
  unfolding rows_in_tree_keys
proof
  fix k assume "k \<in> row_key ` set rows'"
  with assms(2) have "k \<in> row_key ` set rows" by (rule subsetD)
  with assms(1) show "case k of (h, p, n) \<Rightarrow> T h = Some (p, n)" unfolding rows_in_tree_keys by (rule bspec)
qed

lemma root_heights:
  assumes "root_in_view v cs"
  obtains k where "GetLowestUnprunedHeight cs = int k" "v k \<noteq> None" "int k \<le> GetTipHeight cs"
proof -
  obtain l b where l: "l \<in> set (blocks cs)" "r_branch l = 0" "GetLowestUnprunedHeight cs = int (r_height l)"
      "v (r_height l) = Some b"
    using assms by (auto simp: root_in_view_def)
  have "int (r_height l) \<le> GetTipHeight cs"
    by (rule GetTip_obtain [OF l(1,2)]) (use l in simp)
  with l that show thesis by auto
qed

lemma tip_height_limit:
  assumes "tree_ok T" "rows_in_tree T (blocks cs)"
  shows "GetTipHeight cs \<le> int height_limit"
proof (cases "\<exists>m\<in>set (blocks cs). r_branch m = 0")
  case True
  then obtain m where m: "m \<in> set (blocks cs)" "r_branch m = 0" by blast
  show ?thesis
  proof (rule GetTip_obtain [OF m])
    fix t assume t: "t \<in> set (blocks cs)" "GetTipHeight cs = int (r_height t)"
    show ?thesis using tree_okD(1) [OF assms(1) rows_in_treeD [OF assms(2) t(1)]] t(2) by simp
  qed
qed (use no_main_heights(1) [of cs] in auto)

text \<open>Whether the first block of a request fits: it or its parent is known.\<close>

definition fits :: "mainchain \<Rightarrow> chainstate \<Rightarrow> nat \<Rightarrow> bool" where
  "fits v cs h \<longleftrightarrow>
     (case v h of
        None \<Rightarrow> False
      | Some b \<Rightarrow> row_at (blocks cs) (blk_hash b) \<noteq> None \<or> row_at (blocks cs) (blk_parent b) \<noteq> None)"

lemma root_fits:
  assumes "root_in_view v cs" "GetLowestUnprunedHeight cs = int h"
  shows "fits v cs h"
proof -
  obtain l b where l: "l \<in> set (blocks cs)" "r_height l = h" "v (r_height l) = Some b" "blk_hash b = r_hash l"
    using assms by (auto simp: root_in_view_def)
  then have "row_at (blocks cs) (blk_hash b) \<noteq> None" by (auto simp: row_at_None)
  with l show ?thesis by (simp add: fits_def)
qed

lemma aligned_fits:
  assumes "chain_aligned v cs" "GetTipHeight cs = int h"
  shows "fits v cs h"
proof -
  obtain b where b: "v h = Some b" "tip_is cs b" using assms by (auto simp: chain_aligned_def split: option.splits)
  then have "row_at (blocks cs) (blk_hash b) \<noteq> None" using tip_known(2) [of cs b] by (auto simp: row_at_None)
  with b show ?thesis by (simp add: fits_def)
qed

subsection \<open>The fork point of an update\<close>

text \<open>Two chain states, the later with all the rows of the earlier one up to branch numbers.  If a block of
  the earlier main chain is still on the main chain, then the branch of any main-chain block above it ends
  at a main-chain block not below it.\<close>

lemma rows_kept_row:
  assumes "rows_kept (blocks cs) cs'" "r \<in> set (blocks cs)"
  obtains q where "q \<in> set (blocks cs')" "r_hash q = r_hash r" "r_parent q = r_parent r" "r_height q = r_height r"
    "r_data q = r_data r"
proof -
  obtain b where "r\<lparr>r_branch := b\<rparr> \<in> set (blocks cs')" using assms by (auto simp: rows_kept_def)
  then show thesis by (rule that) simp_all
qed

lemma fork_above_anchor:
  assumes inv: "chain_inv L cs" and kept: "rows_kept (blocks cs) cs'" and S: "schema_ok (blocks cs')"
    and x: "x \<in> set (blocks cs)" "r_branch x = 0" and x': "x' \<in> set (blocks cs')" "r_branch x' = 0" "r_hash x' = r_hash x"
  shows "t \<in> set (blocks cs) \<Longrightarrow> r_branch t = 0 \<Longrightarrow> r_height x \<le> r_height t \<Longrightarrow> side_path (blocks cs') (r_hash t) ps \<Longrightarrow>
    \<exists>m\<in>set (blocks cs'). r_branch m = 0 \<and> r_height x \<le> r_height m \<and>
      r_hash m = (if ps = [] then r_hash t else r_parent (last ps))"
proof (induction "r_height t - r_height x" arbitrary: t ps rule: less_induct)
  case less
  obtain q where q: "q \<in> set (blocks cs')" "r_hash q = r_hash t" "r_parent q = r_parent t" "r_height q = r_height t"
    using rows_kept_row [OF kept less.prems(1)] .
  have uniq: "y = q" if "y \<in> set (blocks cs')" "r_hash y = r_hash t" for y
    using schema_hash_unique [OF S that(1) q(1)] that(2) q(2) by simp
  show ?case
  proof (cases "r_branch q = 0")
    case True
    then have "ps = []" using side_path_Nil_iff [OF less.prems(4)] uniq by auto
    then show ?thesis using True q less.prems(3) by auto
  next
    case False
    have "t \<noteq> x"
    proof
      assume "t = x"
      then have "x' = q" using uniq [OF x'(1)] x'(3) by simp
      with False x'(2) show False by simp
    qed
    then have lt: "r_height x < r_height t"
      using schema_slot_unique [OF rows_invD(1) [OF inv] less.prems(1) x(1)] less.prems(2,3) x(2) by fastforce
    obtain p where p: "p \<in> set (blocks cs)" "r_branch p = 0" "r_hash p = r_parent t"
      using branches_contiguousD [OF rows_invD(4) [OF inv] less.prems(1) x(1)] x(2) less.prems(2) lt by auto
    have ph: "r_height t = Suc (r_height p)" using heights_linkedD [OF rows_invD(3) [OF inv] less.prems(1) p(1,3)] .
    have "ps \<noteq> []" using side_path_Nil_iff [OF less.prems(4)] False q(1,2) by auto
    then obtain y ps' where ps: "ps = y # ps'" by (cases ps) auto
    then have y: "y = q" "side_path (blocks cs') (r_parent y) ps'"
      using less.prems(4) uniq by (auto elim: side_path_ConsE)
    then have "side_path (blocks cs') (r_hash p) ps'" using q(3) p(3) by simp
    moreover have "r_height p - r_height x < r_height t - r_height x" "r_height x \<le> r_height p" using ph lt by auto
    ultimately obtain m where
      "m \<in> set (blocks cs')" "r_branch m = 0" "r_height x \<le> r_height m"
      "r_hash m = (if ps' = [] then r_hash p else r_parent (last ps'))"
      using less.hyps [OF _ p(1,2)] by blast
    then show ?thesis using ps y(1) q(3) p(3) by (intro bexI [of _ m]) auto
  qed
qed

text \<open>The rows of a branch below a block of the base chain are on the base chain.\<close>

lemma view_side_path:
  assumes Tk: "tree_ok T" and R: "rows_in_tree T rows" and B: "base_in_tree L T v" and ok: "mainchain_ok v t" and k: "v k = Some c"
  shows "v h = Some y \<Longrightarrow> side_path rows (blk_hash y) rs \<Longrightarrow> \<forall>r\<in>set rs. k \<le> r_height r \<Longrightarrow>
    \<forall>r\<in>set rs. \<exists>x. v (r_height r) = Some x \<and> blk_key x = row_key r"
proof (induction rs arbitrary: h y)
  case (Cons r rs)
  then have r: "r \<in> set rows" "r_hash r = blk_hash y" "side_path rows (r_parent r) rs" by (auto elim: side_path_ConsE)
  have eq: "r_parent r = blk_parent y" "r_height r = h" using same_hash_row [OF R B Cons.prems(1) r(1,2)] by auto
  have key: "blk_key y = row_key r"
    using eq r(2) mainchain_okD(1) [OF ok Cons.prems(1)] by (simp add: blk_key_def row_key_def)
  show ?case
  proof (cases rs)
    case Nil
    with Cons.prems(1) key eq(2) show ?thesis by auto
  next
    case rs: (Cons q qs)
    have q: "q \<in> set rows" "r_hash q = r_parent r" using r(3) rs by (auto elim: side_path_ConsE)
    have kq: "k \<le> r_height q" using Cons.prems(3) rs by auto
    have h: "h = Suc (r_height q)"
      using tree_okD(2) [OF Tk base_in_treeD(1) [OF B Cons.prems(1)]] rows_in_treeD [OF R q(1)] q(2) eq(1) by auto
    have "r_height q \<le> t" using mainchain_okD(2) [OF ok Cons.prems(1)] h by simp
    then obtain z where z: "v (r_height q) = Some z" using mainchain_okD(3) [OF ok k kq] by blast
    have "blk_hash z = r_parent r" using mainchain_okD(4) [OF ok z] Cons.prems(1) h eq(1) by simp
    with Cons.IH [OF z] r(3) Cons.prems(3) have "\<forall>r\<in>set rs. \<exists>x. v (r_height r) = Some x \<and> blk_key x = row_key r" by simp
    with Cons.prems(1) key eq(2) show ?thesis by auto
  qed
qed simp

text \<open>The anchor of an update: a block of the main chain, also on the base chain, at which the attached
  blocks start at the latest.\<close>

lemma update_anchor:
  assumes Tk: "tree_ok T" and B: "base_in_tree L T v" and ok: "mainchain_ok v t" and sy: "chain_synced L T v cs"
    and b: "v st = Some b" and low: "GetLowestUnprunedHeight cs \<le> int st" and fit: "fits v cs st"
    and rs: "side_path (blocks cs) (blk_parent b) rs"
  obtains x y where "x \<in> set (blocks cs)" "r_branch x = 0" "v (r_height x) = Some y" "blk_hash y = r_hash x" "r_height x \<le> st"
    "(if rs = [] then st else r_height (last rs)) \<le> Suc (r_height x)"
proof -
  have inv: "chain_inv L cs" and R: "rows_in_tree T (blocks cs)" using sy by (auto simp: chain_synced_def)
  obtain l bl where l: "l \<in> set (blocks cs)" "r_branch l = 0" "GetLowestUnprunedHeight cs = int (r_height l)"
      "v (r_height l) = Some bl" "blk_hash bl = r_hash l"
    using sy by (auto simp: chain_synced_def root_in_view_def)
  have Tb: "T (blk_hash b) = Some (blk_parent b, st)" using base_in_treeD(1) [OF B b] .
  have par: "st = Suc (r_height p)" if "p \<in> set (blocks cs)" "r_hash p = blk_parent b" for p
    using tree_okD(2) [OF Tk Tb] rows_in_treeD [OF R that(1)] that(2) by auto
  have hd: "hd rs \<in> set rs" "Suc (r_height (hd rs)) = st" "r_height (last rs) \<le> r_height (hd rs)" if "rs \<noteq> []"
    using that rs par [of "hd rs"] side_path_subset [OF rs] side_path_last_min [OF rows_invD(3) [OF inv] rs, of "hd rs"]
    by (cases rs; auto elim: side_path_ConsE)+
  show thesis
  proof (cases "st = r_height l")
    case True
    have "(if rs = [] then st else r_height (last rs)) \<le> Suc (r_height l)"
    proof (cases "rs = []")
      case False
      then show ?thesis using hd(2,3) True by simp
    qed (simp add: True)
    with l True show thesis by (intro that [of l bl]) simp_all
  next
    case False
    then have lt: "r_height l < st" using low l(3) by simp
    then obtain k where k: "st = Suc k" "r_height l \<le> k" by (cases st) auto
    have "k \<le> t" using mainchain_okD(2) [OF ok b] k(1) by simp
    then obtain c where c: "v k = Some c" using mainchain_okD(3) [OF ok l(4) k(2)] by blast
    have cb: "blk_hash c = blk_parent b" using mainchain_okD(4) [OF ok c] b k(1) by simp
    show thesis
    proof (cases "rs = []")
      case True
      have "\<exists>p\<in>set (blocks cs). r_hash p = blk_parent b"
      proof (cases "row_at (blocks cs) (blk_hash b)")
        case None
        then show ?thesis using fit b by (auto simp: fits_def row_at_None)
      next
        case (Some r)
        then have r: "r \<in> set (blocks cs)" "r_hash r = blk_hash b" by (auto dest: row_at_SomeD)
        have rp: "r_parent r = blk_parent b" "r_height r = st" using same_hash_row [OF R B b r] by auto
        show ?thesis
        proof (cases "r_branch r = 0")
          case True
          then show ?thesis
            using branches_contiguousD [OF rows_invD(4) [OF inv] r(1) l(1)] rp l(2) lt by auto
        next
          case False
          then have "(\<exists>p\<in>set (blocks cs). r_hash p = r_parent r) \<or>
              (\<forall>m\<in>set (blocks cs). r_branch m = 0 \<longrightarrow> r_height r \<le> r_height m)"
            using rows_invD(5) [OF inv] r(1) unfolding branches_rooted_def by blast
          then show ?thesis using l(1,2) lt rp by auto
        qed
      qed
      then obtain p where p: "p \<in> set (blocks cs)" "r_hash p = blk_parent b" by blast
      have "r_branch p = 0" using side_path_Nil_iff [OF rs] True p by auto
      moreover have "r_height p = k" using par [OF p] k(1) by simp
      ultimately show thesis using p c cb True k(1) by (intro that [of p c]) auto
    next
      case False
      let ?q = "last rs"
      have q: "?q \<in> set rs" "?q \<in> set (blocks cs)" using False side_path_subset [OF rs] last_in_set [OF False] by auto
      have rs': "side_path (blocks cs) (blk_hash c) rs" using rs cb by simp
      have above: "\<forall>r\<in>set rs. r_height l < r_height r"
        using view_path_above_root [OF R B ok l(1,2,4,5) rows_invD(1) [OF inv] c k(2) rs'] by blast
      have side: "r_branch ?q \<noteq> 0" using side_path_side [OF rs q(1)] .
      obtain p where p: "p \<in> set (blocks cs)" "r_hash p = r_parent ?q"
        using rows_invD(5) [OF inv] q(2) side l(1,2) above q(1) unfolding branches_rooted_def by (metis not_less)
      have ph: "r_height ?q = Suc (r_height p)" using heights_linkedD [OF rows_invD(3) [OF inv] q(2) p] .
      have main: "r_branch p = 0"
      proof -
        have "\<not> (\<exists>p\<in>set rs. r_hash p = r_parent ?q)"
        proof
          assume "\<exists>p\<in>set rs. r_hash p = r_parent ?q"
          then obtain z where z: "z \<in> set rs" "r_hash z = r_parent ?q" by blast
          have "z \<in> set (blocks cs)" using z(1) side_path_subset [OF rs] by blast
          then have "r_height ?q = Suc (r_height z)" using heights_linkedD [OF rows_invD(3) [OF inv] q(2) _ z(2)] by blast
          with side_path_last_min [OF rows_invD(3) [OF inv] rs z(1)] show False by simp
        qed
        then show ?thesis using side_path_parent [OF rs q(1)] p by blast
      qed
      have "\<forall>r\<in>set rs. r_height l \<le> r_height r" using above by (auto intro: less_imp_le)
      from view_side_path [OF Tk R B ok l(4) c rs' this] q(1) obtain w where
        w: "v (r_height ?q) = Some w" "blk_key w = row_key ?q" by blast
      have "r_height l \<le> r_height p" "r_height p \<le> t"
        using above q(1) ph mainchain_okD(2) [OF ok w(1)] by auto
      then obtain y where y: "v (r_height p) = Some y" using mainchain_okD(3) [OF ok l(4)] by blast
      have "blk_hash y = r_hash p" using mainchain_okD(4) [OF ok y] w ph p(2) by (simp add: blk_key_def row_key_def)
      with p main y False hd ph show thesis by (intro that [of p y]) auto
    qed
  qed
qed

lemma side_path_linked:
  assumes inv: "rows_inv L rows"
  shows "side_path rows h rs \<Longrightarrow> linked (rev (map (row_block L) rs))"
proof (induction rs arbitrary: h)
  case (Cons r rs)
  then have r: "r \<in> set rows" "side_path rows (r_parent r) rs" by (auto elim: side_path_ConsE)
  have ok: "row_ok L r" using rows_invD(2) [OF inv r(1)] .
  show ?case
  proof (cases rs)
    case Nil
    then show ?thesis by simp
  next
    case q: (Cons q qs)
    then have "q \<in> set rows" "r_hash q = r_parent r" using r(2) by (auto elim: side_path_ConsE)
    then have "row_ok L q" "r_height r = Suc (r_height q)" "r_hash q = r_parent r"
      using rows_invD(2) [OF inv] heights_linkedD [OF rows_invD(3) [OF inv] r(1)] by auto
    with Cons.IH [OF r(2)] q show ?thesis using read_row_ok [OF ok] read_row_ok [of L q] by (simp add: linked_append)
  qed
qed simp

text \<open>The blocks of a fork branch below a request, and those of the request itself, are on the base chain
  above the pruning height.\<close>

lemma branch_on_view:
  assumes Tk: "tree_ok T" and B: "base_in_tree L T v" and ok: "mainchain_ok v t" and sy: "chain_synced L T v cs"
    and b: "v st = Some b" and low: "GetLowestUnprunedHeight cs \<le> int st"
    and rs: "side_path (blocks cs) (blk_parent b) rs"
    and r: "r \<in> set rs" "GetLowestUnprunedHeight cs < int (r_height r)"
  shows "\<exists>x. v (r_height r) = Some x \<and> blk_key x = row_key r"
proof -
  have inv: "chain_inv L cs" and R: "rows_in_tree T (blocks cs)" using sy by (auto simp: chain_synced_def)
  obtain l bl where l: "l \<in> set (blocks cs)" "r_branch l = 0" "GetLowestUnprunedHeight cs = int (r_height l)"
      "v (r_height l) = Some bl" "blk_hash bl = r_hash l"
    using sy by (auto simp: chain_synced_def root_in_view_def)
  have par: "st = Suc (r_height p)" if "p \<in> set (blocks cs)" "r_hash p = blk_parent b" for p
    using tree_okD(2) [OF Tk base_in_treeD(1) [OF B b]] rows_in_treeD [OF R that(1)] that(2) by auto
  obtain q qs where q: "rs = q # qs" using r(1) by (cases rs) auto
  have qr: "q \<in> set (blocks cs)" "r_hash q = blk_parent b" using rs q by (auto elim: side_path_ConsE)
  have top: "r_height r \<le> r_height q"
    using side_path_heights [OF rows_invD(3) [OF inv] rs] q r(1) by auto
  then have lt: "r_height l < st" using r(2) l(3) par [OF qr] by simp
  then obtain k where k: "st = Suc k" "r_height l \<le> k" by (cases st) auto
  have "k \<le> t" using mainchain_okD(2) [OF ok b] k(1) by simp
  then obtain c where c: "v k = Some c" using mainchain_okD(3) [OF ok l(4) k(2)] by blast
  have "blk_hash c = blk_parent b" using mainchain_okD(4) [OF ok c] b k(1) by simp
  then have rs': "side_path (blocks cs) (blk_hash c) rs" using rs by simp
  have "\<forall>r\<in>set rs. r_height l \<le> r_height r"
    using view_path_above_root [OF R B ok l(1,2,4,5) rows_invD(1) [OF inv] c k(2) rs'] by (auto intro: less_imp_le)
  from view_side_path [OF Tk R B ok l(4) c rs' this] r(1) show ?thesis by blast
qed

lemma update_start:
  assumes inv: "rows_inv L rows" and rs: "side_path rows h rs" and bl: "bl \<noteq> []"
  shows "blk_height (hd (rev (map (row_block L) rs) @ bl)) = (if rs = [] then blk_height (hd bl) else r_height (last rs))"
proof (cases "rs = []")
  case False
  then have "last rs \<in> set rows" using side_path_subset [OF rs] last_in_set by blast
  then show ?thesis using False read_row_ok(4) [OF rows_invD(2) [OF inv]] by (simp add: hd_rev last_map)
qed (use bl in simp)

lemma update_linked:
  assumes Tk: "tree_ok T" and B: "base_in_tree L T v" and ok: "mainchain_ok v t"
    and inv: "rows_inv L rows" and R: "rows_in_tree T rows" and b: "v st = Some b" and rs: "side_path rows (blk_parent b) rs"
    and bl: "block_slice v st n = bl" "bl \<noteq> []" "hd bl = b"
  shows "linked (rev (map (row_block L) rs) @ bl)"
proof -
  have "blk_parent b = blk_hash (row_block L (hd rs)) \<and> blk_height b = Suc (blk_height (row_block L (hd rs)))" if "rs \<noteq> []"
  proof -
    have q: "hd rs \<in> set rows" "r_hash (hd rs) = blk_parent b" using that rs by (cases rs; auto elim: side_path_ConsE)+
    have "st = Suc (r_height (hd rs))"
      using tree_okD(2) [OF Tk base_in_treeD(1) [OF B b]] rows_in_treeD [OF R q(1)] q(2) by auto
    with q mainchain_okD(1) [OF ok b] read_row_ok [OF rows_invD(2) [OF inv q(1)]] show ?thesis by simp
  qed
  with side_path_linked [OF inv rs] slice_linked [OF ok, of st n] bl show ?thesis
    by (auto simp: linked_append last_rev hd_map)
qed

lemma update_ok_forward:
  assumes Tk: "tree_ok T" and B: "base_in_tree L T v" and ok: "mainchain_ok v t" and sy: "chain_synced L T v cs"
    and b: "v st = Some b" and low: "GetLowestUnprunedHeight cs \<le> int st" and fit: "fits v cs st"
    and rs: "side_path (blocks cs) (blk_parent b) rs"
    and bl: "block_slice v st n = bl" "bl \<noteq> []" "hd bl = b"
    and old: "select_tip cs = [old]" "old \<noteq> blk_hash (last bl)"
    and cs': "chain_synced L T v cs'" "rows_kept (blocks cs) cs'" "tip_is cs' (last bl)"
      "GetLowestUnprunedHeight cs' = GetLowestUnprunedHeight cs"
  shows "update_ok L v cs' old (rev (map (row_block L) rs) @ bl)"
proof -
  let ?att = "rev (map (row_block L) rs) @ bl"
  have inv: "chain_inv L cs" and R: "rows_in_tree T (blocks cs)" using sy by (auto simp: chain_synced_def)
  have inv': "chain_inv L cs'" and R': "rows_in_tree T (blocks cs')" using cs'(1) by (auto simp: chain_synced_def)
  have row: "r \<in> set (blocks cs)" if "r \<in> set rs" for r using side_path_subset [OF rs] that by blast
  note rd = read_row_ok [OF rows_invD(2) [OF inv row]]
  have slice: "v (blk_height x) = Some x" if "x \<in> set bl" for x
    using slice_in [of x v st n] that bl(1) mainchain_okD(1) [OF ok] by auto
  have keys: "\<exists>y. v (blk_height x) = Some y \<and> blk_key y = blk_key x"
    if x: "x \<in> set ?att" "GetLowestUnprunedHeight cs' < int (blk_height x)" for x
  proof (cases "x \<in> set bl")
    case False
    with x(1) obtain r where r: "r \<in> set rs" "x = row_block L r" by auto
    with rd [OF r(1)] x(2) cs'(4) branch_on_view [OF Tk B ok sy b low rs r(1)] show ?thesis
      by (simp add: blk_key_def row_key_def)
  qed (use slice in blast)
  have stored: "(\<exists>h. v h = Some x) \<or> (\<exists>r\<in>set (blocks cs'). Deserialise L (r_data r) = Inr x)" if "x \<in> set ?att" for x
  proof (cases "x \<in> set bl")
    case False
    with that obtain r where r: "r \<in> set rs" "x = row_block L r" by auto
    obtain q where q: "q \<in> set (blocks cs')" "r_data q = r_data r" using rows_kept_row [OF cs'(2) row [OF r(1)]] by metis
    have "Deserialise L (r_data r) = Inr x"
      using rd(1) [OF r(1)] r(2) by (auto simp: read_row_def bindE_eq_Inr checkE_eq_Inr)
    with q show ?thesis by (intro disjI2 bexI [of _ q]) simp_all
  qed (use slice in blast)
  obtain l where l: "l \<in> set (blocks cs)" "r_branch l = 0" using sy by (auto simp: chain_synced_def root_in_view_def)
  obtain tp where tp: "tp \<in> set (blocks cs)" "r_branch tp = 0" "r_hash tp = old"
      "\<And>x. x \<in> set (blocks cs) \<Longrightarrow> r_branch x = 0 \<Longrightarrow> r_height x \<le> r_height tp"
    using GetTip_obtain [OF l] old(1) by (metis list.inject)
  obtain x y where x: "x \<in> set (blocks cs)" "r_branch x = 0" "v (r_height x) = Some y" "blk_hash y = r_hash x" "r_height x \<le> st"
      "(if rs = [] then st else r_height (last rs)) \<le> Suc (r_height x)"
    using update_anchor [OF Tk B ok sy b low fit rs] .
  obtain x' where x': "x' \<in> set (blocks cs')" "r_branch x' = 0" "r_hash x' = r_hash x"
  proof -
    have root: "root_in_view v cs'" using cs'(1) by (simp add: chain_synced_def)
    obtain k c where k: "GetLowestUnprunedHeight cs' = int k" "v k = Some c"
      by (rule root_heights [OF root]) blast
    have top: "v (blk_height (last bl)) = Some (last bl)" using slice bl(2) by simp
    have "st \<le> blk_height (last bl)"
      using slice_in [of "last bl" v st n] bl(1,2) mainchain_okD(1) [OF ok] by auto
    moreover have "k \<le> r_height x" using GetLowest_le [OF x(1,2)] k(1) cs'(4) by simp
    ultimately have "k + (blk_height (last bl) - r_height x) \<le> blk_height (last bl)" using x(5) by simp
    from main_on_view [OF inv' R' B ok cs'(3) top k this] x(3-5) \<open>st \<le> blk_height (last bl)\<close> that show thesis by auto
  qed
  have start: "blk_height (hd ?att) \<le> Suc (r_height x)"
    using update_start [OF inv rs bl(2)] x(6) bl(3) mainchain_okD(1) [OF ok b] by (auto split: if_splits)
  have fork: "\<exists>m\<in>set (blocks cs'). r_branch m = 0 \<and> blk_height (hd ?att) \<le> Suc (r_height m) \<and>
      r_hash m = (if ps = [] then old else r_parent (last ps))" if ps: "side_path (blocks cs') old ps" for ps
    using fork_above_anchor [OF inv cs'(2) rows_invD(1) [OF inv'] x(1,2) x' tp(1,2) tp(4) [OF x(1,2)], of ps] ps tp(3) start
    by force
  obtain tp' where "tp' \<in> set (blocks cs')" "r_hash tp' = old" using rows_kept_row [OF cs'(2) tp(1)] tp(3) by metis
  then have "row_at (blocks cs') old \<noteq> None" by (auto simp: row_at_None)
  with update_linked [OF Tk B ok inv R b rs bl] keys stored fork old(2) bl(2) cs'(3) show ?thesis
    by (simp add: update_ok_def)
qed

lemma attach_loop_keeps:
  assumes "\<And>b. b \<in> set bs \<Longrightarrow> keepsOk P (SetTip L b)"
  shows "keepsOk P (attach_loop L x bs)"
  using assms
proof (induction bs arbitrary: x)
  case (Cons b bs)
  then show ?case by (auto intro!: keepsOk_bind keepsOk_then)
qed simp

lemma attach_batch_keeps:
  assumes "\<And>b. b \<in> set bs \<Longrightarrow> keepsOk P (SetTip L b)" "\<And>s s'. blocks s' = blocks s \<Longrightarrow> P s \<Longrightarrow> P s'"
  shows "keepsOk P (withUpdateBatch (attach_loop L x bs))"
  using attach_loop_keeps [OF assms(1)] assms(2) by (rule withUpdateBatch_keeps)

lemma rows_kept_refl: "rows_kept (blocks cs) cs"
  unfolding rows_kept_def
proof
  fix r assume "r \<in> set (blocks cs)"
  then show "\<exists>b. r\<lparr>r_branch := b\<rparr> \<in> set (blocks cs)" by (intro exI [of _ "r_branch r"]) simp
qed

context base_chain
begin

abbreviation same where "same \<equiv> base_same view tip ready"

lemma same_trans: "same b b' \<Longrightarrow> same b' b'' \<Longrightarrow> same b b''"
  by (simp add: base_same_def)

end

end
