(* ===== verification/SyncCatchUp.thy ===== *)
theory SyncCatchUp
  imports SyncClient
begin

text \<open>
  What one pass of the sync worker does and that repeated passes bring the chain state to the
  tip of the base chain: \<open>UpdateStep\<close> never aborts under the assumptions of \<open>sync_inv\<close>,
  keeps them, and either goes back to look for the fork point, or attaches blocks and makes
  progress, or is caught up.  The lemmas are proved in the locale \<open>sync_client\<close>, so they hold
  for every base chain and every owner of the callbacks that keep their contracts.
\<close>

context sync_client
begin

lemma callback_ok:
  assumes E: "E h s" and rdy: "ready (sy_base s)" and Tk: "tree_ok T"
    and sy: "chain_synced L T (view (sy_base s)) (sy_chain s)" and B: "base_in_tree L T (view (sy_base s))"
    and up: "update_ok L (view (sy_base s)) (sy_chain s) old att" and n: "view (sy_base s) n = Some (last att)"
    and old: "if old = [] then length att = 1 \<and> blk_height (hd att) = genesis_height depth (tip (sy_base s)) else old = h"
  shows "\<exists>s'. TipUpdatedFrom_cb cb old att s = (Inr (), s') \<and> same (sy_base s) (sy_base s') \<and>
     sy_numBlocks s' = sy_numBlocks s \<and> sy_nextStartHeight s' = sy_nextStartHeight s \<and>
     chain_synced L T (view (sy_base s)) (sy_chain s') \<and> tip_is (sy_chain s') (last att) \<and>
     GetFreeBranchNumber (sy_chain s') \<le> GetFreeBranchNumber (sy_chain s) \<and> E (blk_hash (last att)) s'"
proof -
  let ?v = "view (sy_base s)"
  have inv: "chain_inv L (sy_chain s)" and R: "rows_in_tree T (blocks (sy_chain s))"
    and root: "root_in_view ?v (sy_chain s)" using sy by (auto simp: chain_synced_def)
  obtain s' where run: "TipUpdatedFrom_cb cb old att s = (Inr (), s')" "E (blk_hash (last att)) s'"
    and res: "callback_result L view tip ready (last att) s s'"
    using callback_law [OF E rdy Tk B sy up old] by blast
  have s': "same (sy_base s) (sy_base s')"
      "sy_numBlocks s' = sy_numBlocks s" "sy_nextStartHeight s' = sy_nextStartHeight s"
      "chain_inv L (sy_chain s')" "tip_is (sy_chain s') (last att)"
      "row_key ` set (blocks (sy_chain s')) \<subseteq> row_key ` set (blocks (sy_chain s))"
      "GetLowestUnprunedHeight (sy_chain s) \<le> GetLowestUnprunedHeight (sy_chain s')"
      "GetFreeBranchNumber (sy_chain s') \<le> GetFreeBranchNumber (sy_chain s)"
    using res by (auto simp: callback_result_def)
  note ok = view_ok [OF rdy]
  have R': "rows_in_tree T (blocks (sy_chain s'))" using rows_in_tree_subset [OF R s'(6)] .
  obtain k where k: "GetLowestUnprunedHeight (sy_chain s) = int k" "?v k \<noteq> None" using root_heights [OF root] by metis
  obtain m where m: "m \<in> set (blocks (sy_chain s'))" "r_branch m = 0" "r_height m = n"
    using s'(5) mainchain_okD(1) [OF ok n] by (auto simp: tip_is_def)
  obtain r where r: "GetLowestUnprunedHeight (sy_chain s') = int (r_height (r :: dbrow))"
    using GetLowest_obtain [OF m(1,2)] by blast
  define l where "l = r_height r"
  have l: "GetLowestUnprunedHeight (sy_chain s') = int l" "l \<le> n"
    using r GetLowest_le [OF m(1,2)] m(3) by (simp_all add: l_def)
  have "k \<le> l" "l \<le> tip (sy_base s)" using k l s'(7) mainchain_okD(2) [OF ok n] by auto
  moreover obtain c where "?v k = Some c" using k(2) by blast
  ultimately have "?v l \<noteq> None" using mainchain_okD(3) [OF ok, of k c l] by simp
  then have "chain_synced L T ?v (sy_chain s')"
    using synced_when_tip_on_view(1) [OF s'(4) R' B ok s'(5) n l(1)] by blast
  with run s' show ?thesis by blast
qed

text \<open>Changes of the chain state that store no foreign data keep the invariant of the owner.\<close>

lemma frame_chain:
  assumes E: "E h s" and m: "\<And>P. (\<And>d. (\<exists>n b. view (sy_base s) n = Some b \<and> Serialise L b = Inr d) \<Longrightarrow> P d) \<Longrightarrow>
      keepsOk (data_only P) m"
    and run: "m (sy_chain s) = (Inr x, cs')"
    and s': "sy_owner s' = sy_owner s" "view (sy_base s') = view (sy_base s)" "sy_chain s' = cs'"
  shows "E h s'"
proof (rule frame_law [OF E s'(1,2)])
  let ?P = "\<lambda>d. (\<exists>r\<in>set (blocks (sy_chain s)). r_data r = d) \<or> (\<exists>n b. view (sy_base s) n = Some b \<and> Serialise L b = Inr d)"
  have "data_only ?P (sy_chain s)" by (auto simp: data_only_def)
  with m [of ?P] run have "data_only ?P cs'" by (auto dest: keepsOkD)
  then show "data_from L (view (sy_base s)) (sy_chain s) (sy_chain s')" by (simp add: data_from_def s'(3))
qed

lemma frame_same:
  assumes "E h s" "sy_owner s' = sy_owner s" "view (sy_base s') = view (sy_base s)" "sy_chain s' = sy_chain s"
  shows "E h s'"
  by (rule frame_chain [where m = "ret ()", OF assms(1) _ _ assms(2,3)]) (simp_all add: assms(4))

lemma ImportNewTip_ok:
  assumes E: "E h s" and rdy: "ready (sy_base s)" and T: "tree_ok T"
    and B: "base_in_tree L T (view (sy_base s))" and inv: "chain_inv L (sy_chain s)"
    and R: "rows_in_tree T (blocks (sy_chain s))"
    and cs: "blocks (sy_chain s) = [] \<or> chain_synced L T (view (sy_base s)) (sy_chain s)"
    and above: "GetTipHeight (sy_chain s) < int g" and g: "view (sy_base s) g = Some b"
    and gen: "g = genesis_height depth (tip (sy_base s))"
    and room: "GetFreeBranchNumber (sy_chain s) < i64_max"
  shows "\<exists>s'. ImportNewTip L bc cb g s = (Inr True, s') \<and> same (sy_base s) (sy_base s') \<and>
     sy_numBlocks s' = sy_numBlocks s \<and> sy_nextStartHeight s' = sy_nextStartHeight s \<and>
     chain_synced L T (view (sy_base s)) (sy_chain s') \<and> tip_is (sy_chain s') b \<and>
     GetFreeBranchNumber (sy_chain s') \<le> GetFreeBranchNumber (sy_chain s) + 2 \<and> E (blk_hash b) s'"
proof -
  let ?v = "view (sy_base s)" and ?cs = "sy_chain s"
  note ok = view_ok [OF rdy]
  have small: "g \<le> height_limit" "blk_height b = g"
    using tree_okD(1) [OF T base_in_treeD(1) [OF B g]] mainchain_okD(1) [OF ok g] by auto
  have slice: "block_slice ?v g 1 = [b]" using g by (rule block_slice_one)
  have bound: "g + 1 \<le> i64_max" using small by simp
  obtain b1 where b1: "bc_GetBlockRange bc g 1 (sy_base s) = (Inr [b], b1)" "same (sy_base s) b1"
    using GetBlockRange_law [OF rdy bound] unfolding slice base_same_def by blast
  have "fork_within_pruning L ?cs (blk_hash b)"
    using cs
  proof
    assume "blocks ?cs = []"
    then show ?thesis using fork_within_pruning_empty inv by blast
  next
    assume sy: "chain_synced L T ?v ?cs"
    then have root: "root_in_view ?v ?cs" by (simp add: chain_synced_def)
    have "GetLowestUnprunedHeight ?cs \<le> int g" using root_heights [OF root] above by force
    with sy show ?thesis by (rule view_fork_within_pruning [OF _ B ok g])
  qed
  then have "import_ok L ?cs b"
    using view_storable [OF T B g ok room] view_heights_fit [OF T R B g ok] view_known [OF R B ok g]
    by (auto simp: import_ok_def)
  then obtain cs1 where imp: "ImportTip L b ?cs = (Inr (), cs1)" "tip_imported L ?cs b cs1"
    using ImportTip_ok [OF inv] above small(2) by auto
  have im: "chain_inv L cs1" "tip_is cs1 b" "GetLowestUnprunedHeight cs1 = int g"
      "row_key ` set (blocks cs1) \<subseteq> insert (blk_key b) (row_key ` set (blocks ?cs))"
      "GetFreeBranchNumber cs1 \<le> GetFreeBranchNumber ?cs + 2"
    using imp(2) small(2) by (auto simp: tip_imported_def)
  have R1: "rows_in_tree T (blocks cs1)" using rows_in_tree_insert [OF R B ok g im(4)] .
  let ?s1 = "s\<lparr>sy_base := b1, sy_chain := cs1\<rparr>"
  have view1: "view b1 = ?v" "ready b1" "tip b1 = tip (sy_base s)" using b1(2) by (simp_all add: base_same_def)
  have sy1: "chain_synced L T ?v cs1"
    using synced_when_tip_on_view(1) [OF im(1) R1 B ok im(2) g im(3)] g by simp
  have E1: "E h ?s1"
    by (rule frame_chain [where m = "ImportTip L b", OF E _ imp(1)]) (use view1 g in \<open>auto intro: ImportTip_data\<close>)
  have up: "update_ok L ?v cs1 '''' [b]" using im(2,3) g small(2) by (auto simp: update_ok_def)
  obtain s' where s': "TipUpdatedFrom_cb cb '''' [b] ?s1 = (Inr (), s')" "same b1 (sy_base s')"
      "sy_numBlocks s' = sy_numBlocks s" "sy_nextStartHeight s' = sy_nextStartHeight s"
      "chain_synced L T ?v (sy_chain s')" "tip_is (sy_chain s') b"
      "GetFreeBranchNumber (sy_chain s') \<le> GetFreeBranchNumber cs1" "E (blk_hash b) s'"
    using callback_ok [OF E1 _ T, of "''''" "[b]" g] view1 sy1 B up g gen small(2) by auto
  have "ImportNewTip L bc cb g s = (Inr True, s')"
    using b1(1) imp(1) s'(1) by (simp add: ImportNewTip_def)
  with s' im(5) same_trans [OF b1(2) s'(2)] show ?thesis by auto
qed

text \<open>The parts of \<open>sync_inv\<close> for a chain state that has blocks.\<close>

lemma sync_invD:
  assumes "sync_inv L T view ready E block_range s" "blocks (sy_chain s) \<noteq> []"
  shows "tree_ok T" "ready (sy_base s)" "base_in_tree L T (view (sy_base s))"
    "chain_synced L T (view (sy_base s)) (sy_chain s)" "mainchain_ok (view (sy_base s)) (tip (sy_base s))"
    "1 \<le> block_range" "block_range \<le> 2147483647" "1 \<le> sy_numBlocks s" "sy_numBlocks s \<le> nat block_range"
  using assms view_ok [of "sy_base s"] by (simp_all add: sync_inv_def chain_synced_def)

text \<open>The request of a pass.\<close>

lemma request_ok:
  assumes inv: "sync_inv L T view ready E block_range s" "blocks (sy_chain s) \<noteq> []"
    and st: "int st \<le> GetTipHeight (sy_chain s)"
  shows "\<exists>b'. bc_GetBlockRange bc (u64_of_int (int st)) (max (sy_numBlocks s) 3) (sy_base s) =
       (Inr (block_slice (view (sy_base s)) st (max (sy_numBlocks s) 3)), b') \<and> same (sy_base s) b'"
proof -
  note D = sync_invD [OF inv]
  have "int st \<le> int height_limit"
    using tip_height_limit [OF D(1), of "sy_chain s"] D(4) st by (simp add: chain_synced_def)
  then have "st \<le> height_limit" by simp
  moreover have "sy_numBlocks s \<le> 2147483647" using D(7,9) by simp
  ultimately have bound: "st + max (sy_numBlocks s) 3 \<le> i64_max" "u64_of_int (int st) = st" by auto
  show ?thesis using GetBlockRange_law [OF D(2) bound(1)] unfolding bound(2) base_same_def by blast
qed

lemma UpdateStep_back:
  assumes inv: "sync_inv L T view ready E block_range s" "blocks (sy_chain s) \<noteq> []"
    and st: "GetLowestUnprunedHeight (sy_chain s) \<le> int st" "int st \<le> GetTipHeight (sy_chain s)"
    and room: "GetFreeBranchNumber (sy_chain s) < i64_max" and nofit: "\<not> fits (view (sy_base s)) (sy_chain s) st"
  shows "\<exists>b' n next. UpdateStep_from L bc cb block_range gen (int st) s =
       (Inr True, s\<lparr>sy_base := b', sy_numBlocks := n, sy_nextStartHeight := next\<rparr>) \<and>
     same (sy_base s) b' \<and> 1 \<le> n \<and> n \<le> nat block_range \<and>
     GetLowestUnprunedHeight (sy_chain s) \<le> next \<and> next < int st"
proof -
  note D = sync_invD [OF inv]
  let ?v = "view (sy_base s)" and ?cs = "sy_chain s" and ?num = "max (sy_numBlocks s) 3"
  let ?blocks = "block_slice ?v st ?num"
  have root: "root_in_view ?v ?cs" and ci: "chain_inv L ?cs" using D(4) by (auto simp: chain_synced_def)
  obtain b' where b': "bc_GetBlockRange bc (u64_of_int (int st)) ?num (sy_base s) = (Inr ?blocks, b')" "same (sy_base s) b'"
    using request_ok [OF inv st(2)] by blast
  let ?s1 = "s\<lparr>sy_base := b'\<rparr>"
  have set_tip: "(if ?blocks = [] then ret (False, '''') else sy_on_chain (SetTip L (hd ?blocks))) ?s1 =
      (Inr (False, old), ?s1)" if "old = (if ?blocks = [] then '''' else hd (select_tip ?cs))" for old
  proof (cases "?v st")
    case None
    then have "?blocks = []" by (cases ?num) simp_all
    with that show ?thesis by simp
  next
    case (Some b)
    obtain m where m: "?num = Suc m" by (cases ?num) auto
    have hd: "?blocks \<noteq> []" "hd ?blocks = b" unfolding m using Some by simp_all
    have "SetTip L b ?cs = (Inr (False, old), ?cs)"
      using SetTip_view [OF D(1,4,3,5) Some st(1) room] nofit Some hd that by (auto simp: fits_def)
    with hd show ?thesis by simp
  qed
  have fork: "\<exists>r. (if ?blocks = [] then ret (False, []) else sy_on_chain (GetForkBranch L (blk_parent (hd ?blocks)))) ?s1 =
      (Inr r, ?s1)"
  proof -
    obtain rs where "side_path (blocks ?cs) (blk_parent (hd ?blocks)) rs"
      using side_path_exists [OF rows_invD(3) [OF ci]] by blast
    from GetForkBranch_eq [OF ci this] show ?thesis by auto
  qed
  then obtain ok br where fork: "(if ?blocks = [] then ret (False, [])
      else sy_on_chain (GetForkBranch L (blk_parent (hd ?blocks)))) ?s1 = (Inr (ok, br), ?s1)" by auto
  obtain n where n: "IncreaseNumBlocks block_range ?s1 = (Inr (), ?s1\<lparr>sy_numBlocks := n\<rparr>)" "1 \<le> n" "n \<le> nat block_range"
    using IncreaseNumBlocks_eq [of block_range ?s1] D by auto
  let ?next = "max (GetLowestUnprunedHeight ?cs) (int st - int ?num)"
  have "GetLowestUnprunedHeight ?cs \<noteq> int st" using root_fits [OF root] nofit by blast
  with st(1) have nx: "?next < int st" by auto
  have "UpdateStep_from L bc cb block_range gen (int st) s =
      (Inr True, s\<lparr>sy_base := b', sy_numBlocks := n, sy_nextStartHeight := ?next\<rparr>)"
    using b'(1) set_tip [OF refl] fork n(1) nx by (simp add: UpdateStep_from_def)
  with b'(2) n(2,3) nx show ?thesis by (intro exI [of _ b'] exI [of _ n] exI [of _ ?next]) simp
qed

text \<open>Attaching the blocks of a request, inside its update batch.\<close>

lemma attach_request:
  assumes T: "tree_ok T" and B: "base_in_tree L T v" and ok: "mainchain_ok v t"
    and sy: "chain_synced L T v cs" and b: "v st = Some b" and low: "GetLowestUnprunedHeight cs \<le> int st"
    and fit: "fits v cs st" and room: "GetFreeBranchNumber cs + 2 * n < i64_max"
    and blks: "block_slice v st n = blks" "0 < n"
  shows "\<exists>old cs1 cs2. SetTip L b cs = (Inr (True, old), cs1) \<and>
     withUpdateBatch (attach_loop L (hd blks) (tl blks)) cs1 = (Inr (), cs2) \<and>
     chain_synced L T v cs2 \<and> tip_is cs2 (last blks) \<and>
     GetFreeBranchNumber cs2 \<le> GetFreeBranchNumber cs + 2 * n \<and> select_tip cs = [old] \<and>
     rows_kept (blocks cs) cs2 \<and> GetLowestUnprunedHeight cs2 = GetLowestUnprunedHeight cs"
proof -
  obtain m where m: "n = Suc m" using blks(2) by (cases n) auto
  let ?tl = "block_slice v (Suc st) m"
  have bl: "blks = b # ?tl" using blks(1) m b by simp
  have len: "length ?tl \<le> m" by (rule slice_length_le)
  have "GetFreeBranchNumber cs < i64_max" using room by simp
  then obtain old cs1 where st: "SetTip L b cs = (Inr (True, old), cs1)" "tip_updated L cs b cs1" "select_tip cs = [old]"
    using SetTip_view [OF T sy B ok b low] fit b by (auto simp: fits_def)
  note sy1 = tip_updated_synced(1) [OF sy B ok b st(2)]
  have up: "tip_is cs1 b" "GetFreeBranchNumber cs1 \<le> GetFreeBranchNumber cs + 2"
      "GetLowestUnprunedHeight cs1 = GetLowestUnprunedHeight cs"
    using st(2) by (auto simp: tip_updated_def)
  let ?c = "cs1\<lparr>savepoints := (blocks cs1, variables cs1) # savepoints cs1\<rparr>"
  have "blocks ?c = blocks cs1" by simp
  note only = blocks_only [OF this]
  have syc: "chain_synced L T v ?c" using sy1 only(1) by (simp add: chain_synced_def root_in_view_def)
  have roomc: "GetFreeBranchNumber ?c + 2 * length ?tl < i64_max" using only(2) up(2) room len m by simp
  obtain c2 where c2: "attach_loop L b ?tl ?c = (Inr (), c2)" "chain_synced L T v c2" "tip_is c2 (last (b # ?tl))"
      "GetFreeBranchNumber c2 \<le> GetFreeBranchNumber ?c + 2 * length ?tl" "savepoints c2 = savepoints ?c"
      "GetLowestUnprunedHeight c2 = GetLowestUnprunedHeight ?c"
    using attach_loop_ok [OF T B ok b refl syc _ roomc] up(1) only(3) by blast
  let ?cs2 = "c2\<lparr>savepoints := savepoints cs1\<rparr>"
  have run: "withUpdateBatch (attach_loop L (hd blks) (tl blks)) cs1 = (Inr (), ?cs2)"
    unfolding bl by (rule withUpdateBatch_ok) (use c2(1,5) in simp_all)
  have "blocks ?cs2 = blocks c2" by simp
  note only2 = blocks_only [OF this]
  have "chain_synced L T v ?cs2" using c2(2) only2(1) by (simp add: chain_synced_def root_in_view_def)
  moreover have "tip_is ?cs2 (last blks)" using c2(3) only2(3) bl by simp
  moreover have "GetFreeBranchNumber ?cs2 \<le> GetFreeBranchNumber cs + 2 * n"
    using only2(2) c2(4) only(2) up(2) len m by simp
  moreover have "rows_kept (blocks cs) cs1" by (rule keepsOkD [OF SetTip_rows rows_kept_refl st(1)])
  then have "rows_kept (blocks cs) ?cs2"
    using keepsOkD [OF attach_batch_keeps _ run, of "rows_kept (blocks cs)"] SetTip_rows by (auto simp: rows_kept_def)
  moreover have "GetLowestUnprunedHeight ?cs2 = GetLowestUnprunedHeight cs"
    using only2(1) c2(6) only(1) up(3) by simp
  ultimately show ?thesis using st(1,3) run by blast
qed

text \<open>The blks of a request that starts on the base chain.\<close>

lemma request_last:
  assumes ok: "mainchain_ok v t" and b: "v st = Some b" and n: "3 \<le> n" and blks: "block_slice v st n = blks"
  shows "blks \<noteq> []" "hd blks = b"
    "length blks < n \<Longrightarrow> v t = Some (last blks)"
    "\<not> length blks < n \<Longrightarrow> v (st + n - 1) = Some (last blks) \<and> st + 2 \<le> st + n - 1 \<and> st + n - 1 \<le> t"
proof -
  obtain m where m: "n = Suc m" using n by (cases n) auto
  show ne: "blks \<noteq> []" and "hd blks = b" using blks m b by auto
  have len: "length blks = min n (Suc t - st)" using slice_length [OF ok, of st n] b blks by simp
  have last: "v (st + (length blks - 1)) = Some (last blks)"
    using slice_nth [of "length blks - 1" v st n] blks ne by (simp add: last_conv_nth)
  have "st \<le> t" using mainchain_okD(2) [OF ok b] .
  then show "length blks < n \<Longrightarrow> v t = Some (last blks)" using last len by auto
  show "v (st + n - 1) = Some (last blks) \<and> st + 2 \<le> st + n - 1 \<and> st + n - 1 \<le> t" if "\<not> length blks < n"
  proof -
    have "length blks = n" using that len by simp
    moreover have "st + (n - 1) = st + n - 1" using n by simp
    ultimately show ?thesis using last mainchain_okD(2) [OF ok last] n by simp
  qed
qed

text \<open>The invariant after a pass that ended on the base chain.\<close>

lemma sync_invI:
  assumes inv: "sync_inv L T view ready E block_range s" and same: "same (sy_base s) (sy_base s')"
    and sy: "chain_synced L T (view (sy_base s)) (sy_chain s')"
    and n: "1 \<le> sy_numBlocks s'" "sy_numBlocks s' \<le> nat block_range" "sy_nextStartHeight s' = -1"
    and E: "E (blk_hash b) s'" "tip_is (sy_chain s') b"
  shows "sync_inv L T view ready E block_range s'"
proof -
  have "\<exists>h. E h s' \<and> (blocks (sy_chain s') \<noteq> [] \<longrightarrow> select_tip (sy_chain s') = [h])"
    using E by (auto simp: tip_is_def)
  with assms(1-6) show ?thesis by (simp add: sync_inv_def base_same_def chain_synced_def)
qed

lemma sync_inv_base:
  assumes "sync_inv L T view ready E block_range s" "same (sy_base s) b'"
  shows "sync_inv L T view ready E block_range (s\<lparr>sy_base := b'\<rparr>)"
proof -
  have "E h (s\<lparr>sy_base := b'\<rparr>)" if "E h s" for h
    using that assms(2) by (rule_tac frame_same) (simp_all add: base_same_def)
  with assms show ?thesis by (auto simp: sync_inv_def base_same_def)
qed

lemma sync_inv_owner:
  assumes "sync_inv L T view ready E block_range s" "blocks (sy_chain s) \<noteq> []"
  obtains h where "E h s" "select_tip (sy_chain s) = [h]"
  using assms by (auto simp: sync_inv_def)

lemma aligned_facts:
  assumes t: "tip_is cs b" "v h = Some b" and ok: "mainchain_ok v t"
  shows "GetTipHeight cs = int h" "chain_aligned v cs" "blocks cs \<noteq> []" "h \<le> t"
  using t mainchain_okD(1,2) [OF ok t(2)] by (auto simp: tip_is_def chain_aligned_def)

text \<open>The end of the pass: caught up, quick-sync forward, or a larger request next time.\<close>

lemma UpdateStep_finish:
  assumes inv: "sync_inv L T view ready E block_range s" "blocks (sy_chain s) \<noteq> []"
    and E: "E (blk_hash (last bl)) s1"
    and s1: "same (sy_base s) (sy_base s1)" "chain_synced L T (view (sy_base s)) (sy_chain s1)"
      "sy_numBlocks s1 = sy_numBlocks s" "sy_nextStartHeight s1 = -1"
      "GetFreeBranchNumber (sy_chain s1) \<le> GetFreeBranchNumber (sy_chain s) + 2 * num"
    and num: "num = max (sy_numBlocks s) 3" and b: "view (sy_base s) st = Some b"
    and bl: "block_slice (view (sy_base s)) st num = bl" "tip_is (sy_chain s1) (last bl)"
    and gen: "gen = genesis_height depth (tip (sy_base s))"
    and room: "GetFreeBranchNumber (sy_chain s) + step_cost block_range < i64_max"
  shows "\<exists>again s'. (if length bl < num then thenM (modifyM (\<lambda>s. s\<lparr>sy_numBlocks := 1\<rparr>)) (ret False)
      else bindM (if blk_height (last bl) < gen then ImportNewTip L bc cb gen else ret False) (\<lambda>imported.
        if imported then ret True else thenM (IncreaseNumBlocks block_range) (ret True))) s1 = (Inr again, s') \<and>
     advanced L T view tip ready E block_range s st again s'"
proof -
  note D = sync_invD [OF inv]
  let ?v = "view (sy_base s)" and ?tip = "tip (sy_base s)"
  have n3: "3 \<le> num" and cost: "2 * num + 2 \<le> step_cost block_range"
    using num D(9) by (auto simp: step_cost_def)
  note last = request_last [OF D(5) b n3 bl(1)]
  have v1: "view (sy_base s1) = ?v" "ready (sy_base s1)" "tip (sy_base s1) = ?tip"
    using s1(1) by (simp_all add: base_same_def)
  show ?thesis
  proof (cases "length bl < num")
    case True
    note fin = aligned_facts [OF bl(2) last(3) [OF True] D(5)]
    let ?s' = "s1\<lparr>sy_numBlocks := 1\<rparr>"
    have E': "E (blk_hash (last bl)) ?s'" by (rule frame_same [OF E]) simp_all
    have "sync_inv L T view ready E block_range ?s'"
      by (rule sync_invI [OF inv(1), where b = "last bl"]) (use s1 D(6) E' bl(2) in auto)
    then have "advanced L T view tip ready E block_range s st False ?s'"
      using fin s1 cost by (simp add: advanced_def)
    with True show ?thesis by auto
  next
    case False
    let ?h = "st + num - 1"
    have lb: "?v ?h = Some (last bl)" "st + 2 \<le> ?h" "?h \<le> ?tip" using last(4) [OF False] by auto
    note fin = aligned_facts [OF bl(2) lb(1) D(5)]
    have bh: "blk_height (last bl) = ?h" using mainchain_okD(1) [OF D(5) lb(1)] .
    show ?thesis
    proof (cases "?h < gen")
      case True
      have le: "gen \<le> ?tip" by (simp add: gen genesis_height_def)
      then obtain g where g: "?v gen = Some g" using mainchain_okD(3) [OF D(5) lb(1)] True by (metis less_imp_le)
      have pre: "chain_inv L (sy_chain s1)" "rows_in_tree T (blocks (sy_chain s1))"
        using s1(2) by (auto simp: chain_synced_def)
      have "\<exists>s'. ImportNewTip L bc cb gen s1 = (Inr True, s') \<and> same (sy_base s1) (sy_base s') \<and>
          sy_numBlocks s' = sy_numBlocks s1 \<and> sy_nextStartHeight s' = sy_nextStartHeight s1 \<and>
          chain_synced L T (view (sy_base s1)) (sy_chain s') \<and> tip_is (sy_chain s') g \<and>
          GetFreeBranchNumber (sy_chain s') \<le> GetFreeBranchNumber (sy_chain s1) + 2 \<and> E (blk_hash g) s'"
        by (rule ImportNewTip_ok [OF E])
          (use v1 D(1,3) pre s1(2,5) fin(1) True g gen room cost in auto)
      then obtain s' where s': "ImportNewTip L bc cb gen s1 = (Inr True, s')" "same (sy_base s1) (sy_base s')"
          "sy_numBlocks s' = sy_numBlocks s" "sy_nextStartHeight s' = -1"
          "chain_synced L T ?v (sy_chain s')" "tip_is (sy_chain s') g"
          "GetFreeBranchNumber (sy_chain s') \<le> GetFreeBranchNumber (sy_chain s1) + 2" "E (blk_hash g) s'"
        using s1(3,4) v1(1) by metis
      note fin' = aligned_facts [OF s'(6) g D(5)]
      note same' = same_trans [OF s1(1) s'(2)]
      have "sync_inv L T view ready E block_range s'"
        by (rule sync_invI [OF inv(1) same' s'(5), where b = g]) (use s' D in auto)
      then have "advanced L T view tip ready E block_range s st True s'"
        using fin' same' s'(4,7) s1(5) cost lb(2) True le by (simp add: advanced_def)
      with False True bh s'(1) show ?thesis by auto
    next
      case no_import: False
      obtain n where n: "IncreaseNumBlocks block_range s1 = (Inr (), s1\<lparr>sy_numBlocks := n\<rparr>)" "1 \<le> n" "n \<le> nat block_range"
        using IncreaseNumBlocks_eq [of block_range s1] D s1(3) by auto
      let ?s' = "s1\<lparr>sy_numBlocks := n\<rparr>"
      have E': "E (blk_hash (last bl)) ?s'" by (rule frame_same [OF E]) simp_all
      have "sync_inv L T view ready E block_range ?s'"
        by (rule sync_invI [OF inv(1), where b = "last bl"]) (use s1 n E' bl(2) in auto)
      then have "advanced L T view tip ready E block_range s st True ?s'"
        using fin(2,3) s1 cost lb(2,3) n3 unfolding advanced_def by (simp add: fin(1) nat_le_iff [symmetric])
      with False no_import bh n(1) show ?thesis by auto
    qed
  qed
qed

lemma UpdateStep_forward:
  assumes inv: "sync_inv L T view ready E block_range s" "blocks (sy_chain s) \<noteq> []"
    and st: "GetLowestUnprunedHeight (sy_chain s) \<le> int st" "int st \<le> GetTipHeight (sy_chain s)"
    and fit: "fits (view (sy_base s)) (sy_chain s) st" and gen: "gen = genesis_height depth (tip (sy_base s))"
    and room: "GetFreeBranchNumber (sy_chain s) + step_cost block_range < i64_max"
  shows "\<exists>again s'. UpdateStep_from L bc cb block_range gen (int st) s = (Inr again, s') \<and>
     advanced L T view tip ready E block_range s st again s'"
proof -
  note D = sync_invD [OF inv]
  let ?v = "view (sy_base s)" and ?cs = "sy_chain s" and ?num = "max (sy_numBlocks s) 3"
  let ?bl = "block_slice ?v st ?num"
  have ci: "chain_inv L ?cs" using D(4) by (simp add: chain_synced_def)
  obtain b where b: "?v st = Some b" using fit by (auto simp: fits_def split: option.splits)
  have cost: "2 * ?num \<le> step_cost block_range" using D(9) by (auto simp: step_cost_def)
  obtain b' where b': "bc_GetBlockRange bc (u64_of_int (int st)) ?num (sy_base s) = (Inr ?bl, b')" "same (sy_base s) b'"
    using request_ok [OF inv st(2)] by blast
  note last = request_last [OF D(5) b _ refl, of ?num]
  have bl: "?bl \<noteq> []" "hd ?bl = b" using last(1,2) by simp_all
  obtain rs where rs: "side_path (blocks ?cs) (blk_parent b) rs" using side_path_exists [OF rows_invD(3) [OF ci]] by blast
  let ?att = "rev (map (row_block L) rs) @ ?bl"
  obtain ok where fork: "GetForkBranch L (blk_parent b) ?cs = (Inr (ok, map (row_block L) rs), ?cs)"
    using GetForkBranch_eq [OF ci rs] by blast
  have pos: "0 < ?num" by (simp add: less_max_iff_disj)
  have roomn: "GetFreeBranchNumber ?cs + 2 * ?num < i64_max" using room cost by linarith
  obtain old cs1 cs2 where att: "SetTip L b ?cs = (Inr (True, old), cs1)"
      "withUpdateBatch (attach_loop L (hd ?bl) (tl ?bl)) cs1 = (Inr (), cs2)"
      "chain_synced L T ?v cs2" "tip_is cs2 (last ?bl)" "GetFreeBranchNumber cs2 \<le> GetFreeBranchNumber ?cs + 2 * ?num"
      "select_tip ?cs = [old]" "rows_kept (blocks ?cs) cs2" "GetLowestUnprunedHeight cs2 = GetLowestUnprunedHeight ?cs"
    using attach_request [OF D(1,3,5,4) b st(1) fit roomn refl pos] by blast
  obtain h where h: "?v h = Some (last ?bl)" using last(3,4) by (cases "length ?bl < ?num") auto
  let ?s2 = "s\<lparr>sy_base := b', sy_nextStartHeight := -1, sy_chain := cs2\<rparr>"
  have v2: "view b' = ?v" "ready b'" using b'(2) by (simp_all add: base_same_def)
  have E2: "E old ?s2"
  proof -
    have data: "keepsOk (data_only P) (SetTip L x)"
      if "x \<in> set ?bl" "\<And>d. \<exists>n b. ?v n = Some b \<and> Serialise L b = Inr d \<Longrightarrow> P d" for x P
      using slice_in [OF that(1)] that(2) by (intro SetTip_data) blast
    have b_in: "b \<in> set ?bl" "set (tl ?bl) \<subseteq> set ?bl" using bl by (auto dest: list.set_sel)
    obtain h where h: "E h s" "select_tip ?cs = [h]" using sync_inv_owner [OF inv] .
    have "E h (s\<lparr>sy_chain := cs1\<rparr>)"
      by (rule frame_chain [where m = "SetTip L b", OF h(1) _ att(1)]) (use data b_in in auto)
    then have "E h (s\<lparr>sy_chain := cs2\<rparr>)"
      by (rule frame_chain [where m = "withUpdateBatch (attach_loop L (hd ?bl) (tl ?bl))" and x = "()" and cs' = cs2])
        (use data b_in att(2) in \<open>auto intro!: attach_batch_keeps simp: data_only_def\<close>)
    then have "E h ?s2" by (rule frame_same) (simp_all add: v2)
    then show ?thesis using h(2) att(6) by simp
  qed
  have old_ne: "old \<noteq> []"
  proof -
    obtain l where l: "l \<in> set (blocks ?cs)" "r_branch l = 0" using D(4) by (auto simp: chain_synced_def root_in_view_def)
    obtain r where r: "r \<in> set (blocks ?cs)" "select_tip ?cs = [r_hash r]" using GetTip_obtain [OF l] by metis
    have "T (r_hash r) = Some (r_parent r, r_height r)"
      using rows_in_treeD [of T "blocks ?cs" r] r(1) D(4) by (simp add: chain_synced_def)
    then show ?thesis using D(1) r(2) att(6) by (auto simp: tree_ok_def)
  qed
  obtain s1 where s1: "(if old \<noteq> blk_hash (last ?bl) then TipUpdatedFrom_cb cb old ?att else ret ()) ?s2 = (Inr (), s1)"
      "same b' (sy_base s1)" "sy_numBlocks s1 = sy_numBlocks s" "sy_nextStartHeight s1 = -1"
      "chain_synced L T ?v (sy_chain s1)" "tip_is (sy_chain s1) (last ?bl)"
      "GetFreeBranchNumber (sy_chain s1) \<le> GetFreeBranchNumber cs2" "E (blk_hash (last ?bl)) s1"
  proof (cases "old = blk_hash (last ?bl)")
    case True
    with that [of ?s2] att(3,4) v2 E2 show thesis by (simp add: base_same_def)
  next
    case False
    have up: "update_ok L ?v cs2 old ?att"
      by (rule update_ok_forward [OF D(1,3,5,4) b st(1) fit rs refl bl att(6) False att(3,7,4,8)])
    have "last ?att = last ?bl" using bl(1) by simp
    then show thesis
      using callback_ok [OF E2 _ D(1), of old ?att h] that False v2 att(3) up h D(3) old_ne by auto
  qed
  have same1: "same (sy_base s) (sy_base s1)" using same_trans [OF b'(2) s1(2)] .
  have free1: "GetFreeBranchNumber (sy_chain s1) \<le> GetFreeBranchNumber ?cs + 2 * ?num" using s1(7) att(5) by simp
  have step: "UpdateStep_from L bc cb block_range gen (int st) s =
      (if length ?bl < ?num then thenM (modifyM (\<lambda>s. s\<lparr>sy_numBlocks := 1\<rparr>)) (ret False)
       else bindM (if blk_height (last ?bl) < gen then ImportNewTip L bc cb gen else ret False) (\<lambda>imported.
         if imported then ret True else thenM (IncreaseNumBlocks block_range) (ret True))) s1"
    using b'(1) bl fork att(1,2) s1(1)
    by (cases "old = blk_hash (last ?bl)") (simp_all add: UpdateStep_from_def split del: if_split)
  show ?thesis
    unfolding step
    by (rule UpdateStep_finish [OF inv s1(8) same1 s1(5,3,4) free1 refl b refl s1(6) gen room])
qed

lemma UpdateStep_nonempty:
  assumes inv: "sync_inv L T view ready E block_range s" and ne: "blocks (sy_chain s) \<noteq> []"
  shows "\<exists>b'. same (sy_base s) b' \<and> UpdateStep L bc cb block_range depth s =
    UpdateStep_from L bc cb block_range (genesis_height depth (tip (sy_base s))) (start_height s) (s\<lparr>sy_base := b'\<rparr>)"
proof -
  note D = sync_invD [OF inv ne]
  obtain b' where b': "bc_GetTipHeight bc (sy_base s) = (Inr (tip (sy_base s)), b')" "same (sy_base s) b'"
    using GetTipHeight_law [OF D(2)] unfolding base_same_def by blast
  have "root_in_view (view (sy_base s)) (sy_chain s)" using D(4) by (simp add: chain_synced_def)
  then have "GetTipHeight (sy_chain s) \<noteq> -1" using root_heights by fastforce
  with b' show ?thesis
    by (intro exI [of _ b']) (simp add: UpdateStep_def start_height_def Let_def genesis_height_def)
qed

text \<open>One pass.\<close>

lemma start_height_bounds:
  assumes inv: "sync_inv L T view ready E block_range s" and ne: "blocks (sy_chain s) \<noteq> []"
  shows "GetLowestUnprunedHeight (sy_chain s) \<le> start_height s" "start_height s \<le> GetTipHeight (sy_chain s)"
    "0 \<le> start_height s"
proof -
  have "root_in_view (view (sy_base s)) (sy_chain s)" using inv ne by (simp add: sync_inv_def)
  then obtain k where k: "GetLowestUnprunedHeight (sy_chain s) = int k" "int k \<le> GetTipHeight (sy_chain s)"
    using root_heights by metis
  then show "GetLowestUnprunedHeight (sy_chain s) \<le> start_height s" "start_height s \<le> GetTipHeight (sy_chain s)"
    using inv by (auto simp: start_height_def sync_inv_def)
  then show "0 \<le> start_height s" using k by simp
qed

lemma UpdateStep_ok:
  assumes inv: "sync_inv L T view ready E block_range s" and ne: "blocks (sy_chain s) \<noteq> []"
    and room: "has_room block_range 1 s"
  shows "\<exists>again s'. UpdateStep L bc cb block_range depth s = (Inr again, s') \<and>
     (if fits (view (sy_base s)) (sy_chain s) (nat (start_height s))
      then advanced L T view tip ready E block_range s (nat (start_height s)) again s'
      else again \<and> went_back L T view tip ready E block_range s s')"
proof -
  let ?gen = "genesis_height depth (tip (sy_base s))" and ?st = "nat (start_height s)"
  obtain b' where b': "same (sy_base s) b'"
    and us: "UpdateStep L bc cb block_range depth s = UpdateStep_from L bc cb block_range ?gen (start_height s) (s\<lparr>sy_base := b'\<rparr>)"
    using UpdateStep_nonempty [OF inv ne] by blast
  let ?s = "s\<lparr>sy_base := b'\<rparr>"
  have v: "view b' = view (sy_base s)" "tip b' = tip (sy_base s)" "ready b'" using b' by (simp_all add: base_same_def)
  note inv' = sync_inv_base [OF inv b']
  have int: "start_height s = int ?st" using start_height_bounds(3) [OF inv ne] by simp
  have st: "GetLowestUnprunedHeight (sy_chain ?s) \<le> int ?st" "int ?st \<le> GetTipHeight (sy_chain ?s)"
    using start_height_bounds [OF inv ne] by simp_all
  have ne': "blocks (sy_chain ?s) \<noteq> []" using ne by simp
  have room': "GetFreeBranchNumber (sy_chain ?s) + step_cost block_range < i64_max"
    using room by (simp add: has_room_def)
  show ?thesis
  proof (cases "fits (view (sy_base s)) (sy_chain s) ?st")
    case True
    then have fit: "fits (view (sy_base ?s)) (sy_chain ?s) ?st" using v by simp
    have gen: "?gen = genesis_height depth (tip (sy_base ?s))" using v by simp
    obtain again s' where "UpdateStep_from L bc cb block_range ?gen (int ?st) ?s = (Inr again, s')"
        "advanced L T view tip ready E block_range ?s ?st again s'"
      using UpdateStep_forward [OF inv' ne' st fit gen room'] by blast
    moreover have "advanced L T view tip ready E block_range s ?st again s'" if "advanced L T view tip ready E block_range ?s ?st again s'"
      using that v by (cases again) (simp_all add: advanced_def base_same_def)
    ultimately show ?thesis using True us int by auto
  next
    case False
    then have nofit: "\<not> fits (view (sy_base ?s)) (sy_chain ?s) ?st" using v by simp
    have room0: "GetFreeBranchNumber (sy_chain ?s) < i64_max" using room' by simp
    obtain b2 n nx where wb: "UpdateStep_from L bc cb block_range ?gen (int ?st) ?s =
         (Inr True, ?s\<lparr>sy_base := b2, sy_numBlocks := n, sy_nextStartHeight := nx\<rparr>)"
        "same (sy_base ?s) b2" "1 \<le> n" "n \<le> nat block_range" "GetLowestUnprunedHeight (sy_chain s) \<le> nx" "nx < int ?st"
      using UpdateStep_back [OF inv' ne' st room0 nofit] by fastforce
    let ?s' = "?s\<lparr>sy_base := b2, sy_numBlocks := n, sy_nextStartHeight := nx\<rparr>"
    have same2: "same (sy_base s) b2" using same_trans [OF b'] wb(2) by simp
    have "GetLowestUnprunedHeight (sy_chain s) \<ge> 0"
      using inv ne root_heights [of "view (sy_base s)" "sy_chain s"] by (fastforce simp: sync_inv_def)
    moreover obtain h where h: "E h s" "select_tip (sy_chain s) = [h]" using sync_inv_owner [OF inv ne] .
    have "E h ?s'" by (rule frame_same [OF h(1)]) (use same2 in \<open>simp_all add: base_same_def\<close>)
    ultimately have "went_back L T view tip ready E block_range s ?s'"
      using inv ne same2 wb(3-6) int st(2) h(2) by (simp add: went_back_def sync_inv_def base_same_def)
    with wb(1) us int False show ?thesis by (auto simp del: int_nat_eq)
  qed
qed

lemma UpdateStep_empty:
  assumes inv: "sync_inv L T view ready E block_range s" and empty: "blocks (sy_chain s) = []"
    and room: "has_room block_range 1 s"
    and full: "view (sy_base s) 0 \<noteq> None"
  shows "\<exists>s'. UpdateStep L bc cb block_range depth s = (Inr True, s') \<and>
     sync_inv L T view ready E block_range s' \<and> same (sy_base s) (sy_base s') \<and> sy_nextStartHeight s' = -1 \<and>
     blocks (sy_chain s') \<noteq> [] \<and> chain_aligned (view (sy_base s)) (sy_chain s') \<and>
     GetTipHeight (sy_chain s') \<le> int (tip (sy_base s)) \<and>
     GetFreeBranchNumber (sy_chain s') \<le> GetFreeBranchNumber (sy_chain s) + step_cost block_range"
proof -
  let ?v = "view (sy_base s)" and ?gen = "genesis_height depth (tip (sy_base s))"
  have I: "tree_ok T" "ready (sy_base s)" "base_in_tree L T ?v" "chain_inv L (sy_chain s)"
      "rows_in_tree T (blocks (sy_chain s))" "sy_nextStartHeight s = -1"
    using inv empty by (auto simp: sync_inv_def)
  note ok = view_ok [OF I(2)]
  obtain b' where b': "bc_GetTipHeight bc (sy_base s) = (Inr (tip (sy_base s)), b')" "same (sy_base s) b'"
    using GetTipHeight_law [OF I(2)] unfolding base_same_def by blast
  let ?s = "s\<lparr>sy_base := b'\<rparr>"
  have v: "view b' = ?v" "ready b'" "tip b' = tip (sy_base s)" using b'(2) by (simp_all add: base_same_def)
  obtain h where "E h s" using inv by (auto simp: sync_inv_def)
  then have E': "E h ?s" by (rule frame_same) (use v in simp_all)
  have none: "GetTipHeight (sy_chain s) = -1" using no_main_heights(1) [of "sy_chain s"] empty by simp
  have us: "UpdateStep L bc cb block_range depth s = ImportNewTip L bc cb ?gen ?s"
    using b'(1) I(6) none by (simp add: UpdateStep_def Let_def genesis_height_def)
  obtain c where "?v 0 = Some c" using full by blast
  moreover have "?gen \<le> tip (sy_base s)" by (simp add: genesis_height_def)
  ultimately obtain g where g: "?v ?gen = Some g" using mainchain_okD(3) [OF ok, of 0 c ?gen] by blast
  have "\<exists>s'. ImportNewTip L bc cb ?gen ?s = (Inr True, s') \<and> same (sy_base ?s) (sy_base s') \<and>
      sy_numBlocks s' = sy_numBlocks ?s \<and> sy_nextStartHeight s' = sy_nextStartHeight ?s \<and>
      chain_synced L T (view (sy_base ?s)) (sy_chain s') \<and> tip_is (sy_chain s') g \<and>
      GetFreeBranchNumber (sy_chain s') \<le> GetFreeBranchNumber (sy_chain ?s) + 2 \<and> E (blk_hash g) s'"
    by (rule ImportNewTip_ok [OF E']) (use I v g none empty room in \<open>simp_all add: has_room_def\<close>)
  then obtain s' where s': "ImportNewTip L bc cb ?gen ?s = (Inr True, s')" "same b' (sy_base s')"
      "sy_numBlocks s' = sy_numBlocks s" "sy_nextStartHeight s' = -1" "chain_synced L T ?v (sy_chain s')"
      "tip_is (sy_chain s') g" "GetFreeBranchNumber (sy_chain s') \<le> GetFreeBranchNumber (sy_chain s) + 2" "E (blk_hash g) s'"
    using v(1) I(6) by auto
  note fin = aligned_facts [OF s'(6) g ok] and same' = same_trans [OF b'(2) s'(2)]
  have "sync_inv L T view ready E block_range s'"
    by (rule sync_invI [OF inv same' s'(5), where b = g]) (use s' inv in \<open>auto simp: sync_inv_def\<close>)
  with us s' fin same' show ?thesis by (auto simp: step_cost_def)
qed

subsection \<open>Catching up\<close>

lemma caught_upI:
  assumes "ready (sy_base s)" "chain_aligned (view (sy_base s)) (sy_chain s)"
    and "GetTipHeight (sy_chain s) = int (tip (sy_base s))"
  shows "caught_up view tip s"
  using assms by (auto simp: chain_aligned_def caught_up_def split: option.splits)

lemma advanced_more:
  assumes adv: "advanced L T view tip ready E block_range s st True s'" and room: "has_room block_range (Suc n) s"
    and st: "st = nat (start_height s)" "0 \<le> start_height s"
  shows "passes_left view tip s' < passes_left view tip s" "has_room block_range n s'"
proof -
  have a: "sy_nextStartHeight s' = -1" "chain_aligned (view (sy_base s')) (sy_chain s')"
      "tip (sy_base s') = tip (sy_base s)" "view (sy_base s') = view (sy_base s)"
      "int st + 2 \<le> GetTipHeight (sy_chain s')" "GetTipHeight (sy_chain s') \<le> int (tip (sy_base s))"
    using adv by (auto simp: advanced_def base_same_def)
  have left': "passes_left view tip s' = tip (sy_base s) - nat (GetTipHeight (sy_chain s'))"
    using a by (simp add: passes_left_def)
  show "passes_left view tip s' < passes_left view tip s"
  proof (cases "chain_aligned (view (sy_base s)) (sy_chain s) \<and> sy_nextStartHeight s = -1")
    case True
    then have "start_height s = GetTipHeight (sy_chain s)" by (simp add: start_height_def)
    with True left' a(5,6) st show ?thesis by (simp add: passes_left_def) linarith
  next
    case False
    with left' show ?thesis by (auto simp: passes_left_def)
  qed
  have "GetFreeBranchNumber (sy_chain s') \<le> GetFreeBranchNumber (sy_chain s) + step_cost block_range"
    using adv by (simp add: advanced_def)
  with room show "has_room block_range n s'" by (simp add: has_room_def)
qed

lemma back_more:
  assumes wb: "went_back L T view tip ready E block_range s s'" and room: "has_room block_range (Suc n) s"
    and pos: "0 \<le> start_height s"
    and nofit: "\<not> fits (view (sy_base s)) (sy_chain s) (nat (start_height s))"
  shows "passes_left view tip s' < passes_left view tip s" "has_room block_range n s'"
proof -
  have b: "0 \<le> sy_nextStartHeight s'" "sy_chain s' = sy_chain s" "tip (sy_base s') = tip (sy_base s)"
      "sy_nextStartHeight s' < start_height s"
    using wb by (auto simp: went_back_def base_same_def)
  have "\<not> (chain_aligned (view (sy_base s)) (sy_chain s) \<and> sy_nextStartHeight s = -1)"
    using aligned_fits [of "view (sy_base s)" "sy_chain s" "nat (start_height s)"] nofit pos
    by (auto simp: start_height_def)
  then have "passes_left view tip s = tip (sy_base s) + 2 + nat (start_height s)" by (auto simp: passes_left_def)
  moreover have "passes_left view tip s' = tip (sy_base s) + 2 + nat (sy_nextStartHeight s')"
    using b by (simp add: passes_left_def start_height_def)
  ultimately show "passes_left view tip s' < passes_left view tip s" using b(1,4) by simp
  show "has_room block_range n s'" using room b(2) by (simp add: has_room_def)
qed

lemma Sync_run_catches_up:
  "sync_inv L T view ready E block_range s \<Longrightarrow> blocks (sy_chain s) \<noteq> [] \<Longrightarrow>
     passes_left view tip s < n \<Longrightarrow> has_room block_range n s \<Longrightarrow>
     \<exists>s'. Sync_run n L bc cb block_range depth s = (Inr (), s') \<and> caught_up view tip s' \<and>
       sync_inv L T view ready E block_range s' \<and> same (sy_base s) (sy_base s')"
proof (induction n arbitrary: s)
  case (Suc n)
  have room1: "has_room block_range 1 s" using Suc.prems(4) by (simp add: has_room_def)
  note pos = start_height_bounds(3) [OF Suc.prems(1,2)]
  let ?fit = "fits (view (sy_base s)) (sy_chain s) (nat (start_height s))"
  obtain again s' where us: "UpdateStep L bc cb block_range depth s = (Inr again, s')"
    and res: "if ?fit then advanced L T view tip ready E block_range s (nat (start_height s)) again s'
      else again \<and> went_back L T view tip ready E block_range s s'"
    using UpdateStep_ok [OF Suc.prems(1,2) room1] by blast
  have it: "Sync_iteration L bc cb block_range depth s = (Inr again, s')" using us by (simp add: Sync_iteration_def)
  have keep: "sync_inv L T view ready E block_range s'" "same (sy_base s) (sy_base s')"
    using res by (auto simp: advanced_def went_back_def split: if_splits)
  show ?case
  proof (cases again)
    case False
    then have adv: "advanced L T view tip ready E block_range s (nat (start_height s)) False s'" using res by (auto split: if_splits)
    then have "caught_up view tip s'" by (intro caught_upI) (auto simp: advanced_def base_same_def)
    with it False keep show ?thesis by auto
  next
    case True
    have less: "passes_left view tip s' < passes_left view tip s" "has_room block_range n s'"
      using advanced_more [of block_range s "nat (start_height s)" s' n] back_more [of block_range s s' n]
        res True pos Suc.prems(4) by (auto split: if_splits)
    have ne: "blocks (sy_chain s') \<noteq> []"
      using res Suc.prems(2) by (auto simp: advanced_def went_back_def split: if_splits)
    obtain s'' where "Sync_run n L bc cb block_range depth s' = (Inr (), s'')" "caught_up view tip s''"
        "sync_inv L T view ready E block_range s''" "same (sy_base s') (sy_base s'')"
      using Suc.IH [OF keep(1) ne _ less(2)] less(1) Suc.prems(3) by auto
    with it True same_trans [OF keep(2)] show ?thesis by auto
  qed
qed simp

text \<open>The same from an empty database, where the first pass imports the block at the pruning depth.\<close>

lemma Sync_run_from_any:
  assumes inv: "sync_inv L T view ready E block_range s"
    and full: "blocks (sy_chain s) = [] \<Longrightarrow> view (sy_base s) 0 \<noteq> None"
    and n: "passes_needed view tip s < n" and room: "has_room block_range n s"
  shows "\<exists>s'. Sync_run n L bc cb block_range depth s = (Inr (), s') \<and> caught_up view tip s' \<and>
    sync_inv L T view ready E block_range s' \<and> same (sy_base s) (sy_base s')"
proof (cases "blocks (sy_chain s) = []")
  case False
  then show ?thesis using Sync_run_catches_up [OF inv] n room by (simp add: passes_needed_def)
next
  case True
  obtain m where m: "n = Suc m" using n by (cases n) auto
  have "has_room block_range 1 s" using room m by (simp add: has_room_def)
  from UpdateStep_empty [OF inv True this full [OF True]] obtain s1 where
    s1: "UpdateStep L bc cb block_range depth s = (Inr True, s1)" "sync_inv L T view ready E block_range s1"
      "same (sy_base s) (sy_base s1)" "sy_nextStartHeight s1 = -1" "blocks (sy_chain s1) \<noteq> []"
      "chain_aligned (view (sy_base s)) (sy_chain s1)"
      "GetFreeBranchNumber (sy_chain s1) \<le> GetFreeBranchNumber (sy_chain s) + step_cost block_range"
    by blast
  have "passes_left view tip s1 < m"
    using s1 True n m by (simp add: passes_left_def passes_needed_def base_same_def)
  moreover have "has_room block_range m s1" using s1(7) room m by (simp add: has_room_def)
  ultimately obtain s' where "Sync_run m L bc cb block_range depth s1 = (Inr (), s')" "caught_up view tip s'"
      "sync_inv L T view ready E block_range s'" "same (sy_base s1) (sy_base s')"
    using Sync_run_catches_up [OF s1(2,5)] by blast
  with s1 m same_trans [OF s1(3)] show ?thesis by (auto simp: Sync_iteration_def)
qed

end


subsection \<open>A worker without callbacks\<close>

lemma no_callback_client:
  assumes "base_chain bc view tip ready"
  shows "sync_client bc view tip ready L T d (\<lambda>_ _. True) None"
  by (rule sync_client.intro [OF assms], rule sync_client_axioms.intro)
    (auto simp: TipUpdatedFrom_cb_def callback_result_def base_same_def update_ok_def chain_synced_def)

interpretation test_sync: sync_client TestChain Test_view Test_tip "Test_ready L" L T d "\<lambda>_ _. True" None
  for L T d
  by (rule no_callback_client [OF test.base_chain_axioms])

end
