(* ===== verification/ZmqPub.thy ===== *)
theory ZmqPub
  imports BlockData
begin

unbundle bit_operations_syntax

text \<open>
  \<^verbatim>\<open>src/private/zmqpub.hpp\<close> and \<^verbatim>\<open>src/zmqpub.cpp\<close>: the publisher of block and move
  notifications.  The state has the tracked games, the sequence numbers and, for the socket, the
  messages handed to it so far and the outcomes of the coming sends (\<open>False\<close> for a send that
  fails, which throws).  The two hash maps of the class are only searched and iterated over; the
  model keeps them in key order, the order of the messages to different topics is not part of
  any result.  UniValue and the strict reader of jsoncpp are parameters.
\<close>

type_synonym zmq_msg = "string \<times> string \<times> 8 word list"

record ZmqPub =
  zp_nextSeq :: "(string \<times> 32 word) list"
  zp_games :: "(string \<times> nat) list"
  zp_sent :: "zmq_msg list"
  zp_outcomes :: "bool list"

text \<open>\<open>uv_filter\<close>: the text UniValue writes for a string it reads as an object.
  \<open>json_read_strict\<close>: the reader of jsoncpp with the settings of \<^verbatim>\<open>ParseMoveJson\<close>.\<close>

record zmq_lib = json_lib +
  uv_filter :: "string \<Rightarrow> string option"
  json_read_strict :: "string \<Rightarrow> json option"

definition PREFIX_ATTACH :: string where "PREFIX_ATTACH = ''game-block-attach''"
definition PREFIX_DETACH :: string where "PREFIX_DETACH = ''game-block-detach''"
definition PREFIX_MOVE :: string where "PREFIX_MOVE = ''game-pending-move''"

definition ParseMoveJson :: "zmq_lib \<Rightarrow> string \<Rightarrow> json option" where
  "ParseMoveJson Z str =
     (case uv_filter Z str of None \<Rightarrow> None | Some filtered \<Rightarrow> json_read_strict Z filtered)"

definition InitFromMetadata :: "json \<Rightarrow> error + json" where
  "InitFromMetadata md =
     (if isNull md then Inr (JObject []) else if isObject md then Inr md else Inl Abort)"

definition AddBurnData :: "MoveData \<Rightarrow> string \<Rightarrow> json \<Rightarrow> json" where
  "AddBurnData mv gameId val =
     (case map_of (mv_burns mv) gameId of
        None \<Rightarrow> json_set ''burnt'' (JInt 0) val
      | Some b \<Rightarrow> json_set ''burnt'' b val)"

subsection \<open>The data of one transaction\<close>

record PerTxData =
  pt_moves :: "(string \<times> json) list"
  pt_admin :: "(string \<times> json) option"

definition members :: "json \<Rightarrow> (string \<times> json) list" where
  "members j = (case j of JObject m \<Rightarrow> m | _ \<Rightarrow> [])"

text \<open>The loop over the members of the value of \<^verbatim>\<open>"g"\<close>.\<close>

fun per_game_moves ::
  "MoveData \<Rightarrow> json \<Rightarrow> (string \<times> json) list \<Rightarrow> (string \<times> json) list \<Rightarrow> error + (string \<times> json) list" where
  "per_game_moves mv txTemplate [] acc = Inr acc"
| "per_game_moves mv txTemplate ((gameId, m) # gs) acc =
     bindE (checkE (map_of acc gameId = None)) (\<lambda>_.
     per_game_moves mv txTemplate gs
       (smap_emplace gameId (AddBurnData mv gameId (json_set ''move'' m txTemplate)) acc))"

definition PerTxData_of :: "zmq_lib \<Rightarrow> MoveData \<Rightarrow> error + PerTxData" where
  "PerTxData_of Z mv =
     (case ParseMoveJson Z (mv_mv mv) of
        None \<Rightarrow> Inr \<lparr>pt_moves = [], pt_admin = None\<rparr>
      | Some value \<Rightarrow>
          bindE (checkE (isObject value)) (\<lambda>_.
          bindE (InitFromMetadata (mv_metadata mv)) (\<lambda>md.
            let txTemplate = json_set ''txid'' (JString (mv_txid mv)) md in
            if mv_ns mv = ''g'' then
              (if isMember value ''cmd'' then
                 Inr \<lparr>pt_moves = [],
                      pt_admin = Some (mv_name mv,
                        AddBurnData mv (mv_name mv) (json_set ''cmd'' (json_get value ''cmd'') txTemplate))\<rparr>
               else Inr \<lparr>pt_moves = [], pt_admin = None\<rparr>)
            else if mv_ns mv \<noteq> ''p'' then Inr \<lparr>pt_moves = [], pt_admin = None\<rparr>
            else if \<not> isObject (json_get value ''g'') then Inr \<lparr>pt_moves = [], pt_admin = None\<rparr>
            else
              bindE (per_game_moves mv (json_set ''name'' (JString (mv_name mv)) txTemplate)
                       (members (json_get value ''g'')) []) (\<lambda>ms.
              Inr \<lparr>pt_moves = ms, pt_admin = None\<rparr>))))"

subsection \<open>Tracked games\<close>

definition TrackGame :: "string \<Rightarrow> (ZmqPub, unit) prog" where
  "TrackGame g =
     modifyM (\<lambda>z. z\<lparr>zp_games :=
       (case map_of (zp_games z) g of
          None \<Rightarrow> smap_emplace g 1 (zp_games z)
        | Some d \<Rightarrow> smap_set g (u64_add d 1) (zp_games z))\<rparr>)"

definition UntrackGame :: "string \<Rightarrow> (ZmqPub, unit) prog" where
  "UntrackGame g =
     bindM (getM (\<lambda>z. map_of (zp_games z) g)) (\<lambda>res.
       case res of
         None \<Rightarrow> ret ()
       | Some d \<Rightarrow>
           thenM (CHECK (d > 0))
             (if d - 1 = 0 then modifyM (\<lambda>z. z\<lparr>zp_games := filter (\<lambda>e. fst e \<noteq> g) (zp_games z)\<rparr>)
              else modifyM (\<lambda>z. z\<lparr>zp_games := smap_set g (d - 1) (zp_games z)\<rparr>)))"

subsection \<open>Sending\<close>

text \<open>The loop that writes the sequence number in little-endian order, with what is left of it.\<close>

fun seq_loop :: "nat \<Rightarrow> 32 word \<Rightarrow> 8 word list \<times> 32 word" where
  "seq_loop 0 seq = ([], seq)"
| "seq_loop (Suc n) seq =
     (let (bs, rest) = seq_loop n (drop_bit 8 seq) in (ucast (seq AND 0xFF) # bs, rest))"

text \<open>The socket: only the first part of a message can fail.\<close>

definition sock_send_first :: "(ZmqPub, unit) prog" where
  "sock_send_first = bindM (getM zp_outcomes) (\<lambda>os.
     case os of
       [] \<Rightarrow> ret ()
     | ok # rest \<Rightarrow>
         thenM (modifyM (\<lambda>z. z\<lparr>zp_outcomes := rest\<rparr>))
           (if ok then ret () else failM (Throw ZmqException)))"

definition SendMessage :: "zmq_lib \<Rightarrow> string \<Rightarrow> json \<Rightarrow> (ZmqPub, unit) prog" where
  "SendMessage Z cmd data =
     thenM (modifyM (\<lambda>z. z\<lparr>zp_nextSeq := smap_emplace cmd 0 (zp_nextSeq z)\<rparr>))
    (bindM (getM (\<lambda>z. case_option 0 id (map_of (zp_nextSeq z) cmd))) (\<lambda>seq.
       let (seqBytes, rest) = seq_loop 4 seq in
       thenM (CHECK (rest = 0))
      (thenM sock_send_first
      (thenM (modifyM (\<lambda>z. z\<lparr>zp_sent := zp_sent z @ [(cmd, json_write Z data, seqBytes)]\<rparr>))
         (modifyM (\<lambda>z. z\<lparr>zp_nextSeq := smap_set cmd (seq + 1) (zp_nextSeq z)\<rparr>))))))"

text \<open>Appending an entry to the array of its game, if the game is tracked.\<close>

definition append_for_game :: "string \<Rightarrow> json \<Rightarrow> (string \<times> json) list \<Rightarrow> (string \<times> json) list" where
  "append_for_game g v m =
     (case map_of m g of None \<Rightarrow> m | Some arr \<Rightarrow> smap_set g (json_append v arr) m)"

fun append_moves :: "(string \<times> nat) list \<Rightarrow> (string \<times> json) list \<Rightarrow> (string \<times> json) list \<Rightarrow>
    error + (string \<times> json) list" where
  "append_moves games [] m = Inr m"
| "append_moves games ((g, v) # es) m =
     (case map_of m g of
        None \<Rightarrow> append_moves games es m
      | Some arr \<Rightarrow>
          bindE (checkE (map_of games g \<noteq> None)) (\<lambda>_.
          bindE (checkE (isArray arr)) (\<lambda>_.
          append_moves games es (append_for_game g v m))))"

definition append_admin :: "(string \<times> nat) list \<Rightarrow> (string \<times> json) option \<Rightarrow> (string \<times> json) list \<Rightarrow>
    error + (string \<times> json) list" where
  "append_admin games adm m =
     (case adm of None \<Rightarrow> Inr m | Some e \<Rightarrow> append_moves games [e] m)"

text \<open>The loop over the moves of a block.\<close>

fun block_moves :: "zmq_lib \<Rightarrow> (string \<times> nat) list \<Rightarrow> MoveData list \<Rightarrow>
    (string \<times> json) list \<Rightarrow> (string \<times> json) list \<Rightarrow>
    error + (string \<times> json) list \<times> (string \<times> json) list" where
  "block_moves Z games [] ms as = Inr (ms, as)"
| "block_moves Z games (mv # mvs) ms as =
     bindE (PerTxData_of Z mv) (\<lambda>data.
     bindE (append_moves games (pt_moves data) ms) (\<lambda>ms'.
     bindE (append_admin games (pt_admin data) as) (\<lambda>as'.
     block_moves Z games mvs ms' as')))"

definition empty_arrays :: "(string \<times> nat) list \<Rightarrow> error + (string \<times> json) list" where
  "empty_arrays games =
     bindE (checkE (list_all (\<lambda>e. snd e > 0) games)) (\<lambda>_.
     Inr (fold (\<lambda>e m. smap_emplace (fst e) (JArray []) m) games []))"

definition block_template :: "BlockData \<Rightarrow> string \<Rightarrow> error + json" where
  "block_template blk reqtoken =
     bindE (InitFromMetadata (blk_metadata blk)) (\<lambda>md.
       let blkJson = json_set ''rngseed'' (JString (blk_rngseed blk))
              (json_set ''height'' (JInt (int64_of (blk_height blk)))
              (json_set ''parent'' (JString (blk_parent blk))
              (json_set ''hash'' (JString (blk_hash blk)) md)));
           blkTemplate = json_set ''block'' blkJson (JObject []) in
       Inr (if reqtoken \<noteq> [] then json_set ''reqtoken'' (JString reqtoken) blkTemplate
            else blkTemplate))"

definition send_game :: "zmq_lib \<Rightarrow> string \<Rightarrow> json \<Rightarrow> (string \<times> json) list \<Rightarrow> (string \<times> json) list \<Rightarrow>
    string \<times> nat \<Rightarrow> (ZmqPub, unit) prog" where
  "send_game Z cmdPrefix blkTemplate ms as entry =
     thenM (CHECK (snd entry > 0))
       (case (map_of ms (fst entry), map_of as (fst entry)) of
          (Some mvs, Some cmds) \<Rightarrow>
            thenM (CHECK (isArray mvs))
           (thenM (CHECK (isArray cmds))
              (SendMessage Z (cmdPrefix @ '' json '' @ fst entry)
                 (json_set ''admin'' cmds (json_set ''moves'' mvs blkTemplate))))
        | _ \<Rightarrow> failM Abort)"

definition SendBlock :: "zmq_lib \<Rightarrow> string \<Rightarrow> BlockData \<Rightarrow> string \<Rightarrow> (ZmqPub, unit) prog" where
  "SendBlock Z cmdPrefix blk reqtoken =
     bindM (liftE (block_template blk reqtoken)) (\<lambda>blkTemplate.
     bindM (getM zp_games) (\<lambda>games.
     bindM (liftE (empty_arrays games)) (\<lambda>empty.
     bindM (liftE (block_moves Z games (blk_moves blk) empty empty)) (\<lambda>(ms, as).
     forM games (send_game Z cmdPrefix blkTemplate ms as)))))"

definition SendBlockAttach :: "zmq_lib \<Rightarrow> BlockData \<Rightarrow> string \<Rightarrow> (ZmqPub, unit) prog" where
  "SendBlockAttach Z blk reqtoken = SendBlock Z PREFIX_ATTACH blk reqtoken"

definition SendBlockDetach :: "zmq_lib \<Rightarrow> BlockData \<Rightarrow> string \<Rightarrow> (ZmqPub, unit) prog" where
  "SendBlockDetach Z blk reqtoken = SendBlock Z PREFIX_DETACH blk reqtoken"

text \<open>The loop over the moves of a pending transaction, with \<^verbatim>\<open>lastTxid\<close>.\<close>

fun pending_moves :: "zmq_lib \<Rightarrow> (string \<times> nat) list \<Rightarrow> MoveData list \<Rightarrow> string \<Rightarrow>
    (string \<times> json) list \<Rightarrow> error + (string \<times> json) list" where
  "pending_moves Z games [] lastTxid m = Inr m"
| "pending_moves Z games (mv # mvs) lastTxid m =
     bindE (checkE (lastTxid \<noteq> [] \<longrightarrow> lastTxid = mv_txid mv)) (\<lambda>_.
     bindE (PerTxData_of Z mv) (\<lambda>data.
     bindE (append_moves games (pt_moves data) m) (\<lambda>m'.
     pending_moves Z games mvs (mv_txid mv) m')))"

definition SendPendingMoves :: "zmq_lib \<Rightarrow> MoveData list \<Rightarrow> (ZmqPub, unit) prog" where
  "SendPendingMoves Z moves =
     thenM (CHECK (moves \<noteq> []))
    (bindM (getM zp_games) (\<lambda>games.
     bindM (liftE (empty_arrays games)) (\<lambda>empty.
     bindM (liftE (pending_moves Z games moves '''' empty)) (\<lambda>perGame.
     forM perGame (\<lambda>e.
       if json_size (snd e) > 0 then SendMessage Z (PREFIX_MOVE @ '' json '' @ fst e) (snd e)
       else ret ())))))"

definition ZmqPub_new :: ZmqPub where
  "ZmqPub_new = \<lparr>zp_nextSeq = [], zp_games = [], zp_sent = [], zp_outcomes = []\<rparr>"

subsection \<open>The sequence number on the wire\<close>

text \<open>The decoding of a subscriber (\<^verbatim>\<open>TestZmqSubscriber::ReceiveLoop\<close>).\<close>

definition decode_seq :: "8 word list \<Rightarrow> 32 word" where
  "decode_seq bs = fold (\<lambda>i seq. seq OR push_bit (8 * i) (ucast (bs ! i))) [0..<length bs] 0"

lemma seq_loop_4:
  "seq_loop 4 s =
     ([ucast (s AND 0xFF), ucast (drop_bit 8 s AND 0xFF), ucast (drop_bit 16 s AND 0xFF),
       ucast (drop_bit 24 s AND 0xFF)], drop_bit 32 s)"
  by (simp add: numeral_eq_Suc Let_def drop_bit_drop_bit)

lemma mask_FF: "(0xFF :: 32 word) = mask 8"
  by (simp add: mask_eq_exp_minus_1)

lemma seq_rest: "drop_bit 32 (s :: 32 word) = 0"
  by (rule bit_eqI) (simp add: bit_simps)

lemma decode_seq_4:
  "decode_seq [a, b, c, d] = ((ucast a OR push_bit 8 (ucast b)) OR push_bit 16 (ucast c)) OR push_bit 24 (ucast d)"
proof -
  have "[0..<length [a, b, c, d]] = [0, 1, 2, 3]" by (simp add: upt_rec)
  then show ?thesis unfolding decode_seq_def by simp
qed

lemma decode_seq_loop: "decode_seq (fst (seq_loop 4 s)) = s"
proof (rule bit_eqI)
  fix n assume "possible_bit TYPE(32 word) n"
  then have n: "n < 32" by simp
  consider "n < 8" | "8 \<le> n" "n < 16" | "16 \<le> n" "n < 24" | "24 \<le> n" using n by linarith
  then show "bit (decode_seq (fst (seq_loop 4 s))) n = bit s n"
    unfolding seq_loop_4 mask_FF fst_conv decode_seq_4
    by cases (use n in \<open>auto simp: bit_simps less_diff_conv2 not_less\<close>)
qed

lemma SendMessage_CHECK: "snd (seq_loop 4 s) = 0"
  by (simp add: seq_loop_4 seq_rest)

subsection \<open>Sequence numbers\<close>

definition topic_seqs :: "string \<Rightarrow> ZmqPub \<Rightarrow> 32 word list" where
  "topic_seqs cmd z = map (\<lambda>m. decode_seq (snd (snd m))) (filter (\<lambda>m. fst m = cmd) (zp_sent z))"

definition next_seq :: "string \<Rightarrow> ZmqPub \<Rightarrow> 32 word" where
  "next_seq cmd z = case_option 0 id (map_of (zp_nextSeq z) cmd)"

text \<open>The messages of every topic are numbered consecutively from zero, modulo $2^{32}$.\<close>

definition seq_inv :: "ZmqPub \<Rightarrow> bool" where
  "seq_inv z \<longleftrightarrow>
     (\<forall>cmd. topic_seqs cmd z = map word_of_nat [0..<length (topic_seqs cmd z)] \<and>
            next_seq cmd z = word_of_nat (length (topic_seqs cmd z)))"

lemma sock_send_first_cases:
  obtains os where "sock_send_first z = (Inr (), z\<lparr>zp_outcomes := os\<rparr>)" "zp_outcomes z = [] \<or> hd (zp_outcomes z)"
  | os where "sock_send_first z = (Inl (Throw ZmqException), z\<lparr>zp_outcomes := os\<rparr>)"
      "zp_outcomes z \<noteq> []" "\<not> hd (zp_outcomes z)"
proof (cases "zp_outcomes z")
  case Nil
  then have "sock_send_first z = (Inr (), z\<lparr>zp_outcomes := []\<rparr>)" by (simp add: sock_send_first_def)
  with Nil that(1) show thesis by blast
next
  case (Cons ok os)
  then have "sock_send_first z = (if ok then Inr () else Inl (Throw ZmqException), z\<lparr>zp_outcomes := os\<rparr>)"
    by (simp add: sock_send_first_def)
  with Cons that show thesis by (cases ok) auto
qed

text \<open>What one message does: it goes out with the next number, or an exception leaves messages
  and numbers as they were.\<close>

lemma SendMessage_cases:
  obtains z' where "SendMessage Z cmd data z = (Inr (), z')"
      "zp_sent z' = zp_sent z @ [(cmd, json_write Z data, fst (seq_loop 4 (next_seq cmd z)))]"
      "\<And>c. next_seq c z' = (if c = cmd then next_seq cmd z + 1 else next_seq c z)"
      "zp_games z' = zp_games z" "zp_outcomes z = [] \<or> hd (zp_outcomes z)"
      "zp_outcomes z' = tl (zp_outcomes z)"
  | z' where "SendMessage Z cmd data z = (Inl (Throw ZmqException), z')"
      "zp_sent z' = zp_sent z" "\<And>c. next_seq c z' = next_seq c z" "zp_games z' = zp_games z"
      "zp_outcomes z \<noteq> []" "\<not> hd (zp_outcomes z)" "zp_outcomes z' = tl (zp_outcomes z)"
proof -
  let ?z1 = "z\<lparr>zp_nextSeq := smap_emplace cmd 0 (zp_nextSeq z)\<rparr>"
  let ?seq = "next_seq cmd z"
  have seq: "case_option 0 id (map_of (zp_nextSeq ?z1) cmd) = ?seq"
    by (simp add: next_seq_def split: option.split)
  obtain bs where bs: "seq_loop 4 ?seq = (bs, 0)" using SendMessage_CHECK [of ?seq] by (cases "seq_loop 4 ?seq") auto
  have n1: "next_seq c ?z1 = next_seq c z" for c
    by (simp add: next_seq_def split: option.split)
  have run: "SendMessage Z cmd data z = thenM sock_send_first
      (thenM (modifyM (\<lambda>z. z\<lparr>zp_sent := zp_sent z @ [(cmd, json_write Z data, bs)]\<rparr>))
         (modifyM (\<lambda>z. z\<lparr>zp_nextSeq := smap_set cmd (?seq + 1) (zp_nextSeq z)\<rparr>))) ?z1"
    using seq bs by (simp add: SendMessage_def Let_def)
  show thesis
  proof (cases "zp_outcomes z = [] \<or> hd (zp_outcomes z)")
    case True
    let ?z' = "?z1\<lparr>zp_outcomes := tl (zp_outcomes z), zp_sent := zp_sent z @ [(cmd, json_write Z data, bs)],
        zp_nextSeq := smap_set cmd (?seq + 1) (zp_nextSeq ?z1)\<rparr>"
    have "sock_send_first ?z1 = (Inr (), ?z1\<lparr>zp_outcomes := tl (zp_outcomes z)\<rparr>)"
      using True by (cases "zp_outcomes z") (auto simp: sock_send_first_def)
    then have "SendMessage Z cmd data z = (Inr (), ?z')" unfolding run by simp
    moreover have "next_seq c ?z' = (if c = cmd then ?seq + 1 else next_seq c z)" for c
      using n1 [of c] by (simp add: next_seq_def)
    ultimately show thesis using that(1) [of ?z'] True bs by simp
  next
    case False
    then have "sock_send_first ?z1 = (Inl (Throw ZmqException), ?z1\<lparr>zp_outcomes := tl (zp_outcomes z)\<rparr>)"
      by (cases "zp_outcomes z") (auto simp: sock_send_first_def)
    then have "SendMessage Z cmd data z = (Inl (Throw ZmqException), ?z1\<lparr>zp_outcomes := tl (zp_outcomes z)\<rparr>)"
      unfolding run by simp
    with n1 False that(2) [of "?z1\<lparr>zp_outcomes := tl (zp_outcomes z)\<rparr>"] show thesis
      by (simp add: next_seq_def)
  qed
qed

lemma seq_inv_snoc:
  assumes inv: "seq_inv z"
    and sent: "zp_sent z' = zp_sent z @ [(cmd, d, fst (seq_loop 4 (next_seq cmd z)))]"
    and nx: "\<And>c. next_seq c z' = (if c = cmd then next_seq cmd z + 1 else next_seq c z)"
  shows "seq_inv z'"
  unfolding seq_inv_def
proof
  fix c
  have ts: "topic_seqs c z' = (if c = cmd then topic_seqs c z @ [next_seq cmd z] else topic_seqs c z)"
    using sent by (simp add: topic_seqs_def decode_seq_loop)
  have I: "topic_seqs c z = map word_of_nat [0..<length (topic_seqs c z)]"
      "next_seq c z = word_of_nat (length (topic_seqs c z))"
    using inv by (simp_all add: seq_inv_def)
  show "topic_seqs c z' = map word_of_nat [0..<length (topic_seqs c z')] \<and>
      next_seq c z' = word_of_nat (length (topic_seqs c z'))"
  proof (cases "c = cmd")
    case True
    have "map word_of_nat [0..<length (topic_seqs c z @ [next_seq cmd z])] =
        map word_of_nat [0..<length (topic_seqs c z)] @ [word_of_nat (length (topic_seqs c z))]" by simp
    with True ts I nx [of c] show ?thesis by simp
  next
    case False
    then show ?thesis using ts I nx [of c] by simp
  qed
qed

lemma SendMessage_seq_inv [inv_intros]: "keepsM seq_inv (SendMessage Z cmd data)"
  unfolding keepsM_def
proof (intro allI impI)
  fix z assume inv: "seq_inv z"
  show "seq_inv (snd (SendMessage Z cmd data z))"
  proof (rule SendMessage_cases [of Z cmd data z])
    fix z' assume "SendMessage Z cmd data z = (Inr (), z')"
      "zp_sent z' = zp_sent z @ [(cmd, json_write Z data, fst (seq_loop 4 (next_seq cmd z)))]"
      "\<And>c. next_seq c z' = (if c = cmd then next_seq cmd z + 1 else next_seq c z)"
    then show ?thesis using seq_inv_snoc [OF inv] by simp
  next
    fix z' assume "SendMessage Z cmd data z = (Inl (Throw ZmqException), z')"
      "zp_sent z' = zp_sent z" "\<And>c. next_seq c z' = next_seq c z"
    then show ?thesis using inv by (simp add: seq_inv_def topic_seqs_def)
  qed
qed

lemma seq_inv_new [simp]: "seq_inv ZmqPub_new"
  by (simp add: seq_inv_def ZmqPub_new_def topic_seqs_def next_seq_def)

subsection \<open>The states of a publisher\<close>

text \<open>All the public methods; an exception of the socket leaves the publisher usable.\<close>

datatype zmq_op =
    OpTrack string
  | OpUntrack string
  | OpAttach BlockData string
  | OpDetach BlockData string
  | OpPending "MoveData list"

fun zmq_do :: "zmq_lib \<Rightarrow> zmq_op \<Rightarrow> (ZmqPub, unit) prog" where
  "zmq_do Z (OpTrack g) = TrackGame g"
| "zmq_do Z (OpUntrack g) = UntrackGame g"
| "zmq_do Z (OpAttach b tok) = SendBlockAttach Z b tok"
| "zmq_do Z (OpDetach b tok) = SendBlockDetach Z b tok"
| "zmq_do Z (OpPending mvs) = SendPendingMoves Z mvs"

inductive zmq_reachable :: "zmq_lib \<Rightarrow> ZmqPub \<Rightarrow> bool" for Z where
  fresh: "zmq_reachable Z (ZmqPub_new\<lparr>zp_outcomes := os\<rparr>)"
| after: "zmq_reachable Z z \<Longrightarrow> zmq_do Z op z = (r, z') \<Longrightarrow> zmq_reachable Z z'"

text \<open>An invariant of sending that does not depend on the tracked games holds for all operations.\<close>

lemma zmq_do_keeps:
  assumes send: "\<And>cmd data. keepsM P (SendMessage Z cmd data)" and games: "\<And>z gs. P z \<Longrightarrow> P (z\<lparr>zp_games := gs\<rparr>)"
  shows "keepsM P (zmq_do Z op)"
proof -
  have "keepsM P (SendBlock Z p blk tok)" for p blk tok
    unfolding SendBlock_def
    by (intro keepsM_bind) (auto simp: send_game_def intro!: keepsM_forM keepsM_then send split: option.split prod.split)
  moreover have "keepsM P (SendPendingMoves Z mvs)" for mvs
    unfolding SendPendingMoves_def
    by (intro keepsM_then keepsM_bind) (auto intro!: keepsM_forM send split: if_split)
  moreover have "keepsM P (TrackGame g)" for g
    unfolding TrackGame_def by (rule keepsM_modify) (rule games)
  moreover have "keepsM P (UntrackGame g)" for g
    unfolding UntrackGame_def
    by (intro keepsM_bind) (auto intro!: keepsM_then keepsM_modify games split: option.split if_split)
  ultimately show ?thesis by (cases op) (simp_all add: SendBlockAttach_def SendBlockDetach_def)
qed

lemma zmq_reachable_keeps:
  assumes "zmq_reachable Z z" "\<And>os. P (ZmqPub_new\<lparr>zp_outcomes := os\<rparr>)"
    and "\<And>cmd data. keepsM P (SendMessage Z cmd data)" "\<And>z gs. P z \<Longrightarrow> P (z\<lparr>zp_games := gs\<rparr>)"
  shows "P z"
  using assms(1)
proof (induction rule: zmq_reachable.induct)
  case (fresh os)
  then show ?case by (rule assms(2))
next
  case (after z op r z')
  from keepsMD [OF zmq_do_keeps [OF assms(3,4)] after.IH after.hyps(2)] show ?case .
qed

lemma zmq_reachable_seq: "zmq_reachable Z z \<Longrightarrow> seq_inv z"
  by (erule zmq_reachable_keeps [OF _ _ SendMessage_seq_inv])
    (simp_all add: seq_inv_def topic_seqs_def next_seq_def ZmqPub_new_def)

end
