(* ===== verification/ZmqContent.thy ===== *)
theory ZmqContent
  imports ZmqPub
begin

text \<open>
  What the publisher sends: the tracked games are a reference count, and the notification of a
  block reaches every tracked game exactly once, with the moves and admin commands of that game
  in the order of the block.
\<close>

subsection \<open>Tracking is reference counting\<close>

definition games_ok :: "ZmqPub \<Rightarrow> bool" where
  "games_ok z \<longleftrightarrow> smap_ok (zp_games z) \<and> list_all (\<lambda>e. snd e > 0) (zp_games z)"

definition depth :: "ZmqPub \<Rightarrow> string \<Rightarrow> nat" where
  "depth z g = case_option 0 id (map_of (zp_games z) g)"

lemma set_smap_set: "set (smap_set k v m) \<subseteq> insert (k, v) (set m)"
  by (induction k v m rule: smap_set.induct) auto

lemma games_set:
  assumes "games_ok z" "0 < d"
  shows "games_ok (z\<lparr>zp_games := smap_set g d (zp_games z)\<rparr>)"
    "depth (z\<lparr>zp_games := smap_set g d (zp_games z)\<rparr>) = (depth z)(g := d)"
  using assms set_smap_set [of g d "zp_games z"]
  by (auto simp: games_ok_def list_all_iff depth_def fun_eq_iff)

lemma games_depth_pos: "games_ok z \<Longrightarrow> map_of (zp_games z) g = Some d \<Longrightarrow> 0 < d"
  by (force simp: games_ok_def list_all_iff dest: map_of_SomeD)

lemma map_of_filter_key: "map_of (filter (\<lambda>e. fst e \<noteq> g) m) = (map_of m)(g := None)"
  by (induction m) (auto simp: fun_eq_iff)

lemma TrackGame_depth:
  assumes "games_ok z" "depth z g < u64_max"
  shows "\<exists>z'. TrackGame g z = (Inr (), z') \<and> games_ok z' \<and> depth z' = (depth z)(g := depth z g + 1)"
proof (cases "map_of (zp_games z) g")
  case None
  with games_set [OF assms(1), of 1 g] show ?thesis
    by (simp add: TrackGame_def depth_def [of z g] smap_emplace_def)
next
  case (Some d)
  then have "u64_add d 1 = d + 1" using assms(2) by (simp add: depth_def)
  with Some games_set [OF assms(1), of "d + 1" g] show ?thesis
    by (simp add: TrackGame_def depth_def [of z g])
qed

lemma UntrackGame_depth:
  assumes ok: "games_ok z"
  shows "\<exists>z'. UntrackGame g z = (Inr (), z') \<and> games_ok z' \<and> depth z' = (depth z)(g := depth z g - 1)"
proof (cases "map_of (zp_games z) g")
  case None
  with ok show ?thesis by (simp add: UntrackGame_def depth_def [of z g]) (simp add: depth_def fun_eq_iff)
next
  case (Some d)
  note pos = games_depth_pos [OF ok Some]
  show ?thesis
  proof (cases "d - 1 = 0")
    case True
    let ?z = "z\<lparr>zp_games := filter (\<lambda>e. fst e \<noteq> g) (zp_games z)\<rparr>"
    have "games_ok ?z"
      using ok by (auto simp: games_ok_def smap_ok_def list_all_iff sorted_wrt_map intro: sorted_wrt_filter)
    moreover have "depth ?z = (depth z)(g := 0)" by (simp add: depth_def fun_eq_iff map_of_filter_key)
    ultimately show ?thesis using True Some pos by (simp add: UntrackGame_def depth_def [of z g])
  next
    case False
    with Some pos games_set [OF ok, of "d - 1" g] show ?thesis
      by (simp add: UntrackGame_def depth_def [of z g])
  qed
qed

text \<open>The games a notification is sent for are the tracked ones.\<close>

lemma tracked_iff: "games_ok z \<Longrightarrow> g \<in> fst ` set (zp_games z) \<longleftrightarrow> 0 < depth z g"
proof (cases "map_of (zp_games z) g")
  case None
  then show ?thesis by (simp add: depth_def) (simp add: map_of_eq_None_iff)
next
  case (Some d)
  moreover assume "games_ok z"
  ultimately show ?thesis
    using games_depth_pos map_of_SomeD [OF Some] by (fastforce simp: depth_def intro: rev_image_eqI)
qed

subsection \<open>The moves of a game\<close>

text \<open>Data the base chain may hand over: the metadata is an object or null, and the reader returns
  objects, whose members are ordered.\<close>

definition meta_ok :: "json \<Rightarrow> bool" where
  "meta_ok md \<longleftrightarrow> isNull md \<or> isObject md"

definition tx_ok :: "zmq_lib \<Rightarrow> MoveData \<Rightarrow> bool" where
  "tx_ok Z mv \<longleftrightarrow>
     (case ParseMoveJson Z (mv_mv mv) of
        None \<Rightarrow> True
      | Some v \<Rightarrow> isObject v \<and> meta_ok (mv_metadata mv) \<and> smap_ok (members (json_get v ''g'')))"

definition block_sendable :: "zmq_lib \<Rightarrow> BlockData \<Rightarrow> bool" where
  "block_sendable Z blk \<longleftrightarrow> meta_ok (blk_metadata blk) \<and> list_all (tx_ok Z) (blk_moves blk)"

definition tx_data :: "zmq_lib \<Rightarrow> MoveData \<Rightarrow> PerTxData" where
  "tx_data Z mv = (case PerTxData_of Z mv of Inl e \<Rightarrow> \<lparr>pt_moves = [], pt_admin = None\<rparr> | Inr d \<Rightarrow> d)"

text \<open>The reference definitions: what a game finds in its arrays.\<close>

definition game_moves :: "zmq_lib \<Rightarrow> string \<Rightarrow> MoveData list \<Rightarrow> json list" where
  "game_moves Z g mvs =
     concat (map (\<lambda>mv. case map_of (pt_moves (tx_data Z mv)) g of None \<Rightarrow> [] | Some v \<Rightarrow> [v]) mvs)"

definition game_admin :: "zmq_lib \<Rightarrow> string \<Rightarrow> MoveData list \<Rightarrow> json list" where
  "game_admin Z g mvs =
     concat (map (\<lambda>mv. case pt_admin (tx_data Z mv) of
        None \<Rightarrow> [] | Some (g', v) \<Rightarrow> if g' = g then [v] else []) mvs)"

lemma InitFromMetadata_ok: "meta_ok md \<Longrightarrow> \<exists>j. InitFromMetadata md = Inr j \<and> isObject j"
  by (auto simp: InitFromMetadata_def meta_ok_def)

lemma per_game_moves_ok:
  "smap_ok (acc @ map (\<lambda>e. (fst e, f e)) gs) \<Longrightarrow>
   (\<And>e. e \<in> set gs \<Longrightarrow> f e = AddBurnData mv (fst e) (json_set ''move'' (snd e) tmpl)) \<Longrightarrow>
     per_game_moves mv tmpl gs acc = Inr (acc @ map (\<lambda>e. (fst e, f e)) gs)"
proof (induction gs arbitrary: acc)
  case (Cons e gs)
  obtain k v where e: "e = (k, v)" by (cases e)
  have ok: "smap_ok ((acc @ [(k, f e)]) @ map (\<lambda>e. (fst e, f e)) gs)" using Cons.prems(1) e by simp
  then have em: "smap_emplace k (f e) acc = acc @ [(k, f e)]" by (rule smap_emplace_mid)
  have "\<forall>k'\<in>fst ` set acc. k' < k" using ok by (auto simp: smap_ok_def sorted_wrt_append)
  then have new: "map_of acc k = None" by (auto simp: map_of_eq_None_iff)
  have "f e = AddBurnData mv k (json_set ''move'' v tmpl)" using Cons.prems(2) [of e] e by simp
  then have "per_game_moves mv tmpl (e # gs) acc = per_game_moves mv tmpl gs (acc @ [(k, f e)])"
    using e new em by simp
  also have "\<dots> = Inr ((acc @ [(k, f e)]) @ map (\<lambda>e. (fst e, f e)) gs)"
    by (rule Cons.IH [OF ok]) (use Cons.prems(2) in simp)
  finally show ?case using e by simp
qed simp

lemma PerTxData_ok:
  assumes "tx_ok Z mv"
  shows "PerTxData_of Z mv = Inr (tx_data Z mv)" "distinct (map fst (pt_moves (tx_data Z mv)))"
proof -
  have "\<exists>d. PerTxData_of Z mv = Inr d \<and> distinct (map fst (pt_moves d))"
  proof (cases "ParseMoveJson Z (mv_mv mv)")
    case None
    then show ?thesis by (simp add: PerTxData_of_def)
  next
    case (Some v)
    with assms have v: "isObject v" "meta_ok (mv_metadata mv)" "smap_ok (members (json_get v ''g''))"
      by (auto simp: tx_ok_def)
    obtain j where j: "InitFromMetadata (mv_metadata mv) = Inr j" using InitFromMetadata_ok [OF v(2)] by blast
    let ?tmpl = "json_set ''name'' (JString (mv_name mv)) (json_set ''txid'' (JString (mv_txid mv)) j)"
    let ?f = "\<lambda>e. AddBurnData mv (fst e) (json_set ''move'' (snd e) ?tmpl)"
    let ?gs = "members (json_get v ''g'')"
    have ok: "smap_ok (map (\<lambda>e. (fst e, ?f e)) ?gs)" using v(3) by (simp add: smap_ok_def o_def)
    then have "per_game_moves mv ?tmpl ?gs [] = Inr (map (\<lambda>e. (fst e, ?f e)) ?gs)"
      using per_game_moves_ok [of "[]" ?f ?gs mv ?tmpl] by simp
    with Some v(1) j smap_ok_distinct [OF ok] show ?thesis by (simp add: PerTxData_of_def Let_def)
  qed
  then show "PerTxData_of Z mv = Inr (tx_data Z mv)" "distinct (map fst (pt_moves (tx_data Z mv)))"
    by (auto simp: tx_data_def)
qed

subsection \<open>The arrays per game\<close>

definition arrays_for :: "(string \<times> nat) list \<Rightarrow> (string \<Rightarrow> json list) \<Rightarrow> (string \<times> json) list \<Rightarrow> bool" where
  "arrays_for games f m \<longleftrightarrow> smap_ok m \<and>
     (\<forall>g. map_of m g = (if map_of games g = None then None else Some (JArray (f g))))"

lemma append_one:
  assumes "arrays_for games f m"
  shows "arrays_for games (f(g := f g @ [v])) (append_for_game g v m)"
proof (cases "map_of games g")
  case None
  then have "map_of m g = None" using assms by (simp add: arrays_for_def)
  with assms None show ?thesis by (auto simp: arrays_for_def append_for_game_def)
next
  case (Some d)
  then have "map_of m g = Some (JArray (f g))" using assms by (simp add: arrays_for_def)
  with assms Some show ?thesis by (simp add: arrays_for_def append_for_game_def)
qed

lemma append_moves_ok:
  "arrays_for games f m \<Longrightarrow> distinct (map fst es) \<Longrightarrow>
     \<exists>m'. append_moves games es m = Inr m' \<and>
       arrays_for games (\<lambda>g. f g @ (case map_of es g of None \<Rightarrow> [] | Some v \<Rightarrow> [v])) m'"
proof (induction es arbitrary: f m)
  case Nil
  then show ?case by simp
next
  case (Cons e es)
  obtain g v where e: "e = (g, v)" by (cases e)
  have notin: "map_of es g = None" using Cons.prems(2) e by (auto simp: map_of_eq_None_iff)
  let ?f = "f(g := f g @ [v])"
  have step: "append_moves games (e # es) m = append_moves games es (append_for_game g v m)"
    using Cons.prems(1) e
    by (cases "map_of games g") (auto simp: arrays_for_def append_for_game_def)
  obtain m' where m': "append_moves games es (append_for_game g v m) = Inr m'"
      "arrays_for games (\<lambda>g. ?f g @ (case map_of es g of None \<Rightarrow> [] | Some v \<Rightarrow> [v])) m'"
    using Cons.IH [OF append_one [OF Cons.prems(1), of g v]] Cons.prems(2) by auto
  have "(\<lambda>g. ?f g @ (case map_of es g of None \<Rightarrow> [] | Some v \<Rightarrow> [v])) =
      (\<lambda>g. f g @ (case map_of (e # es) g of None \<Rightarrow> [] | Some v \<Rightarrow> [v]))"
    using notin e by (auto simp: fun_eq_iff)
  with m' step show ?case by auto
qed

lemma append_admin_ok:
  assumes "arrays_for games f m"
  shows "\<exists>m'. append_admin games adm m = Inr m' \<and>
     arrays_for games (\<lambda>g. f g @ (case adm of None \<Rightarrow> [] | Some (g', v) \<Rightarrow> if g' = g then [v] else [])) m'"
proof (cases adm)
  case None
  with assms show ?thesis by (simp add: append_admin_def)
next
  case (Some e)
  obtain g v where e: "e = (g, v)" by (cases e)
  have "(\<lambda>x. f x @ (case map_of [(g, v)] x of None \<Rightarrow> [] | Some w \<Rightarrow> [w])) =
      (\<lambda>x. f x @ (if g = x then [v] else []))" by (auto simp: fun_eq_iff)
  with append_moves_ok [OF assms, of "[(g, v)]"] Some e show ?thesis by (simp add: append_admin_def)
qed

lemma block_moves_ok:
  "list_all (tx_ok Z) mvs \<Longrightarrow> arrays_for games f ms \<Longrightarrow> arrays_for games h as \<Longrightarrow>
     \<exists>ms' as'. block_moves Z games mvs ms as = Inr (ms', as') \<and>
       arrays_for games (\<lambda>g. f g @ game_moves Z g mvs) ms' \<and>
       arrays_for games (\<lambda>g. h g @ game_admin Z g mvs) as'"
proof (induction mvs arbitrary: f h ms as)
  case Nil
  then show ?case by (simp add: game_moves_def game_admin_def)
next
  case (Cons mv mvs)
  have tx: "tx_ok Z mv" using Cons.prems(1) by simp
  obtain ms1 where ms1: "append_moves games (pt_moves (tx_data Z mv)) ms = Inr ms1"
      "arrays_for games (\<lambda>g. f g @ (case map_of (pt_moves (tx_data Z mv)) g of None \<Rightarrow> [] | Some v \<Rightarrow> [v])) ms1"
    using append_moves_ok [OF Cons.prems(2) PerTxData_ok(2) [OF tx]] by blast
  obtain as1 where as1: "append_admin games (pt_admin (tx_data Z mv)) as = Inr as1"
      "arrays_for games (\<lambda>g. h g @ (case pt_admin (tx_data Z mv) of
          None \<Rightarrow> [] | Some (g', v) \<Rightarrow> if g' = g then [v] else [])) as1"
    using append_admin_ok [OF Cons.prems(3)] by blast
  have rest: "list_all (tx_ok Z) mvs" using Cons.prems(1) by simp
  from Cons.IH [OF rest ms1(2) as1(2)] show ?case
    using PerTxData_ok(1) [OF tx] ms1(1) as1(1) by (auto simp: game_moves_def game_admin_def)
qed

lemma empty_arrays_ok:
  assumes "games_ok z"
  shows "\<exists>m. empty_arrays (zp_games z) = Inr m \<and> arrays_for (zp_games z) (\<lambda>_. []) m"
proof -
  let ?step = "\<lambda>e m. smap_emplace (fst e) (JArray []) m"
  have fold: "smap_ok acc \<Longrightarrow> smap_ok (fold ?step gs acc) \<and>
      (\<forall>g. map_of (fold ?step gs acc) g =
        (if map_of acc g \<noteq> None then map_of acc g
         else if map_of gs g \<noteq> None then Some (JArray []) else None))"
    for gs :: "(string \<times> nat) list" and acc
    by (induction gs arbitrary: acc) (auto simp: fun_eq_iff)
  show ?thesis
    using assms fold [of "[]" "zp_games z"] by (auto simp: empty_arrays_def games_ok_def arrays_for_def)
qed

subsection \<open>The notification of a block\<close>

definition topic :: "string \<Rightarrow> string \<Rightarrow> string" where
  "topic p g = p @ '' json '' @ g"

lemma topic_inj [simp]: "topic p g = topic p g' \<longleftrightarrow> g = g'"
  by (simp add: topic_def)

definition game_notification :: "zmq_lib \<Rightarrow> BlockData \<Rightarrow> json \<Rightarrow> string \<Rightarrow> json" where
  "game_notification Z blk tmpl g =
     json_set ''admin'' (JArray (game_admin Z g (blk_moves blk)))
       (json_set ''moves'' (JArray (game_moves Z g (blk_moves blk))) tmpl)"

text \<open>The messages a list of games gets, with the sequence numbers of their topics.\<close>

definition notifications :: "zmq_lib \<Rightarrow> string \<Rightarrow> BlockData \<Rightarrow> json \<Rightarrow> ZmqPub \<Rightarrow> (string \<times> nat) list \<Rightarrow> zmq_msg list" where
  "notifications Z p blk tmpl z games =
     map (\<lambda>e. (topic p (fst e), json_write Z (game_notification Z blk tmpl (fst e)),
               fst (seq_loop 4 (next_seq (topic p (fst e)) z)))) games"

lemma send_game_eq:
  assumes "arrays_for games (\<lambda>g. game_moves Z g mvs) ms" "arrays_for games (\<lambda>g. game_admin Z g mvs) as"
    and "map_of games (fst e) \<noteq> None" "0 < snd e" "mvs = blk_moves blk"
  shows "send_game Z p tmpl ms as e z = SendMessage Z (topic p (fst e)) (game_notification Z blk tmpl (fst e)) z"
proof -
  have "map_of ms (fst e) = Some (JArray (game_moves Z (fst e) mvs))"
      "map_of as (fst e) = Some (JArray (game_admin Z (fst e) mvs))"
    using assms(1-3) by (auto simp: arrays_for_def)
  with assms(4,5) show ?thesis by (simp add: send_game_def topic_def game_notification_def)
qed

lemma send_games_ok:
  assumes arr: "arrays_for games (\<lambda>g. game_moves Z g (blk_moves blk)) ms"
      "arrays_for games (\<lambda>g. game_admin Z g (blk_moves blk)) as"
  shows "set es \<subseteq> set games \<Longrightarrow> distinct (map fst es) \<Longrightarrow> \<forall>e\<in>set es. 0 < snd e \<Longrightarrow> zp_outcomes z = [] \<Longrightarrow>
     \<exists>z'. forM es (send_game Z p tmpl ms as) z = (Inr (), z') \<and>
       zp_sent z' = zp_sent z @ notifications Z p blk tmpl z es \<and> zp_games z' = zp_games z"
proof (induction es arbitrary: z)
  case Nil
  then show ?case by (simp add: notifications_def)
next
  case (Cons e es)
  have "map_of games (fst e) \<noteq> None" using Cons.prems(1) unfolding map_of_eq_None_iff by auto
  then have first: "send_game Z p tmpl ms as e z = SendMessage Z (topic p (fst e)) (game_notification Z blk tmpl (fst e)) z"
    using send_game_eq [OF arr _ _ refl] Cons.prems(3) by simp
  show ?case
  proof (rule SendMessage_cases [of Z "topic p (fst e)" "game_notification Z blk tmpl (fst e)" z])
    fix z1 assume z1: "SendMessage Z (topic p (fst e)) (game_notification Z blk tmpl (fst e)) z = (Inr (), z1)"
      "zp_sent z1 = zp_sent z @ [(topic p (fst e), json_write Z (game_notification Z blk tmpl (fst e)),
         fst (seq_loop 4 (next_seq (topic p (fst e)) z)))]"
      "\<And>c. next_seq c z1 = (if c = topic p (fst e) then next_seq (topic p (fst e)) z + 1 else next_seq c z)"
      "zp_games z1 = zp_games z" "zp_outcomes z1 = tl (zp_outcomes z)"
    have "notifications Z p blk tmpl z1 es = notifications Z p blk tmpl z es"
      unfolding notifications_def using Cons.prems(2) z1(3) by (intro map_cong) (auto simp: image_iff)
    moreover obtain z' where "forM es (send_game Z p tmpl ms as) z1 = (Inr (), z')"
        "zp_sent z' = zp_sent z1 @ notifications Z p blk tmpl z1 es" "zp_games z' = zp_games z1"
      using Cons.IH [of z1] Cons.prems z1(5) by auto
    ultimately show ?thesis using first z1 by (auto simp: notifications_def)
  next
    fix z1 assume "zp_outcomes z \<noteq> []"
    with Cons.prems(4) show ?thesis by simp
  qed
qed

lemma block_template_ok: "meta_ok (blk_metadata blk) \<Longrightarrow> \<exists>t. block_template blk tok = Inr t"
  using InitFromMetadata_ok by (fastforce simp: block_template_def Let_def)

lemma SendBlock_content:
  assumes ok: "games_ok z" and snd: "block_sendable Z blk" and up: "zp_outcomes z = []"
  shows "\<exists>tmpl z'. block_template blk tok = Inr tmpl \<and> SendBlock Z p blk tok z = (Inr (), z') \<and>
     zp_sent z' = zp_sent z @ notifications Z p blk tmpl z (zp_games z) \<and> zp_games z' = zp_games z"
proof -
  obtain tmpl where tmpl: "block_template blk tok = Inr tmpl"
    using block_template_ok snd by (auto simp: block_sendable_def)
  obtain empty where empty: "empty_arrays (zp_games z) = Inr empty" "arrays_for (zp_games z) (\<lambda>_. []) empty"
    using empty_arrays_ok [OF ok] by blast
  obtain ms as where m: "block_moves Z (zp_games z) (blk_moves blk) empty empty = Inr (ms, as)"
      "arrays_for (zp_games z) (\<lambda>g. game_moves Z g (blk_moves blk)) ms"
      "arrays_for (zp_games z) (\<lambda>g. game_admin Z g (blk_moves blk)) as"
    using block_moves_ok [OF _ empty(2) empty(2), of Z "blk_moves blk"] snd by (auto simp: block_sendable_def)
  have "distinct (map fst (zp_games z))" "\<forall>e\<in>set (zp_games z). 0 < snd e"
    using ok smap_ok_distinct by (auto simp: games_ok_def list_all_iff)
  then obtain z' where "forM (zp_games z) (send_game Z p tmpl ms as) z = (Inr (), z')"
      "zp_sent z' = zp_sent z @ notifications Z p blk tmpl z (zp_games z)" "zp_games z' = zp_games z"
    using send_games_ok [OF m(2,3) subset_refl _ _ up] by blast
  with tmpl empty(1) m(1) show ?thesis by (simp add: SendBlock_def)
qed

end
