(* ===== verification/Pending.thy ===== *)
theory Pending
  imports ZmqContent "HOL-Library.Sublist"
begin

text \<open>
  \<^verbatim>\<open>src/private/pending.hpp\<close> and \<^verbatim>\<open>src/pending.cpp\<close>: pending moves are held back until the
  chain state has reached the tip that was announced before them.  The operations work on the
  tips, the queue and the publisher.  An abstract machine that only records which batches go out
  is refined by them, and its traces deliver every batch at most once and in order.
\<close>

record PendingManager =
  pd_chainstateTip :: string
  pd_notificationTip :: string
  pd_queue :: "MoveData list list"
  pd_zmq :: ZmqPub

definition PendingManager_new :: "ZmqPub \<Rightarrow> PendingManager" where
  "PendingManager_new z =
     \<lparr>pd_chainstateTip = '''', pd_notificationTip = '''', pd_queue = [], pd_zmq = z\<rparr>"

definition on_zmq :: "(ZmqPub, 'a) prog \<Rightarrow> (PendingManager, 'a) prog" where
  "on_zmq m = zoomM pd_zmq (\<lambda>z s. s\<lparr>pd_zmq := z\<rparr>) m"

definition Pending_TipChanged :: "string \<Rightarrow> (PendingManager, unit) prog" where
  "Pending_TipChanged tip =
     thenM (modifyM (\<lambda>s. s\<lparr>pd_queue := [], pd_notificationTip := tip\<rparr>)) (CHECK (tip \<noteq> []))"

definition Pending_PendingMoves :: "zmq_lib \<Rightarrow> MoveData list \<Rightarrow> (PendingManager, unit) prog" where
  "Pending_PendingMoves Z moves =
     bindM (getM (\<lambda>s. s)) (\<lambda>s.
       if pd_chainstateTip s = [] then ret ()
       else if pd_chainstateTip s = pd_notificationTip s then
         thenM (CHECK (pd_queue s = [])) (on_zmq (SendPendingMoves Z moves))
       else modifyM (\<lambda>s. s\<lparr>pd_queue := pd_queue s @ [moves]\<rparr>))"

definition ChainstateTipChanged :: "zmq_lib \<Rightarrow> string \<Rightarrow> (PendingManager, unit) prog" where
  "ChainstateTipChanged Z newTip =
     thenM (modifyM (\<lambda>s. s\<lparr>pd_chainstateTip := newTip\<rparr>))
    (thenM (CHECK (newTip \<noteq> []))
    (bindM (getM (\<lambda>s. s)) (\<lambda>s.
       if pd_chainstateTip s = pd_notificationTip s then
         thenM (forM (pd_queue s) (\<lambda>mv. on_zmq (SendPendingMoves Z mv)))
           (modifyM (\<lambda>s. s\<lparr>pd_queue := []\<rparr>))
       else ret ())))"

subsection \<open>The invariant\<close>

text \<open>Once the tips agree nothing is queued: the \<^verbatim>\<open>CHECK\<close> of \<^verbatim>\<open>PendingMoves\<close> relies on it.\<close>

definition pending_inv :: "PendingManager \<Rightarrow> bool" where
  "pending_inv s \<longleftrightarrow>
     (pd_chainstateTip s \<noteq> [] \<and> pd_chainstateTip s = pd_notificationTip s \<longrightarrow> pd_queue s = [])"

datatype pending_event = EvTip string | EvMoves "MoveData list" | EvChain string

fun pending_step :: "zmq_lib \<Rightarrow> pending_event \<Rightarrow> (PendingManager, unit) prog" where
  "pending_step Z (EvTip t) = Pending_TipChanged t"
| "pending_step Z (EvMoves m) = Pending_PendingMoves Z m"
| "pending_step Z (EvChain t) = ChainstateTipChanged Z t"

lemma on_zmq_other:
  "pd_queue (snd (on_zmq m s)) = pd_queue s" "pd_chainstateTip (snd (on_zmq m s)) = pd_chainstateTip s"
  "pd_notificationTip (snd (on_zmq m s)) = pd_notificationTip s"
  by (simp_all add: on_zmq_def zoomM_simp)

lemma preserves_on_zmq:
  "preserves pd_queue (on_zmq m)" "preserves pd_chainstateTip (on_zmq m)" "preserves pd_notificationTip (on_zmq m)"
  by (simp_all add: preserves_def on_zmq_other)

lemma pending_inv_new [simp]: "pending_inv (PendingManager_new z)"
  by (simp add: pending_inv_def PendingManager_new_def)

lemma pending_step_inv [inv_intros]:
  assumes inv: "pending_inv s" and run: "pending_step Z ev s = (Inr (), s')"
  shows "pending_inv s'"
proof (cases ev)
  case (EvTip t)
  then show ?thesis using run by (auto simp: Pending_TipChanged_def pending_inv_def prog_Inr)
next
  case (EvMoves m)
  show ?thesis
  proof (cases "pd_chainstateTip s = [] \<or> pd_chainstateTip s \<noteq> pd_notificationTip s")
    case True
    with EvMoves run inv show ?thesis
      by (auto simp: Pending_PendingMoves_def pending_inv_def split: if_splits)
  next
    case False
    then have "on_zmq (SendPendingMoves Z m) s = (Inr (), s')" "pd_queue s = []"
      using EvMoves run inv by (auto simp: Pending_PendingMoves_def pending_inv_def prog_Inr)
    then have "pd_queue s' = []" using on_zmq_other(1) [of "SendPendingMoves Z m" s] by simp
    then show ?thesis by (simp add: pending_inv_def)
  qed
next
  case (EvChain t)
  then show ?thesis using run by (auto simp: ChainstateTipChanged_def pending_inv_def prog_Inr split: if_splits)
qed

text \<open>The invariant makes the \<^verbatim>\<open>CHECK\<close> succeed: moves are ignored, sent at once or queued.\<close>

lemma PendingMoves_cases:
  assumes "pending_inv s"
  shows "Pending_PendingMoves Z moves s =
     (if pd_chainstateTip s = [] then (Inr (), s)
      else if pd_chainstateTip s = pd_notificationTip s then on_zmq (SendPendingMoves Z moves) s
      else (Inr (), s\<lparr>pd_queue := pd_queue s @ [moves]\<rparr>))"
  using assms by (simp add: Pending_PendingMoves_def pending_inv_def)

subsection \<open>The abstract machine\<close>

record pending_spec =
  ps_chain :: string
  ps_notified :: string
  ps_waiting :: "MoveData list list"
  ps_out :: "MoveData list list"

fun spec_step :: "pending_event \<Rightarrow> pending_spec \<Rightarrow> pending_spec" where
  "spec_step (EvTip t) a = a\<lparr>ps_waiting := [], ps_notified := t\<rparr>"
| "spec_step (EvMoves m) a =
     (if ps_chain a = [] then a
      else if ps_chain a = ps_notified a then a\<lparr>ps_out := ps_out a @ [m]\<rparr>
      else a\<lparr>ps_waiting := ps_waiting a @ [m]\<rparr>)"
| "spec_step (EvChain t) a =
     (if t = ps_notified a then a\<lparr>ps_chain := t, ps_out := ps_out a @ ps_waiting a, ps_waiting := []\<rparr>
      else a\<lparr>ps_chain := t\<rparr>)"

definition spec_new :: pending_spec where
  "spec_new = \<lparr>ps_chain = '''', ps_notified = '''', ps_waiting = [], ps_out = []\<rparr>"

definition send_all :: "zmq_lib \<Rightarrow> MoveData list list \<Rightarrow> (ZmqPub, unit) prog" where
  "send_all Z batches = forM batches (SendPendingMoves Z)"

text \<open>The refinement relation: the publisher is where sending exactly the batches of the abstract
  machine, in order, takes it.\<close>

definition pending_rel :: "zmq_lib \<Rightarrow> ZmqPub \<Rightarrow> PendingManager \<Rightarrow> pending_spec \<Rightarrow> bool" where
  "pending_rel Z z0 s a \<longleftrightarrow>
     pd_chainstateTip s = ps_chain a \<and> pd_notificationTip s = ps_notified a \<and>
     pd_queue s = ps_waiting a \<and> send_all Z (ps_out a) z0 = (Inr (), pd_zmq s)"

lemma forM_on_zmq: "forM qs (\<lambda>mv. on_zmq (f mv)) = on_zmq (forM qs f)"
  by (induction qs)
    (auto simp: fun_eq_iff on_zmq_def zoomM_def thenM_def bindM_def split: prod.splits sum.splits)

lemma on_zmq_Inr: "on_zmq m s = (Inr u, s') \<Longrightarrow> m (pd_zmq s) = (Inr u, pd_zmq s') \<and> s' = s\<lparr>pd_zmq := pd_zmq s'\<rparr>"
  by (auto simp: on_zmq_def zoomM_def split: prod.splits)

lemma send_all_append:
  "send_all Z xs z = (Inr (), z') \<Longrightarrow> send_all Z ys z' = (Inr (), z'') \<Longrightarrow> send_all Z (xs @ ys) z = (Inr (), z'')"
  by (simp add: send_all_def forM_append)

lemma pending_refines:
  assumes rel: "pending_rel Z z0 s a" and inv: "pending_inv s" and run: "pending_step Z ev s = (Inr (), s')"
  shows "pending_rel Z z0 s' (spec_step ev a)"
proof (cases ev)
  case (EvTip t)
  then show ?thesis using run rel by (auto simp: Pending_TipChanged_def pending_rel_def prog_Inr)
next
  case (EvMoves m)
  show ?thesis
  proof (cases "pd_chainstateTip s \<noteq> [] \<and> pd_chainstateTip s = pd_notificationTip s")
    case True
    then have "on_zmq (SendPendingMoves Z m) s = (Inr (), s')"
      using EvMoves run PendingMoves_cases [OF inv, of Z m] by auto
    from on_zmq_Inr [OF this] have z: "SendPendingMoves Z m (pd_zmq s) = (Inr (), pd_zmq s')" "s' = s\<lparr>pd_zmq := pd_zmq s'\<rparr>"
      by auto
    then have "send_all Z [m] (pd_zmq s) = (Inr (), pd_zmq s')" by (simp add: send_all_def)
    moreover have "pd_chainstateTip s' = pd_chainstateTip s" "pd_notificationTip s' = pd_notificationTip s"
        "pd_queue s' = pd_queue s"
      using arg_cong [OF z(2), of pd_chainstateTip] arg_cong [OF z(2), of pd_notificationTip]
        arg_cong [OF z(2), of pd_queue] by simp_all
    ultimately show ?thesis using EvMoves True rel by (auto simp: pending_rel_def send_all_append)
  next
    case False
    then show ?thesis
      using EvMoves run rel PendingMoves_cases [OF inv] by (auto simp: pending_rel_def split: if_splits)
  qed
next
  case (EvChain t)
  let ?s = "s\<lparr>pd_chainstateTip := t\<rparr>"
  show ?thesis
  proof (cases "t = pd_notificationTip s")
    case True
    then obtain s1 where s1: "on_zmq (forM (pd_queue s) (SendPendingMoves Z)) ?s = (Inr (), s1)" "s' = s1\<lparr>pd_queue := []\<rparr>"
      using EvChain run by (auto simp: ChainstateTipChanged_def prog_Inr forM_on_zmq)
    from on_zmq_Inr [OF s1(1)]
    have z: "send_all Z (pd_queue s) (pd_zmq s) = (Inr (), pd_zmq s1)" "s1 = ?s\<lparr>pd_zmq := pd_zmq s1\<rparr>"
      by (auto simp: send_all_def)
    have "pd_chainstateTip s1 = t" "pd_notificationTip s1 = pd_notificationTip s"
      using arg_cong [OF z(2), of pd_chainstateTip] arg_cong [OF z(2), of pd_notificationTip] by simp_all
    with z(1) True EvChain rel s1(2) show ?thesis by (auto simp: pending_rel_def intro: send_all_append)
  next
    case False
    then show ?thesis using EvChain run rel by (auto simp: ChainstateTipChanged_def pending_rel_def prog_Inr)
  qed
qed

subsection \<open>Traces\<close>

definition batches :: "pending_event list \<Rightarrow> MoveData list list" where
  "batches evs = concat (map (\<lambda>ev. case ev of EvMoves m \<Rightarrow> [m] | _ \<Rightarrow> []) evs)"

definition run_pending :: "zmq_lib \<Rightarrow> pending_event list \<Rightarrow> (PendingManager, unit) prog" where
  "run_pending Z evs = forM evs (pending_step Z)"

lemma batches_snoc: "batches (evs @ [ev]) = batches evs @ (case ev of EvMoves m \<Rightarrow> [m] | _ \<Rightarrow> [])"
  by (simp add: batches_def)

definition spec_state :: "pending_event list \<Rightarrow> pending_spec" where
  "spec_state evs = fold spec_step evs spec_new"

lemma spec_state_snoc: "spec_state (evs @ [ev]) = spec_step ev (spec_state evs)"
  by (simp add: spec_state_def)

lemma spec_none_waiting:
  "ps_chain (spec_state evs) \<noteq> [] \<Longrightarrow> ps_chain (spec_state evs) = ps_notified (spec_state evs) \<Longrightarrow>
     ps_waiting (spec_state evs) = []"
proof (induction evs rule: rev_induct)
  case Nil
  then show ?case by (simp add: spec_state_def spec_new_def)
next
  case (snoc ev evs)
  then show ?case by (cases ev) (auto simp: spec_state_snoc split: if_splits)
qed

text \<open>What has gone out and what still waits is a subsequence of what came in: nothing is made up,
  repeated or reordered.\<close>

lemma spec_trace_subseq: "subseq (ps_out (spec_state evs) @ ps_waiting (spec_state evs)) (batches evs)"
proof (induction evs rule: rev_induct)
  case Nil
  show ?case by (simp add: spec_state_def spec_new_def batches_def)
next
  case (snoc ev evs)
  let ?a = "spec_state evs"
  show ?case
  proof (cases ev)
    case (EvTip t)
    have "subseq (ps_out ?a) (ps_out ?a @ ps_waiting ?a)" by (rule subseq_rev_drop_many) simp
    with snoc EvTip show ?thesis by (auto simp: batches_snoc spec_state_snoc intro: subseq_order.trans)
  next
    case (EvMoves m)
    have "subseq ((ps_out ?a @ ps_waiting ?a) @ [m]) (batches evs @ [m])" using snoc unfolding subseq_append .
    moreover have "subseq (ps_out ?a @ ps_waiting ?a) (batches evs @ [m])"
      using snoc by (rule subseq_rev_drop_many)
    ultimately show ?thesis
      using EvMoves spec_none_waiting [of evs] by (auto simp: batches_snoc spec_state_snoc)
  next
    case (EvChain t)
    with snoc show ?thesis by (simp add: batches_snoc spec_state_snoc)
  qed
qed

lemma run_pending_refines:
  assumes "run_pending Z evs (PendingManager_new z0) = (Inr (), s)"
  shows "pending_rel Z z0 s (spec_state evs) \<and> pending_inv s"
  using assms
proof (induction evs arbitrary: s rule: rev_induct)
  case Nil
  then show ?case
    by (auto simp: run_pending_def pending_rel_def PendingManager_new_def spec_state_def spec_new_def send_all_def
        pending_inv_def)
next
  case (snoc ev evs)
  then obtain s1 where s1: "run_pending Z evs (PendingManager_new z0) = (Inr (), s1)" "pending_step Z ev s1 = (Inr (), s)"
    by (auto simp: run_pending_def forM_append prog_Inr)
  from snoc.IH [OF s1(1)] pending_refines [of Z z0 s1 "spec_state evs" ev s] pending_step_inv [of s1 Z ev s] s1(2)
  show ?case by (simp add: spec_state_snoc)
qed

lemma run_pending_delivery:
  assumes "run_pending Z evs (PendingManager_new z0) = (Inr (), s)"
  shows "\<exists>out. send_all Z out z0 = (Inr (), pd_zmq s) \<and> subseq (out @ pd_queue s) (batches evs)"
  using run_pending_refines [OF assms] spec_trace_subseq [of evs]
  by (intro exI [of _ "ps_out (spec_state evs)"]) (simp add: pending_rel_def)

subsection \<open>An exception while the queue is sent\<close>

text \<open>When sending the queue throws, the queue is not cleared although the tips agree.  The next
  pending move then runs into the \<^verbatim>\<open>CHECK\<close>.\<close>

lemma failed_flush_state:
  assumes "ChainstateTipChanged Z newTip s = (Inl (Throw e), s')"
  shows "newTip \<noteq> []" "pd_chainstateTip s' = newTip" "pd_notificationTip s' = newTip" "pd_queue s' = pd_queue s"
    "pd_queue s \<noteq> []"
proof -
  let ?s = "s\<lparr>pd_chainstateTip := newTip\<rparr>"
  let ?loop = "forM (pd_queue s) (\<lambda>mv. on_zmq (SendPendingMoves Z mv))"
  have "newTip \<noteq> [] \<and> newTip = pd_notificationTip s \<and> ?loop ?s = (Inl (Throw e), s')"
    using assms by (auto simp: ChainstateTipChanged_def thenM_def bindM_def CHECK_def
        split: prod.splits sum.splits if_splits)
  then have n: "newTip \<noteq> []" "newTip = pd_notificationTip s" and l: "?loop ?s = (Inl (Throw e), s')" by auto
  have p: "preserves pd_queue ?loop" "preserves pd_chainstateTip ?loop" "preserves pd_notificationTip ?loop"
    by (auto intro: preserves_on_zmq)
  show "newTip \<noteq> []" "pd_chainstateTip s' = newTip" "pd_notificationTip s' = newTip" "pd_queue s' = pd_queue s"
    using n preservesD [OF p(1) l] preservesD [OF p(2) l] preservesD [OF p(3) l] by auto
  show "pd_queue s \<noteq> []" using l by auto
qed

lemma failed_flush_aborts:
  assumes "ChainstateTipChanged Z newTip s = (Inl (Throw e), s')"
  shows "Pending_PendingMoves Z moves s' = (Inl Abort, s')"
  using failed_flush_state [OF assms] by (simp add: Pending_PendingMoves_def)

end
