(* ===== verification/Controller.thy ===== *)
theory Controller
  imports SyncCatchUp Pending
begin

text \<open>
  \<^verbatim>\<open>src/controller.hpp\<close> and \<^verbatim>\<open>src/controller.cpp\<close>: the object that ties the parts together.
  Its \<^verbatim>\<open>RunData\<close> owns the chain state, the publisher and the pending manager and is the owner
  of the callbacks of the sync worker, so the state of the running controller is the state of
  the worker with \<open>RunData\<close> as the data of the owner.  The configuration, which does not change
  while the controller runs, is a record of its own.  The RPC methods return JSON values; a
  thrown \<^verbatim>\<open>JsonRpcException\<close> is the exception with its code.
\<close>

record Config =
  cf_zmqAddr :: string
  cf_rpcPort :: int
  cf_rpcListenLocally :: bool
  cf_trackedGames :: "string list"
  cf_pending :: bool
  cf_sanityChecks :: bool
  cf_maxReorgDepth :: int

record RunData =
  rd_pendings :: PendingManager
  rd_requests :: nat
  rd_cachedChain :: string
  rd_cachedVersion :: int

type_synonym 'b run = "('b, RunData) Sync"

definition on_pendings :: "(PendingManager, 'a) prog \<Rightarrow> ('b run, 'a) prog" where
  "on_pendings m = zoomM (\<lambda>s. rd_pendings (sy_owner s)) (\<lambda>p s. s\<lparr>sy_owner := (sy_owner s)\<lparr>rd_pendings := p\<rparr>\<rparr>) m"

definition run_zmq :: "(ZmqPub, 'a) prog \<Rightarrow> ('b run, 'a) prog" where
  "run_zmq m = on_pendings (on_zmq m)"

definition run_base :: "('b, 'a) prog \<Rightarrow> ('b run, 'a) prog" where
  "run_base m = sy_on_base m"

definition run_chain :: "(chainstate, 'a) prog \<Rightarrow> ('b run, 'a) prog" where
  "run_chain m = sy_on_chain m"

subsection \<open>PushZmqBlocks\<close>

text \<open>The result, the detached blocks and the queried attach blocks.\<close>

type_synonym push_result = "bool \<times> BlockData list \<times> BlockData list"

definition send_attaches :: "zmq_lib \<Rightarrow> string \<Rightarrow> BlockData list \<Rightarrow> ('b run, unit) prog" where
  "send_attaches Z tok bs = forM bs (\<lambda>b. run_zmq (SendBlockAttach Z b tok))"

definition send_detaches :: "zmq_lib \<Rightarrow> string \<Rightarrow> BlockData list \<Rightarrow> ('b run, unit) prog" where
  "send_detaches Z tok bs = forM bs (\<lambda>b. run_zmq (SendBlockDetach Z b tok))"

text \<open>\<^verbatim>\<open>std::min<unsigned> (num, d)\<close> for a 64-bit difference.\<close>

definition min_unsigned :: "nat \<Rightarrow> nat \<Rightarrow> nat" where
  "min_unsigned num d = min num (d mod (u32_max + 1))"

text \<open>The attach blocks handed over by the sync worker, from the fork point on.\<close>

fun attach_known :: "zmq_lib \<Rightarrow> string \<Rightarrow> nat \<Rightarrow> string \<Rightarrow> BlockData list \<Rightarrow> bool \<Rightarrow> ('b run, bool) prog" where
  "attach_known Z tok forkHeight forkPoint [] found = ret found"
| "attach_known Z tok forkHeight forkPoint (b # bs) found =
     thenM (CHECK (blk_height b = u64_add forkHeight 1 \<longrightarrow> blk_parent b = forkPoint))
    (thenM (if blk_height b > forkHeight then run_zmq (SendBlockAttach Z b tok) else ret ())
       (attach_known Z tok forkHeight forkPoint bs (found \<or> blk_height b = u64_add forkHeight 1)))"

text \<open>More detaches down to the block \<^verbatim>\<open>to\<close>.  Reading the last element of an empty answer of
  the base chain is undefined behaviour.\<close>

definition push_detach_to :: "zmq_lib \<Rightarrow> 'b BaseChain \<Rightarrow> nat \<Rightarrow> string \<Rightarrow> BlockData list \<Rightarrow> nat \<Rightarrow> string \<Rightarrow> int \<Rightarrow>
    ('b run, push_result) prog" where
  "push_detach_to Z bc num tok detach forkHeight forkPoint toHeight =
     (let num' = min_unsigned num (u64_sub forkHeight (u64_of_int toHeight)) in
      bindM (run_base (bc_GetBlockRange bc (u64_add (u64_sub forkHeight num') 1) num')) (\<lambda>toDetach.
        if toDetach = [] then failM Undefined
        else if blk_hash (last toDetach) \<noteq> forkPoint then ret (False, detach, [])
        else thenM (send_detaches Z tok (rev toDetach)) (ret (True, detach @ rev toDetach, []))))"

text \<open>The attach blocks that are queried from the base chain.\<close>

definition push_queried :: "zmq_lib \<Rightarrow> 'b BaseChain \<Rightarrow> nat \<Rightarrow> string \<Rightarrow> BlockData list \<Rightarrow> int \<Rightarrow> nat \<Rightarrow> string \<Rightarrow> int \<Rightarrow>
    ('b run, push_result) prog" where
  "push_queried Z bc num tok detach pruningDepth forkHeight forkPoint toHeight =
     bindM (if toHeight = -1 then run_chain (getM (\<lambda>c. u64_of_int (GetTipHeight c)))
            else ret (u64_of_int toHeight)) (\<lambda>targetHeight.
     thenM (CHECK (targetHeight \<ge> forkHeight))
    (bindM (run_base (bc_GetBlockRange bc (u64_add forkHeight 1)
              (min_unsigned num (targetHeight - forkHeight)))) (\<lambda>queried.
       if queried = [] then ret (True, detach, [])
       else if blk_parent (hd queried) \<noteq> forkPoint then ret (False, detach, [])
       else
         bindM (if blk_height (last queried) \<ge> u64_of_int pruningDepth
                then run_chain (GetHeightForHash (blk_hash (last queried))) else ret (Some (blk_height (last queried)))) (\<lambda>known.
           case known of
             None \<Rightarrow> ret (False, detach, [])
           | Some h \<Rightarrow>
               thenM (CHECK (h = blk_height (last queried)))
              (thenM (send_attaches Z tok queried) (ret (True, detach, queried)))))))"

text \<open>From the fork point on: towards an explicit block, with known attach blocks, or with queried
  ones.\<close>

definition push_from_fork :: "zmq_lib \<Rightarrow> 'b BaseChain \<Rightarrow> string \<Rightarrow> BlockData list \<Rightarrow> nat \<Rightarrow> string \<Rightarrow>
    BlockData list \<Rightarrow> int \<Rightarrow> nat \<Rightarrow> string \<Rightarrow> ('b run, push_result) prog" where
  "push_from_fork Z bc to attaches num tok detach pruningDepth forkHeight forkPoint =
     bindM (if to = [] then ret (-1) else run_base (bc_GetMainchainHeight bc to)) (\<lambda>toHeight.
       if to \<noteq> [] \<and> toHeight = -1 then ret (False, detach, [])
       else if to \<noteq> [] \<and> toHeight = int64_of forkHeight then ret (False, detach, [])
       else if to \<noteq> [] \<and> toHeight < int64_of forkHeight then
         push_detach_to Z bc num tok detach forkHeight forkPoint toHeight
       else
         thenM (CHECK (to \<noteq> [] \<longrightarrow> u64_of_int toHeight > forkHeight))
           (if attaches \<noteq> [] then
              thenM (CHECK (toHeight = -1))
                (if detach \<noteq> [] \<and> blk_hash (last attaches) = blk_parent (last detach) then ret (True, detach, [])
                 else
                   bindM (attach_known Z tok forkHeight forkPoint attaches False) (\<lambda>found.
                   thenM (CHECK found) (ret (True, detach, []))))
            else push_queried Z bc num tok detach pruningDepth forkHeight forkPoint toHeight))"

text \<open>The rest of the method once it is known whether the block \<^verbatim>\<open>from\<close> is stored locally
  (\<open>found\<close>, with the branch to detach) and which main-chain height it has otherwise.\<close>

definition push_from_branch :: "zmq_lib \<Rightarrow> 'b BaseChain \<Rightarrow> string \<Rightarrow> string \<Rightarrow> BlockData list \<Rightarrow> nat \<Rightarrow> string \<Rightarrow>
    int \<Rightarrow> bool \<Rightarrow> BlockData list \<Rightarrow> int \<Rightarrow> ('b run, push_result) prog" where
  "push_from_branch Z bc from to attaches num reqtoken pruningDepth found detach mainchainHeight =
     (if \<not> found \<and> mainchainHeight = -1 then ret (False, detach, [])
      else if \<not> found \<and> mainchainHeight \<ge> pruningDepth then ret (False, detach, [])
      else
        thenM (send_detaches Z reqtoken detach)
       (bindM (if mainchainHeight \<noteq> -1 then ret (u64_of_int mainchainHeight, from)
               else if detach = [] then
                 bindM (run_chain (GetHeightForHash from)) (\<lambda>h.
                   case h of None \<Rightarrow> failM Abort | Some h \<Rightarrow> ret (h, from))
               else ret (u64_sub (blk_height (last detach)) 1, blk_parent (last detach))) (\<lambda>(forkHeight, forkPoint).
          push_from_fork Z bc to attaches num reqtoken detach pruningDepth forkHeight forkPoint)))"

definition PushZmqBlocks :: "codec \<Rightarrow> zmq_lib \<Rightarrow> 'b BaseChain \<Rightarrow> string \<Rightarrow> string \<Rightarrow> BlockData list \<Rightarrow> nat \<Rightarrow> string \<Rightarrow>
    ('b run, push_result) prog" where
  "PushZmqBlocks L Z bc from to attaches num reqtoken =
     thenM (CHECK (to = [] \<or> attaches = []))
       (if from = [] then thenM (send_attaches Z reqtoken attaches) (ret (True, [], []))
        else
          bindM (run_chain (getM GetLowestUnprunedHeight)) (\<lambda>pruningDepth.
          thenM (CHECK (pruningDepth \<ge> 0))
         (bindM (run_chain (GetForkBranch L from)) (\<lambda>(found, detach).
          bindM (if found then ret (-1) else run_base (bc_GetMainchainHeight bc from))
            (push_from_branch Z bc from to attaches num reqtoken pruningDepth found detach)))))"

subsection \<open>Callbacks\<close>

definition Run_TipChanged :: "string \<Rightarrow> ('b run, unit) prog" where
  "Run_TipChanged tip = on_pendings (Pending_TipChanged tip)"

definition Run_PendingMoves :: "zmq_lib \<Rightarrow> MoveData list \<Rightarrow> ('b run, unit) prog" where
  "Run_PendingMoves Z moves = on_pendings (Pending_PendingMoves Z moves)"

text \<open>\<^verbatim>\<open>parent.maxReorgDepth + 1\<close> is computed as an \<^verbatim>\<open>int\<close>: its overflow is undefined.\<close>

definition TipUpdatedFrom :: "codec \<Rightarrow> zmq_lib \<Rightarrow> 'b BaseChain \<Rightarrow> Config \<Rightarrow> string \<Rightarrow> BlockData list \<Rightarrow> ('b run, unit) prog" where
  "TipUpdatedFrom L Z bc C oldTip attaches =
     thenM (CHECK (attaches \<noteq> []))
    (thenM (catchM (thenM (PushZmqBlocks L Z bc oldTip '''' attaches 0 '''') (ret ())) (\<lambda>_. ret ()))
    (thenM (on_pendings (ChainstateTipChanged Z (blk_hash (last attaches))))
    (thenM (if cf_sanityChecks C then run_chain (SanityCheck L) else ret ())
    (thenM (CHECK (cf_maxReorgDepth C \<ge> 0))
    (bindM (run_chain (getM GetTipHeight)) (\<lambda>tipHeight.
       if cf_maxReorgDepth C + 1 > 2147483647 then failM Undefined
       else if tipHeight > cf_maxReorgDepth C + 1 then
         run_chain (Prune (u64_of_int (tipHeight - cf_maxReorgDepth C - 1)))
       else ret ()))))))"

end
