(* ===== verification/Rpc.thy ===== *)
theory Rpc
  imports Controller
begin

text \<open>
  The RPC methods of \<^verbatim>\<open>Controller::RpcServer\<close> and the life cycle of the controller
  (\<^verbatim>\<open>src/controller.cpp\<close>).  The decoder for base64 is a parameter; the check of the parameter
  types of a call is done by the RPC library before a method runs.
\<close>

subsection \<open>Errors of the RPC interface\<close>

abbreviation ERROR_RPC_INTERNAL_ERROR :: int where "ERROR_RPC_INTERNAL_ERROR \<equiv> -32603"
abbreviation ERROR_RPC_INVALID_PARAMS :: int where "ERROR_RPC_INVALID_PARAMS \<equiv> -32602"

text \<open>\<open>what\<close> is the method \<^verbatim>\<open>std::exception::what\<close> of the thrown exception.\<close>

definition PropagateBaseChainError :: "(exn \<Rightarrow> string) \<Rightarrow> ('s, 'a) prog \<Rightarrow> ('s, 'a) prog" where
  "PropagateBaseChainError what m =
     catchM m (\<lambda>e. failM (Throw (JsonRpcException ERROR_RPC_INTERNAL_ERROR (''Error with base chain: '' @ what e))))"

definition rpc_throw :: "int \<Rightarrow> string \<Rightarrow> ('s, 'a) prog" where
  "rpc_throw code msg = failM (Throw (JsonRpcException code msg))"

subsection \<open>The methods\<close>

definition getzmqnotifications :: "Config \<Rightarrow> json" where
  "getzmqnotifications C =
     (let cur = json_set ''address'' (JString (cf_zmqAddr C))
                  (json_set ''type'' (JString ''pubgameblocks'') (JObject []));
          res = json_append cur (JArray []) in
      if cf_pending C then json_append (json_set ''type'' (JString ''pubgamepending'') cur) res else res)"

definition trackedgames :: "string \<Rightarrow> string \<Rightarrow> ('b run, unit) prog" where
  "trackedgames cmd game =
     (if cmd = ''add'' then run_zmq (TrackGame game)
      else if cmd = ''remove'' then run_zmq (UntrackGame game)
      else ret ())"

definition upd_owner :: "(RunData \<Rightarrow> RunData) \<Rightarrow> ('b run, unit) prog" where
  "upd_owner f = modifyM (\<lambda>s. s\<lparr>sy_owner := f (sy_owner s)\<rparr>)"

text \<open>The version is an unsigned value that is stored as \<^verbatim>\<open>int64_t\<close>.\<close>

definition getnetworkinfo :: "(exn \<Rightarrow> string) \<Rightarrow> 'b BaseChain \<Rightarrow> ('b run, json) prog" where
  "getnetworkinfo what bc =
     bindM (getM (\<lambda>s. rd_cachedVersion (sy_owner s))) (\<lambda>v.
     thenM (if v = -1 then
              bindM (PropagateBaseChainError what (run_base (bc_GetVersion bc))) (\<lambda>v.
                upd_owner (\<lambda>d. d\<lparr>rd_cachedVersion := int64_of v\<rparr>))
            else ret ())
    (bindM (getM (\<lambda>s. rd_cachedVersion (sy_owner s))) (\<lambda>v.
     thenM (CHECK (v \<ge> -1)) (ret (json_set ''version'' (JInt v) (JObject []))))))"

definition getblockchaininfo :: "(exn \<Rightarrow> string) \<Rightarrow> 'b BaseChain \<Rightarrow> ('b run, json) prog" where
  "getblockchaininfo what bc =
     bindM (getM (\<lambda>s. rd_cachedChain (sy_owner s))) (\<lambda>c.
     thenM (if c = [] then
              bindM (PropagateBaseChainError what (run_base (bc_GetChain bc))) (\<lambda>c.
                upd_owner (\<lambda>d. d\<lparr>rd_cachedChain := c\<rparr>))
            else ret ())
    (bindM (getM (\<lambda>s. rd_cachedChain (sy_owner s))) (\<lambda>c.
     thenM (CHECK (c \<noteq> []))
    (bindM (run_chain (getM GetTipHeight)) (\<lambda>tipHeight.
       let res = json_set ''chain'' (JString c) (JObject []) in
       if tipHeight = -1 then
         ret (json_set ''bestblockhash'' (JString '''') (json_set ''blocks'' (JInt (-1)) res))
       else
         thenM (CHECK (tipHeight \<ge> 0))
        (bindM (run_chain (GetHashForHeight (u64_of_int tipHeight))) (\<lambda>h.
           case h of
             None \<Rightarrow> failM Abort
           | Some tipHash \<Rightarrow>
               ret (json_set ''bestblockhash'' (JString tipHash) (json_set ''blocks'' (JInt tipHeight) res)))))))))"

definition getblockhash :: "(exn \<Rightarrow> string) \<Rightarrow> 'b BaseChain \<Rightarrow> int \<Rightarrow> ('b run, string) prog" where
  "getblockhash what bc height =
     bindM (run_chain (GetHashForHeight (u64_of_int height))) (\<lambda>res.
       case res of
         Some hash \<Rightarrow> ret hash
       | None \<Rightarrow>
           bindM (run_chain (getM GetLowestUnprunedHeight)) (\<lambda>low.
             if height \<ge> low then rpc_throw (-8) ''block height out of range''
             else
               bindM (PropagateBaseChainError what (run_base (bc_GetBlockRange bc (u64_of_int height) 1))) (\<lambda>bs.
                 if bs = [] then rpc_throw (-8) ''block height out of range''
                 else thenM (CHECK (length bs = 1)) (ret (blk_hash (hd bs))))))"

definition getblockheader :: "(exn \<Rightarrow> string) \<Rightarrow> 'b BaseChain \<Rightarrow> string \<Rightarrow> ('b run, json) prog" where
  "getblockheader what bc hash =
     (let res = json_set ''hash'' (JString hash) (JObject []) in
      bindM (run_chain (GetHeightForHash hash)) (\<lambda>h.
        case h of
          Some height \<Rightarrow> ret (json_set ''height'' (JInt (int64_of height)) res)
        | None \<Rightarrow>
            bindM (PropagateBaseChainError what (run_base (bc_GetMainchainHeight bc hash))) (\<lambda>baseHeight.
              if baseHeight \<noteq> -1 then
                thenM (CHECK (baseHeight \<ge> 0)) (ret (json_set ''height'' (JInt baseHeight) res))
              else rpc_throw (-5) ''block not found'')))"

text \<open>The three-argument form; \<^verbatim>\<open>requests\<close> is an \<^verbatim>\<open>unsigned\<close> counter.\<close>

definition sendupdates_result :: "string \<Rightarrow> string \<Rightarrow> push_result \<Rightarrow> json" where
  "sendupdates_result reqtoken from res =
     (case res of (ok, detaches, attaches) \<Rightarrow>
        let toBlock = (if attaches \<noteq> [] then blk_hash (last attaches)
                       else if detaches \<noteq> [] then blk_parent (last detaches) else from);
            steps = json_set ''attach'' (JInt (int (length attaches)))
                      (json_set ''detach'' (JInt (int (length detaches))) (JObject [])) in
        json_set ''error'' (JBool (\<not> ok)) (json_set ''steps'' steps
          (json_set ''toblock'' (JString toBlock) (json_set ''reqtoken'' (JString reqtoken) (JObject [])))))"

definition game_sendupdates3 :: "(exn \<Rightarrow> string) \<Rightarrow> codec \<Rightarrow> zmq_lib \<Rightarrow> 'b BaseChain \<Rightarrow> int \<Rightarrow> string \<Rightarrow> string \<Rightarrow> string \<Rightarrow> ('b run, json) prog" where
  "game_sendupdates3 what L Z bc block_range from gameId to =
     thenM (upd_owner (\<lambda>d. d\<lparr>rd_requests := (rd_requests d + 1) mod (u32_max + 1)\<rparr>))
    (bindM (getM (\<lambda>s. ''request_'' @ show_nat (rd_requests (sy_owner s)))) (\<lambda>reqtoken.
     bindM (PropagateBaseChainError what (PushZmqBlocks L Z bc from to [] (u32_of_int block_range) reqtoken)) (\<lambda>res.
     ret (sendupdates_result reqtoken from res))))"

definition game_sendupdates2 :: "(exn \<Rightarrow> string) \<Rightarrow> codec \<Rightarrow> zmq_lib \<Rightarrow> 'b BaseChain \<Rightarrow> int \<Rightarrow> string \<Rightarrow> string \<Rightarrow> ('b run, json) prog" where
  "game_sendupdates2 what L Z bc block_range from gameId = game_sendupdates3 what L Z bc block_range from gameId ''''"

text \<open>The dispatch of a call of \<^verbatim>\<open>game_sendupdates\<close>: the optional argument is filled in and the
  parameters are validated.  The validation of the RPC library, the unpacking of the three
  parameters in the generated stub and the dispatch of every other method are parameters.\<close>

record 'b rpc_stub =
  st_ValdiateParameters :: "json \<Rightarrow> bool"
  st_game_sendupdates3I :: "json \<Rightarrow> string \<times> string \<times> string"
  st_HandleMethodCall :: "string \<Rightarrow> json \<Rightarrow> ('b run, json) prog"

definition fix_input :: "json \<Rightarrow> json" where
  "fix_input input =
     (if isObject input \<and> \<not> isMember input ''toblock'' then json_set ''toblock'' (JString '''') input else input)"

definition HandleMethodCall :: "(exn \<Rightarrow> string) \<Rightarrow> codec \<Rightarrow> zmq_lib \<Rightarrow> 'b BaseChain \<Rightarrow> int \<Rightarrow> 'b rpc_stub \<Rightarrow>
    string \<Rightarrow> json \<Rightarrow> ('b run, json) prog" where
  "HandleMethodCall what L Z bc block_range stub proc input =
     (if proc = ''game_sendupdates'' then
        (let fixedInput = fix_input input in
         if \<not> st_ValdiateParameters stub fixedInput
         then rpc_throw ERROR_RPC_INVALID_PARAMS ''invalid parameters for game_sendupdates''
         else (case st_game_sendupdates3I stub fixedInput of (from, gameId, to) \<Rightarrow>
                 game_sendupdates3 what L Z bc block_range from gameId to))
      else st_HandleMethodCall stub proc input)"

text \<open>The overload without arguments is never reached.\<close>

definition game_sendupdates :: "('b run, json) prog" where
  "game_sendupdates = failM Abort"

definition verifymessage :: "(exn \<Rightarrow> string) \<Rightarrow> (string \<Rightarrow> string option) \<Rightarrow> 'b BaseChain \<Rightarrow> string \<Rightarrow> string \<Rightarrow> string \<Rightarrow> ('b run, json) prog" where
  "verifymessage what DecodeBase64 bc addr msg signature =
     (case DecodeBase64 signature of
        None \<Rightarrow> rpc_throw ERROR_RPC_INVALID_PARAMS ''signature is not base64-encoded''
      | Some rawSgn \<Rightarrow>
          bindM (PropagateBaseChainError what (run_base (bc_VerifyMessage bc msg rawSgn))) (\<lambda>res.
            case res of
              None \<Rightarrow> if addr \<noteq> [] then ret (JBool False) else ret (json_set ''valid'' (JBool False) (JObject []))
            | Some signerAddr \<Rightarrow>
                if addr \<noteq> [] then ret (JBool (signerAddr = addr))
                else ret (json_set ''address'' (JString signerAddr) (json_set ''valid'' (JBool True) (JObject [])))))"

definition getrawmempool :: "(exn \<Rightarrow> string) \<Rightarrow> 'b BaseChain \<Rightarrow> ('b run, json) prog" where
  "getrawmempool what bc =
     bindM (PropagateBaseChainError what (run_base (bc_GetMempool bc))) (\<lambda>mempool.
     ret (fold (\<lambda>txid res. json_append (JString txid) res) mempool (JArray [])))"

subsection \<open>The life cycle\<close>

text \<open>\<open>ct_running\<close> is the pointer to the run data.  What the run data sets up outside of the state of the
  worker is kept here: whether the RPC server listens, whether the callbacks of the base chain and of
  the worker lead to the run data, and whether there is a worker.\<close>

record Controller =
  ct_config :: Config
  ct_running :: bool
  ct_shouldStop :: bool
  ct_listening :: bool
  ct_baseCallbacks :: bool
  ct_syncCallbacks :: bool
  ct_sync :: bool

definition Controller_new :: Controller where
  "Controller_new =
     \<lparr>ct_config = \<lparr>cf_zmqAddr = '''', cf_rpcPort = -1, cf_rpcListenLocally = False, cf_trackedGames = [],
        cf_pending = False, cf_sanityChecks = False, cf_maxReorgDepth = -1\<rparr>,
      ct_running = False, ct_shouldStop = False, ct_listening = False, ct_baseCallbacks = False,
      ct_syncCallbacks = False, ct_sync = False\<rparr>"

text \<open>All setters require that the instance is not running.\<close>

definition configure :: "(Config \<Rightarrow> Config) \<Rightarrow> (Controller, unit) prog" where
  "configure f =
     thenM (bindM (getM ct_running) (\<lambda>r. CHECK (\<not> r)))
       (modifyM (\<lambda>c. c\<lparr>ct_config := f (ct_config c)\<rparr>))"

definition SetZmqEndpoint :: "string \<Rightarrow> (Controller, unit) prog" where
  "SetZmqEndpoint addr = configure (\<lambda>c. c\<lparr>cf_zmqAddr := addr\<rparr>)"

definition SetRpcBinding :: "int \<Rightarrow> bool \<Rightarrow> (Controller, unit) prog" where
  "SetRpcBinding p local = configure (\<lambda>c. c\<lparr>cf_rpcPort := p, cf_rpcListenLocally := local\<rparr>)"

definition EnableSanityChecks :: "(Controller, unit) prog" where
  "EnableSanityChecks = configure (\<lambda>c. c\<lparr>cf_sanityChecks := True\<rparr>)"

text \<open>The argument is \<^verbatim>\<open>unsigned\<close>, the field an \<^verbatim>\<open>int\<close>.\<close>

definition SetMaxReorgDepth :: "nat \<Rightarrow> (Controller, unit) prog" where
  "SetMaxReorgDepth maxDepth = configure (\<lambda>c. c\<lparr>cf_maxReorgDepth :=
     (if maxDepth \<le> 2147483647 then int maxDepth else int maxDepth - int (u32_max + 1))\<rparr>)"

definition Controller_TrackGame :: "string \<Rightarrow> (Controller, unit) prog" where
  "Controller_TrackGame g = configure (\<lambda>c. c\<lparr>cf_trackedGames := map fst (smap_set g () (map (\<lambda>x. (x, ())) (cf_trackedGames c)))\<rparr>)"

definition Controller_EnablePending :: "'b BaseChain \<Rightarrow> (Controller \<times> 'b, unit) prog" where
  "Controller_EnablePending bc =
     thenM (bindM (getM (\<lambda>(c, b). ct_running c)) (\<lambda>r. CHECK (\<not> r)))
    (bindM (getM (\<lambda>(c, b). cf_pending (ct_config c))) (\<lambda>p.
       if p then ret ()
       else
         bindM (zoomM snd (\<lambda>b (c, _). (c, b)) (bc_EnablePending bc)) (\<lambda>ok.
           if ok then modifyM (\<lambda>(c, b). (c\<lparr>ct_config := (ct_config c)\<lparr>cf_pending := True\<rparr>\<rparr>, b)) else ret ())))"

definition Stop :: "(Controller, unit) prog" where
  "Stop = modifyM (\<lambda>c. c\<lparr>ct_shouldStop := True\<rparr>)"

text \<open>\<^verbatim>\<open>Run\<close> up to the point where it waits for \<^verbatim>\<open>Stop\<close>: its checks, the construction of
  \<^verbatim>\<open>RunData\<close> over the database \<open>db\<close> with the tracked games, and the start of the sync worker.
  The fields of the worker that its constructor leaves uninitialised have arbitrary values here and
  are set by \<open>Sync_Start\<close>.\<close>

definition track_configured :: "Config \<Rightarrow> ZmqPub" where
  "track_configured C = fold (\<lambda>g z. snd (TrackGame g z)) (cf_trackedGames C) ZmqPub_new"

definition RunData_new :: "'b BaseChain \<Rightarrow> Config \<Rightarrow> chainstate \<Rightarrow> 'b \<Rightarrow> (error + unit) \<times> 'b run" where
  "RunData_new bc C db b =
     Sync_Start bc
       \<lparr>sy_base = b, sy_chain = db,
        sy_owner = \<lparr>rd_pendings = PendingManager_new (track_configured C), rd_requests = 0,
                    rd_cachedChain = '''', rd_cachedVersion = -1\<rparr>,
        sy_numBlocks = 0, sy_nextStartHeight = 0, sy_updater = False, sy_shouldStop = False\<rparr>"

definition Controller_Run :: "'b BaseChain \<Rightarrow> chainstate \<Rightarrow> (Controller \<times> 'b, 'b run) prog" where
  "Controller_Run bc db =
     thenM (bindM (getM (\<lambda>(c, b). ct_running c)) (\<lambda>r. CHECK (\<not> r)))
    (bindM (getM (\<lambda>(c, b). ct_config c)) (\<lambda>C.
     thenM (CHECK (cf_maxReorgDepth C \<ge> 0))
    (thenM (CHECK (cf_zmqAddr C \<noteq> []))
    (thenM (CHECK (cf_rpcPort C > -1))
    (bindM (zoomM snd (\<lambda>b (c, _). (c, b)) (bc_GetChain bc)) (\<lambda>_.
     thenM (modifyM (\<lambda>(c, b). (c\<lparr>ct_running := True, ct_sync := True, ct_listening := True, ct_baseCallbacks := True,
       ct_syncCallbacks := True\<rparr>, b)))
    (bindM (getM (\<lambda>(c, b). RunData_new bc C db b)) (\<lambda>(res, run).
     thenM (liftE res)
    (thenM (modifyM (\<lambda>(c, b). (c\<lparr>ct_shouldStop := False\<rparr>, b)))
       (ret run))))))))))"

text \<open>The end of \<^verbatim>\<open>Run\<close>: it waits while other threads use the controller, the members of the list, until one
  of them has called \<^verbatim>\<open>Stop\<close>; then the destructor of \<^verbatim>\<open>RunData\<close> takes everything down, the worker last,
  since it is a member.\<close>

fun wait_loop :: "(Controller, unit) prog list \<Rightarrow> (Controller, unit) prog" where
  "wait_loop [] = bindM (getM ct_shouldStop) (\<lambda>stop. if stop then ret () else failM Diverges)"
| "wait_loop (m # ms) =
     bindM (getM ct_shouldStop) (\<lambda>stop. if stop then ret () else thenM m (wait_loop ms))"

definition RunData_destroy :: "(Controller \<times> 'b run, unit) prog" where
  "RunData_destroy =
     thenM (bindM (getM (\<lambda>(c, s). ct_running c)) CHECK)
    (thenM (modifyM (\<lambda>(c, s). (c\<lparr>ct_running := False, ct_listening := False, ct_baseCallbacks := False\<rparr>, s)))
    (bindM (getM (\<lambda>(c, s). ct_sync c)) (\<lambda>sync.
       if sync then
         thenM (modifyM (\<lambda>(c, s). (c\<lparr>ct_syncCallbacks := False, ct_sync := False\<rparr>, s)))
           (zoomM snd (\<lambda>s (c, _). (c, s)) Sync_destroy)
       else ret ())))"

definition Controller_finish :: "(Controller, unit) prog list \<Rightarrow> (Controller \<times> 'b run, unit) prog" where
  "Controller_finish ms = thenM (zoomM fst (\<lambda>c (_, s). (c, s)) (wait_loop ms)) RunData_destroy"

definition DisableSyncForTesting :: "(Controller \<times> 'b run, unit) prog" where
  "DisableSyncForTesting =
     thenM (bindM (getM (\<lambda>(c, s). ct_running c)) CHECK)
    (bindM (getM (\<lambda>(c, s). ct_sync c)) (\<lambda>sync.
       if sync then
         thenM (zoomM snd (\<lambda>s (c, _). (c, s)) Sync_destroy)
           (modifyM (\<lambda>(c, s). (c\<lparr>ct_sync := False\<rparr>, s)))
       else ret ()))"

definition Controller_destroy :: "(Controller, unit) prog" where
  "Controller_destroy = bindM (getM ct_running) (\<lambda>r. CHECK (\<not> r))"

text \<open>The RPC method \<^verbatim>\<open>stop\<close>.\<close>

definition RpcServer_stop :: "(Controller, unit) prog" where
  "RpcServer_stop = Stop"

end
