(* ===== verification/ControllerPush.thy ===== *)
theory ControllerPush
  imports Controller
begin

text \<open>
  What \<^verbatim>\<open>Controller::RunData::PushZmqBlocks\<close> sends, seen by a subscriber.  A subscriber keeps the
  hash of its current block; a detach notification must name that block and moves to its parent, an
  attach notification must name a child of it and moves to that child.  The theory shows that the
  notifications are always a path the subscriber can follow, from the requested block to the
  block the RPC result reports, and to the new tip on a tip update.
\<close>

subsection \<open>Notifications and the subscriber\<close>

datatype zmq_event = Detach BlockData | Attach BlockData

definition send_event :: "zmq_lib \<Rightarrow> string \<Rightarrow> zmq_event \<Rightarrow> (ZmqPub, unit) prog" where
  "send_event Z tok e =
     (case e of Detach b \<Rightarrow> SendBlockDetach Z b tok | Attach b \<Rightarrow> SendBlockAttach Z b tok)"

definition send_events :: "zmq_lib \<Rightarrow> string \<Rightarrow> zmq_event list \<Rightarrow> (ZmqPub, unit) prog" where
  "send_events Z tok evs = forM evs (send_event Z tok)"

fun follow :: "string \<Rightarrow> zmq_event list \<Rightarrow> string option" where
  "follow cur [] = Some cur"
| "follow cur (Detach b # es) = (if blk_hash b = cur then follow (blk_parent b) es else None)"
| "follow cur (Attach b # es) = (if blk_parent b = cur then follow (blk_hash b) es else None)"

definition run_pub :: "'b run \<Rightarrow> ZmqPub" where
  "run_pub s = pd_zmq (rd_pendings (sy_owner s))"

definition set_pub :: "ZmqPub \<Rightarrow> 'b run \<Rightarrow> 'b run" where
  "set_pub z s = s\<lparr>sy_owner := (sy_owner s)\<lparr>rd_pendings := (rd_pendings (sy_owner s))\<lparr>pd_zmq := z\<rparr>\<rparr>\<rparr>"

text \<open>The block the RPC result reports as \<^verbatim>\<open>toblock\<close>.\<close>

definition path_end :: "string \<Rightarrow> BlockData list \<Rightarrow> BlockData list \<Rightarrow> string" where
  "path_end from D Q =
     (if Q \<noteq> [] then blk_hash (last Q) else if D \<noteq> [] then blk_parent (last D) else from)"

subsection \<open>Lemmas on the subscriber\<close>

lemma run_zmq_eq: "run_zmq m s = (fst (m (run_pub s)), set_pub (snd (m (run_pub s))) s)"
  by (simp add: run_zmq_def on_pendings_def on_zmq_def zoomM_simp run_pub_def set_pub_def)

lemma run_pub_set [simp]: "run_pub (set_pub z s) = z" "set_pub y (set_pub z s) = set_pub y s" "set_pub (run_pub s) s = s"
  by (simp_all add: run_pub_def set_pub_def)

lemma set_pub_other [simp]:
  "sy_chain (set_pub z s) = sy_chain s" "sy_base (set_pub z s) = sy_base s"
  "sy_numBlocks (set_pub z s) = sy_numBlocks s" "sy_nextStartHeight (set_pub z s) = sy_nextStartHeight s"
  "run_pub (s\<lparr>sy_base := b\<rparr>) = run_pub s" "run_pub (s\<lparr>sy_chain := c\<rparr>) = run_pub s"
  by (simp_all add: set_pub_def run_pub_def)

lemma forM_zmq: "forM xs (\<lambda>x. run_zmq (f x)) s = run_zmq (forM xs f) s"
proof (induction xs arbitrary: s)
  case Nil
  then show ?case by (simp add: run_zmq_eq)
next
  case (Cons x xs)
  obtain r z where f: "f x (run_pub s) = (r, z)" by (cases "f x (run_pub s)")
  then have "run_zmq (f x) s = (r, set_pub z s)" by (simp add: run_zmq_eq)
  with f Cons.IH [of "set_pub z s"] show ?case
    by (cases r) (simp_all add: run_zmq_eq [of "thenM (f x) n" for n] run_zmq_eq [of "forM xs f"])
qed

lemma send_detaches_eq: "send_detaches Z tok D s = run_zmq (send_events Z tok (map Detach D)) s"
proof -
  have "forM D (\<lambda>b. SendBlockDetach Z b tok) = send_events Z tok (map Detach D)"
    by (induction D) (simp_all add: send_events_def send_event_def)
  then show ?thesis by (simp add: send_detaches_def forM_zmq)
qed

lemma send_attaches_eq: "send_attaches Z tok Q s = run_zmq (send_events Z tok (map Attach Q)) s"
proof -
  have "forM Q (\<lambda>b. SendBlockAttach Z b tok) = send_events Z tok (map Attach Q)"
    by (induction Q) (simp_all add: send_events_def send_event_def)
  then show ?thesis by (simp add: send_attaches_def forM_zmq)
qed

lemma run_zmq_Inr:
  "run_zmq m s = (Inr x, t) \<longleftrightarrow> (\<exists>z. m (run_pub s) = (Inr x, z) \<and> t = set_pub z s)"
  by (cases "m (run_pub s)") (auto simp: run_zmq_eq)

lemma send_events_append:
  "send_events Z tok (es @ fs) z = (Inr (), z') \<longleftrightarrow>
     (\<exists>y. send_events Z tok es z = (Inr (), y) \<and> send_events Z tok fs y = (Inr (), z'))"
  by (simp add: send_events_def forM_append thenM_eq_Inr)

lemma send_events_Nil [simp]: "send_events Z tok [] z = (Inr (), z)"
  by (simp add: send_events_def)

lemma follow_append: "follow a (es @ fs) = (case follow a es of None \<Rightarrow> None | Some b \<Rightarrow> follow b fs)"
  by (induction a es rule: follow.induct) auto

lemma linked_follow:
  "linked Q \<Longrightarrow> Q \<noteq> [] \<Longrightarrow> blk_parent (hd Q) = a \<Longrightarrow> follow a (map Attach Q) = Some (blk_hash (last Q))"
  by (induction Q arbitrary: a rule: linked.induct) auto

lemma follow_linked_rev:
  "linked Q \<Longrightarrow> Q \<noteq> [] \<Longrightarrow> follow (blk_hash (last Q)) (map Detach (rev Q)) = Some (blk_parent (hd Q))"
proof (induction Q rule: linked.induct)
  case (1 a b bs)
  then show ?case by (auto simp: follow_append split: option.splits if_splits)
qed auto

lemma side_path_follow:
  assumes ok: "\<forall>r\<in>set rows. row_ok L r"
  shows "side_path rows h rs \<Longrightarrow>
     follow h (map Detach (map (row_block L) rs)) = Some (path_end h (map (row_block L) rs) [])"
proof (induction rs arbitrary: h)
  case Nil
  then show ?case by (simp add: path_end_def)
next
  case (Cons r rs)
  then have r: "r \<in> set rows" "r_hash r = h" "side_path rows (r_parent r) rs"
    by (auto elim: side_path_ConsE)
  with Cons.IH [OF r(3)] read_row_ok [of L r] ok show ?case by (auto simp: path_end_def)
qed

lemma slice_hd_height: "block_slice v s n = b # bs \<Longrightarrow> v s = Some b"
  by (cases n) (auto split: option.splits)

subsection \<open>The parts of PushZmqBlocks\<close>

text \<open>A part ended normally: it sent the detaches \<open>E\<close> and the attaches \<open>Q\<close>, which lead from \<open>a\<close>
  to the end of the path, and changed nothing but the publisher and the base chain's own state.\<close>

definition pushed ::
  "zmq_lib \<Rightarrow> string \<Rightarrow> ('b \<Rightarrow> 'b \<Rightarrow> bool) \<Rightarrow> string \<Rightarrow> BlockData list \<Rightarrow> BlockData list \<Rightarrow> 'b run \<Rightarrow> 'b run \<Rightarrow> bool" where
  "pushed Z tok same a E Q s s' \<longleftrightarrow>
     (\<exists>z b'. send_events Z tok (map Detach E @ map Attach Q) (run_pub s) = (Inr (), z) \<and>
        s' = set_pub z (s\<lparr>sy_base := b'\<rparr>) \<and> same (sy_base s) b') \<and>
     follow a (map Detach E @ map Attach Q) = Some (path_end a E Q)"

text \<open>The common first half: the fork point of the requested block and the detaches down to it.\<close>

definition at_fork ::
  "zmq_lib \<Rightarrow> string \<Rightarrow> ('b \<Rightarrow> 'b \<Rightarrow> bool) \<Rightarrow> string \<Rightarrow> BlockData list \<Rightarrow> nat \<Rightarrow> string \<Rightarrow> 'b run \<Rightarrow> 'b run \<Rightarrow> bool" where
  "at_fork Z tok same from D fh fp s s1 \<longleftrightarrow>
     (\<exists>z b'. send_events Z tok (map Detach D) (run_pub s) = (Inr (), z) \<and>
        s1 = set_pub z (s\<lparr>sy_base := b'\<rparr>) \<and> same (sy_base s) b') \<and>
     follow from (map Detach D) = Some fp \<and> fp = path_end from D [] \<and>
     (fh \<le> height_limit \<or> fh = u64_max \<and> (\<exists>r\<in>set (blocks (sy_chain s)). r_branch r \<noteq> 0 \<and> r_height r = 0))"

lemma set_pub_base: "(set_pub z s)\<lparr>sy_base := b\<rparr> = set_pub z (s\<lparr>sy_base := b\<rparr>)"
  by (simp add: set_pub_def)

lemma set_pub_chain_id [simp]:
  "(set_pub z (s\<lparr>sy_base := b\<rparr>))\<lparr>sy_chain := sy_chain s\<rparr> = set_pub z (s\<lparr>sy_base := b\<rparr>)"
  by (simp add: set_pub_def)

lemma pushed_none: "same (sy_base s) b' \<Longrightarrow> pushed Z tok same a [] [] s (s\<lparr>sy_base := b'\<rparr>)"
  unfolding pushed_def path_end_def
  by (auto intro!: exI [of _ "run_pub s"] exI [of _ b'] simp: run_pub_def set_pub_def)

lemma pushed_after_detach:
  assumes sent: "send_events Z tok (map Detach D) (run_pub s) = (Inr (), z)"
    and D: "follow a (map Detach D) = Some c" "c = path_end a D []"
    and rest: "pushed Z tok same c E Q (set_pub z (s\<lparr>sy_base := b\<rparr>)) s'" and b: "\<And>b'. same b b' \<Longrightarrow> same (sy_base s) b'"
  shows "pushed Z tok same a (D @ E) Q s s'"
proof -
  obtain y b' where y: "send_events Z tok (map Detach E @ map Attach Q) z = (Inr (), y)"
      "s' = set_pub y (set_pub z (s\<lparr>sy_base := b\<rparr>)\<lparr>sy_base := b'\<rparr>)" "same b b'"
    and f: "follow c (map Detach E @ map Attach Q) = Some (path_end c E Q)"
    using rest by (auto simp: pushed_def set_pub_base)
  have "send_events Z tok (map Detach (D @ E) @ map Attach Q) (run_pub s) = (Inr (), y)"
    using sent y(1) by (auto simp: send_events_append)
  moreover have "s' = set_pub y (s\<lparr>sy_base := b'\<rparr>)" using y(2) by (simp add: set_pub_base)
  moreover have "follow a (map Detach (D @ E) @ map Attach Q) = Some (path_end a (D @ E) Q)"
    using f D by (simp add: follow_append path_end_def)
  ultimately show ?thesis using b [OF y(3)] unfolding pushed_def by blast
qed

lemma attach_known_ok:
  "attach_known Z tok fh fp A found s = (Inr found', s') \<Longrightarrow>
     (\<exists>z. send_events Z tok (map Attach (filter (\<lambda>b. blk_height b > fh) A)) (run_pub s) = (Inr (), z) \<and> s' = set_pub z s) \<and>
     (found' \<longleftrightarrow> found \<or> (\<exists>b\<in>set A. blk_height b = u64_add fh 1)) \<and>
     (\<forall>b\<in>set A. blk_height b = u64_add fh 1 \<longrightarrow> blk_parent b = fp)"
proof (induction A arbitrary: found s)
  case Nil
  then show ?case by simp
next
  case (Cons b A)
  show ?case
  proof (cases "blk_height b > fh")
    case True
    with Cons.prems obtain z where z: "SendBlockAttach Z b tok (run_pub s) = (Inr (), z)"
        "attach_known Z tok fh fp A (found \<or> blk_height b = u64_add fh 1) (set_pub z s) = (Inr found', s')"
        "blk_height b = u64_add fh 1 \<longrightarrow> blk_parent b = fp"
      by (auto simp: prog_Inr run_zmq_Inr)
    with Cons.IH [OF z(2)] True show ?thesis by (auto simp: send_events_def send_event_def)
  next
    case False
    with Cons.prems have "attach_known Z tok fh fp A (found \<or> blk_height b = u64_add fh 1) s = (Inr found', s')"
        "blk_height b = u64_add fh 1 \<longrightarrow> blk_parent b = fp"
      by (auto simp: prog_Inr)
    with Cons.IH [of "found \<or> blk_height b = u64_add fh 1" s] False show ?thesis by auto
  qed
qed

context base_chain
begin

lemma pushed_events:
  assumes same: "same (sy_base s) b'" and sent: "send_events Z tok (map Detach E @ map Attach Q) (run_pub s) = (Inr (), z)"
    and f: "follow a (map Detach E @ map Attach Q) = Some (path_end a E Q)"
  shows "pushed Z tok same a E Q s (set_pub z (s\<lparr>sy_base := b'\<rparr>))"
  using assms unfolding pushed_def by blast

lemma range_answer:
  assumes "ready (sy_base s)" "start + count \<le> i64_max"
    and "run_base (bc_GetBlockRange bc start count) s = (Inr bs, s1)"
  shows "\<exists>b'. bs = block_slice (view (sy_base s)) start count \<and> s1 = s\<lparr>sy_base := b'\<rparr> \<and> same (sy_base s) b'"
  using GetBlockRange_law [OF assms(1,2)] assms(3) by (auto simp: run_base_def base_same_def)

lemma height_answer:
  assumes "ready (sy_base s)" "run_base (bc_GetMainchainHeight bc hash) s = (Inr r, s1)"
  shows "\<exists>b'. mainheight_ok (view (sy_base s)) hash r \<and> s1 = s\<lparr>sy_base := b'\<rparr> \<and> same (sy_base s) b'"
  using GetMainchainHeight_law [OF assms(1), of hash] assms(2) by (auto simp: run_base_def base_same_def)

lemma push_detach_to_ok:
  assumes rdy: "ready (sy_base s)" and fh: "fh \<le> height_limit" and th: "0 \<le> th" "th < int fh"
    and run: "push_detach_to Z bc num tok D fh fp th s = (Inr (ok, D', Q), s')"
  shows "\<exists>E. D' = D @ E \<and> Q = [] \<and> pushed Z tok same fp E Q s s'"
proof -
  define n where "n = min_unsigned num (u64_sub fh (u64_of_int th))"
  have diff: "u64_sub fh (u64_of_int th) = fh - nat th" using fh th by simp
  have n: "n \<le> fh" using diff by (simp add: n_def min_unsigned_def)
  have start: "u64_add (u64_sub fh n) 1 = fh - n + 1" using n fh by simp
  obtain bs s1 where q: "run_base (bc_GetBlockRange bc (fh - n + 1) n) s = (Inr bs, s1)"
      "bs \<noteq> []" "(if blk_hash (last bs) \<noteq> fp then ret (False, D, []) else
         thenM (send_detaches Z tok (rev bs)) (ret (True, D @ rev bs, []))) s1 = (Inr (ok, D', Q), s')"
    using run start unfolding push_detach_to_def n_def [symmetric] Let_def
    by (auto simp: prog_Inr split: if_splits)
  obtain b' where b': "bs = block_slice (view (sy_base s)) (fh - n + 1) n" "s1 = s\<lparr>sy_base := b'\<rparr>" "same (sy_base s) b'"
    using range_answer [OF rdy _ q(1)] n fh by auto
  show ?thesis
  proof (cases "blk_hash (last bs) = fp")
    case False
    with q(3) b'(2) pushed_none [where same = same, OF b'(3)] show ?thesis by auto
  next
    case True
    with q(3) obtain z where z: "send_events Z tok (map Detach (rev bs)) (run_pub s) = (Inr (), z)"
        "s' = set_pub z (s\<lparr>sy_base := b'\<rparr>)" "D' = D @ rev bs" "Q = []"
      by (auto simp: prog_Inr send_detaches_eq run_zmq_Inr b'(2))
    have "follow fp (map Detach (rev bs)) = Some (path_end fp (rev bs) [])"
      using follow_linked_rev [OF slice_linked [OF view_ok [OF rdy]], of "fh - n + 1" n] b'(1) q(2) True
      by (simp add: path_end_def last_rev)
    with pushed_events [OF b'(3), of Z tok "rev bs" "[]" z fp] z show ?thesis by auto
  qed
qed

lemma push_queried_ok:
  assumes rdy: "ready (sy_base s)" and fh: "fh \<le> height_limit"
    and S: "schema_ok (blocks (sy_chain s))" and low: "low = GetLowestUnprunedHeight (sy_chain s)"
    and run: "push_queried Z bc num tok D low fh fp th s = (Inr (ok, D', Q), s')"
  shows "D' = D \<and> pushed Z tok same fp [] Q s s' \<and> length Q \<le> num \<and>
    (Q \<noteq> [] \<longrightarrow> blk_height (last Q) < u64_of_int low \<or> row_at (blocks (sy_chain s)) (blk_hash (last Q)) \<noteq> None)"
proof -
  obtain target n bs s1 where q: "run_base (bc_GetBlockRange bc (u64_add fh 1) n) s = (Inr bs, s1)"
      "n = min_unsigned num (target - fh)"
      "(if bs = [] then ret (True, D, [])
       else if blk_parent (hd bs) \<noteq> fp then ret (False, D, [])
       else bindM (if blk_height (last bs) \<ge> u64_of_int low
                then run_chain (GetHeightForHash (blk_hash (last bs))) else ret (Some (blk_height (last bs)))) (\<lambda>known.
           case known of None \<Rightarrow> ret (False, D, [])
           | Some h \<Rightarrow> thenM (CHECK (h = blk_height (last bs)))
              (thenM (send_attaches Z tok bs) (ret (True, D, bs))))) s1 = (Inr (ok, D', Q), s')"
    using run unfolding push_queried_def run_chain_def sy_on_chain_def
    by (auto simp: prog_Inr zoomM_simp split: if_splits)
  have n: "n \<le> u32_max" "n \<le> num" using q(2) by (auto simp: min_unsigned_def)
  have "u64_add fh 1 = fh + 1" using fh by simp
  with q(1) range_answer [OF rdy, of "fh + 1" n bs s1] n fh obtain b' where b':
      "bs = block_slice (view (sy_base s)) (fh + 1) n" "s1 = s\<lparr>sy_base := b'\<rparr>" "same (sy_base s) b'" by auto
  have none: "pushed Z tok same fp [] [] s s1" using pushed_none [where same = same, OF b'(3)] b'(2) by simp
  show ?thesis
  proof (cases "Q = []")
    case True
    with q(3) none show ?thesis
      unfolding run_chain_def sy_on_chain_def b'(2)
      by (auto simp: prog_Inr zoomM_simp GetHeightForHash_eq [OF S] send_attaches_eq split: if_splits option.splits)
  next
    case False
    then obtain h z where z: "bs \<noteq> []" "blk_parent (hd bs) = fp" "Q = bs" "D' = D"
        "send_events Z tok (map Attach bs) (run_pub s) = (Inr (), z)" "s' = set_pub z (s\<lparr>sy_base := b'\<rparr>)"
        "blk_height (last bs) < u64_of_int low \<or> row_at (blocks (sy_chain s)) (blk_hash (last bs)) \<noteq> None"
      using q(3) unfolding run_chain_def sy_on_chain_def b'(2)
      by (auto simp: prog_Inr zoomM_simp GetHeightForHash_eq [OF S] send_attaches_eq run_zmq_Inr
        split: if_splits option.splits)
    have "follow fp (map Attach bs) = Some (path_end fp [] bs)"
      using linked_follow [of bs fp] slice_linked [OF view_ok [OF rdy]] b'(1) z(1,2) by (simp add: path_end_def)
    then have "pushed Z tok same fp [] bs s s'"
      using pushed_events [OF b'(3), of Z tok "[]" bs z fp] z(5,6) by simp
    moreover have "length bs \<le> num" using b'(1) slice_length_le le_trans n(2) by blast
    ultimately show ?thesis using z by simp
  qed
qed

text \<open>The bound on the heights keeps the 64-bit arithmetic exact; a detached block of height zero
  would make the height of the fork point wrap around, and the checks stop the process then.\<close>

lemma push_from_fork_ok:
  assumes rdy: "ready (sy_base s)" and fh: "fh \<le> height_limit \<or> fh = u64_max"
    and S: "schema_ok (blocks (sy_chain s))" and low: "low = GetLowestUnprunedHeight (sy_chain s)"
    and tip: "0 \<le> GetTipHeight (sy_chain s)" "GetTipHeight (sy_chain s) \<le> int height_limit"
    and run: "push_from_fork Z bc to [] num tok D low fh fp s = (Inr (ok, D', Q), s')"
  shows "\<exists>E. D' = D @ E \<and> pushed Z tok same fp E Q s s' \<and> length Q \<le> num \<and>
    (Q \<noteq> [] \<longrightarrow> blk_height (last Q) < u64_of_int low \<or> row_at (blocks (sy_chain s)) (blk_hash (last Q)) \<noteq> None)"
proof (cases "to = []")
  case True
  then have q: "push_queried Z bc num tok D low fh fp (-1) s = (Inr (ok, D', Q), s')"
    using run by (simp add: push_from_fork_def)
  have "fh \<le> height_limit"
  proof (rule ccontr)
    assume "\<not> fh \<le> height_limit"
    then have "fh = u64_max" using fh by simp
    with q tip show False by (simp add: push_queried_def run_chain_def sy_on_chain_def prog_Inr zoomM_simp)
  qed
  then show ?thesis using push_queried_ok [OF rdy _ S low q] by auto
next
  case False
  obtain th s1 where th: "run_base (bc_GetMainchainHeight bc to) s = (Inr th, s1)"
    and rest: "(if th = -1 then ret (False, D, []) else if th = int64_of fh then ret (False, D, [])
       else if th < int64_of fh then push_detach_to Z bc num tok D fh fp th
       else thenM (CHECK (u64_of_int th > fh)) (push_queried Z bc num tok D low fh fp th)) s1 = (Inr (ok, D', Q), s')"
    using run False by (auto simp: push_from_fork_def prog_Inr split: if_splits)
  obtain b' where b': "mainheight_ok (view (sy_base s)) to th" "s1 = s\<lparr>sy_base := b'\<rparr>" "same (sy_base s) b'"
    using height_answer [OF rdy th] by blast
  have rdy': "ready (sy_base s1)" using b' by (simp add: base_same_def)
  have th': "th = -1 \<or> 0 \<le> th \<and> th \<le> int i64_max"
    using b'(1) mainchain_okD(2,7) [OF view_ok [OF rdy]] unfolding mainheight_ok_def by fastforce
  have lift_pushed: "pushed Z tok same fp E Q s s'" if "pushed Z tok same fp E Q s1 s'" for E
    using pushed_after_detach [of Z tok "[]" s "run_pub s" fp fp same E Q b' s'] that b'(2,3) same_trans [OF b'(3)]
    by (simp add: path_end_def flip: set_pub_base)
  have none: "pushed Z tok same fp [] [] s s1" using pushed_none [where same = same, OF b'(3)] b'(2) by simp
  consider "th = -1 \<or> th = int64_of fh" | "th \<noteq> -1" "th < int64_of fh" | "th \<noteq> -1" "int64_of fh < th" by linarith
  then show ?thesis
  proof cases
    case 1
    then have "D' = D" "Q = []" "s' = s1" using rest by (auto split: if_splits)
    with none show ?thesis by auto
  next
    case 2
    then have fh': "fh \<le> height_limit" using th' fh by (auto simp: int64_of_def)
    with 2 rest have "push_detach_to Z bc num tok D fh fp th s1 = (Inr (ok, D', Q), s')" "0 \<le> th" "th < int fh"
      using th' by auto
    with push_detach_to_ok [OF rdy' fh'] obtain E where "D' = D @ E" "Q = []" "pushed Z tok same fp E Q s1 s'" by blast
    with lift_pushed show ?thesis by auto
  next
    case 3
    then have q: "push_queried Z bc num tok D low fh fp th s1 = (Inr (ok, D', Q), s')" and "u64_of_int th > fh"
      using rest by (auto simp: prog_Inr)
    with th' 3 fh have "fh \<le> height_limit" by auto
    with push_queried_ok [OF rdy' _ _ _ q] S low lift_pushed b'(2) show ?thesis by auto
  qed
qed

lemma push_prefix:
  assumes rdy: "ready (sy_base s)" and inv: "chain_inv L (sy_chain s)"
    and small: "\<forall>r\<in>set (blocks (sy_chain s)). r_height r \<le> height_limit" and from_ne: "from \<noteq> []"
    and run: "PushZmqBlocks L Z bc from to att num tok s = (Inr res, s')"
  shows "(\<exists>b'. res = (False, [], []) \<and> s' = s\<lparr>sy_base := b'\<rparr> \<and> same (sy_base s) b') \<or>
    (\<exists>D fh fp s1. at_fork Z tok same from D fh fp s s1 \<and>
       push_from_fork Z bc to att num tok D (GetLowestUnprunedHeight (sy_chain s)) fh fp s1 = (Inr res, s'))"
proof -
  let ?cs = "sy_chain s" and ?low = "GetLowestUnprunedHeight (sy_chain s)"
  note S = rows_invD(1) [OF inv]
  have rok: "\<forall>r\<in>set (blocks ?cs). row_ok L r" using rows_invD(2) [OF inv] by blast
  obtain rs where rs: "side_path (blocks ?cs) from rs" using side_path_exists [OF rows_invD(3) [OF inv]] by blast
  let ?D = "map (row_block L) rs" and ?found = "row_at (blocks ?cs) from \<noteq> None"
  have low: "0 \<le> ?low" using run from_ne
    by (simp add: PushZmqBlocks_def run_chain_def sy_on_chain_def prog_Inr zoomM_simp)
  then obtain m where m: "m \<in> set (blocks ?cs)" "r_branch m = 0" using no_main_heights(2) [of ?cs] by force
  obtain l where l: "l \<in> set (blocks ?cs)" "?low = int (r_height l)" using GetLowest_obtain [OF m] by blast
  have "PushZmqBlocks L Z bc from to att num tok s =
      thenM (CHECK (to = [] \<or> att = [])) (bindM (if ?found then ret (-1) else run_base (bc_GetMainchainHeight bc from))
        (push_from_branch Z bc from to att num tok ?low ?found ?D)) s"
    using from_ne low GetForkBranch_eq [OF inv rs] unfolding PushZmqBlocks_def
    by (cases "to = [] \<or> att = []") (simp_all add: run_chain_def)
  with run obtain mh s1 where mh: "(if ?found then ret (-1) else run_base (bc_GetMainchainHeight bc from)) s = (Inr mh, s1)"
    and rest: "push_from_branch Z bc from to att num tok ?low ?found ?D mh s1 = (Inr res, s')"
    by (auto simp: prog_Inr)
  note rest = rest [unfolded push_from_branch_def]
  have same_refl: "same (sy_base s) (sy_base s)" using rdy by (simp add: base_same_def)
  have nofound: "rs = []" if "\<not> ?found" using that rs by (auto simp: row_at_None side_path_Nil_iff)
  have b': "\<exists>b'. s1 = s\<lparr>sy_base := b'\<rparr> \<and> same (sy_base s) b' \<and> (?found \<longrightarrow> mh = -1) \<and> -1 \<le> mh"
  proof (cases ?found)
    case True
    with mh same_refl show ?thesis by (auto intro!: exI [of _ "sy_base s"])
  next
    case False
    with mh height_answer [OF rdy, of "from" mh s1] show ?thesis by (auto simp: mainheight_ok_def)
  qed
  then obtain b' where b': "s1 = s\<lparr>sy_base := b'\<rparr>" "same (sy_base s) b'" "?found \<Longrightarrow> mh = -1" "-1 \<le> mh" by blast
  show ?thesis
  proof (cases "\<not> ?found \<and> (mh = -1 \<or> mh \<ge> ?low)")
    case True
    with rest nofound b' show ?thesis by (auto split: if_splits)
  next
    case False
    then obtain z fh fp where z: "send_events Z tok (map Detach ?D) (run_pub s) = (Inr (), z)"
      and f: "(if mh \<noteq> -1 then ret (u64_of_int mh, from)
            else if ?D = [] then bindM (run_chain (GetHeightForHash from)) (\<lambda>h.
                case h of None \<Rightarrow> failM Abort | Some h \<Rightarrow> ret (h, from))
            else ret (u64_sub (blk_height (last ?D)) 1, blk_parent (last ?D))) (set_pub z s1) = (Inr (fh, fp), set_pub z s1)"
      and p: "push_from_fork Z bc to att num tok ?D ?low fh fp (set_pub z s1) = (Inr res, s')"
      using rest by (auto simp: prog_Inr send_detaches_eq run_zmq_Inr b'(1) run_chain_def sy_on_chain_def zoomM_simp
          GetHeightForHash_eq [OF S] split: if_splits option.splits)
    have fp: "fp = path_end from ?D []"
      using f nofound b'(3) by (auto simp: path_end_def prog_Inr split: if_splits option.splits)
    have wrap: "u64_sub n 1 \<le> height_limit \<or> u64_sub n 1 = u64_max \<and> n = 0" if "n \<le> height_limit" for n
      using that by (cases n) (simp_all add: u64_sub_def [of 0])
    have lastD: "blk_height (last ?D) \<le> height_limit" "last rs \<in> set (blocks ?cs)" "r_branch (last rs) \<noteq> 0"
        "blk_height (last ?D) = r_height (last rs)" if "rs \<noteq> []"
    proof -
      show l: "last rs \<in> set (blocks ?cs)" using side_path_subset [OF rs] last_in_set [OF that] by blast
      show "blk_height (last ?D) = r_height (last rs)" using that l rok read_row_ok(4) [of L "last rs"] by (simp add: last_map)
      then show "blk_height (last ?D) \<le> height_limit" using l small by simp
      show "r_branch (last rs) \<noteq> 0" using side_path_side [OF rs] last_in_set [OF that] by blast
    qed
    have "fh \<le> height_limit \<or> fh = u64_max \<and> (\<exists>r\<in>set (blocks ?cs). r_branch r \<noteq> 0 \<and> r_height r = 0)"
    proof (cases "mh = -1")
      case True
      then have found: ?found using False by blast
      show ?thesis
      proof (cases "rs = []")
        case True
        with f found small \<open>mh = -1\<close> row_at_SomeD show ?thesis
          by (fastforce simp: prog_Inr run_chain_def sy_on_chain_def zoomM_simp GetHeightForHash_eq [OF S] b'(1)
            split: option.splits)
      next
        case False
        with f \<open>mh = -1\<close> wrap [OF lastD(1)] lastD(2-4) show ?thesis by auto
      qed
    next
      case False
      then have "mh < ?low" using \<open>\<not> (\<not> ?found \<and> (mh = -1 \<or> mh \<ge> ?low))\<close> b'(3) by auto
      then have "mh \<le> int height_limit" using l small by fastforce
      with False f b'(4) show ?thesis by auto
    qed
    then have "at_fork Z tok same from ?D fh fp s (set_pub z s1)"
      using fp z b'(1,2) side_path_follow [OF rok rs] unfolding at_fork_def by blast
    with p show ?thesis by blast
  qed
qed

text \<open>The request of \<^verbatim>\<open>game_sendupdates\<close>.\<close>

lemma main_heights:
  assumes "chain_inv L cs" "blocks cs \<noteq> []" "\<forall>r\<in>set (blocks cs). r_height r \<le> height_limit"
  shows "0 \<le> GetLowestUnprunedHeight cs" "0 \<le> GetTipHeight cs" "GetTipHeight cs \<le> int height_limit"
    "GetLowestUnprunedHeight cs \<le> int height_limit"
proof -
  obtain m where m: "m \<in> set (blocks cs)" "r_branch m = 0" using rows_invD(6) [OF assms(1)] assms(2) by (auto simp: has_main_def)
  obtain t where t: "t \<in> set (blocks cs)" "GetTipHeight cs = int (r_height t)" using GetTip_obtain [OF m] by blast
  obtain l where "l \<in> set (blocks cs)" "GetLowestUnprunedHeight cs = int (r_height l)" using GetLowest_obtain [OF m] by blast
  then show "0 \<le> GetLowestUnprunedHeight cs" "0 \<le> GetTipHeight cs" "GetTipHeight cs \<le> int height_limit"
    "GetLowestUnprunedHeight cs \<le> int height_limit" using t assms(3) by auto
qed

lemma PushZmqBlocks_rpc:
  assumes rdy: "ready (sy_base s)" and inv: "chain_inv L (sy_chain s)"
    and small: "\<forall>r\<in>set (blocks (sy_chain s)). r_height r \<le> height_limit" and from_ne: "from \<noteq> []"
    and run: "PushZmqBlocks L Z bc from to [] num tok s = (Inr (ok, D, Q), s')"
  shows "pushed Z tok same from D Q s s' \<and> length Q \<le> num \<and>
    (Q \<noteq> [] \<longrightarrow> int (blk_height (last Q)) < GetLowestUnprunedHeight (sy_chain s) \<or>
       row_at (blocks (sy_chain s)) (blk_hash (last Q)) \<noteq> None)"
proof -
  let ?low = "GetLowestUnprunedHeight (sy_chain s)"
  have "blocks (sy_chain s) \<noteq> []"
    using run from_ne no_main_heights(2) [of "sy_chain s"]
    by (auto simp: PushZmqBlocks_def run_chain_def sy_on_chain_def prog_Inr zoomM_simp)
  note H = main_heights [OF inv this small]
  from push_prefix [OF rdy inv small from_ne run] show ?thesis
  proof (elim disjE exE conjE)
    fix b' assume "(ok, D, Q) = (False, [], [])" "s' = s\<lparr>sy_base := b'\<rparr>" "same (sy_base s) b'"
    then show ?thesis using pushed_none [where same = same and s = s and b' = b'] by auto
  next
    fix D0 fh fp s1
    assume at: "at_fork Z tok same from D0 fh fp s s1"
      and rest: "push_from_fork Z bc to [] num tok D0 ?low fh fp s1 = (Inr (ok, D, Q), s')"
    then obtain z b' where z: "send_events Z tok (map Detach D0) (run_pub s) = (Inr (), z)"
        "s1 = set_pub z (s\<lparr>sy_base := b'\<rparr>)" "same (sy_base s) b'"
      and f: "follow from (map Detach D0) = Some fp" "fp = path_end from D0 []" "fh \<le> height_limit \<or> fh = u64_max"
      by (auto simp: at_fork_def)
    have "ready (sy_base s1)" using z by (simp add: base_same_def)
    from push_from_fork_ok [OF this f(3) _ _ _ _ rest] rows_invD(1) [OF inv] H z(2)
    obtain E where E: "D = D0 @ E" "pushed Z tok same fp E Q s1 s'" "length Q \<le> num"
        "Q \<noteq> [] \<Longrightarrow> blk_height (last Q) < u64_of_int ?low \<or> row_at (blocks (sy_chain s)) (blk_hash (last Q)) \<noteq> None"
      by auto
    have "u64_of_int ?low = nat ?low" using H by simp
    with E pushed_after_detach [OF z(1) f(1,2) E(2) [unfolded z(2)] same_trans [OF z(3)]] H(1) show ?thesis by auto
  qed
qed

text \<open>A tip update: the worker hands over the attached blocks.\<close>

lemma PushZmqBlocks_tip:
  assumes rdy: "ready (sy_base s)" and inv: "chain_inv L (sy_chain s)"
    and small: "\<forall>r\<in>set (blocks (sy_chain s)). r_height r \<le> height_limit" and from_ne: "from \<noteq> []"
    and nogen: "\<forall>r\<in>set (blocks (sy_chain s)). r_branch r \<noteq> 0 \<longrightarrow> 0 < r_height r"
    and A: "linked A" "A \<noteq> []"
    and run: "PushZmqBlocks L Z bc from '''' A num tok s = (Inr (ok, D, Q), s')"
  shows "Q = [] \<and>
    (if ok then \<exists>A1 A2. A = A1 @ A2 \<and> pushed Z tok same from D A2 s s' \<and> path_end from D A2 = blk_hash (last A)
     else D = [] \<and> pushed Z tok same from [] [] s s')"
  using push_prefix [OF rdy inv small from_ne run]
proof (elim disjE exE conjE)
  fix b' assume "(ok, D, Q) = (False, [], [])" "s' = s\<lparr>sy_base := b'\<rparr>" "same (sy_base s) b'"
  then show ?thesis using pushed_none [where same = same and s = s and b' = b'] by auto
next
  fix D0 fh fp s1
  assume at: "at_fork Z tok same from D0 fh fp s s1"
    and rest: "push_from_fork Z bc '''' A num tok D0 (GetLowestUnprunedHeight (sy_chain s)) fh fp s1 = (Inr (ok, D, Q), s')"
  then obtain z b' where z: "send_events Z tok (map Detach D0) (run_pub s) = (Inr (), z)"
      "s1 = set_pub z (s\<lparr>sy_base := b'\<rparr>)" "same (sy_base s) b'"
    and f: "follow from (map Detach D0) = Some fp" "fp = path_end from D0 []" and fh: "fh \<le> height_limit"
    using nogen by (auto simp: at_fork_def)
  have "same (sy_base s1) (sy_base s1)" using z by (simp add: base_same_def)
  then have done1: "pushed Z tok same fp [] [] s1 s1"
    using pushed_none [where same = same and s = s1 and b' = "sy_base s1"] by simp
  note join = pushed_after_detach [where same = same, OF z(1) f(1,2) _ same_trans [OF z(3)]]
  show ?thesis
  proof (cases "D0 \<noteq> [] \<and> blk_hash (last A) = blk_parent (last D0)")
    case True
    then have "ok" "D = D0" "Q = []" "s' = s1" using rest A by (auto simp: push_from_fork_def)
    moreover have "path_end from D0 [] = blk_hash (last A)" using True by (simp add: path_end_def)
    moreover have "pushed Z tok same from D0 [] s s1" using join [OF done1 [unfolded z(2)]] z(2) by simp
    ultimately show ?thesis by simp (metis append_Nil2)
  next
    case False
    then obtain found where k: "attach_known Z tok fh fp A False s1 = (Inr found, s')" "found" "ok" "D = D0" "Q = []"
      using rest A by (auto simp: push_from_fork_def prog_Inr)
    obtain y where y: "send_events Z tok (map Attach (filter (\<lambda>b. blk_height b > fh) A)) (run_pub s1) = (Inr (), y)"
        "s' = set_pub y s1" "\<exists>b\<in>set A. blk_height b = Suc fh" "\<And>b. b \<in> set A \<Longrightarrow> blk_height b = Suc fh \<Longrightarrow> blk_parent b = fp"
      using attach_known_ok [OF k(1)] k(2) fh by auto
    obtain A1 b A2 where split: "A = A1 @ b # A2" "blk_height b = Suc fh"
        "filter (\<lambda>b. blk_height b > fh) A = b # A2" "linked (b # A2)"
      using linked_filter [OF A(1) y(3)] by blast
    have "follow fp (map Attach (b # A2)) = Some (path_end fp [] (b # A2))"
      using linked_follow [OF split(4), of fp] y(4) [of b] split(1,2) by (simp add: path_end_def)
    moreover have "s' = set_pub y (s1\<lparr>sy_base := sy_base s1\<rparr>)" using y(2) by simp
    ultimately have "pushed Z tok same fp [] (b # A2) s1 s'"
      using pushed_events [of s1 "sy_base s1" Z tok "[]" "b # A2" y fp] y(1) split(3) \<open>same (sy_base s1) (sy_base s1)\<close> by simp
    from join [OF this [unfolded z(2)]] have "pushed Z tok same from D0 (b # A2) s s'" by simp
    moreover have "path_end from D0 (b # A2) = blk_hash (last A)" using split(1) by (simp add: path_end_def)
    ultimately have "\<exists>A1 A2. A = A1 @ A2 \<and> pushed Z tok same from D0 A2 s s' \<and> path_end from D0 A2 = blk_hash (last A)"
      using split(1) by blast
    with k(3-5) show ?thesis by simp
  qed
qed

end

end
