(* ===== verification/Examples.thy ===== *)
theory Examples
  imports BlockCache Rpc ControllerPush "HOL-Library.Code_Target_Numeral"
begin

text \<open>
  Concrete inputs: a small tree of blocks with two branches, an encoder for them, a base chain
  and local chain states that are on different branches of the tree.  The theorems about the
  components are applied to these values.
\<close>

subsection \<open>Blocks and their encoder\<close>

definition ex_tree :: "(string \<times> string \<times> nat) list" where
  "ex_tree = [(''g'', '''', 0), (''a1'', ''g'', 1), (''a2'', ''a1'', 2), (''a3'', ''a2'', 3),
              (''b1'', ''g'', 1), (''b2'', ''b1'', 2)]"

definition ex_T :: block_tree where
  "ex_T = map_of ex_tree"

definition ex_block :: "string \<Rightarrow> BlockData" where
  "ex_block h = (case map_of ex_tree h of
     None \<Rightarrow> empty_block
   | Some (p, n) \<Rightarrow> empty_block\<lparr>blk_hash := h, blk_parent := p, blk_height := n\<rparr>)"

definition ex_codec :: codec where
  "ex_codec = \<lparr>json_write = (\<lambda>_. ''null''), json_read = (\<lambda>_. Some JNull), SerializeToString = pb_hash,
     ParseFromString = (\<lambda>d. case map_of ex_tree d of
       None \<Rightarrow> None
     | Some (p, n) \<Rightarrow> Some \<lparr>pb_hash = d, pb_parent = p, pb_height = n, pb_rngseed = '''', pb_metadata = ''null'',
                            pb_moves = []\<rparr>)\<rparr>"

definition ex_row :: "string \<Rightarrow> nat \<Rightarrow> dbrow" where
  "ex_row h branch = \<lparr>r_hash = h, r_parent = blk_parent (ex_block h), r_height = blk_height (ex_block h),
     r_branch = branch, r_data = h\<rparr>"

definition ex_chain :: "(string \<times> nat) list \<Rightarrow> chainstate" where
  "ex_chain rs = \<lparr>blocks = map (\<lambda>(h, b). ex_row h b) rs, variables = [], savepoints = []\<rparr>"

text \<open>The base chain: \<open>g\<close>, \<open>a1\<close>, \<open>a2\<close>, \<open>a3\<close>; the local chains on the other branch.\<close>

definition ex_base :: TestBaseChain where
  "ex_base = TestBaseChain_new\<lparr>tc_chain := ex_chain [(''g'', 0), (''a1'', 0), (''a2'', 0), (''a3'', 0)],
     tc_blocks := (\<lambda>h. if map_of ex_tree h = None then None else Some (ex_block h))\<rparr>"

definition ex_local :: chainstate where
  "ex_local = ex_chain [(''g'', 0), (''b1'', 0), (''b2'', 0)]"

definition ex_forked :: chainstate where
  "ex_forked = ex_chain [(''g'', 0), (''a1'', 0), (''a2'', 0), (''b1'', 1), (''b2'', 1)]"

lemmas ex_defs = ex_tree_def ex_T_def ex_block_def ex_codec_def ex_row_def ex_chain_def ex_base_def ex_local_def
  ex_forked_def TestBaseChain_new_def empty_block_def

subsection \<open>They satisfy the invariants\<close>

lemma ex_read_row:
  "h \<in> fst ` set ex_tree \<Longrightarrow> read_row ex_codec (ex_row h b) = Inr (ex_block h)"
  by (auto simp: ex_defs read_row_def Deserialise_def LoadJson_def)

lemma ex_row_ok: "h \<in> fst ` set ex_tree \<Longrightarrow> row_ok ex_codec (ex_row h b)"
  by (simp add: row_ok_def ex_read_row)

lemma ex_codec_ok: "h \<in> fst ` set ex_tree \<Longrightarrow> codec_ok ex_codec (ex_block h) \<and> block_wf (ex_block h)"
  by (auto simp: ex_defs codec_ok_def block_wf_def json_stable_def store_block_def StoreJson_def)

text \<open>The part of the invariant that can be evaluated.\<close>

definition ex_shape :: "(string \<times> nat) list \<Rightarrow> bool" where
  "ex_shape rs \<longleftrightarrow> list_all (\<lambda>e. map_of ex_tree (fst e) \<noteq> None) rs \<and>
     (let rows = blocks (ex_chain rs) in
      schema_ok rows \<and> heights_linked rows \<and> branches_contiguous rows \<and> branches_rooted rows \<and> has_main rows)"

lemma ex_height: "blk_height (ex_block h) \<le> 3"
  by (auto simp: ex_defs split: option.split prod.split)

lemma ex_inv: "ex_shape rs \<Longrightarrow> chain_inv ex_codec (ex_chain rs)"
proof -
  assume "ex_shape rs"
  then have known: "\<And>e. e \<in> set rs \<Longrightarrow> fst e \<in> fst ` set ex_tree"
    and shape: "schema_ok (blocks (ex_chain rs))" "heights_linked (blocks (ex_chain rs))"
      "branches_contiguous (blocks (ex_chain rs))" "branches_rooted (blocks (ex_chain rs))" "has_main (blocks (ex_chain rs))"
    by (auto simp: ex_shape_def list_all_iff map_of_eq_None_iff Let_def)
  have "r_height (ex_row h b) \<le> i64_max" for h b using ex_height [of h] by (simp add: ex_row_def)
  then have "heights_bounded (blocks (ex_chain rs))" by (auto simp: heights_bounded_def ex_chain_def)
  moreover have "\<forall>r\<in>set (blocks (ex_chain rs)). row_ok ex_codec r"
    using known by (fastforce simp: ex_chain_def intro!: ex_row_ok)
  ultimately show ?thesis using shape by (simp add: rows_inv_def)
qed

lemma ex_forked_inv: "chain_inv ex_codec ex_forked"
  unfolding ex_forked_def by (rule ex_inv) code_simp

lemma ex_local_inv: "chain_inv ex_codec ex_local"
  unfolding ex_local_def by (rule ex_inv) code_simp

lemma ex_base_ready: "Test_ready ex_codec ex_base"
proof -
  have "chain_inv ex_codec (tc_chain ex_base)"
    unfolding ex_base_def by simp (rule ex_inv, code_simp)
  moreover have "Test_data_ok ex_base" by code_simp
  moreover have "0 \<le> GetTipHeight (tc_chain ex_base)" by code_simp
  ultimately show ?thesis by (simp add: Test_ready_def ex_base_def TestBaseChain_new_def)
qed

lemma ex_view: "Test_view ex_base h = (if h \<le> 3 then Some (ex_block ([''g'', ''a1'', ''a2'', ''a3''] ! h)) else None)"
proof (cases "h \<le> 3")
  case True
  then consider "h = 0" | "h = 1" | "h = 2" | "h = 3" by linarith
  then show ?thesis
  proof cases
    case 1
    have "Test_view ex_base 0 = Some (ex_block ''g'')" by code_simp
    with 1 show ?thesis by simp
  next
    case 2
    have "Test_view ex_base 1 = Some (ex_block ''a1'')" by code_simp
    with 2 show ?thesis by simp
  next
    case 3
    have "Test_view ex_base 2 = Some (ex_block ''a2'')" by code_simp
    with 3 show ?thesis by simp
  next
    case 4
    have "Test_view ex_base 3 = Some (ex_block ''a3'')" by code_simp
    with 4 show ?thesis by simp
  qed
next
  case False
  have "r_height r \<le> 3" if "r \<in> set (blocks (tc_chain ex_base))" for r
    using that ex_height by (auto simp: ex_base_def ex_chain_def ex_row_def)
  with False have none: "filter (\<lambda>r. r_branch r = 0 \<and> r_height r = h) (blocks (tc_chain ex_base)) = []"
    by (auto simp: filter_empty_conv)
  show ?thesis
  proof (cases "h \<le> i64_max")
    case True
    with none False show ?thesis by (simp add: Test_view_def GetHashForHeight_def)
  next
    case big: False
    then show ?thesis using False by (simp add: Test_view_def GetHashForHeight_def Bind_uint64_abort)
  qed
qed

lemma ex_view_block:
  assumes "tc_blocks t = tc_blocks ex_base" "Test_view t h = Some b"
  obtains x where "x \<in> fst ` set ex_tree" "b = ex_block x"
  using assms that by (auto simp: Test_view_def ex_base_def map_of_eq_None_iff split: sum.splits option.splits if_splits)

subsection \<open>A running controller\<close>

definition ex_zlib :: zmq_lib where
  "ex_zlib = \<lparr>json_write = (\<lambda>_. ''null''), json_read = (\<lambda>_. Some JNull), uv_filter = (\<lambda>_. None),
     json_read_strict = (\<lambda>_. None)\<rparr>"

definition ex_pub :: ZmqPub where
  "ex_pub = ZmqPub_new\<lparr>zp_games := [(''demo'', 1)]\<rparr>"

definition ex_run :: "chainstate \<Rightarrow> TestBaseChain run" where
  "ex_run cs = \<lparr>sy_base = ex_base, sy_chain = cs,
     sy_owner = \<lparr>rd_pendings = PendingManager_new ex_pub, rd_requests = 0, rd_cachedChain = '''', rd_cachedVersion = -1\<rparr>,
     sy_numBlocks = 1, sy_nextStartHeight = -1, sy_updater = True, sy_shouldStop = False\<rparr>"

subsection \<open>The local chains and the base chain share the tree\<close>

lemma ex_run_simps [simp]: "sy_base (ex_run cs) = ex_base" "sy_chain (ex_run cs) = cs"
  by (simp_all add: ex_run_def)

lemma ex_tree_ok: "tree_ok ex_T"
  by (auto simp: tree_ok_def ex_T_def ex_tree_def split: if_splits)

lemma ex_base_in_tree: "base_in_tree ex_codec ex_T (Test_view ex_base)"
  unfolding base_in_tree_def
proof (intro allI impI)
  fix h b assume v: "Test_view ex_base h = Some b"
  then have h: "h \<le> 3" "b = ex_block ([''g'', ''a1'', ''a2'', ''a3''] ! h)" by (auto simp: ex_view split: if_splits)
  then consider "h = 0" | "h = 1" | "h = 2" | "h = 3" by linarith
  then have "ex_T (blk_hash b) = Some (blk_parent b, h)"
    using h(2) by cases (simp_all add: ex_T_def ex_block_def ex_tree_def empty_block_def)
  moreover have "codec_ok ex_codec b \<and> block_wf b"
    using ex_view_block [OF refl v] ex_codec_ok by metis
  ultimately show "ex_T (blk_hash b) = Some (blk_parent b, h) \<and> block_wf b \<and> codec_ok ex_codec b" by blast
qed

lemma ex_rows_in_tree:
  assumes "ex_shape rs"
  shows "rows_in_tree ex_T (blocks (ex_chain rs))"
  using assms
  by (fastforce simp: ex_shape_def list_all_iff rows_in_tree_def ex_chain_def ex_row_def ex_T_def ex_block_def)

lemma ex_synced:
  assumes shape: "ex_shape rs" and g: "(''g'', 0) \<in> set rs"
  shows "chain_synced ex_codec ex_T (Test_view ex_base) (ex_chain rs)"
proof -
  have row: "ex_row ''g'' 0 \<in> set (blocks (ex_chain rs))" using g by (force simp: ex_chain_def)
  have "r_branch (ex_row ''g'' 0) = 0" "r_height (ex_row ''g'' 0) = 0" by (simp_all add: ex_defs)
  with GetLowest_le [OF row] GetLowest_obtain [OF row] have "GetLowestUnprunedHeight (ex_chain rs) = 0" by fastforce
  moreover have "blk_hash (ex_block ''g'') = r_hash (ex_row ''g'' 0)" by (simp add: ex_defs)
  ultimately have "root_in_view (Test_view ex_base) (ex_chain rs)"
    using row ex_view [of 0] by (force simp: root_in_view_def ex_row_def ex_block_def ex_tree_def empty_block_def)
  with ex_inv [OF shape] ex_rows_in_tree [OF shape] show ?thesis by (simp add: chain_synced_def)
qed

lemma ex_local_synced: "chain_synced ex_codec ex_T (Test_view ex_base) ex_local"
  unfolding ex_local_def by (rule ex_synced) (code_simp, simp)

lemma ex_forked_synced: "chain_synced ex_codec ex_T (Test_view ex_base) ex_forked"
  unfolding ex_forked_def by (rule ex_synced) (code_simp, simp)

end
