(* ===== verification/PropStore.thy ===== *)
theory PropStore
  imports Examples
begin

text \<open>
  The properties of the components that store blocks: the database wrapper, the block
  serialisation, the chain state and the block cache.
\<close>

subsection \<open>Chain state\<close>


lemma ex_reachable: "chain_reachable ex_codec (ex_chain [(''g'', 0), (''a1'', 2), (''b1'', 0)])"
proof -
  have 1: "chain_step ex_codec Chainstate_new (ex_chain [(''g'', 0)])"
  proof (rule chain_step.import_tip)
    show "import_ok ex_codec Chainstate_new (ex_block ''g'')" by code_simp
    show "ImportTip ex_codec (ex_block ''g'') Chainstate_new = (Inr (), ex_chain [(''g'', 0)])" by code_simp
  qed
  have 2: "chain_step ex_codec (ex_chain [(''g'', 0)]) (ex_chain [(''g'', 0), (''a1'', 0)])"
  proof (rule chain_step.set_tip)
    show "tip_update_ok ex_codec (ex_chain [(''g'', 0)]) (ex_block ''a1'')" by code_simp
    show "SetTip ex_codec (ex_block ''a1'') (ex_chain [(''g'', 0)]) = (Inr (True, ''g''), ex_chain [(''g'', 0), (''a1'', 0)])"
      by code_simp
  qed
  have 3: "chain_step ex_codec (ex_chain [(''g'', 0), (''a1'', 0)]) (ex_chain [(''g'', 0), (''a1'', 2), (''b1'', 0)])"
  proof (rule chain_step.set_tip)
    show "tip_update_ok ex_codec (ex_chain [(''g'', 0), (''a1'', 0)]) (ex_block ''b1'')" by code_simp
    show "SetTip ex_codec (ex_block ''b1'') (ex_chain [(''g'', 0), (''a1'', 0)]) =
        (Inr (True, ''a1''), ex_chain [(''g'', 0), (''a1'', 2), (''b1'', 0)])"
      by code_simp
  qed
  show ?thesis by (rule chain_reachable.next_state [OF chain_reachable.next_state
        [OF chain_reachable.next_state [OF chain_reachable.fresh 1] 2] 3])
qed




text \<open>\<^verbatim>\<open>SetTip\<close> with a block that is unknown and whose parent is unknown returns false and
  leaves the database as it is.\<close>

theorem SetTip_unknown_rejected:
  assumes "chain_inv L cs" "select_tip cs = [old]"
    and "row_at (blocks cs) (blk_hash blk) = None" "row_at (blocks cs) (blk_parent blk) = None"
  shows "SetTip L blk cs = (Inr (False, old), cs)"
  using SetTip_unknown_parent [OF assms(1,3,4,2)] .

theorem SetTip_unknown_rejected_witness: "SetTip ex_codec (ex_block ''a3'') ex_local = (Inr (False, ''b2''), ex_local)"
proof (rule SetTip_unknown_rejected [OF ex_local_inv])
  show "select_tip ex_local = [''b2'']" by code_simp
  show "row_at (blocks ex_local) (blk_hash (ex_block ''a3'')) = None" by code_simp
  show "row_at (blocks ex_local) (blk_parent (ex_block ''a3'')) = None" by code_simp
qed

text \<open>C28.  \<^verbatim>\<open>SetTip\<close> is atomic: when it fails, also in the middle of its update, the content of
  the database file is what it was before the call.\<close>

theorem SetTip_failure_atomic:
  assumes "SetTip L blk cs = (Inl e, cs')"
  shows "committed cs' = committed cs"
  using SetTip_atomic [OF assms] .

definition ex_bad_block :: BlockData where
  "ex_bad_block = (ex_block ''a3'')\<lparr>blk_moves := [\<lparr>mv_txid = ''tx'', mv_ns = ''p'', mv_name = ''domob'', mv_mv = ''{}'',
     mv_burns = [(''x'', JNull), (''x'', JNull)], mv_metadata = JNull\<rparr>]\<rparr>"

theorem SetTip_failure_atomic_witness:
  "fst (SetTip ex_codec ex_bad_block ex_forked) = Inl Abort \<and>
   committed (snd (SetTip ex_codec ex_bad_block ex_forked)) = committed ex_forked"
proof
  show e: "fst (SetTip ex_codec ex_bad_block ex_forked) = Inl Abort" by code_simp
  then show "committed (snd (SetTip ex_codec ex_bad_block ex_forked)) = committed ex_forked"
    by (metis SetTip_failure_atomic prod.collapse)
qed

text \<open>C19.  \<^verbatim>\<open>GetForkBranch\<close> computes the fork branch: the blocks from the given hash down to,
  and not including, the first one on the main chain, by following parent hashes.  It queries the
  database branch by branch; the reference definition goes block by block.  The answer is
  negative exactly when the block is unknown, and the loop ends on every valid database.\<close>

theorem GetForkBranch_reference:
  assumes "chain_inv L cs" "side_path (blocks cs) h rs"
  shows "GetForkBranch L h cs = (Inr (row_at (blocks cs) h \<noteq> None, map (row_block L) rs), cs)"
  using GetForkBranch_eq [OF assms] .

lemma ex_side_path: "side_path (blocks ex_forked) ''b2'' [ex_row ''b2'' 1, ex_row ''b1'' 1]"
proof -
  have stop: "side_path (blocks ex_forked) (r_parent (ex_row ''b1'' 1)) []"
    by (rule side_path.stop) code_simp
  have "side_path (blocks ex_forked) (r_hash (ex_row ''b1'' 1)) [ex_row ''b1'' 1]"
    by (rule side_path.step [OF _ _ stop]) (code_simp, code_simp)
  moreover have "r_parent (ex_row ''b2'' 1) = r_hash (ex_row ''b1'' 1)" by code_simp
  ultimately have s1: "side_path (blocks ex_forked) (r_parent (ex_row ''b2'' 1)) [ex_row ''b1'' 1]" by simp
  have "side_path (blocks ex_forked) (r_hash (ex_row ''b2'' 1)) [ex_row ''b2'' 1, ex_row ''b1'' 1]"
    by (rule side_path.step [OF _ _ s1]) (code_simp, code_simp)
  then show ?thesis by (simp add: ex_row_def)
qed

theorem GetForkBranch_reference_witness:
  "GetForkBranch ex_codec ''b2'' ex_forked =
     (Inr (row_at (blocks ex_forked) ''b2'' \<noteq> None, map (row_block ex_codec) [ex_row ''b2'' 1, ex_row ''b1'' 1]), ex_forked)"
  using GetForkBranch_reference [OF ex_forked_inv ex_side_path] .



text \<open>C30.  \<^verbatim>\<open>Prune\<close> below the tip removes exactly the main-chain blocks up to the given height: the
  tip stays, the lowest unpruned height becomes the maximum of its old value and the first height
  above the bound, and the invariant holds.\<close>

theorem Prune_main_chain:
  assumes "chain_inv L cs" "int h < GetTipHeight cs"
  shows "\<exists>cs'. Prune h cs = (Inr (), cs') \<and> chain_inv L cs' \<and>
    set (blocks cs') = {r \<in> set (blocks cs). r_branch r \<noteq> 0 \<or> h < r_height r} \<and>
    GetTipHeight cs' = GetTipHeight cs \<and>
    GetLowestUnprunedHeight cs' = max (GetLowestUnprunedHeight cs) (int h + 1)"
  using Prune_ok [OF assms] prune_set [of h "blocks cs"] by fastforce

theorem Prune_main_chain_witness:
  "\<exists>cs'. Prune 1 ex_forked = (Inr (), cs') \<and> GetLowestUnprunedHeight cs' = max (GetLowestUnprunedHeight ex_forked) (int 1 + 1)"
proof -
  have "int 1 < GetTipHeight ex_forked" by code_simp
  then show ?thesis using Prune_main_chain [OF ex_forked_inv, of 1] by blast
qed

text \<open>Between the lowest unpruned height and the tip every height of the main chain has
  exactly one block, \<^verbatim>\<open>GetHashForHeight\<close> finds it, and consecutive ones are parent and child.\<close>

theorem main_chain_contiguous:
  assumes "chain_inv L cs" "GetLowestUnprunedHeight cs \<le> int h" "int h < GetTipHeight cs"
  shows "\<exists>(p::dbrow) r. GetHashForHeight h cs = (Inr (Some (r_hash p)), cs) \<and>
     GetHashForHeight (Suc h) cs = (Inr (Some (r_hash r)), cs) \<and> r \<in> set (blocks cs) \<and> r_parent r = r_hash p"
  using main_chain_linked [OF assms] .

theorem main_chain_contiguous_witness:
  "\<exists>(p::dbrow) r. GetHashForHeight 1 ex_forked = (Inr (Some (r_hash p)), ex_forked) \<and>
     GetHashForHeight (Suc 1) ex_forked = (Inr (Some (r_hash r)), ex_forked) \<and> r \<in> set (blocks ex_forked) \<and> r_parent r = r_hash p"
proof (rule main_chain_contiguous [OF ex_forked_inv])
  show "GetLowestUnprunedHeight ex_forked \<le> int 1" by code_simp
  show "int 1 < GetTipHeight ex_forked" by code_simp
qed

subsection \<open>Serialisation\<close>

text \<open>C31.  A block that was serialised is read back unchanged, for every encoder of
  protocol-buffer messages and JSON values that reads back what it wrote for this block.\<close>

theorem BlockData_roundtrip:
  assumes "block_wf b" "codec_ok L b"
  shows "\<exists>d. Serialise L b = Inr d \<and> Deserialise L d = Inr b"
  using Serialise_Deserialise [OF assms] .

theorem BlockData_roundtrip_witness:
  "\<exists>d. Serialise ex_codec (ex_block ''a2'') = Inr d \<and> Deserialise ex_codec d = Inr (ex_block ''a2'')"
proof (rule BlockData_roundtrip)
  show "block_wf (ex_block ''a2'')" by code_simp
  show "codec_ok ex_codec (ex_block ''a2'')" by code_simp
qed

subsection \<open>Prepared statements\<close>

text \<open>C33.  The cache of prepared statements is sound however the database was used before: a
  statement that some live handle uses cannot be prepared again (the \<^verbatim>\<open>CHECK\<close> of \<^verbatim>\<open>Acquire\<close> ends
  the process), and any other one that SQLite compiles is handed out clean: no parameter of an earlier
  use is bound, so that binding any valid parameter succeeds.\<close>

theorem prepared_statement_clean:
  assumes "db_reachable hs db" "can sql" "bind_ok sql ind"
  shows "if sql \<in> set (live_entries hs) then PrepareRo can sql db = (Inl Abort, db)
    else \<exists>db' db''. PrepareRo can sql db = (Inr (Some sql), db') \<and> clean sql db' \<and>
      Bind_value bind_ok (Some sql) ind v db' = (Inr (), db'') \<and> db_reachable (Some sql # hs) db''"
proof (cases "sql \<in> set (live_entries hs)")
  case True
  then show ?thesis using PrepareRo_in_use [OF db_reachable_inv [OF assms(1)]] by simp
next
  case False
  obtain db' where p: "PrepareRo can sql db = (Inr (Some sql), db')" "clean sql db'"
    using PrepareRo_clean [where can = can, OF db_reachable_inv [OF assms(1)] False assms(2)] by blast
  then obtain db'' where b: "Bind_value bind_ok (Some sql) ind v db' = (Inr (), db'')"
    using assms(3) by (auto simp: Bind_value_eq clean_def)
  have "db_reachable (Some sql # hs) db''"
    by (rule db_reachable.bound [OF db_reachable.prepared [OF assms(1) p(1)] _ b]) simp
  with p b False show ?thesis by auto
qed

definition ex_env :: sqlite_env where
  "ex_env = \<lparr>sq_header_version = 3, sq_library_version = 3, sq_multithread_ok = True,
     sq_open_ok = (\<lambda>_. True), sq_open_handle = (\<lambda>_. True)\<rparr>"

definition ex_db :: Database where
  "ex_db = \<lparr>statements = [(''SELECT 1'', False), (''SELECT 2'', True)], db_bound = [], db_active = []\<rparr>"

text \<open>Two statements are prepared; the first one is used and destroyed again.\<close>

lemma ex_db_reachable: "db_reachable [Some ''SELECT 2''] ex_db"
proof -
  let ?all = "\<lambda>_. True" and ?none = "\<lparr>statements = [], db_bound = [], db_active = []\<rparr> :: Database"
  let ?db1 = "\<lparr>statements = [(''SELECT 1'', True)], db_bound = [], db_active = []\<rparr> :: Database"
  let ?db2 = "\<lparr>statements = [(''SELECT 1'', True), (''SELECT 2'', True)], db_bound = [], db_active = []\<rparr> :: Database"
  let ?db3 = "?db2\<lparr>db_bound := [(''SELECT 1'', 1, SQ_INTEGER 5)]\<rparr>"
  have "Database_new ex_env ''f'' False = (Inr ?none, True)" by code_simp
  then have "db_reachable [] ?none" by (rule db_reachable.opened)
  moreover have "PrepareRo ?all ''SELECT 1'' ?none = (Inr (Some ''SELECT 1''), ?db1)" by code_simp
  ultimately have "db_reachable [Some ''SELECT 1''] ?db1" by (rule db_reachable.prepared)
  moreover have "PrepareRo ?all ''SELECT 2'' ?db1 = (Inr (Some ''SELECT 2''), ?db2)" by code_simp
  ultimately have "db_reachable [Some ''SELECT 2'', Some ''SELECT 1''] ?db2" by (rule db_reachable.prepared)
  moreover have "Bind_value (\<lambda>_ _. True) (Some ''SELECT 1'') 1 (SQ_INTEGER 5) ?db2 = (Inr (), ?db3)" by code_simp
  ultimately have "db_reachable [Some ''SELECT 2'', Some ''SELECT 1''] ?db3"
    by (rule_tac db_reachable.bound) auto
  moreover have "Statement_Step (\<lambda>_. SQLITE_DONE) (Some ''SELECT 1'') ?db3 = (Inr False, ?db3\<lparr>db_active := [''SELECT 1'']\<rparr>)" by code_simp
  ultimately have "db_reachable [Some ''SELECT 2'', Some ''SELECT 1''] (?db3\<lparr>db_active := [''SELECT 1'']\<rparr>)"
    by (rule_tac db_reachable.stepped) auto
  then have "db_reachable [Some ''SELECT 1'', Some ''SELECT 2''] (?db3\<lparr>db_active := [''SELECT 1'']\<rparr>)"
    using db_reachable.reordered [of "[Some ''SELECT 2'']" "Some ''SELECT 1''" "[]"] by simp
  moreover have "Statement_destroy (Some ''SELECT 1'') (?db3\<lparr>db_active := [''SELECT 1'']\<rparr>) = (Inr (), ex_db)" by code_simp
  ultimately show ?thesis by (rule db_reachable.destroyed)
qed

theorem prepared_statement_clean_witness:
  "PrepareRo (\<lambda>_. True) ''SELECT 2'' ex_db = (Inl Abort, ex_db) \<and>
   (\<exists>db'. PrepareRo (\<lambda>_. True) ''SELECT 1'' ex_db = (Inr (Some ''SELECT 1''), db') \<and> clean ''SELECT 1'' db')"
  using prepared_statement_clean [OF ex_db_reachable, of "\<lambda>_. True" "''SELECT 2''" "\<lambda>_ _. True"]
    prepared_statement_clean [OF ex_db_reachable, of "\<lambda>_. True" "''SELECT 1''" "\<lambda>_ _. True"]
  by auto

text \<open>C34.  Destroying all handles, in any order, and then closing the database never fails, however the
  database was used: no statement is left marked as used, which is what the destructor of an entry checks,
  and none is left prepared.\<close>

theorem Database_teardown_ok:
  assumes "db_reachable hs db"
  shows "\<exists>db'. thenM (forM hs Statement_destroy) Database_close db = (Inr (), db') \<and>
    statements db' = [] \<and> db_bound db' = [] \<and> db_active db' = []"
proof -
  obtain db1 where db1: "forM hs Statement_destroy db = (Inr (), db1)" "Database_inv [] db1"
    using Statements_destroyed [of hs "[]" db] db_reachable_inv [OF assms] by auto
  then show ?thesis using Database_close_ok [of "[]" db1] by (simp add: Database_inv_def)
qed

theorem Database_teardown_ok_witness:
  "\<exists>db'. thenM (forM [Some ''SELECT 2''] Statement_destroy) Database_close ex_db = (Inr (), db') \<and> statements db' = []"
  using Database_teardown_ok [OF ex_db_reachable] by auto

subsection \<open>The block cache\<close>

text \<open>C21.  The cache is transparent: over every base chain that keeps its contract and with the in-memory
  storage, a range query returns exactly the blocks the base chain has, whether they come from the
  storage or from the base chain; the cache stays valid, and only blocks at least \<^verbatim>\<open>minDepth\<close>
  below the last known tip are added to the storage.\<close>

theorem block_cache_transparent:
  assumes "base_chain bc view tip ready" "cache_valid view ready map_of Mem_inv Mem_block minDepth c"
    and "start + count \<le> i64_max"
  shows "\<exists>c'. Cache_GetBlockRange bc InMemoryBlockStorage minDepth start count c =
       (Inr (block_slice (view (cc_base c)) start count), c') \<and>
     cache_valid view ready map_of Mem_inv Mem_block minDepth c' \<and> view (cc_base c') = view (cc_base c) \<and>
     (\<forall>h b. map_of (cc_store c') h = Some b \<longrightarrow> map_of (cc_store c) h = Some b \<or> h + minDepth \<le> cc_lastTipHeight c)"
proof -
  have "block_cache bc view tip ready InMemoryBlockStorage map_of Mem_inv Mem_block"
    using assms(1) mem.block_storage_axioms by (simp add: block_cache_def)
  from block_cache.cache_range_full [OF this assms(2,3)] show ?thesis
    by (auto simp: BlockCacheChain_def)
qed

definition ex_cache :: "(TestBaseChain, mem_store) cache_state" where
  "ex_cache = \<lparr>cc_base = ex_base, cc_store = [(0, ex_block ''g'')], cc_lastTipHeight = 3\<rparr>"

theorem block_cache_transparent_witness:
  "\<exists>c'. Cache_GetBlockRange TestChain InMemoryBlockStorage 1 0 2 ex_cache =
       (Inr (block_slice (Test_view ex_base) 0 2), c') \<and> cache_valid Test_view (Test_ready ex_codec) map_of Mem_inv Mem_block 1 c'"
proof -
  have "Mem_inv [(0, ex_block ''g'')]" by code_simp
  moreover have "Mem_block b" if "Test_view ex_base h = Some b" for h b
    using that ex_height [of "[''g'', ''a1'', ''a2'', ''a3''] ! h"] by (auto simp: ex_view Mem_block_def split: if_splits)
  ultimately have "cache_valid Test_view (Test_ready ex_codec) map_of Mem_inv Mem_block 1 ex_cache"
    by (auto simp: cache_valid_def ex_cache_def ex_base_ready cache_agrees_def ex_view)
  from block_cache_transparent [OF test.base_chain_axioms this, of 0 2] show ?thesis
    by (auto simp: ex_cache_def)
qed


definition ex_my_cache :: "(TestBaseChain, mysql) cache_state" where
  "ex_my_cache = \<lparr>cc_base = ex_base, cc_store = \<lparr>my_rows = [(0, ''g'')], my_outcomes = [True, False]\<rparr>, cc_lastTipHeight = 3\<rparr>"

text \<open>The base chain with its last block taken off.\<close>

definition ex_shorter :: TestBaseChain where
  "ex_shorter = ex_base\<lparr>tc_chain := ex_chain [(''g'', 0), (''a1'', 0), (''a2'', 0), (''a3'', 1)]\<rparr>"

lemma ex_shorter_ready: "Test_ready ex_codec ex_shorter"
proof -
  have "chain_inv ex_codec (tc_chain ex_shorter)"
    unfolding ex_shorter_def by simp (rule ex_inv, code_simp)
  moreover have "Test_data_ok ex_shorter" by code_simp
  moreover have "0 \<le> GetTipHeight (tc_chain ex_shorter)" by code_simp
  ultimately show ?thesis by (simp add: Test_ready_def ex_shorter_def ex_base_def TestBaseChain_new_def)
qed


end
