(* ===== verification/Subscriber.thy ===== *)
theory Subscriber
  imports ZmqPub
begin

text \<open>
  \<^verbatim>\<open>TestZmqSubscriber\<close> of \<^verbatim>\<open>src/testutils.cpp\<close>: the reference for what a client of the publisher
  does.  The socket is the list of messages that are on their way, each a list of parts.  The receiver
  takes one message per pass, checks its parts and its sequence number and puts it into the queue of
  its topic, from which \<^verbatim>\<open>AwaitMessages\<close> takes it.  A failed \<^verbatim>\<open>ASSERT\<close> ends the receiver with a test failure.
  What the publisher sends is what the subscriber receives, for every sequence of operations.
\<close>

subsection \<open>The messages on the wire\<close>

definition text_of_bytes :: "8 word list \<Rightarrow> string" where
  "text_of_bytes bs = map (\<lambda>b. char_of (unat b)) bs"

definition bytes_of_text :: "string \<Rightarrow> 8 word list" where
  "bytes_of_text s = map (\<lambda>c. word_of_nat (of_char c)) s"

fun wire_parts :: "zmq_msg \<Rightarrow> string list" where
  "wire_parts (cmd, data, seqBytes) = [cmd, data, text_of_bytes seqBytes]"

subsection \<open>The subscriber\<close>

record TestZmqSubscriber =
  ts_socket :: "string list list"
  ts_nextSeq :: "(string \<times> 32 word) list"
  ts_messages :: "(string \<times> json list) list"
  ts_shouldStop :: bool

definition TestZmqSubscriber_new :: TestZmqSubscriber where
  "TestZmqSubscriber_new = \<lparr>ts_socket = [], ts_nextSeq = [], ts_messages = [], ts_shouldStop = False\<rparr>"

definition ASSERT :: "bool \<Rightarrow> ('s, unit) prog" where
  "ASSERT b = (if b then ret () else failM (Throw (StdException ''ASSERT'')))"

text \<open>\<open>rd\<close> is the extraction operator of jsoncpp, which throws for invalid text.\<close>

definition ParseJson :: "(string \<Rightarrow> json option) \<Rightarrow> string \<Rightarrow> ('s, json) prog" where
  "ParseJson rd str =
     (case rd str of None \<Rightarrow> failM (Throw (StdException ''Json::RuntimeError'')) | Some j \<Rightarrow> ret j)"

definition ts_seq :: "string \<Rightarrow> TestZmqSubscriber \<Rightarrow> 32 word" where
  "ts_seq t s = case_option 0 id (map_of (ts_nextSeq s) t)"

definition ts_queue :: "string \<Rightarrow> TestZmqSubscriber \<Rightarrow> json list" where
  "ts_queue t s = case_option [] id (map_of (ts_messages s) t)"

text \<open>One message: the three parts, the sequence number, the queue of the topic.\<close>

fun receive_parts :: "(string \<Rightarrow> json option) \<Rightarrow> string list \<Rightarrow> (TestZmqSubscriber, unit) prog" where
  "receive_parts rd [] = ret ()"
| "receive_parts rd [t] = ASSERT False"
| "receive_parts rd [t, data] = ASSERT False"
| "receive_parts rd (t # data # seqPart # rest) =
     thenM (ASSERT (length seqPart = 4))
    (thenM (ASSERT (rest = []))
    (thenM (modifyM (\<lambda>s. s\<lparr>ts_nextSeq := smap_emplace t 0 (ts_nextSeq s)\<rparr>))
    (bindM (getM (ts_seq t)) (\<lambda>expected.
     thenM (ASSERT (decode_seq (bytes_of_text seqPart) = expected))
    (thenM (modifyM (\<lambda>s. s\<lparr>ts_nextSeq := smap_set t (expected + 1) (ts_nextSeq s)\<rparr>))
    (bindM (ParseJson rd data) (\<lambda>j.
     modifyM (\<lambda>s. s\<lparr>ts_messages := smap_set t (ts_queue t s @ [j]) (ts_messages s)\<rparr>))))))))"

text \<open>One pass of the loop; without a message it sleeps.\<close>

definition receive_pass :: "(string \<Rightarrow> json option) \<Rightarrow> (TestZmqSubscriber, unit) prog" where
  "receive_pass rd =
     bindM (getM ts_socket) (\<lambda>w.
       case w of
         [] \<Rightarrow> ret ()
       | m # ms \<Rightarrow> thenM (modifyM (\<lambda>s. s\<lparr>ts_socket := ms\<rparr>)) (receive_parts rd m))"

text \<open>The loop, for at most the given number of passes.\<close>

fun ReceiveLoop :: "nat \<Rightarrow> (string \<Rightarrow> json option) \<Rightarrow> (TestZmqSubscriber, unit) prog" where
  "ReceiveLoop 0 rd = ret ()"
| "ReceiveLoop (Suc n) rd =
     bindM (getM ts_shouldStop) (\<lambda>stop. if stop then ret () else thenM (receive_pass rd) (ReceiveLoop n rd))"

text \<open>While \<^verbatim>\<open>AwaitMessages\<close> waits on an empty queue, the receiver runs; the fuel bounds the passes and
  the messages taken, and running out of it is waiting forever.\<close>

fun await_loop :: "nat \<Rightarrow> (string \<Rightarrow> json option) \<Rightarrow> string \<Rightarrow> nat \<Rightarrow> json list \<Rightarrow> (TestZmqSubscriber, json list) prog" where
  "await_loop 0 rd cmd num res = (if length res < num then failM Diverges else ret res)"
| "await_loop (Suc n) rd cmd num res =
     (if length res < num then
        bindM (getM (ts_queue cmd)) (\<lambda>q.
          case q of
            [] \<Rightarrow> thenM (receive_pass rd) (await_loop n rd cmd num res)
          | j # js \<Rightarrow>
              thenM (modifyM (\<lambda>s. s\<lparr>ts_messages := smap_set cmd js (ts_messages s)\<rparr>))
                (await_loop n rd cmd num (res @ [j])))
      else ret res)"

definition AwaitMessages :: "nat \<Rightarrow> (string \<Rightarrow> json option) \<Rightarrow> string \<Rightarrow> nat \<Rightarrow> (TestZmqSubscriber, json list) prog" where
  "AwaitMessages fuel rd cmd num = await_loop fuel rd cmd num []"

definition ForgetAll :: "(TestZmqSubscriber, unit) prog" where
  "ForgetAll = modifyM (\<lambda>s. s\<lparr>ts_messages := []\<rparr>)"

text \<open>The destructor stops the receiver and expects that no message is left; the result says whether
  the expectation holds.\<close>

definition TestZmqSubscriber_destroy :: "(TestZmqSubscriber, bool) prog" where
  "TestZmqSubscriber_destroy =
     thenM (modifyM (\<lambda>s. s\<lparr>ts_shouldStop := True\<rparr>))
       (getM (\<lambda>s. list_all (\<lambda>m. snd m = []) (ts_messages s)))"

subsection \<open>Bytes and text\<close>

lemma bytes_of_text_of_bytes [simp]: "bytes_of_text (text_of_bytes bs) = bs"
proof -
  have "unat (b :: 8 word) mod 256 = unat b" for b using unsigned_less [of b, where ?'a = nat] by simp
  then have "word_of_nat (of_char (char_of (unat b))) = b" for b :: "8 word" by simp
  then show ?thesis by (simp add: bytes_of_text_def text_of_bytes_def comp_def)
qed

lemma length_text_of_bytes [simp]: "length (text_of_bytes bs) = length bs"
  by (simp add: text_of_bytes_def)

subsection \<open>What the publisher puts on the wire\<close>

definition four_bytes :: "ZmqPub \<Rightarrow> bool" where
  "four_bytes z \<longleftrightarrow> list_all (\<lambda>m. length (snd (snd m)) = 4) (zp_sent z)"

lemma seq_loop_length [simp]: "length (fst (seq_loop n s)) = n"
  by (induction n arbitrary: s) (simp_all add: Let_def case_prod_unfold)

lemma SendMessage_bytes: "keepsM four_bytes (SendMessage Z cmd data)"
  unfolding keepsM_def
proof (intro allI impI)
  fix z assume z: "four_bytes z"
  show "four_bytes (snd (SendMessage Z cmd data z))"
  proof (rule SendMessage_cases [of Z cmd data z])
    fix z' assume "SendMessage Z cmd data z = (Inr (), z')"
      "zp_sent z' = zp_sent z @ [(cmd, json_write Z data, fst (seq_loop 4 (next_seq cmd z)))]"
    then show ?thesis using z by (simp add: four_bytes_def)
  next
    fix z' assume "SendMessage Z cmd data z = (Inl (Throw ZmqException), z')" "zp_sent z' = zp_sent z"
    then show ?thesis using z by (simp add: four_bytes_def)
  qed
qed

lemma zmq_reachable_bytes: "zmq_reachable Z z \<Longrightarrow> four_bytes z"
  by (erule zmq_reachable_keeps [OF _ _ SendMessage_bytes]) (simp_all add: four_bytes_def ZmqPub_new_def)

subsection \<open>The receiver\<close>

text \<open>The messages of a topic and what they contain.\<close>

definition on_topic :: "string \<Rightarrow> zmq_msg list \<Rightarrow> zmq_msg list" where
  "on_topic t ms = filter (\<lambda>m. fst m = t) ms"

definition contents :: "(string \<Rightarrow> json option) \<Rightarrow> string \<Rightarrow> zmq_msg list \<Rightarrow> json list" where
  "contents rd t ms = map (\<lambda>m. the (rd (fst (snd m)))) (on_topic t ms)"

lemma on_topic_append [simp]: "on_topic t (xs @ ys) = on_topic t xs @ on_topic t ys"
  by (simp add: on_topic_def)

lemma contents_append [simp]: "contents rd t (xs @ ys) = contents rd t xs @ contents rd t ys"
  by (simp add: contents_def)

text \<open>Messages that can be received in order: readable, and numbered consecutively on every topic.\<close>

definition numbered :: "zmq_msg list \<Rightarrow> bool" where
  "numbered ms \<longleftrightarrow>
     (\<forall>k < length ms. length (snd (snd (ms ! k))) = 4 \<and>
        decode_seq (snd (snd (ms ! k))) = word_of_nat (length (on_topic (fst (ms ! k)) (take k ms))))"

lemma filter_take_length: "k < length xs \<Longrightarrow> P (xs ! k) \<Longrightarrow> length (filter P (take k xs)) < length (filter P xs)"
proof -
  assume "k < length xs" "P (xs ! k)"
  then have "filter P xs = filter P (take k xs) @ xs ! k # filter P (drop (Suc k) xs)"
    by (metis filter.simps(2) filter_append id_take_nth_drop)
  then show ?thesis by simp
qed

lemma filter_nth_take: "k < length xs \<Longrightarrow> P (xs ! k) \<Longrightarrow> filter P xs ! length (filter P (take k xs)) = xs ! k"
  by (subst id_take_nth_drop [of k xs]) (simp_all add: nth_append)

lemma seq_inv_numbered:
  assumes "seq_inv z" "four_bytes z"
  shows "numbered (zp_sent z)"
  unfolding numbered_def
proof (intro allI impI conjI)
  fix k assume k: "k < length (zp_sent z)"
  let ?m = "zp_sent z ! k" and ?ms = "zp_sent z"
  let ?P = "\<lambda>m. fst m = fst ?m"
  show "length (snd (snd ?m)) = 4" using assms(2) k by (simp add: four_bytes_def list_all_length)
  let ?n = "length (filter ?P (take k ?ms))"
  have n: "?n < length (filter ?P ?ms)" "filter ?P ?ms ! ?n = ?m"
    using filter_take_length [of k ?ms ?P] filter_nth_take [of k ?ms ?P] k by auto
  have len: "?n < length (topic_seqs (fst ?m) z)" using n(1) by (simp add: topic_seqs_def)
  have "topic_seqs (fst ?m) z = map word_of_nat [0..<length (topic_seqs (fst ?m) z)]"
    using assms(1) unfolding seq_inv_def by blast
  then have "topic_seqs (fst ?m) z ! ?n = map word_of_nat [0..<length (topic_seqs (fst ?m) z)] ! ?n" by (rule arg_cong)
  also have "\<dots> = word_of_nat ?n" using len by simp
  finally show "decode_seq (snd (snd ?m)) = word_of_nat (length (on_topic (fst ?m) (take k ?ms)))"
    using n by (simp add: topic_seqs_def on_topic_def)
qed

text \<open>The state of a subscriber that has received \<open>k\<close> of the messages \<open>ms\<close> and taken \<open>p t\<close> of those on
  topic \<open>t\<close>.\<close>

definition received :: "(string \<Rightarrow> json option) \<Rightarrow> zmq_msg list \<Rightarrow> nat \<Rightarrow> (string \<Rightarrow> nat) \<Rightarrow> TestZmqSubscriber \<Rightarrow> bool" where
  "received rd ms k p s \<longleftrightarrow>
     k \<le> length ms \<and> ts_socket s = map wire_parts (drop k ms) \<and>
     (\<forall>t. ts_seq t s = word_of_nat (length (on_topic t (take k ms))) \<and>
        p t \<le> length (contents rd t (take k ms)) \<and> ts_queue t s = drop (p t) (contents rd t (take k ms)))"

lemma receive_pass_ok:
  assumes inv: "received rd ms k p s" and k: "k < length ms" and num: "numbered ms"
    and rd: "\<forall>m\<in>set ms. rd (fst (snd m)) \<noteq> None"
  shows "\<exists>s'. receive_pass rd s = (Inr (), s') \<and> received rd ms (Suc k) p s' \<and> ts_shouldStop s' = ts_shouldStop s"
proof -
  obtain t d bs where m: "ms ! k = (t, d, bs)" by (cases "ms ! k")
  obtain j where j: "rd d = Some j" using rd k m nth_mem [OF k] by force
  have take: "take (Suc k) ms = take k ms @ [(t, d, bs)]" using k m by (simp add: take_Suc_conv_app_nth)
  have sock: "ts_socket s = [t, d, text_of_bytes bs] # map wire_parts (drop (Suc k) ms)"
    using inv k m by (simp add: received_def Cons_nth_drop_Suc [symmetric])
  have seq: "length bs = 4" "decode_seq bs = ts_seq t s"
    using num k m inv by (auto simp: numbered_def received_def)
  let ?s1 = "s\<lparr>ts_socket := map wire_parts (drop (Suc k) ms), ts_nextSeq := smap_emplace t 0 (ts_nextSeq s)\<rparr>"
  have s1: "ts_seq u ?s1 = ts_seq u s" "ts_queue u ?s1 = ts_queue u s" for u
    by (auto simp: ts_seq_def ts_queue_def split: option.split)
  let ?s2 = "?s1\<lparr>ts_nextSeq := smap_set t (ts_seq t s + 1) (ts_nextSeq ?s1)\<rparr>"
  let ?s' = "?s2\<lparr>ts_messages := smap_set t (ts_queue t s @ [j]) (ts_messages s)\<rparr>"
  have "ts_queue t ?s2 = ts_queue t s" by (simp add: ts_queue_def)
  then have run: "receive_pass rd s = (Inr (), ?s')"
    using sock seq s1 j by (simp add: receive_pass_def ASSERT_def ParseJson_def)
  have "ts_seq u ?s' = (if u = t then ts_seq t s + 1 else ts_seq u s)" for u
    by (simp add: ts_seq_def split: option.split)
  moreover have "ts_queue u ?s' = (if u = t then ts_queue t s @ [j] else ts_queue u s)" for u
    by (simp add: ts_queue_def split: option.split)
  ultimately have "received rd ms (Suc k) p ?s'"
    using inv k j unfolding received_def take by (auto simp: on_topic_def contents_def add.commute intro: le_SucI)
  with run show ?thesis by auto
qed

text \<open>The loop receives all messages.\<close>

lemma ReceiveLoop_ok:
  assumes "received rd ms k p s" "numbered ms" "\<forall>m\<in>set ms. rd (fst (snd m)) \<noteq> None" "\<not> ts_shouldStop s"
    and "n = length ms - k"
  shows "\<exists>s'. ReceiveLoop n rd s = (Inr (), s') \<and> received rd ms (length ms) p s'"
  using assms(1,4,5)
proof (induction n arbitrary: k s)
  case 0
  then have "k = length ms" by (simp add: received_def)
  with 0 show ?case by auto
next
  case (Suc n)
  then have "k < length ms" by simp
  from receive_pass_ok [OF Suc.prems(1) this assms(2,3)] obtain s1 where
      s1: "receive_pass rd s = (Inr (), s1)" "received rd ms (Suc k) p s1" "\<not> ts_shouldStop s1" using Suc.prems(2) by auto
  have "n = length ms - Suc k" using Suc.prems(3) by simp
  from Suc.IH [OF s1(2,3) this] s1(1) Suc.prems(2) show ?case by simp
qed

text \<open>Taking a message from the queue of its topic.\<close>

lemma contents_split: "contents rd cmd ms = contents rd cmd (take k ms) @ contents rd cmd (drop k ms)"
  by (metis append_take_drop_id contents_append)

lemma received_pop:
  assumes inv: "received rd ms k p s" and q: "ts_queue cmd s = j # js"
  shows "received rd ms k (p(cmd := Suc (p cmd))) (s\<lparr>ts_messages := smap_set cmd js (ts_messages s)\<rparr>)"
    "drop (p cmd) (contents rd cmd ms) = j # drop (Suc (p cmd)) (contents rd cmd ms)"
proof -
  let ?C = "contents rd cmd (take k ms)"
  have dq: "drop (p cmd) ?C = j # js" using inv q by (simp add: received_def)
  then have lt: "p cmd < length ?C" by (cases "p cmd < length ?C") auto
  have jq: "j = ?C ! p cmd" "js = drop (Suc (p cmd)) ?C" using dq Cons_nth_drop_Suc [OF lt, symmetric] by auto
  have "ts_queue u (s\<lparr>ts_messages := smap_set cmd js (ts_messages s)\<rparr>) = (if u = cmd then js else ts_queue u s)"
    "ts_seq u (s\<lparr>ts_messages := smap_set cmd js (ts_messages s)\<rparr>) = ts_seq u s" for u
    by (simp_all add: ts_queue_def ts_seq_def)
  then show "received rd ms k (p(cmd := Suc (p cmd))) (s\<lparr>ts_messages := smap_set cmd js (ts_messages s)\<rparr>)"
    using inv lt jq(2) by (auto simp: received_def)
  have "j = contents rd cmd ms ! p cmd" using jq(1) lt contents_split [of rd cmd ms k] by (simp add: nth_append)
  then show "drop (p cmd) (contents rd cmd ms) = j # drop (Suc (p cmd)) (contents rd cmd ms)"
    using lt contents_split [of rd cmd ms k] Cons_nth_drop_Suc [of "p cmd" "contents rd cmd ms"] by simp
qed

text \<open>Waiting for messages ends, with the next ones of the topic.\<close>

lemma await_loop_ok:
  assumes "received rd ms k p s" "numbered ms" "\<forall>m\<in>set ms. rd (fst (snd m)) \<noteq> None"
    and "length res \<le> num" "p cmd + (num - length res) \<le> length (contents rd cmd ms)"
    and "(num - length res) + (length ms - k) \<le> n"
  shows "\<exists>s' k'. await_loop n rd cmd num res s =
      (Inr (res @ take (num - length res) (drop (p cmd) (contents rd cmd ms))), s') \<and>
    received rd ms k' (p(cmd := p cmd + (num - length res))) s'"
  using assms(1,4,5,6)
proof (induction n arbitrary: k p s res)
  case 0
  then show ?case by auto
next
  case (Suc n)
  show ?case
  proof (cases "length res < num")
    case False
    with Suc.prems show ?thesis by auto
  next
    case short: True
    show ?thesis
    proof (cases "ts_queue cmd s")
      case Nil
      then have "length (contents rd cmd (take k ms)) = p cmd"
        using Suc.prems(1) by (simp add: received_def) (metis le_antisym)
      then have "contents rd cmd (drop k ms) \<noteq> []" using short Suc.prems(2,3) contents_split [of rd cmd ms k] by auto
      then have k: "k < length ms" by (cases "k < length ms") (auto simp: contents_def on_topic_def)
      from receive_pass_ok [OF Suc.prems(1) k assms(2,3)] obtain s1 where
          s1: "receive_pass rd s = (Inr (), s1)" "received rd ms (Suc k) p s1" by auto
      have "num - length res + (length ms - Suc k) \<le> n" using Suc.prems(4) k by simp
      from Suc.IH [OF s1(2) Suc.prems(2,3) this] s1(1) Nil short show ?thesis by simp
    next
      case (Cons j js)
      let ?p1 = "p(cmd := Suc (p cmd))"
      note pop = received_pop [OF Suc.prems(1) Cons]
      have num: "num - length res = Suc (num - length (res @ [j]))" using short by simp
      have "await_loop (Suc n) rd cmd num res s =
          await_loop n rd cmd num (res @ [j]) (s\<lparr>ts_messages := smap_set cmd js (ts_messages s)\<rparr>)"
        using short Cons by simp
      moreover have "\<exists>s' k'. await_loop n rd cmd num (res @ [j]) (s\<lparr>ts_messages := smap_set cmd js (ts_messages s)\<rparr>) =
          (Inr ((res @ [j]) @ take (num - length (res @ [j])) (drop (?p1 cmd) (contents rd cmd ms))), s') \<and>
        received rd ms k' (?p1(cmd := ?p1 cmd + (num - length (res @ [j])))) s'"
        by (rule Suc.IH [OF pop(1)]) (use short Suc.prems in auto)
      moreover have "?p1(cmd := ?p1 cmd + (num - length (res @ [j]))) = p(cmd := p cmd + (num - length res))"
        unfolding num by (simp add: fun_eq_iff)
      moreover have "(res @ [j]) @ take (num - length (res @ [j])) (drop (?p1 cmd) (contents rd cmd ms)) =
          res @ take (num - length res) (drop (p cmd) (contents rd cmd ms))"
        unfolding pop(2) num by simp
      ultimately show ?thesis by (simp only:)
    qed
  qed
qed

text \<open>A subscriber that is connected before the first message.\<close>

definition subscribed_to :: "ZmqPub \<Rightarrow> TestZmqSubscriber" where
  "subscribed_to z = TestZmqSubscriber_new\<lparr>ts_socket := map wire_parts (zp_sent z)\<rparr>"

lemma subscribed_received: "received rd (zp_sent z) 0 (\<lambda>_. 0) (subscribed_to z)"
  by (simp add: received_def subscribed_to_def TestZmqSubscriber_new_def ts_seq_def ts_queue_def contents_def on_topic_def)

end
