(* ===== verification/PropPublish.thy ===== *)
theory PropPublish
  imports Examples Subscriber
begin

text \<open>
  The properties of the publisher of notifications and of the manager of pending moves.
\<close>

subsection \<open>The publisher\<close>

text \<open>C23.  Whatever methods of the publisher are called, and whichever sends fail, the messages sent
  on a topic carry the sequence numbers 0, 1, 2, ... without gap or repetition (modulo the wrap-around
  of the 32-bit counter), so that a subscriber can detect every lost message.\<close>

theorem sequence_numbers_consecutive:
  assumes "zmq_reachable Z z"
  shows "topic_seqs cmd z = map word_of_nat [0..<length (topic_seqs cmd z)]"
  using zmq_reachable_seq [OF assms] by (simp add: seq_inv_def)

theorem sequence_numbers_consecutive_witness:
  "topic_seqs ''game-block-attach json demo'' (snd (zmq_do ex_zlib (OpAttach (ex_block ''a2'') '''') ex_pub)) = [0]"
proof -
  have "zmq_reachable ex_zlib (ZmqPub_new\<lparr>zp_outcomes := []\<rparr>)" by (rule zmq_reachable.fresh)
  moreover have "zmq_do ex_zlib (OpTrack ''demo'') (ZmqPub_new\<lparr>zp_outcomes := []\<rparr>) = (Inr (), ex_pub)" by code_simp
  ultimately have "zmq_reachable ex_zlib ex_pub" by (rule zmq_reachable.after)
  then have "zmq_reachable ex_zlib (snd (zmq_do ex_zlib (OpAttach (ex_block ''a2'') '''') ex_pub))"
    by (rule zmq_reachable.after) (rule prod.collapse [symmetric])
  note sequence_numbers_consecutive [OF this, of "''game-block-attach json demo''"]
  moreover have "length (topic_seqs ''game-block-attach json demo'' (snd (zmq_do ex_zlib (OpAttach (ex_block ''a2'') '''') ex_pub))) = 1"
    by code_simp
  ultimately show ?thesis by simp
qed

text \<open>C35.  From the publisher to a subscriber: whatever methods were called and whichever sends failed, a
  subscriber that was connected from the start accepts all messages, without a gap in the sequence
  numbers it decodes, and waiting for messages of a topic ends with the first ones that were sent on
  this topic, in order.\<close>

theorem subscriber_gets_messages:
  assumes "zmq_reachable Z z" "\<forall>m\<in>set (zp_sent z). rd (fst (snd m)) \<noteq> None"
    and "num \<le> length (on_topic cmd (zp_sent z))" "num + length (zp_sent z) \<le> fuel"
  shows "\<exists>s'. AwaitMessages fuel rd cmd num (subscribed_to z) = (Inr (take num (contents rd cmd (zp_sent z))), s')"
proof -
  have num: "numbered (zp_sent z)" by (rule seq_inv_numbered [OF zmq_reachable_seq zmq_reachable_bytes]) (rule assms(1))+
  show ?thesis
    using await_loop_ok [OF subscribed_received num assms(2), of "[]" num cmd fuel] assms(3,4)
    by (auto simp: AwaitMessages_def contents_def)
qed

theorem subscriber_gets_messages_witness:
  "\<exists>s'. AwaitMessages 10 (\<lambda>_. Some (JInt 7)) ''game-block-attach json demo'' 1
     (subscribed_to (snd (zmq_do ex_zlib (OpAttach (ex_block ''a2'') '''') ex_pub))) = (Inr [JInt 7], s')"
proof -
  let ?z = "snd (zmq_do ex_zlib (OpAttach (ex_block ''a2'') '''') ex_pub)"
  have "zmq_reachable ex_zlib (ZmqPub_new\<lparr>zp_outcomes := []\<rparr>)" by (rule zmq_reachable.fresh)
  moreover have "zmq_do ex_zlib (OpTrack ''demo'') (ZmqPub_new\<lparr>zp_outcomes := []\<rparr>) = (Inr (), ex_pub)" by code_simp
  ultimately have "zmq_reachable ex_zlib ex_pub" by (rule zmq_reachable.after)
  then have r: "zmq_reachable ex_zlib ?z" by (rule zmq_reachable.after) (rule prod.collapse [symmetric])
  have "length (on_topic ''game-block-attach json demo'' (zp_sent ?z)) = 1" "length (zp_sent ?z) = 1"
    "contents (\<lambda>_. Some (JInt 7)) ''game-block-attach json demo'' (zp_sent ?z) = [JInt 7]"
    by (code_simp, code_simp, code_simp)
  with subscriber_gets_messages [OF r, of "\<lambda>_. Some (JInt 7)" 1 "''game-block-attach json demo''" 10] show ?thesis by simp
qed


definition ex_movelib :: zmq_lib where
  "ex_movelib = ex_zlib\<lparr>uv_filter := Some,
     json_read_strict := (\<lambda>s. if s = ''m'' then Some (JObject [(''g'', JObject [(''demo'', JInt 42), (''other'', JInt 5)])]) else None)\<rparr>"

definition ex_move :: MoveData where
  "ex_move = \<lparr>mv_txid = ''tx'', mv_ns = ''p'', mv_name = ''domob'', mv_mv = ''m'', mv_burns = [], mv_metadata = JNull\<rparr>"


text \<open>Games are tracked by reference counts: \<^verbatim>\<open>TrackGame\<close> adds one to the count of its game and
  \<^verbatim>\<open>UntrackGame\<close> takes it away again; no other game is affected, and a game is in the map exactly while
  its count is positive.\<close>

theorem track_untrack_roundtrip:
  assumes "games_ok z" "depth z g < u64_max"
  shows "\<exists>z1 z2. TrackGame g z = (Inr (), z1) \<and> UntrackGame g z1 = (Inr (), z2) \<and>
    depth z1 = (depth z)(g := depth z g + 1) \<and> depth z2 = depth z \<and>
    (\<forall>x. x \<in> fst ` set (zp_games z1) \<longleftrightarrow> 0 < depth z1 x)"
proof -
  obtain z1 where z1: "TrackGame g z = (Inr (), z1)" "games_ok z1" "depth z1 = (depth z)(g := depth z g + 1)"
    using TrackGame_depth [OF assms] by blast
  obtain z2 where z2: "UntrackGame g z1 = (Inr (), z2)" "depth z2 = (depth z1)(g := depth z1 g - 1)"
    using UntrackGame_depth [OF z1(2)] by blast
  have "depth z2 = depth z" using z1(3) z2(2) by auto
  with z1 z2 tracked_iff [OF z1(2)] show ?thesis by blast
qed

theorem track_untrack_roundtrip_witness:
  "\<exists>z1 z2. TrackGame ''demo'' ex_pub = (Inr (), z1) \<and> UntrackGame ''demo'' z1 = (Inr (), z2) \<and>
    depth z1 = (depth ex_pub)(''demo'' := depth ex_pub ''demo'' + 1) \<and> depth z2 = depth ex_pub"
proof -
  have "games_ok ex_pub" "depth ex_pub ''demo'' < u64_max" by (code_simp, code_simp)
  from track_untrack_roundtrip [OF this] show ?thesis by blast
qed

subsection \<open>Pending moves\<close>

text \<open>C20.  The pending manager implements an abstract machine with three rules: moves are dropped before
  the first tip of the chain state, sent at once while the two tips agree, and kept back while they
  differ until they agree again or another tip is announced.  After any sequence of calls without a
  failure the manager's fields are those of the machine, and the publisher is where sending exactly the
  machine's output, in order, takes it.\<close>

theorem PendingManager_refines_machine:
  assumes "run_pending Z evs (PendingManager_new z0) = (Inr (), s)"
  shows "pd_chainstateTip s = ps_chain (spec_state evs) \<and> pd_notificationTip s = ps_notified (spec_state evs) \<and>
    pd_queue s = ps_waiting (spec_state evs) \<and> send_all Z (ps_out (spec_state evs)) z0 = (Inr (), pd_zmq s)"
  using run_pending_refines [OF assms] by (simp add: pending_rel_def)

definition ex_events :: "pending_event list" where
  "ex_events = [EvTip ''a1'', EvChain ''g'', EvMoves [ex_move], EvChain ''a1'', EvMoves [ex_move]]"

theorem PendingManager_refines_machine_witness:
  "send_all ex_movelib [[ex_move], [ex_move]] ex_pub =
     (Inr (), pd_zmq (snd (run_pending ex_movelib ex_events (PendingManager_new ex_pub))))"
proof -
  have "fst (run_pending ex_movelib ex_events (PendingManager_new ex_pub)) = Inr ()" by code_simp
  then have "run_pending ex_movelib ex_events (PendingManager_new ex_pub) =
      (Inr (), snd (run_pending ex_movelib ex_events (PendingManager_new ex_pub)))"
    by (metis prod.collapse)
  from PendingManager_refines_machine [OF this]
  have "send_all ex_movelib (ps_out (spec_state ex_events)) ex_pub =
      (Inr (), pd_zmq (snd (run_pending ex_movelib ex_events (PendingManager_new ex_pub))))" by blast
  moreover have "ps_out (spec_state ex_events) = [[ex_move], [ex_move]]" by code_simp
  ultimately show ?thesis by simp
qed

text \<open>Pending moves are neither invented, repeated nor reordered: what was sent, followed by what
  is still queued, is a subsequence of the batches received.\<close>

theorem pending_delivery_in_order:
  assumes "run_pending Z evs (PendingManager_new z0) = (Inr (), s)"
  shows "\<exists>out. send_all Z out z0 = (Inr (), pd_zmq s) \<and> subseq (out @ pd_queue s) (batches evs)"
  using run_pending_delivery [OF assms] .

theorem pending_delivery_in_order_witness:
  "\<exists>out s. run_pending ex_movelib [EvTip ''a1'', EvMoves [ex_move]] (PendingManager_new ex_pub) = (Inr (), s) \<and>
     subseq (out @ pd_queue s) (batches [EvTip ''a1'', EvMoves [ex_move]])"
proof -
  have "fst (run_pending ex_movelib [EvTip ''a1'', EvMoves [ex_move]] (PendingManager_new ex_pub)) = Inr ()" by code_simp
  then obtain s where s: "run_pending ex_movelib [EvTip ''a1'', EvMoves [ex_move]] (PendingManager_new ex_pub) = (Inr (), s)"
    by (metis prod.collapse)
  with pending_delivery_in_order [OF s] show ?thesis by blast
qed

text \<open>C38.  An exception of the socket while queued moves are sent leaves the manager with equal tips and a
  queue that is not empty; the next batch of pending moves then fails the \<^verbatim>\<open>CHECK\<close> that the queue is
  empty, which ends the process.\<close>

theorem failed_flush_then_abort:
  assumes "ChainstateTipChanged Z newTip s = (Inl (Throw e), s')"
  shows "Pending_PendingMoves Z moves s' = (Inl Abort, s') \<and> pd_queue s' = pd_queue s"
  using failed_flush_aborts [OF assms] failed_flush_state(4) [OF assms] by simp

definition ex_manager :: PendingManager where
  "ex_manager = \<lparr>pd_chainstateTip = ''g'', pd_notificationTip = ''a1'', pd_queue = [[ex_move]],
     pd_zmq = ex_pub\<lparr>zp_outcomes := [False]\<rparr>\<rparr>"

theorem failed_flush_then_abort_witness:
  "fst (Pending_PendingMoves ex_movelib [ex_move] (snd (ChainstateTipChanged ex_movelib ''a1'' ex_manager))) = Inl Abort"
proof -
  have "fst (ChainstateTipChanged ex_movelib ''a1'' ex_manager) = Inl (Throw ZmqException)" by code_simp
  then have "ChainstateTipChanged ex_movelib ''a1'' ex_manager =
      (Inl (Throw ZmqException), snd (ChainstateTipChanged ex_movelib ''a1'' ex_manager))"
    by (metis prod.collapse)
  from failed_flush_then_abort [OF this] show ?thesis by simp
qed

end
