(* ===== verification/RpcProofs.thy ===== *)
theory RpcProofs
  imports Rpc ControllerPush
begin

text \<open>
  The behaviour of the RPC methods on a running controller whose base chain keeps its contract:
  block queries are answered from the local chain state and, below the pruning height, from the
  base chain, so that pruning is invisible to the caller.  The last section has the requests on
  which the process ends or runs into undefined behaviour.
\<close>

subsection \<open>Preliminaries\<close>

lemma run_chain_Inr: "m (sy_chain s) = (Inr a, sy_chain s) \<Longrightarrow> run_chain m s = (Inr a, s)"
  by (simp add: run_chain_def)

lemma run_chain_Inl: "m (sy_chain s) = (Inl e, c) \<Longrightarrow> run_chain m s = (Inl e, s\<lparr>sy_chain := c\<rparr>)"
  by (simp add: run_chain_def sy_on_chain_def zoomM_def)

lemma propagate_Inr [simp]: "m s = (Inr a, s') \<Longrightarrow> PropagateBaseChainError what m s = (Inr a, s')"
  by (simp add: PropagateBaseChainError_def)

lemma propagate_Abort: "m s = (Inl Abort, s') \<Longrightarrow> PropagateBaseChainError what m s = (Inl Abort, s')"
  by (simp add: PropagateBaseChainError_def catchM_def)

lemma propagate_Undefined: "m s = (Inl Undefined, s') \<Longrightarrow> PropagateBaseChainError what m s = (Inl Undefined, s')"
  by (simp add: PropagateBaseChainError_def catchM_def)

lemma mainheight_unique:
  assumes "mainchain_ok v t" "mainheight_ok v hash r" "v h = Some b" "blk_hash b = hash"
  shows "r = int h"
proof -
  from assms(2-4) obtain k c where k: "r = int k" "v k = Some c" "blk_hash c = hash" by (auto simp: mainheight_ok_def)
  have "h = k" using mainchain_okD(5) [OF assms(1,3) k(2)] assms(4) k(3) by simp
  with k(1) show ?thesis by simp
qed

subsection \<open>Block queries\<close>

lemma getblockhash_local:
  assumes inv: "chain_inv L (sy_chain s)" and r: "r \<in> set (blocks (sy_chain s))" "r_branch r = 0" "int (r_height r) = height"
  shows "getblockhash what bc height s = (Inr (r_hash r), s)"
proof -
  have "r_height r \<le> i64_max" using rows_invD(7) [OF inv r(1)] .
  then have h: "u64_of_int height = r_height r" "r_height r \<le> i64_max" using r(3) by auto
  show ?thesis
    using GetHashForHeight_Some [OF rows_invD(1) [OF inv] h(2) r(1,2) refl] h(1)
    by (simp add: getblockhash_def run_chain_Inr)
qed

lemma getblockhash_missing:
  assumes h: "0 \<le> height" "height \<le> int i64_max"
    and none: "\<And>r. r \<in> set (blocks (sy_chain s)) \<Longrightarrow> r_branch r = 0 \<Longrightarrow> int (r_height r) \<noteq> height"
  shows "getblockhash what bc height s =
    (if GetLowestUnprunedHeight (sy_chain s) \<le> height then rpc_throw (-8) ''block height out of range''
     else bindM (PropagateBaseChainError what (run_base (bc_GetBlockRange bc (nat height) 1))) (\<lambda>bs.
        if bs = [] then rpc_throw (-8) ''block height out of range''
        else thenM (CHECK (length bs = 1)) (ret (blk_hash (hd bs))))) s"
proof -
  have "u64_of_int height = nat height" using h by simp
  moreover have "GetHashForHeight (nat height) (sy_chain s) = (Inr None, sy_chain s)"
  proof (rule GetHashForHeight_None)
    show "nat height \<le> i64_max" using h by linarith
    show "r_height r \<noteq> nat height" if "r \<in> set (blocks (sy_chain s))" "r_branch r = 0" for r
      using none [OF that] h(1) by linarith
  qed
  ultimately show ?thesis by (simp add: getblockhash_def run_chain_Inr)
qed

text \<open>The header of a block: known locally, pruned but on the main chain, or unknown.\<close>

definition header_json :: "string \<Rightarrow> int \<Rightarrow> json" where
  "header_json hash height = json_set ''height'' (JInt height) (json_set ''hash'' (JString hash) (JObject []))"

text \<open>The summary of the chain state, with the name of the chain cached after the first call.\<close>

definition chain_name :: "'b BaseChain \<Rightarrow> 'b run \<Rightarrow> string \<Rightarrow> bool" where
  "chain_name bc s c \<longleftrightarrow> c \<noteq> [] \<and>
     (if rd_cachedChain (sy_owner s) = [] then \<exists>b'. bc_GetChain bc (sy_base s) = (Inr c, b')
      else c = rd_cachedChain (sy_owner s))"

lemma getblockchaininfo_ok:
  assumes inv: "chain_inv L (sy_chain s)" and c: "chain_name bc s c"
  shows "\<exists>j s'. getblockchaininfo what bc s = (Inr j, s') \<and> rd_cachedChain (sy_owner s') = c \<and> sy_chain s' = sy_chain s \<and>
    json_get j ''chain'' = JString c \<and> json_get j ''blocks'' = JInt (GetTipHeight (sy_chain s)) \<and>
    json_get j ''bestblockhash'' = JString (case select_tip (sy_chain s) of [] \<Rightarrow> '''' | h # _ \<Rightarrow> h)"
proof -
  let ?cs = "sy_chain s"
  obtain s1 where s1: "(if rd_cachedChain (sy_owner s) = [] then
        bindM (PropagateBaseChainError what (run_base (bc_GetChain bc))) (\<lambda>c. upd_owner (\<lambda>d. d\<lparr>rd_cachedChain := c\<rparr>))
      else ret ()) s = (Inr (), s1)" "rd_cachedChain (sy_owner s1) = c" "sy_chain s1 = ?cs"
    using c by (cases "rd_cachedChain (sy_owner s) = []") (auto simp: chain_name_def run_base_def upd_owner_def)
  have run: "getblockchaininfo what bc s =
      (let res = json_set ''chain'' (JString c) (JObject []) in
       if GetTipHeight ?cs = -1 then
         ret (json_set ''bestblockhash'' (JString '''') (json_set ''blocks'' (JInt (-1)) res))
       else
         thenM (CHECK (GetTipHeight ?cs \<ge> 0))
        (bindM (run_chain (GetHashForHeight (u64_of_int (GetTipHeight ?cs)))) (\<lambda>h.
           case h of None \<Rightarrow> failM Abort
           | Some tipHash \<Rightarrow>
               ret (json_set ''bestblockhash'' (JString tipHash) (json_set ''blocks'' (JInt (GetTipHeight ?cs)) res))))) s1"
    using s1(1,2) c unfolding getblockchaininfo_def s1(3) [symmetric]
    by (simp add: run_chain_Inr chain_name_def Let_def)
  show ?thesis
  proof (cases "\<exists>m\<in>set (blocks ?cs). r_branch m = 0")
    case False
    then have "GetTipHeight ?cs = -1" "select_tip ?cs = []" using no_main_heights [of ?cs] by auto
    with run s1 show ?thesis by (simp add: Let_def json_get_set)
  next
    case True
    then obtain t where t: "t \<in> set (blocks ?cs)" "r_branch t = 0" "GetTipHeight ?cs = int (r_height t)" "select_tip ?cs = [r_hash t]"
      using GetTip_obtain by metis
    have h: "r_height t \<le> i64_max" using rows_invD(7) [OF inv t(1)] .
    from GetHashForHeight_Some [OF rows_invD(1) [OF inv] h t(1,2) refl] run s1 t(3,4) h show ?thesis
      by (simp add: Let_def json_get_set run_chain_Inr)
  qed
qed

text \<open>With a cached name nothing is asked and nothing changes.\<close>

lemma getblockchaininfo_cached:
  assumes inv: "chain_inv L (sy_chain s)" and c: "rd_cachedChain (sy_owner s) \<noteq> []"
  shows "\<exists>j. getblockchaininfo what bc s = (Inr j, s)"
proof (cases "\<exists>m\<in>set (blocks (sy_chain s)). r_branch m = 0")
  case False
  then have "GetTipHeight (sy_chain s) = -1" using no_main_heights [of "sy_chain s"] by auto
  with c show ?thesis by (simp add: getblockchaininfo_def run_chain_Inr Let_def)
next
  case True
  then obtain t where t: "t \<in> set (blocks (sy_chain s))" "r_branch t = 0" "GetTipHeight (sy_chain s) = int (r_height t)"
    using GetTip_obtain by metis
  have h: "r_height t \<le> i64_max" using rows_invD(7) [OF inv t(1)] .
  from GetHashForHeight_Some [OF rows_invD(1) [OF inv] h t(1,2) refl] c t(3) h show ?thesis
    by (simp add: getblockchaininfo_def run_chain_Inr Let_def)
qed

context base_chain
begin

text \<open>Below the pruning height the base chain answers.\<close>

lemma getblockhash_pruned:
  assumes rdy: "ready (sy_base s)" and h: "0 \<le> height" "height < GetLowestUnprunedHeight (sy_chain s)" "height < int i64_max"
  shows "\<exists>b'. getblockhash what bc height s =
      (case view (sy_base s) (nat height) of
         None \<Rightarrow> rpc_throw (-8) ''block height out of range'' (s\<lparr>sy_base := b'\<rparr>)
       | Some b \<Rightarrow> (Inr (blk_hash b), s\<lparr>sy_base := b'\<rparr>)) \<and> same (sy_base s) b'"
proof -
  have none: "int (r_height r) \<noteq> height" if "r \<in> set (blocks (sy_chain s))" "r_branch r = 0" for r
    using GetLowest_le [OF that] h(2) by simp
  have "nat height + 1 \<le> i64_max" using h by linarith
  from GetBlockRange_law [OF rdy this] obtain b' where
      q: "bc_GetBlockRange bc (nat height) 1 (sy_base s) = (Inr (block_slice (view (sy_base s)) (nat height) 1), b')"
      "ready b'" "view b' = view (sy_base s)" "tip b' = tip (sy_base s)" by blast
  have "getblockhash what bc height s =
      (case view (sy_base s) (nat height) of
         None \<Rightarrow> rpc_throw (-8) ''block height out of range'' (s\<lparr>sy_base := b'\<rparr>)
       | Some b \<Rightarrow> (Inr (blk_hash b), s\<lparr>sy_base := b'\<rparr>))"
  proof (subst getblockhash_missing [OF h(1) _ none])
    show "height \<le> int i64_max" using h(3) by simp
    have "\<not> GetLowestUnprunedHeight (sy_chain s) \<le> height" using h(2) by simp
    then show "(if GetLowestUnprunedHeight (sy_chain s) \<le> height then rpc_throw (-8) ''block height out of range''
       else bindM (PropagateBaseChainError what (run_base (bc_GetBlockRange bc (nat height) 1))) (\<lambda>bs.
        if bs = [] then rpc_throw (-8) ''block height out of range''
        else thenM (CHECK (length bs = 1)) (ret (blk_hash (hd bs))))) s =
      (case view (sy_base s) (nat height) of
         None \<Rightarrow> rpc_throw (-8) ''block height out of range'' (s\<lparr>sy_base := b'\<rparr>)
       | Some b \<Rightarrow> (Inr (blk_hash b), s\<lparr>sy_base := b'\<rparr>))"
      using q(1) by (cases "view (sy_base s) (nat height)") (simp_all add: run_base_def)
  qed
  with q show ?thesis by (auto simp: base_same_def)
qed

text \<open>While the local chain is on the base chain, every height up to the local tip gets the hash that
  the base chain has, pruned or not; heights above are out of range.\<close>

lemma getblockhash_ok:
  assumes rdy: "ready (sy_base s)" and sy: "chain_synced L T (view (sy_base s)) (sy_chain s)"
    and B: "base_in_tree L T (view (sy_base s))" and al: "chain_aligned (view (sy_base s)) (sy_chain s)"
    and h: "0 \<le> height" "height \<le> 2147483647"
  shows "\<exists>s'. getblockhash what bc height s =
      ((if height \<le> GetTipHeight (sy_chain s)
        then (case view (sy_base s) (nat height) of
                None \<Rightarrow> Inl (Throw (JsonRpcException (-8) ''block height out of range'')) | Some b \<Rightarrow> Inr (blk_hash b))
        else Inl (Throw (JsonRpcException (-8) ''block height out of range''))), s') \<and> sy_chain s' = sy_chain s"
proof -
  let ?v = "view (sy_base s)" and ?cs = "sy_chain s"
  note ok = view_ok [OF rdy]
  have inv: "chain_inv L ?cs" and R: "rows_in_tree T (blocks ?cs)" and root: "root_in_view ?v ?cs"
    using sy by (auto simp: chain_synced_def)
  obtain b where b: "?v (nat (GetTipHeight ?cs)) = Some b" "tip_is ?cs b"
    using al by (auto simp: chain_aligned_def split: option.splits)
  have tip: "GetTipHeight ?cs = int (nat (GetTipHeight ?cs))" using b(2) by (simp add: tip_is_def)
  obtain k where k: "GetLowestUnprunedHeight ?cs = int k" "?v k \<noteq> None" "int k \<le> GetTipHeight ?cs"
    using root_heights [OF root] by blast
  consider "int k \<le> height" "height \<le> GetTipHeight ?cs" | "GetTipHeight ?cs < height" | "height < int k" by linarith
  then show ?thesis
  proof cases
    case 1
    define j where "j = nat (GetTipHeight ?cs) - nat height"
    have j: "k + j \<le> nat (GetTipHeight ?cs)" "nat (GetTipHeight ?cs) - j = nat height" using 1 h(1) k(3) by (auto simp: j_def)
    obtain c where "?v k = Some c" using k(2) by blast
    from main_on_view [OF inv R B ok b(2,1) k(1) this j(1)] obtain r x where
        r: "r \<in> set (blocks ?cs)" "r_branch r = 0" "r_height r = nat height" "?v (nat height) = Some x" "r_hash r = blk_hash x"
      unfolding j(2) by blast
    then show ?thesis using getblockhash_local [OF inv r(1,2), of height what bc] 1 h(1) by simp
  next
    case 2
    have none: "int (r_height r) \<noteq> height" if rr: "r \<in> set (blocks ?cs)" "r_branch r = 0" for r
    proof -
      obtain t where "GetTipHeight ?cs = int (r_height t)" "r_height r \<le> r_height (t :: dbrow)"
        using GetTip_obtain [OF rr] rr by metis
      with 2 show ?thesis by simp
    qed
    have "GetLowestUnprunedHeight ?cs \<le> height" using 2 k by linarith
    moreover have "height \<le> int i64_max" using h(2) by simp
    ultimately have "getblockhash what bc height s = rpc_throw (-8) ''block height out of range'' s"
      by (subst getblockhash_missing [OF h(1) _ none]) simp_all
    with 2 show ?thesis by (simp add: rpc_throw_def)
  next
    case 3
    then obtain b' where "getblockhash what bc height s =
      (case ?v (nat height) of
         None \<Rightarrow> rpc_throw (-8) ''block height out of range'' (s\<lparr>sy_base := b'\<rparr>)
       | Some b \<Rightarrow> (Inr (blk_hash b), s\<lparr>sy_base := b'\<rparr>))"
      using getblockhash_pruned [OF rdy h(1), of what] k(1) h(2) by auto
    moreover have "height \<le> GetTipHeight ?cs" using 3 k(3) by linarith
    ultimately show ?thesis by (auto simp: rpc_throw_def split: option.splits)
  qed
qed

lemma getblockheader_ok:
  assumes rdy: "ready (sy_base s)" and inv: "chain_inv L (sy_chain s)"
  shows "\<exists>s' h. getblockheader what bc hash s =
      (case row_at (blocks (sy_chain s)) hash of
         Some r \<Rightarrow> (Inr (header_json hash (int (r_height r))), s)
       | None \<Rightarrow> if h = -1 then (Inl (Throw (JsonRpcException (-5) ''block not found'')), s')
                else (Inr (header_json hash h), s')) \<and>
    sy_chain s' = sy_chain s \<and> mainheight_ok (view (sy_base s)) hash h"
proof -
  obtain h b' where h: "bc_GetMainchainHeight bc hash (sy_base s) = (Inr h, b')" "mainheight_ok (view (sy_base s)) hash h"
    using GetMainchainHeight_law [OF rdy, of hash] by blast
  have pos: "h = -1 \<or> 0 \<le> h" using h(2) by (auto simp: mainheight_ok_def)
  have small: "r_height r \<le> i64_max" if "row_at (blocks (sy_chain s)) hash = Some r" for r
    using rows_invD(7) [OF inv] row_at_SomeD [OF that] by blast
  have q: "run_chain (GetHeightForHash hash) s = (Inr (map_option r_height (row_at (blocks (sy_chain s)) hash)), s)"
    using GetHeightForHash_eq [OF rows_invD(1) [OF inv]] by (simp add: run_chain_Inr)
  have "getblockheader what bc hash s =
      (case row_at (blocks (sy_chain s)) hash of
         Some r \<Rightarrow> (Inr (header_json hash (int (r_height r))), s)
       | None \<Rightarrow> if h = -1 then (Inl (Throw (JsonRpcException (-5) ''block not found'')), s\<lparr>sy_base := b'\<rparr>)
                else (Inr (header_json hash h), s\<lparr>sy_base := b'\<rparr>))"
    using q h(1) pos small
    by (auto simp: getblockheader_def header_json_def run_base_def rpc_throw_def split: option.splits)
  with h(2) show ?thesis by (intro exI [of _ "s\<lparr>sy_base := b'\<rparr>"] exI [of _ h]) simp
qed

text \<open>Requests that start from a block on the local main chain.\<close>

lemma push_from_main:
  assumes inv: "chain_inv L (sy_chain s)" and from_ne: "from \<noteq> []"
    and r: "r \<in> set (blocks (sy_chain s))" "r_branch r = 0" "r_hash r = from"
  shows "PushZmqBlocks L Z bc from to [] num tok s =
    push_from_fork Z bc to [] num tok [] (GetLowestUnprunedHeight (sy_chain s)) (r_height r) from s"
proof -
  let ?cs = "sy_chain s"
  have row: "row_at (blocks ?cs) from = Some r" using row_at_SomeI [OF rows_invD(1) [OF inv] r(1)] r(3) by simp
  have "side_path (blocks ?cs) from []"
    using schema_hash_unique [OF rows_invD(1) [OF inv] _ r(1)] r(2,3) by (auto intro: side_path.stop)
  from GetForkBranch_eq [OF inv this] row
  have fork: "GetForkBranch L from ?cs = (Inr (True, []), ?cs)" by simp
  obtain l where "GetLowestUnprunedHeight ?cs = int (r_height (l :: dbrow))" using GetLowest_obtain [OF r(1,2)] by blast
  with fork row GetHeightForHash_eq [OF rows_invD(1) [OF inv], of "from"] from_ne show ?thesis
    by (simp add: PushZmqBlocks_def push_from_branch_def run_chain_Inr send_detaches_def)
qed

text \<open>The request \<^verbatim>\<open>to\<close> the block one is already at: reported as an error.\<close>

lemma push_to_fork_point:
  assumes rdy: "ready (sy_base s)" and inv: "chain_inv L (sy_chain s)" and from_ne: "from \<noteq> []"
    and r: "r \<in> set (blocks (sy_chain s))" "r_branch r = 0" "r_hash r = from"
    and b: "view (sy_base s) (r_height r) = Some b" "blk_hash b = from"
  shows "\<exists>s'. PushZmqBlocks L Z bc from from [] num tok s = (Inr (False, [], []), s')"
proof -
  obtain h b' where h: "bc_GetMainchainHeight bc from (sy_base s) = (Inr h, b')" "mainheight_ok (view (sy_base s)) from h"
    using GetMainchainHeight_law [OF rdy, of "from"] by blast
  have "h = int (r_height r)" using mainheight_unique [OF view_ok [OF rdy] h(2) b] .
  moreover have "r_height r \<le> i64_max" using rows_invD(7) [OF inv r(1)] .
  ultimately show ?thesis
    using h(1) from_ne push_from_main [OF inv from_ne r, of Z "from" num tok]
    by (simp add: push_from_fork_def run_base_def)
qed

text \<open>The base chain is behind the local chain, and the request goes back to its tip: the answer to the
  query for the blocks to detach is empty, and its last element is read.\<close>

lemma push_beyond_base_undefined:
  assumes rdy: "ready (sy_base s)" and inv: "chain_inv L (sy_chain s)" and from_ne: "from \<noteq> []" "to \<noteq> []"
    and r: "r \<in> set (blocks (sy_chain s))" "r_branch r = 0" "r_hash r = from" "r_height r < i64_max"
    and b: "view (sy_base s) (tip (sy_base s)) = Some b" "blk_hash b = to" "tip (sy_base s) < r_height r"
  shows "\<exists>s'. PushZmqBlocks L Z bc from to [] num tok s = (Inl Undefined, s')"
proof -
  let ?t = "tip (sy_base s)" and ?fh = "r_height r"
  note ok = view_ok [OF rdy]
  obtain h b' where h: "bc_GetMainchainHeight bc to (sy_base s) = (Inr h, b')" "mainheight_ok (view (sy_base s)) to h"
      "ready b'" "view b' = view (sy_base s)"
    using GetMainchainHeight_law [OF rdy, of to] by blast
  have ht: "h = int ?t" using mainheight_unique [OF ok h(2) b(1,2)] .
  define n where "n = min_unsigned num (u64_sub ?fh (u64_of_int h))"
  have "u64_sub ?fh (u64_of_int h) = ?fh - ?t" using ht b(3) r(4) by simp
  then have n: "n \<le> ?fh - ?t" by (simp add: n_def min_unsigned_def)
  have start: "u64_add (u64_sub ?fh n) 1 = ?fh - n + 1" using n r(4) by simp
  have "?fh - n + 1 + n \<le> i64_max" using n r(4) by simp
  from GetBlockRange_law [OF h(3) this] obtain b2 where
      q: "bc_GetBlockRange bc (?fh - n + 1) n b' = (Inr (block_slice (view b') (?fh - n + 1) n), b2)" by blast
  have "view b' (?fh - n + 1) = None"
    using mainchain_okD(2) [OF ok, of "?fh - n + 1"] n b(3) h(4) by (cases "view b' (?fh - n + 1)") auto
  then have "block_slice (view b') (?fh - n + 1) n = []" by (cases n) simp_all
  with q start have "push_detach_to Z bc num tok [] ?fh from h (s\<lparr>sy_base := b'\<rparr>) = (Inl Undefined, s\<lparr>sy_base := b2\<rparr>)"
    unfolding push_detach_to_def n_def [symmetric] Let_def by (simp add: run_base_def)
  moreover have "int64_of ?fh = int ?fh" using r(4) by simp
  ultimately show ?thesis
    using h(1) ht b(3) from_ne push_from_main [OF inv from_ne(1) r(1-3), of Z to num tok]
    by (simp add: push_from_fork_def run_base_def)
qed

end

subsection \<open>Requests that end the process\<close>

lemma getblockhash_negative:
  assumes "- 2147483648 \<le> height" "height < 0"
  shows "getblockhash what bc height s = (Inl Abort, s)"
proof -
  have "i64_max < u64_of_int height" using u64_of_int_negative [of height] assms by simp
  then have "GetHashForHeight (u64_of_int height) (sy_chain s) = (Inl Abort, sy_chain s)"
    by (simp add: GetHashForHeight_def Bind_uint64_abort)
  then show ?thesis by (simp add: getblockhash_def run_chain_Inl)
qed

lemma push_empty_chain:
  assumes "blocks (sy_chain s) = []" "from \<noteq> []"
  shows "PushZmqBlocks L Z bc from to [] num tok s = (Inl Abort, s)"
proof -
  have "GetLowestUnprunedHeight (sy_chain s) = -1" using assms(1) by (intro no_main_heights) simp
  then show ?thesis using assms(2) by (simp add: PushZmqBlocks_def run_chain_Inr)
qed

lemma sendupdates_empty_chain:
  assumes "blocks (sy_chain s) = []" "from \<noteq> []"
  shows "fst (game_sendupdates3 what L Z bc block_range from gameId to s) = Inl Abort"
proof -
  let ?s = "s\<lparr>sy_owner := (sy_owner s)\<lparr>rd_requests := (rd_requests (sy_owner s) + 1) mod (u32_max + 1)\<rparr>\<rparr>"
  have "PushZmqBlocks L Z bc from to [] (u32_of_int block_range) tok ?s = (Inl Abort, ?s)" for tok
    using assms by (intro push_empty_chain) simp_all
  then show ?thesis by (simp add: game_sendupdates3_def upd_owner_def propagate_Abort)
qed

end
