(* ===== verification/PropControl.thy ===== *)
theory PropControl
  imports Examples RpcProofs
begin

text \<open>
  The properties of the controller: the notifications it pushes on a tip update and on request,
  and the answers of its RPC methods.  The base chain is any one that keeps the contract
  \<open>base_chain\<close>; the examples run on the base chain of the tests.
\<close>

lemma ex_forked_small: "\<forall>r\<in>set (blocks ex_forked). r_height r \<le> height_limit"
  by code_simp

lemma ex_forked_run:
  "Test_ready ex_codec (sy_base (ex_run ex_forked))" "chain_inv ex_codec (sy_chain (ex_run ex_forked))"
  "\<forall>r\<in>set (blocks (sy_chain (ex_run ex_forked))). r_height r \<le> height_limit"
  "\<forall>r\<in>set (blocks (sy_chain (ex_run ex_forked))). r_branch r \<noteq> 0 \<longrightarrow> 0 < r_height r"
proof -
  show "\<forall>r\<in>set (blocks (sy_chain (ex_run ex_forked))). r_branch r \<noteq> 0 \<longrightarrow> 0 < r_height r" by code_simp
qed (simp_all add: ex_base_ready ex_forked_inv ex_forked_small)

lemma result_is: "fst p = r \<Longrightarrow> p = (r, snd p)"
  by (cases p) simp

subsection \<open>Notifications\<close>

text \<open>C11.  On a tip update the notifications lead a subscriber from the old tip to the new one: the
  detached blocks from the old tip down to the fork point, each the subscriber's current block, and
  then the attached blocks from there on, each a child of the current block.  When the request
  is refused nothing is sent.\<close>

theorem tip_update_notifies_path:
  assumes "base_chain bc view tip ready" "ready (sy_base s)" "chain_inv L (sy_chain s)"
    and "\<forall>r\<in>set (blocks (sy_chain s)). r_height r \<le> height_limit" "from \<noteq> []"
    and "\<forall>r\<in>set (blocks (sy_chain s)). r_branch r \<noteq> 0 \<longrightarrow> 0 < r_height r"
    and "linked A" "A \<noteq> []" "PushZmqBlocks L Z bc from '''' A num tok s = (Inr (ok, D, Q), s')"
  shows "Q = [] \<and>
    (if ok then \<exists>A1 A2. A = A1 @ A2 \<and> pushed Z tok (base_same view tip ready) from D A2 s s' \<and>
                  path_end from D A2 = blk_hash (last A)
     else D = [] \<and> pushed Z tok (base_same view tip ready) from [] [] s s')"
  using base_chain.PushZmqBlocks_tip [OF assms] .

theorem tip_update_notifies_path_witness:
  "\<exists>s'. PushZmqBlocks ex_codec ex_zlib TestChain ''b2'' '''' [ex_block ''a1'', ex_block ''a2''] 0 '''' (ex_run ex_forked) =
      (Inr (True, [ex_block ''b2'', ex_block ''b1''], []), s') \<and>
    (\<exists>A2. path_end ''b2'' [ex_block ''b2'', ex_block ''b1''] A2 = ''a2'')"
proof -
  let ?s = "ex_run ex_forked"
  let ?p = "PushZmqBlocks ex_codec ex_zlib TestChain ''b2'' '''' [ex_block ''a1'', ex_block ''a2''] 0 '''' ?s"
  have run: "?p = (Inr (True, [ex_block ''b2'', ex_block ''b1''], []), snd ?p)" by (rule result_is) code_simp
  have "linked [ex_block ''a1'', ex_block ''a2'']" by code_simp
  from tip_update_notifies_path [OF test.base_chain_axioms ex_forked_run(1-3) _ ex_forked_run(4) this _ run]
  obtain A2 where "path_end ''b2'' [ex_block ''b2'', ex_block ''b1''] A2 = blk_hash (ex_block ''a2'')" by auto
  moreover have "blk_hash (ex_block ''a2'') = ''a2''" by code_simp
  ultimately show ?thesis using run by auto
qed

text \<open>C12.  \<^verbatim>\<open>game_sendupdates\<close> sends what it reports: the notifications carry the returned request
  token, lead a subscriber from the requested block to the reported \<^verbatim>\<open>toblock\<close>, and there are as
  many of them as reported.  The attached blocks end at a block that the local chain state knows or
  has pruned, and the chain state is not changed.\<close>

theorem sendupdates_reports_path:
  assumes "base_chain bc view tip ready" "ready (sy_base s)" "chain_inv L (sy_chain s)"
    and "\<forall>r\<in>set (blocks (sy_chain s)). r_height r \<le> height_limit" "from \<noteq> []"
    and "game_sendupdates3 what L Z bc block_range from gameId to s = (Inr j, s')"
  shows "\<exists>tok D Q s1. json_get j ''reqtoken'' = JString tok \<and> json_get j ''toblock'' = JString (path_end from D Q) \<and>
    json_get (json_get j ''steps'') ''detach'' = JInt (int (length D)) \<and>
    json_get (json_get j ''steps'') ''attach'' = JInt (int (length Q)) \<and>
    pushed Z tok (base_same view tip ready) from D Q s1 s' \<and> run_pub s1 = run_pub s \<and> sy_chain s' = sy_chain s \<and>
    (Q \<noteq> [] \<longrightarrow> int (blk_height (last Q)) < GetLowestUnprunedHeight (sy_chain s) \<or>
       row_at (blocks (sy_chain s)) (blk_hash (last Q)) \<noteq> None)"
proof -
  let ?s1 = "s\<lparr>sy_owner := (sy_owner s)\<lparr>rd_requests := (rd_requests (sy_owner s) + 1) mod (u32_max + 1)\<rparr>\<rparr>"
  let ?tok = "''request_'' @ show_nat ((rd_requests (sy_owner s) + 1) mod (u32_max + 1))"
  obtain ok D Q where run: "PushZmqBlocks L Z bc from to [] (u32_of_int block_range) ?tok ?s1 = (Inr (ok, D, Q), s')"
      and j: "j = sendupdates_result ?tok from (ok, D, Q)"
    using assms(6)
    by (auto simp: game_sendupdates3_def upd_owner_def PropagateBaseChainError_def prog_Inr catchM_def
        split: sum.splits error.splits prod.splits)
  have "pushed Z ?tok (base_same view tip ready) from D Q ?s1 s' \<and> length Q \<le> u32_of_int block_range \<and>
      (Q \<noteq> [] \<longrightarrow> int (blk_height (last Q)) < GetLowestUnprunedHeight (sy_chain ?s1) \<or>
         row_at (blocks (sy_chain ?s1)) (blk_hash (last Q)) \<noteq> None)"
    by (rule base_chain.PushZmqBlocks_rpc [OF assms(1) _ _ _ assms(5) run]) (use assms in simp_all)
  then show ?thesis
    by (intro exI [of _ ?tok] exI [of _ D] exI [of _ Q] exI [of _ ?s1])
      (auto simp: j sendupdates_result_def path_end_def Let_def json_get_set pushed_def run_pub_def)
qed

theorem sendupdates_reports_path_witness:
  "\<exists>j s'. game_sendupdates3 (\<lambda>_. ''x'') ex_codec ex_zlib TestChain 128 ''b2'' ''demo'' '''' (ex_run ex_forked) = (Inr j, s') \<and>
    json_get j ''toblock'' = JString ''a2'' \<and> (\<exists>D Q. path_end ''b2'' D Q = ''a2'' \<and> sy_chain s' = ex_forked)"
proof -
  let ?s = "ex_run ex_forked"
  let ?p = "game_sendupdates3 (\<lambda>_. ''x'') ex_codec ex_zlib TestChain 128 ''b2'' ''demo'' '''' ?s"
  have ok: "\<not> isl (fst ?p)" by code_simp
  then obtain j where j: "?p = (Inr j, snd ?p)" by (metis result_is sum.collapse(2))
  have "json_get (projr (fst ?p)) ''toblock'' = JString ''a2''" by code_simp
  then have to: "json_get j ''toblock'' = JString ''a2''" using j by (metis fst_conv sum.sel(2))
  from sendupdates_reports_path [OF test.base_chain_axioms ex_forked_run(1-3) _ j] obtain D Q where
      "json_get j ''toblock'' = JString (path_end ''b2'' D Q)" "sy_chain (snd ?p) = ex_forked" by auto
  with j to show ?thesis by auto
qed

subsection \<open>Queries\<close>

text \<open>C36.  While the local chain is on the base chain, \<^verbatim>\<open>getblockhash\<close> answers every height from
  zero up to the local tip with the hash that the base chain has there, whether or not the block
  has been pruned locally, and every greater height with error -8.\<close>

theorem getblockhash_hides_pruning:
  assumes "base_chain bc view tip ready" "ready (sy_base s)" "chain_synced L T (view (sy_base s)) (sy_chain s)"
    and "base_in_tree L T (view (sy_base s))" "chain_aligned (view (sy_base s)) (sy_chain s)"
    and "0 \<le> height" "height \<le> 2147483647"
  shows "\<exists>s'. getblockhash what bc height s =
      ((if height \<le> GetTipHeight (sy_chain s)
        then (case view (sy_base s) (nat height) of
                None \<Rightarrow> Inl (Throw (JsonRpcException (-8) ''block height out of range'')) | Some b \<Rightarrow> Inr (blk_hash b))
        else Inl (Throw (JsonRpcException (-8) ''block height out of range''))), s') \<and> sy_chain s' = sy_chain s"
  using base_chain.getblockhash_ok [OF assms] .

theorem getblockhash_hides_pruning_witness:
  "\<exists>s'. getblockhash (\<lambda>_. ''x'') TestChain 1 (ex_run ex_forked) = (Inr ''a1'', s') \<and> sy_chain s' = ex_forked"
proof -
  have tip: "GetTipHeight ex_forked = 2" by code_simp
  have "tip_is ex_forked (ex_block ''a2'')" by code_simp
  then have "chain_aligned (Test_view ex_base) ex_forked" by (simp add: chain_aligned_def tip ex_view)
  moreover have "blk_hash (ex_block ''a1'') = ''a1''" by code_simp
  ultimately show ?thesis
    using getblockhash_hides_pruning [OF test.base_chain_axioms [of ex_codec], of "ex_run ex_forked" ex_codec ex_T 1]
      ex_base_ready ex_forked_synced ex_base_in_tree by (simp add: tip ex_view)
qed

text \<open>\<^verbatim>\<open>getblockheader\<close> answers a block that is stored locally, on the main chain or not, with its
  height; any other with the height on the base chain's main chain, and with error -5 when it is not
  there.\<close>

theorem getblockheader_answers:
  assumes "base_chain bc view tip ready" "ready (sy_base s)" "chain_inv L (sy_chain s)"
  shows "\<exists>s' h. getblockheader what bc hash s =
      (case row_at (blocks (sy_chain s)) hash of
         Some r \<Rightarrow> (Inr (header_json hash (int (r_height r))), s)
       | None \<Rightarrow> if h = -1 then (Inl (Throw (JsonRpcException (-5) ''block not found'')), s')
                else (Inr (header_json hash h), s')) \<and>
    sy_chain s' = sy_chain s \<and> mainheight_ok (view (sy_base s)) hash h"
  using base_chain.getblockheader_ok [OF assms] .

theorem getblockheader_answers_witness:
  "fst (getblockheader (\<lambda>_. ''x'') TestChain ''b2'' (ex_run ex_forked)) = Inr (header_json ''b2'' 2)"
proof -
  have "row_at (blocks ex_forked) ''b2'' = Some (ex_row ''b2'' 1)" "r_height (ex_row ''b2'' 1) = 2"
    by (code_simp, code_simp)
  with getblockheader_answers [OF test.base_chain_axioms ex_forked_run(1,2), of "\<lambda>_. ''x''" "''b2''"]
  show ?thesis by auto
qed

text \<open>\<^verbatim>\<open>getblockchaininfo\<close> reports the local tip: its height, its hash and the chain's name, which
  is asked from the base chain once and remembered; for an empty chain state height -1 and no hash.\<close>

theorem getblockchaininfo_reports_tip:
  assumes "chain_inv L (sy_chain s)" "chain_name bc s c"
  shows "\<exists>j s'. getblockchaininfo what bc s = (Inr j, s') \<and> rd_cachedChain (sy_owner s') = c \<and> sy_chain s' = sy_chain s \<and>
    json_get j ''chain'' = JString c \<and> json_get j ''blocks'' = JInt (GetTipHeight (sy_chain s)) \<and>
    json_get j ''bestblockhash'' = JString (case select_tip (sy_chain s) of [] \<Rightarrow> '''' | h # _ \<Rightarrow> h)"
  using getblockchaininfo_ok [OF assms] .

theorem getblockchaininfo_reports_tip_witness:
  "\<exists>j s' c. getblockchaininfo (\<lambda>_. ''x'') TestChain (ex_run ex_forked) = (Inr j, s') \<and>
    json_get j ''blocks'' = JInt 2 \<and> json_get j ''bestblockhash'' = JString ''a2'' \<and> rd_cachedChain (sy_owner s') = c"
proof -
  define p where "p = bc_GetChain TestChain ex_base"
  have "fst p = Inr (projr (fst p))" "projr (fst p) \<noteq> []" unfolding p_def by (code_simp, code_simp)
  then have "chain_name TestChain (ex_run ex_forked) (projr (fst p))"
    by (auto simp: chain_name_def ex_run_def p_def intro: result_is)
  moreover have "GetTipHeight ex_forked = 2" "select_tip ex_forked = [''a2'']" by (code_simp, code_simp)
  ultimately show ?thesis
    using getblockchaininfo_reports_tip [OF ex_forked_run(2)] by fastforce
qed

subsection \<open>Requests that go wrong\<close>

text \<open>C39.  A negative height is converted to an unsigned number that the database refuses to bind:
  \<^verbatim>\<open>getblockhash\<close> ends the process instead of answering with an error.\<close>

theorem getblockhash_negative_aborts:
  assumes "- 2147483648 \<le> height" "height < 0"
  shows "getblockhash what bc height s = (Inl Abort, s)"
  using getblockhash_negative [OF assms] .

theorem getblockhash_negative_aborts_witness:
  "getblockhash (\<lambda>_. ''x'') TestChain (-1) (ex_run ex_forked) = (Inl Abort, ex_run ex_forked)"
  by (rule getblockhash_negative_aborts) simp_all

text \<open>Before the first block is imported, \<^verbatim>\<open>game_sendupdates\<close> for any block ends the process.\<close>

theorem sendupdates_before_import_aborts:
  assumes "blocks (sy_chain s) = []" "from \<noteq> []"
  shows "fst (game_sendupdates3 what L Z bc block_range from gameId to s) = Inl Abort"
  using sendupdates_empty_chain [OF assms] .

theorem sendupdates_before_import_aborts_witness:
  "fst (game_sendupdates3 (\<lambda>_. ''x'') ex_codec ex_zlib TestChain 128 ''g'' ''demo'' '''' (ex_run (ex_chain []))) = Inl Abort"
  by (rule sendupdates_before_import_aborts) (simp_all add: ex_chain_def)

text \<open>C40.  While the base chain is behind the local one, a request from a local main-chain block back to
  the tip of the base chain reads the last element of an empty vector.\<close>

theorem push_behind_base_undefined:
  assumes "base_chain bc view tip ready" "ready (sy_base s)" "chain_inv L (sy_chain s)" "from \<noteq> []" "to \<noteq> []"
    and "r \<in> set (blocks (sy_chain s))" "r_branch r = 0" "r_hash r = from" "r_height r < i64_max"
    and "view (sy_base s) (tip (sy_base s)) = Some b" "blk_hash b = to" "tip (sy_base s) < r_height r"
  shows "\<exists>s'. PushZmqBlocks L Z bc from to [] num tok s = (Inl Undefined, s')"
  using base_chain.push_beyond_base_undefined [OF assms] .

definition ex_short :: TestBaseChain where
  "ex_short = ex_base\<lparr>tc_chain := ex_chain [(''g'', 0), (''a1'', 0)]\<rparr>"

lemma ex_short_ready: "Test_ready ex_codec ex_short"
proof -
  have "chain_inv ex_codec (tc_chain ex_short)"
    unfolding ex_short_def by simp (rule ex_inv, code_simp)
  moreover have "Test_data_ok ex_short" "0 \<le> GetTipHeight (tc_chain ex_short)" by (code_simp, code_simp)
  ultimately show ?thesis by (simp add: Test_ready_def ex_short_def ex_base_def TestBaseChain_new_def)
qed

theorem push_behind_base_undefined_witness:
  "fst (PushZmqBlocks ex_codec ex_zlib TestChain ''a2'' ''a1'' [] 5 ''t'' ((ex_run ex_forked)\<lparr>sy_base := ex_short\<rparr>)) = Inl Undefined"
proof -
  let ?s = "(ex_run ex_forked)\<lparr>sy_base := ex_short\<rparr>"
  have s: "Test_ready ex_codec (sy_base ?s)" "chain_inv ex_codec (sy_chain ?s)"
    using ex_short_ready ex_forked_inv by simp_all
  have "ex_row ''a2'' 0 \<in> set (blocks ex_forked)" by code_simp
  moreover have "r_branch (ex_row ''a2'' 0) = 0" "r_hash (ex_row ''a2'' 0) = ''a2''" "r_height (ex_row ''a2'' 0) = 2"
    by (code_simp, code_simp, code_simp)
  moreover have "Test_view ex_short (Test_tip ex_short) = Some (ex_block ''a1'')" "blk_hash (ex_block ''a1'') = ''a1''"
      "Test_tip ex_short = 1"
    by (code_simp, code_simp, code_simp)
  ultimately show ?thesis
    using push_behind_base_undefined [OF test.base_chain_axioms s, of "''a2''" "''a1''" "ex_row ''a2'' 0" "ex_block ''a1''" ex_zlib 5 "''t''"]
    by auto
qed

text \<open>A request whose target is the block the subscriber is already at is reported as an error.\<close>

theorem push_to_same_block_fails:
  assumes "base_chain bc view tip ready" "ready (sy_base s)" "chain_inv L (sy_chain s)" "from \<noteq> []"
    and "r \<in> set (blocks (sy_chain s))" "r_branch r = 0" "r_hash r = from"
    and "view (sy_base s) (r_height r) = Some b" "blk_hash b = from"
  shows "\<exists>s'. PushZmqBlocks L Z bc from from [] num tok s = (Inr (False, [], []), s')"
  using base_chain.push_to_fork_point [OF assms] .

theorem push_to_same_block_fails_witness:
  "fst (PushZmqBlocks ex_codec ex_zlib TestChain ''a2'' ''a2'' [] 5 ''t'' (ex_run ex_forked)) = Inr (False, [], [])"
proof -
  have "ex_row ''a2'' 0 \<in> set (blocks ex_forked)" by code_simp
  moreover have "r_branch (ex_row ''a2'' 0) = 0" "r_hash (ex_row ''a2'' 0) = ''a2''" "r_height (ex_row ''a2'' 0) = 2"
      "blk_hash (ex_block ''a2'') = ''a2''"
    by (code_simp, code_simp, code_simp, code_simp)
  ultimately show ?thesis
    using push_to_same_block_fails [OF test.base_chain_axioms ex_forked_run(1,2), of "''a2''" "ex_row ''a2'' 0" "ex_block ''a2''" ex_zlib 5 "''t''"]
    by (auto simp: ex_view)
qed

end
