(* ===== verification/PubSend.thy ===== *)
theory PubSend
  imports Pending
begin

text \<open>
  That sending succeeds: with a socket that accepts every message, the methods of the publisher
  return normally on the data the base chain may hand over, and the publisher stays usable.
\<close>

definition pub_ok :: "ZmqPub \<Rightarrow> bool" where
  "pub_ok z \<longleftrightarrow> games_ok z \<and> zp_outcomes z = []"

lemma SendMessage_ok: "pub_ok z \<Longrightarrow> \<exists>z'. SendMessage Z cmd data z = (Inr (), z') \<and> pub_ok z'"
  by (rule SendMessage_cases [of Z cmd data z]) (auto simp: pub_ok_def games_ok_def)

lemma SendMessage_pub [intro!]: "keepsOk pub_ok (SendMessage Z cmd data)"
  unfolding keepsOk_def
proof (intro allI impI)
  fix z a z' assume "pub_ok z" "SendMessage Z cmd data z = (Inr a, z')"
  then show "pub_ok z'" using SendMessage_ok [of z Z cmd data] by auto
qed

lemma SendBlock_pub [intro!]: "keepsOk pub_ok (SendBlock Z p blk tok)"
proof -
  have "keepsOk pub_ok (send_game Z p t ms as e)" for t ms as e
    unfolding send_game_def
    by (intro keepsOk_then keepsOk_simps) (auto split: option.split intro!: keepsOk_then keepsOk_simps)
  then show ?thesis
    unfolding SendBlock_def by (intro keepsOk_bind keepsOk_simps) (auto split: prod.split intro!: keepsOk_forM)
qed

lemma SendBlock_ok:
  assumes "pub_ok z" "block_sendable Z blk"
  shows "\<exists>z'. SendBlock Z p blk tok z = (Inr (), z') \<and> pub_ok z'"
proof -
  obtain z' where "SendBlock Z p blk tok z = (Inr (), z')"
    using SendBlock_content [of z Z blk tok p] assms by (auto simp: pub_ok_def)
  with keepsOkD [OF SendBlock_pub assms(1) this] show ?thesis by blast
qed

subsection \<open>Pending moves\<close>

definition moves_sendable :: "zmq_lib \<Rightarrow> MoveData list \<Rightarrow> bool" where
  "moves_sendable Z moves \<longleftrightarrow>
     moves \<noteq> [] \<and> list_all (tx_ok Z) moves \<and> list_all (\<lambda>mv. mv_txid mv = mv_txid (hd moves)) moves"

lemma pending_moves_ok:
  assumes "list_all (tx_ok Z) mvs" "list_all (\<lambda>mv. mv_txid mv = t) mvs" "lt = [] \<or> lt = t" "arrays_for games f m"
  shows "\<exists>m'. pending_moves Z games mvs lt m = Inr m' \<and> arrays_for games (\<lambda>g. f g @ game_moves Z g mvs) m'"
  using assms
proof (induction mvs arbitrary: lt f m)
  case Nil
  then show ?case by (simp add: game_moves_def)
next
  case (Cons mv mvs)
  have tx: "tx_ok Z mv" using Cons.prems(1) by simp
  obtain m1 where m1: "append_moves games (pt_moves (tx_data Z mv)) m = Inr m1"
      "arrays_for games (\<lambda>g. f g @ (case map_of (pt_moves (tx_data Z mv)) g of None \<Rightarrow> [] | Some v \<Rightarrow> [v])) m1"
    using append_moves_ok [OF Cons.prems(4) PerTxData_ok(2) [OF tx]] by blast
  obtain m' where "pending_moves Z games mvs (mv_txid mv) m1 = Inr m'"
      "arrays_for games (\<lambda>g. (f g @ (case map_of (pt_moves (tx_data Z mv)) g of None \<Rightarrow> [] | Some v \<Rightarrow> [v])) @ game_moves Z g mvs) m'"
    using Cons.IH [OF _ _ _ m1(2), of "mv_txid mv"] Cons.prems(1,2) by auto
  then show ?case
    using PerTxData_ok(1) [OF tx] m1(1) Cons.prems(2,3) by (auto simp: game_moves_def)
qed

lemma forM_ok:
  assumes "\<And>x z. x \<in> set xs \<Longrightarrow> P z \<Longrightarrow> \<exists>z'. f x z = (Inr (), z') \<and> P z'" "P z"
  shows "\<exists>z'. forM xs f z = (Inr (), z') \<and> P z'"
  using assms
proof (induction xs arbitrary: z)
  case (Cons x xs)
  obtain z1 where z1: "f x z = (Inr (), z1)" "P z1" using Cons.prems(1) [of x z] Cons.prems(2) by auto
  have "\<exists>z'. forM xs f z1 = (Inr (), z') \<and> P z'" by (rule Cons.IH [OF _ z1(2)]) (use Cons.prems(1) in simp)
  with z1(1) show ?case by auto
qed simp

lemma SendPendingMoves_ok:
  assumes z: "pub_ok z" and mvs: "moves_sendable Z moves"
  shows "\<exists>z'. SendPendingMoves Z moves z = (Inr (), z') \<and> pub_ok z'"
proof -
  obtain empty where empty: "empty_arrays (zp_games z) = Inr empty" "arrays_for (zp_games z) (\<lambda>_. []) empty"
    using empty_arrays_ok z by (auto simp: pub_ok_def)
  obtain m where m: "pending_moves Z (zp_games z) moves '''' empty = Inr m"
    using pending_moves_ok [OF _ _ _ empty(2), of Z moves "mv_txid (hd moves)" "''''"] mvs by (auto simp: moves_sendable_def)
  let ?send = "\<lambda>e. if json_size (snd e) > 0 then SendMessage Z (PREFIX_MOVE @ '' json '' @ fst e) (snd e) else ret ()"
  have "\<exists>z'. forM m ?send z = (Inr (), z') \<and> pub_ok z'"
    by (rule forM_ok [where P = pub_ok, OF _ z]) (use SendMessage_ok in auto)
  with empty(1) m mvs show ?thesis by (simp add: SendPendingMoves_def moves_sendable_def)
qed

text \<open>The flush of the queue when the chain state reaches the announced tip.\<close>

lemma ChainstateTipChanged_ok:
  assumes "pub_ok (pd_zmq s)" "\<forall>m\<in>set (pd_queue s). moves_sendable Z m" "newTip \<noteq> []"
  shows "\<exists>out q z'. ChainstateTipChanged Z newTip s = (Inr (), s\<lparr>pd_chainstateTip := newTip, pd_queue := q, pd_zmq := z'\<rparr>) \<and>
    send_all Z out (pd_zmq s) = (Inr (), z') \<and> pub_ok z' \<and> set q \<subseteq> set (pd_queue s)"
proof (cases "newTip = pd_notificationTip s")
  case False
  with assms show ?thesis
    by (intro exI [of _ "[]"] exI [of _ "pd_queue s"] exI [of _ "pd_zmq s"]) (simp add: ChainstateTipChanged_def send_all_def)
next
  case True
  have "\<exists>z'. forM (pd_queue s) (SendPendingMoves Z) (pd_zmq s) = (Inr (), z') \<and> pub_ok z'"
    by (rule forM_ok [where P = pub_ok, OF _ assms(1)]) (use SendPendingMoves_ok assms(2) in auto)
  then obtain z' where z': "forM (pd_queue s) (SendPendingMoves Z) (pd_zmq s) = (Inr (), z')" "pub_ok z'" by blast
  have "on_zmq (forM (pd_queue s) (SendPendingMoves Z)) (s\<lparr>pd_chainstateTip := newTip\<rparr>) =
      (Inr (), s\<lparr>pd_chainstateTip := newTip, pd_zmq := z'\<rparr>)"
    using z'(1) by (simp add: on_zmq_def zoomM_def)
  with True assms(3) z' show ?thesis
    by (intro exI [of _ "pd_queue s"] exI [of _ "[]"] exI [of _ z']) (simp add: ChainstateTipChanged_def forM_on_zmq send_all_def)
qed

end
