(* ===== verification/ControllerSync.thy ===== *)
theory ControllerSync
  imports ControllerPush PubSend
begin

text \<open>
  The controller as the owner of the sync worker's callbacks.  The worker promises \<open>update_ok\<close>; with
  it, \<^verbatim>\<open>TipUpdatedFrom\<close> always returns, prunes within the limits the worker allows for, and its
  notifications extend a log that a subscriber can follow to the new tip.  So the controller keeps
  the contract \<open>sync_client\<close>, and the theorem that the worker catches up holds for the whole program.
\<close>

subsection \<open>What the controller sends, as a log\<close>

text \<open>A tip update, an imported tip, which a subscriber sees as an attached block that need not be a
  child of its current one, batches of pending moves, the answer to a request, which carries the token
  of the request and is ignored by a subscriber that follows the tip, and changes of the tracked games.\<close>

datatype run_event =
    Blocks "zmq_event list" | Import BlockData | Moves "MoveData list list"
  | Answer string "zmq_event list" | Track string | Untrack string

definition send_run_event :: "zmq_lib \<Rightarrow> run_event \<Rightarrow> (ZmqPub, unit) prog" where
  "send_run_event Z e =
     (case e of
        Blocks es \<Rightarrow> send_events Z '''' es
      | Import b \<Rightarrow> SendBlockAttach Z b ''''
      | Moves out \<Rightarrow> send_all Z out
      | Answer tok es \<Rightarrow> send_events Z tok es
      | Track g \<Rightarrow> TrackGame g
      | Untrack g \<Rightarrow> UntrackGame g)"

definition send_log :: "zmq_lib \<Rightarrow> run_event list \<Rightarrow> (ZmqPub, unit) prog" where
  "send_log Z log = forM log (send_run_event Z)"

fun follow_log :: "string \<Rightarrow> run_event list \<Rightarrow> string option" where
  "follow_log cur [] = Some cur"
| "follow_log cur (Blocks es # log) = (case follow cur es of None \<Rightarrow> None | Some c \<Rightarrow> follow_log c log)"
| "follow_log cur (Import b # log) = follow_log (blk_hash b) log"
| "follow_log cur (Moves out # log) = follow_log cur log"
| "follow_log cur (Answer tok es # log) = follow_log cur log"
| "follow_log cur (Track g # log) = follow_log cur log"
| "follow_log cur (Untrack g # log) = follow_log cur log"

lemma follow_log_append:
  "follow_log a (xs @ ys) = (case follow_log a xs of None \<Rightarrow> None | Some b \<Rightarrow> follow_log b ys)"
  by (induction a xs rule: follow_log.induct) (auto split: option.split)

lemma send_log_append:
  "send_log Z xs z = (Inr (), z1) \<Longrightarrow> send_log Z ys z1 = (Inr (), z2) \<Longrightarrow> send_log Z (xs @ ys) z = (Inr (), z2)"
  by (simp add: send_log_def forM_append)

subsection \<open>The notifications of a tip update\<close>

definition event_sendable :: "zmq_lib \<Rightarrow> zmq_event \<Rightarrow> bool" where
  "event_sendable Z e = (case e of Detach b \<Rightarrow> block_sendable Z b | Attach b \<Rightarrow> block_sendable Z b)"

lemma send_events_ok:
  assumes "pub_ok z" "\<forall>e\<in>set es. event_sendable Z e"
  shows "\<exists>z'. send_events Z tok es z = (Inr (), z') \<and> pub_ok z'"
  unfolding send_events_def
proof (rule forM_ok [where P = pub_ok, OF _ assms(1)])
  fix e y assume "e \<in> set es" "pub_ok y"
  then show "\<exists>z'. send_event Z tok e y = (Inr (), z') \<and> pub_ok z'"
    using SendBlock_ok assms(2)
    by (auto simp: send_event_def event_sendable_def SendBlockAttach_def SendBlockDetach_def split: zmq_event.splits)
qed

lemma attach_known_run:
  assumes "pub_ok (run_pub s)" "\<forall>b\<in>set A. block_sendable Z b" "\<forall>b\<in>set A. blk_height b = u64_add fh 1 \<longrightarrow> blk_parent b = fp"
  shows "\<exists>z. attach_known Z tok fh fp A found s = (Inr (found \<or> (\<exists>b\<in>set A. blk_height b = u64_add fh 1)), set_pub z s) \<and>
    send_events Z tok (map Attach (filter (\<lambda>b. blk_height b > fh) A)) (run_pub s) = (Inr (), z) \<and> pub_ok z"
  using assms
proof (induction A arbitrary: found s)
  case Nil
  then show ?case by (intro exI [of _ "run_pub s"]) simp
next
  case (Cons b A)
  let ?found = "found \<or> blk_height b = u64_add fh 1"
  show ?case
  proof (cases "blk_height b > fh")
    case True
    obtain z where z: "SendBlockAttach Z b tok (run_pub s) = (Inr (), z)" "pub_ok z"
      using SendBlock_ok [of "run_pub s" Z b PREFIX_ATTACH tok] Cons.prems(1,2) by (auto simp: SendBlockAttach_def)
    have "pub_ok (run_pub (set_pub z s))" using z(2) by simp
    from Cons.IH [OF this, of ?found] Cons.prems(2,3) obtain z' where z':
        "attach_known Z tok fh fp A ?found (set_pub z s) =
           (Inr (?found \<or> (\<exists>b\<in>set A. blk_height b = u64_add fh 1)), set_pub z' (set_pub z s))"
        "send_events Z tok (map Attach (filter (\<lambda>b. blk_height b > fh) A)) z = (Inr (), z')" "pub_ok z'"
      by auto
    have "run_zmq (SendBlockAttach Z b tok) s = (Inr (), set_pub z s)" using z(1) by (simp add: run_zmq_eq)
    with z' z(1) True Cons.prems(3) show ?thesis
      by (intro exI [of _ z']) (auto simp: send_events_def send_event_def)
  next
    case False
    from Cons.IH [OF Cons.prems(1), of ?found] Cons.prems(2,3) obtain z' where
        "attach_known Z tok fh fp A ?found s = (Inr (?found \<or> (\<exists>b\<in>set A. blk_height b = u64_add fh 1)), set_pub z' s)"
        "send_events Z tok (map Attach (filter (\<lambda>b. blk_height b > fh) A)) (run_pub s) = (Inr (), z')" "pub_ok z'"
      by auto
    with False Cons.prems(3) show ?thesis by (intro exI [of _ z']) auto
  qed
qed

lemma linked_mid:
  "linked A \<Longrightarrow> A \<noteq> [] \<Longrightarrow> blk_height (hd A) \<le> n \<Longrightarrow> n \<le> blk_height (last A) \<Longrightarrow> \<exists>b\<in>set A. blk_height b = n"
proof (induction A rule: linked.induct)
  case (1 a b bs)
  then show ?case by (cases "n = blk_height a") auto
qed auto

lemma linked_below_last: "linked A \<Longrightarrow> b \<in> set A \<Longrightarrow> b \<noteq> last A \<Longrightarrow> blk_height b < blk_height (last A)"
proof (induction A rule: linked.induct)
  case (1 a c bs)
  then show ?case
    using linked_heights [of a "c # bs"] by (cases "b = a") (auto split: if_splits)
qed auto

text \<open>The block above a main-chain block is a child of it.\<close>

lemma update_child:
  assumes Tk: "tree_ok T" and B: "base_in_tree L T v" and ok: "mainchain_ok v t" and sy: "chain_synced L T v cs"
    and up: "update_ok L v cs old att" and m: "m \<in> set (blocks cs)" "r_branch m = 0"
    and b: "b \<in> set att" "blk_height b = Suc (r_height m)"
  shows "blk_parent b = r_hash m"
proof -
  have inv: "chain_inv L cs" and R: "rows_in_tree T (blocks cs)" using sy by (auto simp: chain_synced_def)
  have keys: "\<And>b. b \<in> set att \<Longrightarrow> GetLowestUnprunedHeight cs < int (blk_height b) \<Longrightarrow>
      \<exists>x. v (blk_height b) = Some x \<and> blk_key x = blk_key b"
    and att: "att \<noteq> []" "linked att" "tip_is cs (last att)" using up by (auto simp: update_ok_def)
  have low: "GetLowestUnprunedHeight cs \<le> int (r_height m)" by (rule GetLowest_le [OF m])
  obtain x where x: "v (Suc (r_height m)) = Some x" "blk_key x = blk_key b" using keys [OF b(1)] b(2) low by auto
  have le: "r_height m \<le> blk_height (last att)"
    using GetTip_obtain [OF m] m att(3) by (metis tip_is_def of_nat_eq_iff)
  have top: "Suc (r_height m) \<le> blk_height (last att)"
  proof (cases "b = last att")
    case False
    then have "blk_height b < blk_height (last att)" using linked_below_last [OF att(2) b(1)] by simp
    with b(2) show ?thesis by simp
  qed (use b(2) in simp)
  then obtain y where y: "v (blk_height (last att)) = Some y" "blk_key y = blk_key (last att)"
    using keys [of "last att"] att(1) low by auto
  have tip: "tip_is cs y" using att(3) y(2) by (simp add: tip_is_def blk_key_def)
  have root: "root_in_view v cs" using sy by (simp add: chain_synced_def)
  obtain k c where k: "GetLowestUnprunedHeight cs = int k" "v k = Some c" by (rule root_heights [OF root]) blast
  have "k + (blk_height (last att) - r_height m) \<le> blk_height (last att)" using low k(1) le by simp
  from main_on_view [OF inv R B ok tip y(1) k this] le obtain r w where
      r: "r \<in> set (blocks cs)" "r_branch r = 0" "r_height r = r_height m" "v (r_height m) = Some w" "r_hash r = blk_hash w"
    by auto
  have "r = m" using schema_slot_unique [OF rows_invD(1) [OF inv] r(1) m(1)] r(2,3) m(2) by simp
  with mainchain_okD(4) [OF ok r(4) x(1)] r(5) x(2) show ?thesis by (simp add: blk_key_def)
qed

lemma bind_ret: "bindM (ret a) f = f a"
  by (simp add: fun_eq_iff)

lemma push_after_detach:
  assumes z: "pub_ok (run_pub s)" and ds: "\<forall>b\<in>set D. block_sendable Z b" and at: "\<forall>b\<in>set att. block_sendable Z b"
    and path: "follow old (map Detach D) = Some fp" "fp = path_end old D []"
    and att: "linked att" "att \<noteq> []" and fh: "fh \<le> height_limit"
    and child: "\<And>b. b \<in> set att \<Longrightarrow> blk_height b = Suc fh \<Longrightarrow> blk_parent b = fp"
    and reach: "blk_hash (last att) = fp \<and> D \<noteq> [] \<or> blk_height (hd att) \<le> Suc fh \<and> Suc fh \<le> blk_height (last att)"
  shows "\<exists>A z. bindM (send_detaches Z tok D) (\<lambda>_. push_from_fork Z bc '''' att num tok D low fh fp) s =
      (Inr (True, D, []), set_pub z s) \<and>
    send_events Z tok (map Detach D @ map Attach A) (run_pub s) = (Inr (), z) \<and> pub_ok z \<and>
    follow old (map Detach D @ map Attach A) = Some (blk_hash (last att))"
proof -
  have "\<forall>e\<in>set (map Detach D). event_sendable Z e" using ds by (auto simp: event_sendable_def)
  from send_events_ok [OF z this] obtain z1 where z1: "send_events Z tok (map Detach D) (run_pub s) = (Inr (), z1)" "pub_ok z1"
    by blast
  have det: "send_detaches Z tok D s = (Inr (), set_pub z1 s)" using z1(1) by (simp add: send_detaches_eq run_zmq_eq)
  show ?thesis
  proof (cases "D \<noteq> [] \<and> blk_hash (last att) = blk_parent (last D)")
    case True
    then have "push_from_fork Z bc '''' att num tok D low fh fp (set_pub z1 s) = (Inr (True, D, []), set_pub z1 s)"
      using att(2) by (simp add: push_from_fork_def)
    with det z1 path True show ?thesis
      by (intro exI [of _ "[]"] exI [of _ z1]) (simp add: path_end_def)
  next
    case False
    then have reach: "blk_height (hd att) \<le> Suc fh" "Suc fh \<le> blk_height (last att)"
      using reach path(2) by (auto simp: path_end_def)
    have add: "u64_add fh 1 = Suc fh" using fh by simp
    have found: "\<exists>b\<in>set att. blk_height b = Suc fh" by (rule linked_mid [OF att reach])
    have "pub_ok (run_pub (set_pub z1 s))" using z1(2) by simp
    then obtain z2 where z2: "attach_known Z tok fh fp att False (set_pub z1 s) = (Inr True, set_pub z2 s)"
        "send_events Z tok (map Attach (filter (\<lambda>b. blk_height b > fh) att)) z1 = (Inr (), z2)" "pub_ok z2"
      using attach_known_run [of "set_pub z1 s" att Z fh fp tok False] at child found add by auto
    obtain A1 b A2 where A: "att = A1 @ b # A2" "blk_height b = Suc fh"
        "filter (\<lambda>b. blk_height b > fh) att = b # A2" "linked (b # A2)"
      using linked_filter [OF att(1) found] by blast
    have "blk_parent b = fp" using child A(1,2) by simp
    then have "follow fp (map Attach (b # A2)) = Some (blk_hash (last att))"
      using linked_follow [OF A(4)] A(1) by simp
    moreover have "push_from_fork Z bc '''' att num tok D low fh fp (set_pub z1 s) = (Inr (True, D, []), set_pub z2 s)"
      using att(2) False z2(1) by (auto simp: push_from_fork_def)
    ultimately show ?thesis
      using det z1(1) z2(2,3) A(3) path(1)
      by (intro exI [of _ "b # A2"] exI [of _ z2]) (auto simp: send_events_append follow_append)
  qed
qed

lemma PushZmqBlocks_update:
  assumes Tk: "tree_ok T" and B: "base_in_tree L T v" and ok: "mainchain_ok v t"
    and sy: "chain_synced L T v (sy_chain s)" and up: "update_ok L v (sy_chain s) old att" and old: "old \<noteq> []"
    and z: "pub_ok (run_pub s)" and at: "\<forall>b\<in>set att. block_sendable Z b"
    and rows: "\<forall>r\<in>set (blocks (sy_chain s)). block_sendable Z (row_block L r)"
  shows "\<exists>D A z. PushZmqBlocks L Z bc old '''' att num tok s = (Inr (True, D, []), set_pub z s) \<and>
    send_events Z tok (map Detach D @ map Attach A) (run_pub s) = (Inr (), z) \<and> pub_ok z \<and>
    follow old (map Detach D @ map Attach A) = Some (blk_hash (last att))"
proof -
  let ?cs = "sy_chain s" and ?low = "GetLowestUnprunedHeight (sy_chain s)"
  have inv: "chain_inv L ?cs" and R: "rows_in_tree T (blocks ?cs)" using sy by (auto simp: chain_synced_def)
  have att: "att \<noteq> []" "linked att" "tip_is ?cs (last att)" using up by (auto simp: update_ok_def)
  obtain ps where ps: "side_path (blocks ?cs) old ps" using side_path_exists [OF rows_invD(3) [OF inv]] by blast
  obtain q where q: "row_at (blocks ?cs) old = Some q" "old \<noteq> blk_hash (last att)" using up old by (auto simp: update_ok_def)
  obtain m where m: "m \<in> set (blocks ?cs)" "r_branch m = 0" "blk_height (hd att) \<le> Suc (r_height m)"
      "r_hash m = (if ps = [] then old else r_parent (last ps))"
    using up old ps unfolding update_ok_def by blast
  let ?D = "map (row_block L) ps"
  have path: "follow old (map Detach ?D) = Some (path_end old ?D [])"
    using side_path_follow [OF _ ps] rows_invD(2) [OF inv] by blast
  have psr: "r \<in> set (blocks ?cs)" if "r \<in> set ps" for r using side_path_subset [OF ps] that by blast
  have lastD: "blk_parent (last ?D) = r_parent (last ps)" "blk_height (last ?D) = r_height (last ps)" if "ps \<noteq> []"
    using that read_row_ok [OF rows_invD(2) [OF inv psr [OF last_in_set]]] by (simp_all add: last_map)
  have fp: "path_end old ?D [] = r_hash m" using m(4) lastD by (simp add: path_end_def)
  have hm: "r_height m \<le> height_limit" using tree_okD(1) [OF Tk rows_in_treeD [OF R m(1)]] .
  have low: "0 \<le> ?low" using GetLowest_obtain [OF m(1,2)] by (metis of_nat_0_le_iff)
  have start: "PushZmqBlocks L Z bc old '''' att num tok s =
      bindM (send_detaches Z tok ?D) (\<lambda>_. push_from_fork Z bc '''' att num tok ?D ?low (r_height m) (r_hash m)) s"
  proof (cases "ps = []")
    case True
    then have "q = m" using schema_hash_unique [OF rows_invD(1) [OF inv] _ m(1)] row_at_SomeD [OF q(1)] m(4) by simp
    with GetForkBranch_eq [OF inv ps] True q(1) old low m(4) GetHeightForHash_eq [OF rows_invD(1) [OF inv], of old]
    show ?thesis
      by (simp add: PushZmqBlocks_def push_from_branch_def run_chain_def sy_on_chain_def zoomM_simp send_detaches_def)
  next
    case False
    have "r_height (last ps) = Suc (r_height m)"
      using heights_linkedD [OF rows_invD(3) [OF inv] psr [OF last_in_set [OF False]] m(1)] m(4) False by simp
    with lastD [OF False] hm have "u64_sub (blk_height (last ?D)) 1 = r_height m" by simp
    with GetForkBranch_eq [OF inv ps] False q(1) old low m(4) lastD [OF False] show ?thesis
      by (simp add: PushZmqBlocks_def push_from_branch_def run_chain_def sy_on_chain_def zoomM_simp thenM_def bind_ret)
  qed
  have reach: "blk_hash (last att) = r_hash m \<and> ?D \<noteq> [] \<or>
      blk_height (hd att) \<le> Suc (r_height m) \<and> Suc (r_height m) \<le> blk_height (last att)"
  proof (cases "r_height m < blk_height (last att)")
    case True
    with m(3) show ?thesis by simp
  next
    case False
    obtain tr where tr: "tr \<in> set (blocks ?cs)" "r_branch tr = 0" "r_height tr = blk_height (last att)" "r_hash tr = blk_hash (last att)"
      using att(3) by (auto simp: tip_is_def)
    have "r_height m \<le> blk_height (last att)"
      using GetTip_obtain [OF m(1,2)] m(1,2) att(3) by (metis tip_is_def of_nat_eq_iff)
    with False have "r_height tr = r_height m" using tr(3) by simp
    then have "tr = m" using schema_slot_unique [OF rows_invD(1) [OF inv] tr(1) m(1)] tr(2) m(2) by simp
    with tr(4) m(4) q(2) show ?thesis by auto
  qed
  have "\<forall>b\<in>set ?D. block_sendable Z b" using rows psr by auto
  from push_after_detach [OF z this at path [unfolded fp] fp [symmetric] att(2,1) hm _ reach, of tok bc num ?low]
    update_child [OF Tk B ok sy up m(1,2)]
  show ?thesis unfolding start by blast
qed

subsection \<open>The callback\<close>

text \<open>Data that the chain state may hold: what is read back from it can be sent.\<close>

definition data_sendable :: "codec \<Rightarrow> zmq_lib \<Rightarrow> string \<Rightarrow> bool" where
  "data_sendable L Z d \<longleftrightarrow> (case Deserialise L d of Inl e \<Rightarrow> True | Inr b \<Rightarrow> block_sendable Z b)"

text \<open>The invariant of the running controller: the publisher is usable, no pending moves wait once the
  tips agree, everything it may have to
  send can be sent, and what it sent since it was \<open>z0\<close> leads a subscriber from \<open>h0\<close> to \<open>h\<close>.\<close>

definition run_inv ::
  "codec \<Rightarrow> zmq_lib \<Rightarrow> ('b \<Rightarrow> mainchain) \<Rightarrow> ZmqPub \<Rightarrow> string \<Rightarrow> string \<Rightarrow> 'b run \<Rightarrow> bool" where
  "run_inv L Z view z0 h0 h s \<longleftrightarrow>
     pub_ok (run_pub s) \<and> pending_inv (rd_pendings (sy_owner s)) \<and> -1 \<le> rd_cachedVersion (sy_owner s) \<and>
     (\<forall>m\<in>set (pd_queue (rd_pendings (sy_owner s))). moves_sendable Z m) \<and>
     data_only (data_sendable L Z) (sy_chain s) \<and>
     (\<forall>n b. view (sy_base s) n = Some b \<longrightarrow> block_sendable Z b \<and> (\<forall>d. Serialise L b = Inr d \<longrightarrow> data_sendable L Z d)) \<and>
     (\<exists>log. send_log Z log z0 = (Inr (), run_pub s) \<and> follow_log h0 log = Some h)"

lemma set_pub_pendings [simp]:
  "pending_inv (rd_pendings (sy_owner (set_pub z s))) = pending_inv (rd_pendings (sy_owner s))"
  "pd_queue (rd_pendings (sy_owner (set_pub z s))) = pd_queue (rd_pendings (sy_owner s))"
  "rd_cachedVersion (sy_owner (set_pub z s)) = rd_cachedVersion (sy_owner s)"
  by (simp_all add: pending_inv_def set_pub_def)

lemma run_inv_frame:
  assumes "run_inv L Z view z0 h0 h s" "sy_owner s' = sy_owner s" "view (sy_base s') = view (sy_base s)"
    and "data_from L (view (sy_base s)) (sy_chain s) (sy_chain s')"
  shows "run_inv L Z view z0 h0 h s'"
proof -
  have "data_only (data_sendable L Z) (sy_chain s')"
    using assms(1,4) unfolding run_inv_def data_from_def data_only_def by metis
  with assms show ?thesis by (simp add: run_inv_def run_pub_def)
qed

lemma run_inv_stored:
  assumes "run_inv L Z view z0 h0 h s" "chain_inv L (sy_chain s)" "r \<in> set (blocks (sy_chain s))"
  shows "block_sendable Z (row_block L r)"
proof -
  have "Deserialise L (r_data r) = Inr (row_block L r)"
    using read_row_ok(1) [OF rows_invD(2) [OF assms(2,3)]] by (auto simp: read_row_def bindE_eq_Inr checkE_eq_Inr)
  then show ?thesis using assms(1,3) by (auto simp: run_inv_def data_only_def data_sendable_def)
qed

lemma run_inv_attached:
  assumes "run_inv L Z view z0 h0 h s" "update_ok L (view (sy_base s)) (sy_chain s) old att" "b \<in> set att"
  shows "block_sendable Z b"
proof -
  consider n where "view (sy_base s) n = Some b" | r where "r \<in> set (blocks (sy_chain s))" "Deserialise L (r_data r) = Inr b"
    using assms(2,3) unfolding update_ok_def by blast
  then show ?thesis
    using assms(1) by cases (auto simp: run_inv_def data_only_def data_sendable_def)
qed

text \<open>The part of the callback that sends.\<close>

lemma TipUpdatedFrom_sends:
  assumes inv: "run_inv L Z view z0 h0 h s" and ok: "mainchain_ok (view (sy_base s)) t" and Tk: "tree_ok T"
    and B: "base_in_tree L T (view (sy_base s))" and sy: "chain_synced L T (view (sy_base s)) (sy_chain s)"
    and up: "update_ok L (view (sy_base s)) (sy_chain s) old att"
    and old: "if old = [] then length att = 1 else old = h"
  shows "\<exists>r e z. PushZmqBlocks L Z bc old '''' att 0 '''' s = (Inr r, set_pub z s) \<and> pub_ok z \<and>
    send_run_event Z e (run_pub s) = (Inr (), z) \<and> follow_log h [e] = Some (blk_hash (last att))"
proof (cases "old = []")
  case True
  then obtain b where b: "att = [b]" using old by (cases att) auto
  have "block_sendable Z b" using run_inv_attached [OF inv up] b by simp
  then obtain z where z: "SendBlockAttach Z b '''' (run_pub s) = (Inr (), z)" "pub_ok z"
    using SendBlock_ok [of "run_pub s" Z b PREFIX_ATTACH "''''"] inv by (auto simp: run_inv_def SendBlockAttach_def)
  then have "PushZmqBlocks L Z bc old '''' att 0 '''' s = (Inr (True, [], []), set_pub z s)"
    using True b by (simp add: PushZmqBlocks_def send_attaches_def run_zmq_eq)
  with z b show ?thesis
    by (intro exI [of _ "(True, [], [])"] exI [of _ "Import b"] exI [of _ z]) (simp add: send_run_event_def)
next
  case False
  have ci: "chain_inv L (sy_chain s)" using sy by (simp add: chain_synced_def)
  have pub: "pub_ok (run_pub s)" using inv by (simp add: run_inv_def)
  obtain D A z where "PushZmqBlocks L Z bc old '''' att 0 '''' s = (Inr (True, D, []), set_pub z s)"
      "send_events Z '''' (map Detach D @ map Attach A) (run_pub s) = (Inr (), z)" "pub_ok z"
      "follow old (map Detach D @ map Attach A) = Some (blk_hash (last att))"
    using PushZmqBlocks_update [OF Tk B ok sy up False pub] run_inv_attached [OF inv up] run_inv_stored [OF inv ci] by blast
  with False old show ?thesis
    by (intro exI [of _ "(True, D, [])"] exI [of _ "Blocks (map Detach D @ map Attach A)"] exI [of _ z])
      (simp add: send_run_event_def)
qed

text \<open>The part that prunes.\<close>

lemma prune_callback:
  assumes sy: "chain_inv L (sy_chain s)" and tip: "tip_is (sy_chain s) b" and rdy: "ready (sy_base s)"
    and C: "0 \<le> cf_maxReorgDepth C" "cf_maxReorgDepth C < 2147483647" and small: "blk_height b \<le> height_limit"
  shows "\<exists>s'. bindM (run_chain (getM GetTipHeight)) (\<lambda>tipHeight.
       if cf_maxReorgDepth C + 1 > 2147483647 then failM Undefined
       else if tipHeight > cf_maxReorgDepth C + 1 then
         run_chain (Prune (u64_of_int (tipHeight - cf_maxReorgDepth C - 1)))
       else ret ()) s = (Inr (), s') \<and> callback_result L view tip ready b s s' \<and> sy_owner s' = sy_owner s \<and>
    sy_base s' = sy_base s \<and> (\<forall>P. data_only P (sy_chain s) \<longrightarrow> data_only P (sy_chain s'))"
proof -
  let ?cs = "sy_chain s" and ?d = "cf_maxReorgDepth C"
  have th: "GetTipHeight ?cs = int (blk_height b)" using tip by (simp add: tip_is_def)
  show ?thesis
  proof (cases "GetTipHeight ?cs > ?d + 1")
    case False
    then show ?thesis
      using C sy tip rdy by (intro exI [of _ s]) (simp add: run_chain_def sy_on_chain_def zoomM_simp callback_result_def base_same_def)
  next
    case True
    define h where "h = nat (int (blk_height b) - ?d - 1)"
    have h: "u64_of_int (int (blk_height b) - ?d - 1) = h" "int h < GetTipHeight ?cs"
      using True th small C by (auto simp: h_def)
    obtain cs' where cs': "Prune h ?cs = (Inr (), cs')" "chain_inv L cs'" "blocks cs' = prune_rows h (blocks ?cs)"
        "GetTipHeight cs' = GetTipHeight ?cs" "GetLowestUnprunedHeight cs' = max (GetLowestUnprunedHeight ?cs) (int h + 1)"
      using Prune_ok [OF sy h(2)] by blast
    have sub: "set (blocks cs') \<subseteq> set (blocks ?cs)" using cs'(3) prune_set [of h "blocks ?cs"] by auto
    obtain r where r: "r \<in> set (blocks ?cs)" "r_branch r = 0" "r_hash r = blk_hash b" "r_parent r = blk_parent b"
        "r_height r = blk_height b" using tip by (auto simp: tip_is_def)
    have "r \<in> set (blocks cs')" using r h(2) th cs'(3) prune_set [of h "blocks ?cs"] by auto
    moreover have "r_height m \<le> r_height r" if "m \<in> set (blocks cs')" "r_branch m = 0" for m
      using GetTip_obtain [OF that] that cs'(4) th r(5) by (metis of_nat_eq_iff)
    ultimately have tip': "tip_is cs' b" by (rule_tac tip_isI [OF rows_invD(1) [OF cs'(2)]]) (use r in simp_all)
    have "GetFreeBranchNumber cs' \<le> GetFreeBranchNumber ?cs"
      by (rule free_branch_le) (use sub free_branch_above [of _ ?cs] in auto)
    then have "callback_result L view tip ready b s (s\<lparr>sy_chain := cs'\<rparr>)"
      using cs' tip' rdy sub by (auto simp: callback_result_def base_same_def)
    moreover have "data_only P cs'" if "data_only P ?cs" for P using that sub by (auto simp: data_only_def)
    ultimately show ?thesis
      using True C th h(1) cs'(1)
      by (intro exI [of _ "s\<lparr>sy_chain := cs'\<rparr>"]) (simp add: run_chain_def sy_on_chain_def zoomM_simp)
  qed
qed

text \<open>The whole callback.\<close>

lemma TipUpdatedFrom_ok:
  assumes inv: "run_inv L Z view z0 h0 h s" and rdy: "ready (sy_base s)" and ok: "mainchain_ok (view (sy_base s)) t"
    and Tk: "tree_ok T" and B: "base_in_tree L T (view (sy_base s))" and sy: "chain_synced L T (view (sy_base s)) (sy_chain s)"
    and up: "update_ok L (view (sy_base s)) (sy_chain s) old att"
    and old: "if old = [] then length att = 1 else old = h"
    and C: "0 \<le> cf_maxReorgDepth C" "cf_maxReorgDepth C < 2147483647"
  shows "\<exists>s'. TipUpdatedFrom L Z bc C old att s = (Inr (), s') \<and> callback_result L view tip ready (last att) s s' \<and>
    run_inv L Z view z0 h0 (blk_hash (last att)) s'"
proof -
  have ci: "chain_inv L (sy_chain s)" and R: "rows_in_tree T (blocks (sy_chain s))" using sy by (auto simp: chain_synced_def)
  have att: "att \<noteq> []" "tip_is (sy_chain s) (last att)" using up by (auto simp: update_ok_def)
  obtain tr where tr: "tr \<in> set (blocks (sy_chain s))" "r_hash tr = blk_hash (last att)" "r_height tr = blk_height (last att)"
    using att(2) by (auto simp: tip_is_def)
  have Ttr: "T (r_hash tr) = Some (r_parent tr, r_height tr)" by (rule rows_in_treeD [OF R tr(1)])
  have ne: "blk_hash (last att) \<noteq> []" using Ttr tr(2) Tk by (auto simp: tree_ok_def)
  have small: "blk_height (last att) \<le> height_limit" using tree_okD(1) [OF Tk Ttr] tr(3) by simp
  obtain r e z where push: "PushZmqBlocks L Z bc old '''' att 0 '''' s = (Inr r, set_pub z s)" "pub_ok z"
      "send_run_event Z e (run_pub s) = (Inr (), z)" "follow_log h [e] = Some (blk_hash (last att))"
    using TipUpdatedFrom_sends [OF inv ok Tk B sy up old] by blast
  let ?s1 = "set_pub z s"
  let ?p = "rd_pendings (sy_owner ?s1)"
  have p: "pd_zmq ?p = z" "pd_queue ?p = pd_queue (rd_pendings (sy_owner s))" by (simp_all add: set_pub_def)
  obtain out q z2 where fl: "ChainstateTipChanged Z (blk_hash (last att)) ?p =
        (Inr (), ?p\<lparr>pd_chainstateTip := blk_hash (last att), pd_queue := q, pd_zmq := z2\<rparr>)"
      "send_all Z out z = (Inr (), z2)" "pub_ok z2" "set q \<subseteq> set (pd_queue ?p)"
    using ChainstateTipChanged_ok [of ?p Z "blk_hash (last att)"] push(2) ne inv p by (auto simp: run_inv_def)
  let ?p2 = "?p\<lparr>pd_chainstateTip := blk_hash (last att), pd_queue := q, pd_zmq := z2\<rparr>"
  have "pending_inv ?p" using inv by (simp add: run_inv_def)
  then have pinv: "pending_inv ?p2" by (rule pending_step_inv [where ev = "EvChain (blk_hash (last att))" and Z = Z]) (simp add: fl(1))
  let ?s2 = "s\<lparr>sy_owner := (sy_owner s)\<lparr>rd_pendings := ?p2\<rparr>\<rparr>"
  have flush: "on_pendings (ChainstateTipChanged Z (blk_hash (last att))) ?s1 = (Inr (), ?s2)"
    using fl(1) by (simp add: on_pendings_def zoomM_simp set_pub_def)
  have chk: "(if cf_sanityChecks C then run_chain (SanityCheck L) else ret ()) ?s2 = (Inr (), ?s2)"
    using SanityCheck_ok [OF ci] by (simp add: run_chain_def sy_on_chain_def zoomM_simp)
  have s2: "chain_inv L (sy_chain ?s2)" "tip_is (sy_chain ?s2) (last att)" "ready (sy_base ?s2)" using ci att(2) rdy by simp_all
  obtain s3 where s3: "bindM (run_chain (getM GetTipHeight)) (\<lambda>tipHeight.
       if cf_maxReorgDepth C + 1 > 2147483647 then failM Undefined
       else if tipHeight > cf_maxReorgDepth C + 1 then
         run_chain (Prune (u64_of_int (tipHeight - cf_maxReorgDepth C - 1)))
       else ret ()) ?s2 = (Inr (), s3)" "callback_result L view tip ready (last att) ?s2 s3" "sy_owner s3 = sy_owner ?s2"
      "sy_base s3 = sy_base ?s2" "\<And>P. data_only P (sy_chain ?s2) \<Longrightarrow> data_only P (sy_chain s3)"
    using prune_callback [where ready = ready and view = view and tip = tip, OF s2 C small] by blast
  have run: "TipUpdatedFrom L Z bc C old att s = (Inr (), s3)"
    using att(1) push(1) flush chk C(1) s3(1) by (simp add: TipUpdatedFrom_def)
  obtain log where log: "send_log Z log z0 = (Inr (), run_pub s)" "follow_log h0 log = Some h" using inv by (auto simp: run_inv_def)
  have "send_log Z [e, Moves out] (run_pub s) = (Inr (), z2)"
    using push(3) fl(2) by (simp add: send_log_def send_run_event_def)
  from send_log_append [OF log(1) this] have "send_log Z (log @ [e, Moves out]) z0 = (Inr (), run_pub s3)"
    by (simp add: run_pub_def s3(3))
  moreover have "follow_log h0 (log @ [e, Moves out]) = Some (blk_hash (last att))"
    using log(2) push(4) follow_log_append [of h "[e]" "[Moves out]"] by (simp add: follow_log_append)
  ultimately have "run_inv L Z view z0 h0 (blk_hash (last att)) s3"
    using inv fl(3,4) pinv p s3(3,4,5) unfolding run_inv_def by (auto simp: run_pub_def)
  moreover have "callback_result L view tip ready (last att) s s3" using s3(2) by (simp add: callback_result_def)
  ultimately show ?thesis using run by blast
qed

text \<open>The controller is a client of the sync worker.\<close>

lemma controller_client:
  assumes "base_chain bc view tip ready" "0 \<le> cf_maxReorgDepth C" "cf_maxReorgDepth C < 2147483647"
  shows "sync_client bc view tip ready L T d (run_inv L Z view z0 h0) (Some (TipUpdatedFrom L Z bc C))"
proof -
  from assms(1) have bc: "base_chain bc view tip ready" .
  show ?thesis
  proof (intro sync_client.intro [OF bc] sync_client_axioms.intro)
    show "run_inv L Z view z0 h0 h s'"
      if "run_inv L Z view z0 h0 h s" "sy_owner s' = sy_owner s" "view (sy_base s') = view (sy_base s)"
        "data_from L (view (sy_base s)) (sy_chain s) (sy_chain s')" for h s s'
      using run_inv_frame that by blast
    show "\<exists>s'. TipUpdatedFrom_cb (Some (TipUpdatedFrom L Z bc C)) old att s = (Inr (), s') \<and>
        callback_result L view tip ready (last att) s s' \<and> run_inv L Z view z0 h0 (blk_hash (last att)) s'"
      if "run_inv L Z view z0 h0 h s" "ready (sy_base s)" "tree_ok T" "base_in_tree L T (view (sy_base s))"
        "chain_synced L T (view (sy_base s)) (sy_chain s)" "update_ok L (view (sy_base s)) (sy_chain s) old att"
        "if old = [] then length att = 1 \<and> blk_height (hd att) = genesis_height d (tip (sy_base s)) else old = h" for h s old att
      using TipUpdatedFrom_ok [where ready = ready and view = view and tip = tip, OF that(1,2) base_chain.view_ok [OF bc that(2)] that(3-6) _ assms(2,3)] that(7)
      by (auto simp: TipUpdatedFrom_cb_def split: if_splits)
  qed
qed

text \<open>With any depth of reorganisations that is an \<^verbatim>\<open>int\<close> below its maximum.\<close>

interpretation test_run: sync_client TestChain Test_view Test_tip "Test_ready L" L T d
    "run_inv L Z Test_view z0 h0" "Some (TipUpdatedFrom L Z TestChain (C\<lparr>cf_maxReorgDepth := int (min n 2147483646)\<rparr>))"
  for L T d Z z0 h0 C n
  by (rule controller_client [OF test.base_chain_axioms]) simp_all

end
