(* ===== verification/ControllerRun.thy ===== *)
theory ControllerRun
  imports ControllerSync Rpc
begin

text \<open>
  A run of the controller from its start: the state \<^verbatim>\<open>Run\<close> builds up, and the sync of the worker with
  the controller as the owner of its callbacks, from any valid state and from an empty database.
\<close>

lemma track_keeps_ok:
  assumes "pub_ok z" "map_of (zp_games z) g = None"
  shows "pub_ok (snd (TrackGame g z))" "map_of (zp_games (snd (TrackGame g z))) = (map_of (zp_games z))(g \<mapsto> 1)"
proof -
  have "depth z g < u64_max" using assms(2) by (simp add: depth_def)
  then obtain z1 where z1: "TrackGame g z = (Inr (), z1)" "games_ok z1"
    using TrackGame_depth [of z g] assms(1) by (auto simp: pub_ok_def)
  moreover have "zp_outcomes z1 = zp_outcomes z" using z1(1) by (auto simp: TrackGame_def)
  ultimately show "pub_ok (snd (TrackGame g z))" using assms(1) by (simp add: pub_ok_def)
  have "smap_ok (zp_games z)" using assms(1) by (simp add: pub_ok_def games_ok_def)
  then show "map_of (zp_games (snd (TrackGame g z))) = (map_of (zp_games z))(g \<mapsto> 1)"
    using assms(2) by (simp add: TrackGame_def fun_eq_iff)
qed

lemma track_configured_ok:
  assumes "distinct (cf_trackedGames C)"
  shows "pub_ok (track_configured C)"
proof -
  have "distinct gs \<Longrightarrow> pub_ok z \<Longrightarrow> \<forall>g\<in>set gs. map_of (zp_games z) g = None \<Longrightarrow>
      pub_ok (fold (\<lambda>g z. snd (TrackGame g z)) gs z)" for gs z
  proof (induction gs arbitrary: z)
    case (Cons g gs)
    let ?z = "snd (TrackGame g z)"
    have ok: "pub_ok ?z" "map_of (zp_games ?z) = (map_of (zp_games z))(g \<mapsto> 1)"
      using track_keeps_ok [of z g] Cons.prems by simp_all
    then have "\<forall>g'\<in>set gs. map_of (zp_games ?z) g' = None" using Cons.prems(1,3) by auto
    with Cons.IH [OF _ ok(1)] Cons.prems(1) show ?case by simp
  qed simp
  moreover have "pub_ok ZmqPub_new" by (simp add: pub_ok_def games_ok_def ZmqPub_new_def smap_ok_def)
  ultimately show ?thesis using assms by (simp add: track_configured_def ZmqPub_new_def)
qed

lemma rows_inv_Nil: "rows_inv L []"
  using chain_reachable_inv [OF chain_reachable.fresh, of L] by (simp add: Chainstate_new_def)

text \<open>The state a run of the controller starts with.\<close>

lemma Controller_Run_state:
  assumes "Controller_Run bc db (c, b) = (Inr s, c')"
  shows "blocks (sy_chain s) = blocks db" "sy_numBlocks s = 1" "sy_nextStartHeight s = -1" "0 \<le> cf_maxReorgDepth (ct_config c)"
    "run_pub s = track_configured (ct_config c)" "pd_queue (rd_pendings (sy_owner s)) = []" "rd_cachedVersion (sy_owner s) = -1"
proof -
  obtain b1 u where st: "RunData_new bc (ct_config c) db b1 = (Inr u, s)" and d: "0 \<le> cf_maxReorgDepth (ct_config c)"
    using assms by (auto simp: Controller_Run_def prog_Inr zoomM_simp split: prod.splits)
  then show "0 \<le> cf_maxReorgDepth (ct_config c)" by simp
  show "blocks (sy_chain s) = blocks db" "sy_numBlocks s = 1" "sy_nextStartHeight s = -1"
    "run_pub s = track_configured (ct_config c)" "pd_queue (rd_pendings (sy_owner s)) = []" "rd_cachedVersion (sy_owner s) = -1"
    using st unfolding RunData_new_def Sync_Start_def
    by (auto simp: prog_Inr sy_on_base_def sy_on_chain_def zoomM_simp catchM_def run_pub_def PendingManager_new_def
          SetChain_blocks split: sum.splits error.splits prod.splits)
qed

lemma sendable_data:
  assumes "base_in_tree L T v" "v n = Some b" "block_sendable Z b" "Serialise L b = Inr d"
  shows "data_sendable L Z d"
  using Serialise_Deserialise [OF base_in_treeD(2,3) [OF assms(1,2)]] assms(3,4) by (auto simp: data_sendable_def)

subsection \<open>Catching up\<close>

lemma controller_catches_up:
  assumes "base_chain bc view tip ready" "0 \<le> cf_maxReorgDepth C" "cf_maxReorgDepth C < 2147483647"
    and "sync_inv L T view ready (run_inv L Z view z0 h0) block_range s"
    and "blocks (sy_chain s) = [] \<longrightarrow> view (sy_base s) 0 \<noteq> None"
    and "passes_needed view tip s < n" "has_room block_range n s"
  shows "\<exists>s' log b. Sync_run n L bc (Some (TipUpdatedFrom L Z bc C)) block_range (nat (cf_maxReorgDepth C)) s = (Inr (), s') \<and>
    view (sy_base s) (tip (sy_base s)) = Some b \<and> tip_is (sy_chain s') b \<and>
    send_log Z log z0 = (Inr (), run_pub s') \<and> follow_log h0 log = Some (blk_hash b)"
proof -
  have client: "sync_client bc view tip ready L T (nat (cf_maxReorgDepth C)) (run_inv L Z view z0 h0) (Some (TipUpdatedFrom L Z bc C))"
    by (rule controller_client [OF assms(1-3)])
  obtain s' where s': "Sync_run n L bc (Some (TipUpdatedFrom L Z bc C)) block_range (nat (cf_maxReorgDepth C)) s = (Inr (), s')"
      "caught_up view tip s'" "sync_inv L T view ready (run_inv L Z view z0 h0) block_range s'"
      "base_same view tip ready (sy_base s) (sy_base s')"
    using sync_client.Sync_run_from_any [OF client assms(4) _ assms(6,7)] assms(5) by blast
  obtain b where b: "view (sy_base s) (tip (sy_base s)) = Some b" "tip_is (sy_chain s') b"
    using s'(2,4) by (auto simp: caught_up_def base_same_def split: option.splits)
  then have "select_tip (sy_chain s') = [blk_hash b]" "blocks (sy_chain s') \<noteq> []" by (auto simp: tip_is_def)
  then have "run_inv L Z view z0 h0 (blk_hash b) s'" using s'(3) by (auto simp: sync_inv_def)
  with s'(1) b show ?thesis by (auto simp: run_inv_def)
qed

subsection \<open>From an empty database\<close>

text \<open>\<^verbatim>\<open>Run\<close> succeeds on an empty database when the configuration is complete and the base chain answers.\<close>

lemma Controller_Run_starts:
  assumes "\<not> ct_running c" "0 \<le> cf_maxReorgDepth (ct_config c)" "cf_zmqAddr (ct_config c) \<noteq> []" "-1 < cf_rpcPort (ct_config c)"
    and "bc_GetChain bc b = (Inr ch, b1)" "bc_GetChain bc b1 = (Inr ch2, b2)"
  shows "\<exists>s c' b'. Controller_Run bc Chainstate_new (c, b) = (Inr s, (c', b')) \<and> sy_base s = b2 \<and> ct_config c' = ct_config c"
proof -
  have "SetChain ch2 Chainstate_new = (Inr (), \<lparr>blocks = [], variables = [(''chain'', ch2)], savepoints = []\<rparr>)"
    by (simp add: SetChain_def Chainstate_new_def query1_def)
  then have "\<exists>s. RunData_new bc (ct_config c) Chainstate_new b1 = (Inr (), s) \<and> sy_base s = b2"
    using assms(6)
    by (simp add: RunData_new_def Sync_Start_def sy_on_base_def sy_on_chain_def zoomM_def catchM_def thenM_def bindM_def
        getM_def modifyM_def CHECK_def)
  then obtain s where "RunData_new bc (ct_config c) Chainstate_new b1 = (Inr (), s)" "sy_base s = b2" by blast
  with assms(1-5) show ?thesis
    by (simp add: Controller_Run_def zoomM_def thenM_def bindM_def CHECK_def)
qed

text \<open>A database that an earlier run may have left: valid, with blocks of the tree that can be published.\<close>

definition db_good :: "codec \<Rightarrow> zmq_lib \<Rightarrow> block_tree \<Rightarrow> chainstate \<Rightarrow> bool" where
  "db_good L Z T db \<longleftrightarrow> chain_inv L db \<and> rows_in_tree T (blocks db) \<and> data_only (data_sendable L Z) db"

definition tip_hash :: "chainstate \<Rightarrow> string" where
  "tip_hash db = (if blocks db = [] then [] else hd (select_tip db))"

lemma db_good_fresh: "db_good L Z T Chainstate_new" "tip_hash Chainstate_new = []"
  using rows_inv_Nil by (simp_all add: db_good_def tip_hash_def Chainstate_new_def rows_in_tree_def data_only_def)

text \<open>A controller that was just started satisfies the invariant; a subscriber that is at the tip of the
  database can follow it.\<close>

lemma started_inv:
  assumes "Controller_Run bc db (c, b0) = (Inr s, c')" "db_good L Z T db"
    and "ready (sy_base s)" "tree_ok T" "base_in_tree L T (view (sy_base s))"
    and "\<forall>n b. view (sy_base s) n = Some b \<longrightarrow> block_sendable Z b"
    and "blocks (sy_chain s) \<noteq> [] \<longrightarrow> root_in_view (view (sy_base s)) (sy_chain s)"
    and "distinct (cf_trackedGames (ct_config c))" "1 \<le> block_range" "block_range \<le> 2147483647"
  shows "sync_inv L T view ready (run_inv L Z view (track_configured (ct_config c)) (tip_hash db)) block_range s"
proof -
  note st = Controller_Run_state [OF assms(1)]
  have good: "chain_inv L (sy_chain s)" "rows_in_tree T (blocks (sy_chain s))" "data_only (data_sendable L Z) (sy_chain s)"
    using assms(2) st(1) by (simp_all add: db_good_def data_only_def)
  have tip: "select_tip (sy_chain s) = [tip_hash db]" if ne: "blocks (sy_chain s) \<noteq> []"
  proof -
    obtain t where "select_tip (sy_chain s) = [t]" using tip_query [OF good(1) hd_in_set [OF ne]] by blast
    moreover have "select_tip db = select_tip (sy_chain s)" using st(1) by (simp add: select_tip_def)
    ultimately show ?thesis using ne st(1) by (simp add: tip_hash_def)
  qed
  have "run_inv L Z view (track_configured (ct_config c)) (tip_hash db) (tip_hash db) s"
    unfolding run_inv_def
  proof (intro conjI)
    show "\<exists>log. send_log Z log (track_configured (ct_config c)) = (Inr (), run_pub s) \<and> follow_log (tip_hash db) log = Some (tip_hash db)"
      using st(5) by (intro exI [of _ "[]"]) (simp add: send_log_def)
    show "\<forall>n b. view (sy_base s) n = Some b \<longrightarrow> block_sendable Z b \<and> (\<forall>d. Serialise L b = Inr d \<longrightarrow> data_sendable L Z d)"
      using assms(5,6) sendable_data by blast
  qed (use st good track_configured_ok [OF assms(8)] in \<open>simp_all add: pending_inv_def\<close>)
  with st good tip assms(3-5,7,9,10) show ?thesis by (auto simp: sync_inv_def)
qed

text \<open>On an empty database.\<close>

lemma fresh_inv:
  assumes "Controller_Run bc Chainstate_new (c, b0) = (Inr s, c')"
    and "ready (sy_base s)" "tree_ok T" "base_in_tree L T (view (sy_base s))"
    and "\<forall>n b. view (sy_base s) n = Some b \<longrightarrow> block_sendable Z b"
    and "distinct (cf_trackedGames (ct_config c))" "1 \<le> block_range" "block_range \<le> 2147483647"
  shows "sync_inv L T view ready (run_inv L Z view (track_configured (ct_config c)) []) block_range s"
    "blocks (sy_chain s) = []" "GetFreeBranchNumber (sy_chain s) = 1"
proof -
  show empty: "blocks (sy_chain s) = []" using Controller_Run_state(1) [OF assms(1)] by (simp add: Chainstate_new_def)
  then show "GetFreeBranchNumber (sy_chain s) = 1" by (simp add: GetFreeBranchNumber_def order_by_def)
  show "sync_inv L T view ready (run_inv L Z view (track_configured (ct_config c)) []) block_range s"
    using started_inv [where ready = ready and view = view and L = L and Z = Z and T = T, OF assms(1) _ assms(2-5) _ assms(6-8)]
      db_good_fresh empty by simp
qed

lemma fresh_sync:
  assumes "base_chain bc view tip ready" "Controller_Run bc Chainstate_new (c, b0) = (Inr s, c')"
    and "ready (sy_base s)" "tree_ok T" "base_in_tree L T (view (sy_base s))" "view (sy_base s) 0 \<noteq> None"
    and "\<forall>n b. view (sy_base s) n = Some b \<longrightarrow> block_sendable Z b"
    and "distinct (cf_trackedGames (ct_config c))" "cf_maxReorgDepth (ct_config c) < 2147483647"
    and "1 \<le> block_range" "block_range \<le> 2147483647"
    and "Suc (tip (sy_base s)) < n" "n * step_cost block_range < i64_max - 1"
  shows "\<exists>s' log b. Sync_run n L bc (Some (TipUpdatedFrom L Z bc (ct_config c))) block_range
        (nat (cf_maxReorgDepth (ct_config c))) s = (Inr (), s') \<and>
    view (sy_base s) (tip (sy_base s)) = Some b \<and> tip_is (sy_chain s') b \<and>
    send_log Z log (track_configured (ct_config c)) = (Inr (), run_pub s') \<and> follow_log '''' log = Some (blk_hash b)"
proof -
  note inv = fresh_inv [where ready = ready and view = view, OF assms(2-5,7,8,10,11)]
  show ?thesis
    by (rule controller_catches_up [OF assms(1) _ assms(9) inv(1)])
      (use inv(2,3) assms(6,12,13) Controller_Run_state(4) [OF assms(2)] in \<open>simp_all add: passes_needed_def has_room_def\<close>)
qed

end
