(* ===== verification/PropSync.thy ===== *)
theory PropSync
  imports Examples ControllerRun
begin

text \<open>
  The properties of the sync worker, on its own and with the controller as the owner of its
  callbacks: the program as a whole follows the base chain.
\<close>


definition ex_config :: Config where
  "ex_config = \<lparr>cf_zmqAddr = ''tcp'', cf_rpcPort = 8000, cf_rpcListenLocally = True, cf_trackedGames = [''demo''],
     cf_pending = True, cf_sanityChecks = True, cf_maxReorgDepth = 2\<rparr>"

lemma ex_sendable: "Test_view ex_base n = Some b \<Longrightarrow> block_sendable ex_zlib b"
proof -
  assume "Test_view ex_base n = Some b"
  then obtain x where "b = ex_block x" using ex_view_block [OF refl] by blast
  then show ?thesis by (simp add: ex_block_def empty_block_def block_sendable_def meta_ok_def split: option.split prod.split)
qed

lemma ex_run_inv: "run_inv ex_codec ex_zlib Test_view ex_pub ''b2'' ''b2'' (ex_run ex_local)"
  unfolding run_inv_def
proof (intro conjI)
  show "data_only (data_sendable ex_codec ex_zlib) (sy_chain (ex_run ex_local))" by code_simp
  show "pub_ok (run_pub (ex_run ex_local))" by code_simp
  show "pending_inv (rd_pendings (sy_owner (ex_run ex_local)))" by (simp add: ex_run_def)
  show "\<exists>log. send_log ex_zlib log ex_pub = (Inr (), run_pub (ex_run ex_local)) \<and> follow_log ''b2'' log = Some ''b2''"
    by (intro exI [of _ "[]"]) (simp add: send_log_def run_pub_def ex_run_def PendingManager_new_def)
  show "\<forall>n b. Test_view (sy_base (ex_run ex_local)) n = Some b \<longrightarrow> block_sendable ex_zlib b \<and>
      (\<forall>d. Serialise ex_codec b = Inr d \<longrightarrow> data_sendable ex_codec ex_zlib d)"
    using ex_sendable sendable_data [OF ex_base_in_tree] by simp
qed (simp_all add: ex_run_def PendingManager_new_def)



definition ex_controller :: Controller where
  "ex_controller = Controller_new\<lparr>ct_config := ex_config\<rparr>"

definition ex_started :: "TestBaseChain run" where
  "ex_started = \<lparr>sy_base = ex_base, sy_chain = \<lparr>blocks = [], variables = [(''chain'', ''test'')], savepoints = []\<rparr>,
     sy_owner = \<lparr>rd_pendings = PendingManager_new ex_pub, rd_requests = 0, rd_cachedChain = '''', rd_cachedVersion = -1\<rparr>,
     sy_numBlocks = 1, sy_nextStartHeight = -1, sy_updater = True, sy_shouldStop = False\<rparr>"

lemma ex_starts_on:
  assumes "SetChain ''test'' db = (Inr (), db')"
  shows "\<exists>c'. Controller_Run TestChain db (ex_controller, ex_base) = (Inr (ex_started\<lparr>sy_chain := db'\<rparr>), c')"
proof -
  have chain: "bc_GetChain TestChain ex_base = (Inr ''test'', ex_base)"
    by (simp add: TestChain_def Test_GetChain_def MaybeThrow_def ex_base_def TestBaseChain_new_def
        thenM_def bindM_def getM_def ret_def)
  have "track_configured ex_config = ex_pub" by code_simp
  then have start: "RunData_new TestChain ex_config db ex_base = (Inr (), ex_started\<lparr>sy_chain := db'\<rparr>)"
    using chain assms
    by (simp add: RunData_new_def Sync_Start_def ex_started_def sy_on_base_def sy_on_chain_def zoomM_def catchM_def
        thenM_def bindM_def getM_def modifyM_def CHECK_def)
  have cfg: "ct_config ex_controller = ex_config" "\<not> ct_running ex_controller" "0 \<le> cf_maxReorgDepth ex_config"
    "cf_zmqAddr ex_config \<noteq> []" "-1 < cf_rpcPort ex_config"
    by (simp_all add: ex_controller_def Controller_new_def ex_config_def)
  show ?thesis
    unfolding Controller_Run_def thenM_def bindM_def getM_def CHECK_def modifyM_def liftE_def zoomM_def ret_def
    using chain start cfg by simp
qed

lemma ex_starts:
  "\<exists>c'. Controller_Run TestChain Chainstate_new (ex_controller, ex_base) = (Inr ex_started, c')"
proof -
  have "SetChain ''test'' Chainstate_new = (Inr (), sy_chain ex_started)" by code_simp
  from ex_starts_on [OF this] show ?thesis by simp
qed


end
