(* ===== verification/RpcTotal.thy ===== *)
theory RpcTotal
  imports RpcProofs ControllerSync
begin

text \<open>
  RPC calls on a controller that keeps its invariant return: block queries are answered or rejected
  with an error of the RPC interface, and a request for updates towards the tip never fails a
  \<^verbatim>\<open>CHECK\<close>.  Each of them leaves everything but the publisher and the base chain's own state alone.
\<close>

subsection \<open>Results that do not end the process\<close>

definition returns :: "error + 'a \<Rightarrow> bool" where
  "returns r \<longleftrightarrow> (case r of Inr _ \<Rightarrow> True | Inl (Throw _) \<Rightarrow> True | Inl _ \<Rightarrow> False)"

lemma returns_simps [simp]: "returns (Inr a)" "returns (Inl (Throw e))" "\<not> returns (Inl Abort)" "\<not> returns (Inl Undefined)"
  by (simp_all add: returns_def)

lemma side_path_end:
  "side_path rows h rs \<Longrightarrow> rs \<noteq> [] \<Longrightarrow> p \<in> set rows \<Longrightarrow> r_hash p = r_parent (last rs) \<Longrightarrow> r_branch p = 0"
proof (induction rule: side_path.induct)
  case (step r rs)
  then show ?case by (cases "rs = []") (auto elim: side_path_NilE)
qed simp

context base_chain
begin

subsection \<open>Block queries\<close>

lemma getblockhash_returns:
  assumes rdy: "ready (sy_base s)" and inv: "chain_inv L (sy_chain s)" and h: "0 \<le> height" "height \<le> 2147483647"
  shows "\<exists>r b'. getblockhash what bc height s = (r, s\<lparr>sy_base := b'\<rparr>) \<and> returns r \<and> same (sy_base s) b'"
proof -
  have refl: "same (sy_base s) (sy_base s)" using rdy by (simp add: base_same_def)
  consider (row) r where "r \<in> set (blocks (sy_chain s))" "r_branch r = 0" "int (r_height r) = height"
    | (range) "\<And>r. r \<in> set (blocks (sy_chain s)) \<Longrightarrow> r_branch r = 0 \<Longrightarrow> int (r_height r) \<noteq> height" "GetLowestUnprunedHeight (sy_chain s) \<le> height"
    | (pruned) "height < GetLowestUnprunedHeight (sy_chain s)" by fastforce
  then show ?thesis
  proof cases
    case row
    with getblockhash_local [OF inv row, of what bc] refl show ?thesis
      by (intro exI [of _ "Inr (r_hash r)"] exI [of _ "sy_base s"]) simp
  next
    case range
    have "height \<le> int i64_max" using h(2) by simp
    from getblockhash_missing [where what = what and bc = bc, OF h(1) this range(1)] range(2) refl show ?thesis
      by (intro exI [of _ "Inl (Throw (JsonRpcException (-8) ''block height out of range''))"] exI [of _ "sy_base s"])
        (simp add: rpc_throw_def)
  next
    case pruned
    then obtain b' where "getblockhash what bc height s =
      (case view (sy_base s) (nat height) of
         None \<Rightarrow> rpc_throw (-8) ''block height out of range'' (s\<lparr>sy_base := b'\<rparr>)
       | Some b \<Rightarrow> (Inr (blk_hash b), s\<lparr>sy_base := b'\<rparr>))" "same (sy_base s) b'"
      using getblockhash_pruned [OF rdy h(1), of what] h(2) by auto
    then show ?thesis by (cases "view (sy_base s) (nat height)") (auto simp: rpc_throw_def)
  qed
qed

lemma getblockheader_returns:
  assumes rdy: "ready (sy_base s)" and inv: "chain_inv L (sy_chain s)"
  shows "\<exists>r b'. getblockheader what bc hash s = (r, s\<lparr>sy_base := b'\<rparr>) \<and> returns r \<and> same (sy_base s) b'"
proof -
  obtain h b' where h: "bc_GetMainchainHeight bc hash (sy_base s) = (Inr h, b')" "mainheight_ok (view (sy_base s)) hash h"
      "same (sy_base s) b'"
    using GetMainchainHeight_law [OF rdy, of hash] by (auto simp: base_same_def)
  have pos: "h = -1 \<or> 0 \<le> h" using h(2) by (auto simp: mainheight_ok_def)
  have q: "run_chain (GetHeightForHash hash) s = (Inr (map_option r_height (row_at (blocks (sy_chain s)) hash)), s)"
    using GetHeightForHash_eq [OF rows_invD(1) [OF inv]] by (simp add: run_chain_Inr)
  show ?thesis
  proof (cases "row_at (blocks (sy_chain s)) hash")
    case None
    with q h pos show ?thesis
      by (auto simp: getblockheader_def run_base_def rpc_throw_def)
  next
    case (Some r)
    have "same (sy_base s) (sy_base s)" using rdy by (simp add: base_same_def)
    moreover obtain j where "getblockheader what bc hash s = (Inr j, s)" using Some q by (simp add: getblockheader_def)
    ultimately show ?thesis by (intro exI [of _ "Inr j"] exI [of _ "sy_base s"]) simp
  qed
qed

subsection \<open>Requests for updates\<close>

text \<open>The part that queries the blocks towards the local tip.\<close>

lemma push_queried_returns:
  assumes rdy: "ready (sy_base s)" and B: "base_in_tree L T (view (sy_base s))" and R: "rows_in_tree T (blocks (sy_chain s))"
    and S: "schema_ok (blocks (sy_chain s))"
    and fh: "int fh \<le> GetTipHeight (sy_chain s)" "GetTipHeight (sy_chain s) \<le> int height_limit"
    and z: "pub_ok (run_pub s)" and snd: "\<forall>n b. view (sy_base s) n = Some b \<longrightarrow> block_sendable Z b"
  shows "\<exists>res s'. push_queried Z bc num tok D low fh fp (-1) s = (Inr res, s')"
proof -
  let ?v = "view (sy_base s)" and ?tip = "GetTipHeight (sy_chain s)"
  have target: "u64_of_int ?tip = nat ?tip" "fh \<le> nat ?tip" "u64_add fh 1 = fh + 1" using fh by auto
  define n where "n = min_unsigned num (nat ?tip - fh)"
  have "n \<le> u32_max" by (simp add: n_def min_unsigned_def)
  then have "fh + 1 + n \<le> i64_max" using fh target(2) by simp
  from GetBlockRange_law [OF rdy this] obtain b' where
      q: "bc_GetBlockRange bc (fh + 1) n (sy_base s) = (Inr (block_slice ?v (fh + 1) n), b')" by blast
  let ?bs = "block_slice ?v (fh + 1) n" and ?s = "s\<lparr>sy_base := b'\<rparr>"
  have "\<forall>e\<in>set (map Attach ?bs). event_sendable Z e" using snd slice_in [of _ ?v] by (force simp: event_sendable_def)
  from send_events_ok [OF z this, of tok] obtain z' where "send_events Z tok (map Attach ?bs) (run_pub s) = (Inr (), z')" by blast
  then have send: "send_attaches Z tok ?bs ?s = (Inr (), set_pub z' ?s)" by (simp add: send_attaches_eq run_zmq_eq)
  have known: "r_height r = blk_height (last ?bs)"
    if ne: "?bs \<noteq> []" and row: "row_at (blocks (sy_chain s)) (blk_hash (last ?bs)) = Some r" for r
  proof -
    obtain h where h: "?v h = Some (last ?bs)" using slice_in [OF last_in_set [OF ne]] by blast
    have "r \<in> set (blocks (sy_chain s))" "r_hash r = blk_hash (last ?bs)" using row_at_SomeD [OF row] by auto
    moreover from rows_in_treeD [OF R this(1)] have "T (r_hash r) = Some (r_parent r, r_height r)" .
    ultimately show ?thesis using base_in_treeD(1) [OF B h] mainchain_okD(1) [OF view_ok [OF rdy] h] by simp
  qed
  have lookup: "run_chain (GetHeightForHash h) ?s = (Inr (map_option r_height (row_at (blocks (sy_chain s)) h)), ?s)" for h
    using GetHeightForHash_eq [OF S] by (simp add: run_chain_def)
  show ?thesis
    using q target send known lookup
    by (cases "row_at (blocks (sy_chain s)) (blk_hash (last ?bs))")
      (auto simp: push_queried_def run_chain_def run_base_def n_def [symmetric])
qed

text \<open>Where the fork point is: below the local tip.\<close>

lemma fork_below_tip:
  assumes inv: "chain_inv L cs" and rs: "side_path (blocks cs) from rs" and row: "row_at (blocks cs) from = Some q"
    and pos: "\<forall>r\<in>set (blocks cs). r_branch r \<noteq> 0 \<longrightarrow> 0 < r_height r"
  shows "int (if rs = [] then r_height q else r_height (last rs) - 1) \<le> GetTipHeight cs"
proof -
  have q: "q \<in> set (blocks cs)" "r_hash q = from" using row_at_SomeD [OF row] by auto
  have below: "int (r_height m) \<le> GetTipHeight cs" if mm: "m \<in> set (blocks cs)" "r_branch m = 0" for m
    using GetTip_obtain [OF mm] mm by (metis of_nat_le_iff)
  show ?thesis
  proof (cases "rs = []")
    case True
    then have "r_branch q = 0" using rs q by (auto elim: side_path_NilE)
    with below q True show ?thesis by simp
  next
    case False
    let ?r = "last rs"
    have r: "?r \<in> set (blocks cs)" "r_branch ?r \<noteq> 0" "0 < r_height ?r"
      using side_path_subset [OF rs] side_path_side [OF rs] last_in_set [OF False] pos by auto
    obtain m where m: "m \<in> set (blocks cs)" "r_branch m = 0"
      using rows_invD(6) [OF inv] r(1) by (auto simp: has_main_def)
    consider p where "p \<in> set (blocks cs)" "r_hash p = r_parent ?r" | "\<forall>m\<in>set (blocks cs). r_branch m = 0 \<longrightarrow> r_height ?r \<le> r_height m"
      using rows_invD(5) [OF inv] r(1,2) unfolding branches_rooted_def by blast
    then show ?thesis
    proof cases
      case 1
      then have "r_branch p = 0" using side_path_end [OF rs False] by simp
      moreover have "r_height ?r = Suc (r_height p)" using heights_linkedD [OF rows_invD(3) [OF inv] r(1) 1(1)] 1(2) by simp
      ultimately show ?thesis using below 1(1) False by simp
    next
      case 2
      then have "r_height ?r \<le> r_height m" using m by blast
      with below [OF m] False show ?thesis by simp
    qed
  qed
qed

text \<open>The fork point of a block that is stored locally, after the detaches down to it.\<close>

lemma push_known_returns:
  assumes inv: "chain_inv L (sy_chain s)" and rs: "side_path (blocks (sy_chain s)) from rs"
    and row: "row_at (blocks (sy_chain s)) from = Some q"
    and pos: "\<forall>r\<in>set (blocks (sy_chain s)). r_branch r \<noteq> 0 \<longrightarrow> 0 < r_height r"
    and small: "\<forall>r\<in>set (blocks (sy_chain s)). r_height r \<le> height_limit"
    and z: "pub_ok (run_pub s)" and rows: "\<forall>r\<in>set (blocks (sy_chain s)). block_sendable Z (row_block L r)"
    and rest: "\<And>D fh fp z'. int fh \<le> GetTipHeight (sy_chain s) \<Longrightarrow> pub_ok z' \<Longrightarrow>
      \<exists>res s'. push_from_fork Z bc '''' [] num tok D low fh fp (set_pub z' s) = (Inr res, s')"
  shows "\<exists>res s'. push_from_branch Z bc from '''' [] num tok low True (map (row_block L) rs) (-1) s = (Inr res, s')"
proof -
  let ?cs = "sy_chain s" and ?D = "map (row_block L) rs"
  have "\<forall>e\<in>set (map Detach ?D). event_sendable Z e"
    using rows side_path_subset [OF rs] by (auto simp: event_sendable_def)
  from send_events_ok [OF z this, of tok] obtain z' where
      z': "send_events Z tok (map Detach ?D) (run_pub s) = (Inr (), z')" "pub_ok z'" by blast
  then have det: "send_detaches Z tok ?D s = (Inr (), set_pub z' s)" by (simp add: send_detaches_eq run_zmq_eq)
  define fh where "fh = (if rs = [] then r_height q else r_height (last rs) - 1)"
  have "int fh \<le> GetTipHeight ?cs" unfolding fh_def by (rule fork_below_tip [OF inv rs row pos])
  from rest [OF this z'(2)] have fork: "\<exists>res s'. push_from_fork Z bc '''' [] num tok ?D low fh fp (set_pub z' s) = (Inr res, s')" for fp
    by blast
  have "u64_sub (blk_height (last ?D)) 1 = fh" if "rs \<noteq> []"
  proof -
    have l: "last rs \<in> set (blocks ?cs)" using side_path_subset [OF rs] last_in_set [OF that] by blast
    then have "blk_height (last ?D) = r_height (last rs)"
      using that read_row_ok(4) [OF rows_invD(2) [OF inv l]] by (simp add: last_map)
    moreover have "0 < r_height (last rs)" using pos l side_path_side [OF rs last_in_set [OF that]] by blast
    moreover have "r_height (last rs) \<le> height_limit" using small l by blast
    ultimately show ?thesis using that by (simp add: fh_def)
  qed
  moreover have "run_chain (GetHeightForHash from) (set_pub z' s) = (Inr (Some (r_height q)), set_pub z' s)"
    using GetHeightForHash_eq [OF rows_invD(1) [OF inv], of "from"] row by (simp add: run_chain_def)
  ultimately show ?thesis
    using det fork by (cases "rs = []") (simp_all add: push_from_branch_def fh_def)
qed

lemma PushZmqBlocks_returns:
  assumes rdy: "ready (sy_base s)" and B: "base_in_tree L T (view (sy_base s))" and Tk: "tree_ok T"
    and R: "rows_in_tree T (blocks (sy_chain s))" and inv: "chain_inv L (sy_chain s)"
    and ne: "blocks (sy_chain s) \<noteq> []" "from \<noteq> []"
    and pos: "\<forall>r\<in>set (blocks (sy_chain s)). r_branch r \<noteq> 0 \<longrightarrow> 0 < r_height r"
    and z: "pub_ok (run_pub s)" and snd: "\<forall>n b. view (sy_base s) n = Some b \<longrightarrow> block_sendable Z b"
    and rows: "\<forall>r\<in>set (blocks (sy_chain s)). block_sendable Z (row_block L r)"
  shows "\<exists>res s'. PushZmqBlocks L Z bc from '''' [] num tok s = (Inr res, s')"
proof -
  let ?cs = "sy_chain s" and ?low = "GetLowestUnprunedHeight (sy_chain s)"
  note S = rows_invD(1) [OF inv]
  have small: "\<forall>r\<in>set (blocks ?cs). r_height r \<le> height_limit" using tree_okD(1) [OF Tk rows_in_treeD [OF R]] by blast
  note H = main_heights [OF inv ne(1) small]
  obtain rs where rs: "side_path (blocks ?cs) from rs" using side_path_exists [OF rows_invD(3) [OF inv]] by blast
  let ?D = "map (row_block L) rs"
  have rest: "\<exists>res s'. push_from_fork Z bc '''' [] num tok D ?low fh fp x = (Inr res, s')"
    if "int fh \<le> GetTipHeight ?cs" "sy_chain x = ?cs" "same (sy_base s) (sy_base x)" "pub_ok (run_pub x)" for D fh fp x
    using push_queried_returns [of x L T fh Z num tok D ?low fp] that B R S H(3) snd
    by (simp add: push_from_fork_def base_same_def)
  have start: "PushZmqBlocks L Z bc from '''' [] num tok s =
      bindM (if row_at (blocks ?cs) from \<noteq> None then ret (-1) else run_base (bc_GetMainchainHeight bc from))
        (push_from_branch Z bc from '''' [] num tok ?low (row_at (blocks ?cs) from \<noteq> None) ?D) s"
    using ne(2) H(1) GetForkBranch_eq [OF inv rs] unfolding PushZmqBlocks_def by (simp add: run_chain_def)
  show ?thesis
  proof (cases "row_at (blocks ?cs) from")
    case None
    then have D: "?D = []" using rs by (auto simp: row_at_None side_path_Nil_iff)
    obtain mh b' where mh: "bc_GetMainchainHeight bc from (sy_base s) = (Inr mh, b')" "same (sy_base s) b'" "-1 \<le> mh"
      using GetMainchainHeight_law [OF rdy, of "from"] by (auto simp: base_same_def mainheight_ok_def)
    obtain m where "m \<in> set (blocks ?cs)" "r_branch m = 0" using rows_invD(6) [OF inv] ne(1) by (auto simp: has_main_def)
    then have le: "?low \<le> GetTipHeight ?cs" using GetLowest_le GetTip_obtain by (metis of_nat_le_iff order_trans)
    show ?thesis
    proof (cases "mh = -1 \<or> mh \<ge> ?low")
      case True
      with start None mh(1) show ?thesis by (auto simp: push_from_branch_def run_base_def)
    next
      case False
      then have "u64_of_int mh = nat mh" "int (nat mh) \<le> GetTipHeight ?cs" using mh(3) le H by auto
      moreover from rest [OF this(2), of "s\<lparr>sy_base := b'\<rparr>" "[]" "from"] mh(2) z
      have "\<exists>res s'. push_from_fork Z bc '''' [] num tok [] ?low (nat mh) from (s\<lparr>sy_base := b'\<rparr>) = (Inr res, s')" by simp
      ultimately show ?thesis using start None mh(1) D False by (simp add: push_from_branch_def run_base_def send_detaches_def)
    qed
  next
    case (Some q)
    have "same (sy_base s) (sy_base s)" using rdy by (simp add: base_same_def)
    then have "\<exists>res s'. push_from_branch Z bc from '''' [] num tok ?low True ?D (-1) s = (Inr res, s')"
      using rest by (intro push_known_returns [OF inv rs Some pos small z rows]) simp
    with start Some show ?thesis by simp
  qed
qed

end

end
