(* ===== verification/RunMachine.thy ===== *)
theory RunMachine
  imports RpcTotal ControllerRun
begin

text \<open>
  The running program as a state machine.  The parts of the controller run in threads of their own:
  the sync worker, the callbacks of the base chain for a new tip and for pending moves, and the RPC
  server.  Those that use the chain state hold \<^verbatim>\<open>mutChain\<close> while they do, so a step of the machine is
  one such operation, and any interleaving of the operations is a run; between two steps the main
  chain of the base chain may change.  The invariant of the worker and the controller holds in every
  reachable state, whatever the order of the steps, and when the program is stopped, the next run can
  start from the database it leaves.
\<close>

subsection \<open>The machine\<close>

datatype run_input =
    Pass
  | NewTip string
  | NewMoves "MoveData list"
  | Tracked string string
  | BlockHash int
  | BlockHeader string
  | Updates string string
  | NetworkInfo
  | ChainInfo
  | RawMempool
  | VerifyMsg "string option" string string string

fun perform :: "(exn \<Rightarrow> string) \<Rightarrow> codec \<Rightarrow> zmq_lib \<Rightarrow> 'b BaseChain \<Rightarrow> Config \<Rightarrow> int \<Rightarrow> run_input \<Rightarrow> ('b run, unit) prog" where
  "perform what L Z bc C block_range Pass =
     thenM (Sync_iteration L bc (Some (TipUpdatedFrom L Z bc C)) block_range (nat (cf_maxReorgDepth C))) (ret ())"
| "perform what L Z bc C block_range (NewTip t) = Run_TipChanged t"
| "perform what L Z bc C block_range (NewMoves moves) = Run_PendingMoves Z moves"
| "perform what L Z bc C block_range (Tracked cmd game) = trackedgames cmd game"
| "perform what L Z bc C block_range (BlockHash height) = thenM (getblockhash what bc height) (ret ())"
| "perform what L Z bc C block_range (BlockHeader hash) = thenM (getblockheader what bc hash) (ret ())"
| "perform what L Z bc C block_range (Updates h game) = thenM (game_sendupdates2 what L Z bc block_range h game) (ret ())"
| "perform what L Z bc C block_range NetworkInfo = thenM (getnetworkinfo what bc) (ret ())"
| "perform what L Z bc C block_range ChainInfo = thenM (getblockchaininfo what bc) (ret ())"
| "perform what L Z bc C block_range RawMempool = thenM (getrawmempool what bc) (ret ())"
| "perform what L Z bc C block_range (VerifyMsg decoded addr msg signature) = thenM (verifymessage what (\<lambda>_. decoded) bc addr msg signature) (ret ())"

text \<open>What the parts rely on.  The worker needs numbers for new branches; the base chain announces
  tips that have a hash and moves that can be published; a game is tracked less than $2^{64}$ times;
  block queries are for heights and updates are requested once there is a chain.  The other calls ask
  the base chain, which may answer or throw; a chain has a name, and its version is a signed number.\<close>

definition quiet :: "('b \<Rightarrow> mainchain) \<Rightarrow> ('b \<Rightarrow> bool) \<Rightarrow> ('b, 'a) prog \<Rightarrow> ('a \<Rightarrow> bool) \<Rightarrow> 'b \<Rightarrow> bool" where
  "quiet view ready m good b \<longleftrightarrow>
     (case m b of (r, b') \<Rightarrow> ready b' \<and> view b' = view b \<and> (case r of Inr a \<Rightarrow> good a | Inl e \<Rightarrow> returns r))"

fun allowed :: "'b BaseChain \<Rightarrow> ('b \<Rightarrow> mainchain) \<Rightarrow> ('b \<Rightarrow> bool) \<Rightarrow> zmq_lib \<Rightarrow> int \<Rightarrow> 'b run \<Rightarrow> run_input \<Rightarrow> bool" where
  "allowed bc view ready Z block_range s Pass = has_room block_range 1 s"
| "allowed bc view ready Z block_range s (NewTip t) = (t \<noteq> [])"
| "allowed bc view ready Z block_range s (NewMoves moves) = moves_sendable Z moves"
| "allowed bc view ready Z block_range s (Tracked cmd game) = (depth (run_pub s) game < u64_max)"
| "allowed bc view ready Z block_range s (BlockHash height) = (0 \<le> height \<and> height \<le> 2147483647)"
| "allowed bc view ready Z block_range s (BlockHeader hash) = True"
| "allowed bc view ready Z block_range s (Updates h game) =
     (blocks (sy_chain s) \<noteq> [] \<and> h \<noteq> [] \<and> (\<forall>r\<in>set (blocks (sy_chain s)). r_branch r \<noteq> 0 \<longrightarrow> 0 < r_height r))"
| "allowed bc view ready Z block_range s NetworkInfo = quiet view ready (bc_GetVersion bc) (\<lambda>v. v \<le> i64_max) (sy_base s)"
| "allowed bc view ready Z block_range s ChainInfo = quiet view ready (bc_GetChain bc) (\<lambda>c. c \<noteq> []) (sy_base s)"
| "allowed bc view ready Z block_range s RawMempool = quiet view ready (bc_GetMempool bc) (\<lambda>_. True) (sy_base s)"
| "allowed bc view ready Z block_range s (VerifyMsg decoded addr msg signature) =
     (case decoded of None \<Rightarrow> True | Some raw \<Rightarrow> quiet view ready (bc_VerifyMessage bc msg raw) (\<lambda>_. True) (sy_base s))"

text \<open>A state of the base chain that the program can work with: reachable, with blocks of the block
  tree that can be published, and not reorganised below the lowest block that is kept locally.\<close>

definition base_fits ::
  "codec \<Rightarrow> zmq_lib \<Rightarrow> block_tree \<Rightarrow> ('b \<Rightarrow> mainchain) \<Rightarrow> ('b \<Rightarrow> bool) \<Rightarrow> 'b run \<Rightarrow> 'b \<Rightarrow> bool" where
  "base_fits L Z T view ready s b \<longleftrightarrow>
     ready b \<and> base_in_tree L T (view b) \<and> view b 0 \<noteq> None \<and> (\<forall>n x. view b n = Some x \<longrightarrow> block_sendable Z x) \<and>
     (blocks (sy_chain s) \<noteq> [] \<longrightarrow> root_in_view (view b) (sy_chain s))"

inductive run_reachable ::
  "(exn \<Rightarrow> string) \<Rightarrow> codec \<Rightarrow> zmq_lib \<Rightarrow> 'b BaseChain \<Rightarrow> ('b \<Rightarrow> mainchain) \<Rightarrow> ('b \<Rightarrow> bool) \<Rightarrow> block_tree \<Rightarrow> chainstate \<Rightarrow> Controller \<Rightarrow>
     int \<Rightarrow> 'b run \<Rightarrow> bool"
  for what L Z bc view ready T db c block_range where
  start: "Controller_Run bc db (c, b0) = (Inr s, c') \<Longrightarrow> base_fits L Z T view ready s (sy_base s) \<Longrightarrow>
    run_reachable what L Z bc view ready T db c block_range s"
| base: "run_reachable what L Z bc view ready T db c block_range s \<Longrightarrow> base_fits L Z T view ready s b \<Longrightarrow>
    run_reachable what L Z bc view ready T db c block_range (s\<lparr>sy_base := b\<rparr>)"
| step: "run_reachable what L Z bc view ready T db c block_range s \<Longrightarrow> allowed bc view ready Z block_range s i \<Longrightarrow>
    perform what L Z bc (ct_config c) block_range i s = (r, s') \<Longrightarrow>
    run_reachable what L Z bc view ready T db c block_range s'"

subsection \<open>The invariant\<close>

definition machine_inv ::
  "codec \<Rightarrow> zmq_lib \<Rightarrow> ('b \<Rightarrow> mainchain) \<Rightarrow> ('b \<Rightarrow> bool) \<Rightarrow> block_tree \<Rightarrow> ZmqPub \<Rightarrow> string \<Rightarrow> int \<Rightarrow> 'b run \<Rightarrow> bool" where
  "machine_inv L Z view ready T z0 h0 block_range s \<longleftrightarrow>
     sync_inv L T view ready (run_inv L Z view z0 h0) block_range s \<and> view (sy_base s) 0 \<noteq> None"

lemma machine_invD:
  assumes "machine_inv L Z view ready T z0 h0 block_range s"
  shows "ready (sy_base s)" "base_in_tree L T (view (sy_base s))" "tree_ok T" "rows_in_tree T (blocks (sy_chain s))"
    "chain_inv L (sy_chain s)" "\<exists>h. run_inv L Z view z0 h0 h s \<and> (blocks (sy_chain s) \<noteq> [] \<longrightarrow> select_tip (sy_chain s) = [h])"
    "sync_inv L T view ready (run_inv L Z view z0 h0) block_range s"
    "view (sy_base s) 0 \<noteq> None"
  using assms by (auto simp: machine_inv_def sync_inv_def)

text \<open>What a step outside the worker may change: the base chain within its limits and the data of the
  controller.\<close>

lemma machine_frame:
  assumes inv: "machine_inv L Z view ready T z0 h0 block_range s"
    and s': "sy_chain s' = sy_chain s" "sy_numBlocks s' = sy_numBlocks s" "sy_nextStartHeight s' = sy_nextStartHeight s"
    and base: "base_fits L Z T view ready s (sy_base s')"
    and owner: "\<And>h. run_inv L Z view z0 h0 h s \<Longrightarrow> run_inv L Z view z0 h0 h (s\<lparr>sy_owner := sy_owner s'\<rparr>)"
  shows "machine_inv L Z view ready T z0 h0 block_range s'"
proof -
  obtain h where h: "run_inv L Z view z0 h0 h s" "blocks (sy_chain s) \<noteq> [] \<longrightarrow> select_tip (sy_chain s) = [h]"
    using machine_invD(6) [OF inv] by blast
  have "\<forall>n b. view (sy_base s') n = Some b \<longrightarrow> block_sendable Z b \<and> (\<forall>d. Serialise L b = Inr d \<longrightarrow> data_sendable L Z d)"
    using base sendable_data unfolding base_fits_def by blast
  with owner [OF h(1)] s'(1) have "run_inv L Z view z0 h0 h s'" by (simp add: run_inv_def run_pub_def)
  then show ?thesis
    using inv s' base h(2) unfolding machine_inv_def sync_inv_def base_fits_def by auto
qed

lemma base_fits_now:
  assumes "machine_inv L Z view ready T z0 h0 block_range s" "ready b" "view b = view (sy_base s)"
  shows "base_fits L Z T view ready s b"
proof -
  obtain h where "run_inv L Z view z0 h0 h s" using machine_invD(6) [OF assms(1)] by blast
  with assms show ?thesis by (auto simp: base_fits_def machine_inv_def sync_inv_def run_inv_def)
qed

text \<open>A message of the controller that is not about the tip.\<close>

lemma machine_send:
  assumes inv: "machine_inv L Z view ready T z0 h0 block_range s"
    and z: "send_run_event Z e (run_pub s) = (Inr (), z)" "pub_ok z" "\<And>h. follow_log h [e] = Some h"
  shows "run_inv L Z view z0 h0 h s \<Longrightarrow> run_inv L Z view z0 h0 h (set_pub z s)"
proof -
  assume h: "run_inv L Z view z0 h0 h s"
  then obtain log where log: "send_log Z log z0 = (Inr (), run_pub s)" "follow_log h0 log = Some h" by (auto simp: run_inv_def)
  have "send_log Z (log @ [e]) z0 = (Inr (), z)" by (rule send_log_append [OF log(1)]) (simp add: send_log_def z(1))
  moreover have "follow_log h0 (log @ [e]) = Some h" using log(2) z(3) by (simp add: follow_log_append)
  ultimately show ?thesis using h z(2) unfolding run_inv_def by auto
qed

lemma machine_pub:
  assumes inv: "machine_inv L Z view ready T z0 h0 block_range s" and b: "ready b" "view b = view (sy_base s)"
    and z: "send_run_event Z e (run_pub s) = (Inr (), z)" "pub_ok z" "\<And>h. follow_log h [e] = Some h"
  shows "machine_inv L Z view ready T z0 h0 block_range (set_pub z (s\<lparr>sy_base := b\<rparr>))"
proof (rule machine_frame [OF inv])
  have "s\<lparr>sy_owner := sy_owner (set_pub z (s\<lparr>sy_base := b\<rparr>))\<rparr> = set_pub z s" by (simp add: set_pub_def)
  then show "run_inv L Z view z0 h0 h (s\<lparr>sy_owner := sy_owner (set_pub z (s\<lparr>sy_base := b\<rparr>))\<rparr>)"
    if "run_inv L Z view z0 h0 h s" for h using machine_send [OF inv z that] by simp
qed (use base_fits_now [OF inv b] in simp_all)

lemma machine_base:
  assumes inv: "machine_inv L Z view ready T z0 h0 block_range s" and b: "base_fits L Z T view ready s b"
  shows "machine_inv L Z view ready T z0 h0 block_range (s\<lparr>sy_base := b\<rparr>)"
  by (rule machine_frame [OF inv]) (use b in simp_all)

subsection \<open>The callbacks of the base chain\<close>

text \<open>The callbacks work on the pending moves alone.\<close>

lemma machine_pendings:
  assumes inv: "machine_inv L Z view ready T z0 h0 block_range s"
    and p: "pending_inv p" "\<forall>m\<in>set (pd_queue p). moves_sendable Z m" "pub_ok (pd_zmq p)"
    and sent: "send_all Z out (run_pub s) = (Inr (), pd_zmq p)"
  shows "machine_inv L Z view ready T z0 h0 block_range (s\<lparr>sy_owner := (sy_owner s)\<lparr>rd_pendings := p\<rparr>\<rparr>)"
proof (rule machine_frame [OF inv])
  show "run_inv L Z view z0 h0 h (s\<lparr>sy_owner := sy_owner (s\<lparr>sy_owner := (sy_owner s)\<lparr>rd_pendings := p\<rparr>\<rparr>)\<rparr>)"
    if "run_inv L Z view z0 h0 h s" for h
  proof -
    have "run_inv L Z view z0 h0 h (set_pub (pd_zmq p) s)"
      by (rule machine_send [OF inv, of "Moves out"]) (use sent p(3) that in \<open>simp_all add: send_run_event_def\<close>)
    with p that show ?thesis by (simp add: run_inv_def run_pub_def set_pub_def)
  qed
qed (use inv base_fits_now [OF inv] in \<open>auto simp: machine_inv_def sync_inv_def\<close>)

lemma NewTip_ok:
  assumes inv: "machine_inv L Z view ready T z0 h0 block_range s" and t: "t \<noteq> []"
  shows "\<exists>s'. Run_TipChanged t s = (Inr (), s') \<and> machine_inv L Z view ready T z0 h0 block_range s'"
proof -
  let ?p = "(rd_pendings (sy_owner s))\<lparr>pd_queue := [], pd_notificationTip := t\<rparr>"
  obtain h where h: "run_inv L Z view z0 h0 h s" using machine_invD(6) [OF inv] by blast
  have "machine_inv L Z view ready T z0 h0 block_range (s\<lparr>sy_owner := (sy_owner s)\<lparr>rd_pendings := ?p\<rparr>\<rparr>)"
    by (rule machine_pendings [OF inv, where out = "[]"])
      (use h in \<open>simp_all add: pending_inv_def send_all_def run_inv_def run_pub_def\<close>)
  moreover have "Run_TipChanged t s = (Inr (), s\<lparr>sy_owner := (sy_owner s)\<lparr>rd_pendings := ?p\<rparr>\<rparr>)"
    using t by (simp add: Run_TipChanged_def on_pendings_def zoomM_simp Pending_TipChanged_def)
  ultimately show ?thesis by blast
qed

lemma NewMoves_ok:
  assumes inv: "machine_inv L Z view ready T z0 h0 block_range s" and m: "moves_sendable Z moves"
  shows "\<exists>s'. Run_PendingMoves Z moves s = (Inr (), s') \<and> machine_inv L Z view ready T z0 h0 block_range s'"
proof -
  let ?p = "rd_pendings (sy_owner s)"
  obtain h where h: "run_inv L Z view z0 h0 h s" using machine_invD(6) [OF inv] by blast
  then have p: "pending_inv ?p" "pub_ok (pd_zmq ?p)" "\<forall>m\<in>set (pd_queue ?p). moves_sendable Z m"
    by (auto simp: run_inv_def run_pub_def)
  obtain z where z: "SendPendingMoves Z moves (pd_zmq ?p) = (Inr (), z)" "pub_ok z" using SendPendingMoves_ok [OF p(2) m] by blast
  have "\<exists>p' out. Pending_PendingMoves Z moves ?p = (Inr (), p') \<and> send_all Z out (pd_zmq ?p) = (Inr (), pd_zmq p') \<and>
      pub_ok (pd_zmq p') \<and> set (pd_queue p') \<subseteq> insert moves (set (pd_queue ?p))"
  proof (cases "pd_chainstateTip ?p \<noteq> [] \<and> pd_chainstateTip ?p = pd_notificationTip ?p")
    case True
    with z p PendingMoves_cases [OF p(1), of Z moves] show ?thesis
      by (intro exI [of _ "?p\<lparr>pd_zmq := z\<rparr>"] exI [of _ "[moves]"]) (auto simp: on_zmq_def zoomM_simp send_all_def)
  next
    case False
    with p PendingMoves_cases [OF p(1), of Z moves] show ?thesis
      by (intro exI [of _ "if pd_chainstateTip ?p = [] then ?p else ?p\<lparr>pd_queue := pd_queue ?p @ [moves]\<rparr>"] exI [of _ "[]"])
        (auto simp: send_all_def)
  qed
  then obtain p' out where p': "Pending_PendingMoves Z moves ?p = (Inr (), p')" "send_all Z out (run_pub s) = (Inr (), pd_zmq p')"
      "pub_ok (pd_zmq p')" "set (pd_queue p') \<subseteq> insert moves (set (pd_queue ?p))" by (auto simp: run_pub_def)
  have "pending_inv p'" using pending_step_inv [OF p(1), of Z "EvMoves moves"] p'(1) by simp
  then have "machine_inv L Z view ready T z0 h0 block_range (s\<lparr>sy_owner := (sy_owner s)\<lparr>rd_pendings := p'\<rparr>\<rparr>)"
    by (rule machine_pendings [OF inv _ _ p'(3,2)]) (use p(3) p'(4) m in auto)
  with p'(1) show ?thesis by (simp add: Run_PendingMoves_def on_pendings_def zoomM_simp)
qed

subsection \<open>The RPC server\<close>

lemma track_pub:
  assumes "pub_ok z"
  shows "depth z g < u64_max \<Longrightarrow> \<exists>z'. TrackGame g z = (Inr (), z') \<and> pub_ok z'"
    "\<exists>z'. UntrackGame g z = (Inr (), z') \<and> pub_ok z'"
proof -
  have out: "zp_outcomes z' = zp_outcomes z" if "TrackGame g z = (Inr (), z') \<or> UntrackGame g z = (Inr (), z')" for z'
    using that by (auto simp: TrackGame_def UntrackGame_def prog_Inr split: option.splits if_splits)
  show "depth z g < u64_max \<Longrightarrow> \<exists>z'. TrackGame g z = (Inr (), z') \<and> pub_ok z'"
    using TrackGame_depth [of z g] out assms by (auto simp: pub_ok_def)
  show "\<exists>z'. UntrackGame g z = (Inr (), z') \<and> pub_ok z'"
    using UntrackGame_depth [of z g] out assms by (auto simp: pub_ok_def)
qed

lemma Tracked_ok:
  assumes inv: "machine_inv L Z view ready T z0 h0 block_range s" and d: "depth (run_pub s) game < u64_max"
  shows "\<exists>s'. trackedgames cmd game s = (Inr (), s') \<and> machine_inv L Z view ready T z0 h0 block_range s'"
proof -
  obtain h where "run_inv L Z view z0 h0 h s" using machine_invD(6) [OF inv] by blast
  then have pub: "pub_ok (run_pub s)" by (simp add: run_inv_def)
  note keep = machine_pub [OF inv machine_invD(1) [OF inv] refl]
  obtain z1 z2 where z: "TrackGame game (run_pub s) = (Inr (), z1)" "pub_ok z1"
      "UntrackGame game (run_pub s) = (Inr (), z2)" "pub_ok z2"
    using track_pub [OF pub, of game] d by blast
  have m: "machine_inv L Z view ready T z0 h0 block_range (set_pub z1 s)" "machine_inv L Z view ready T z0 h0 block_range (set_pub z2 s)"
    using keep [of "Track game" z1] keep [of "Untrack game" z2] z by (simp_all add: send_run_event_def)
  consider "cmd = ''add''" | "cmd = ''remove''" | "cmd \<noteq> ''add''" "cmd \<noteq> ''remove''" by blast
  then show ?thesis
    using z m inv by cases (simp_all add: trackedgames_def run_zmq_eq)
qed

text \<open>A call that asks the base chain and may remember the answer.\<close>

definition asks :: "('b \<Rightarrow> mainchain) \<Rightarrow> ('b \<Rightarrow> bool) \<Rightarrow> ('b run, 'a) prog \<Rightarrow> 'b run \<Rightarrow> bool" where
  "asks view ready m s \<longleftrightarrow>
     (\<exists>r b own. m s = (r, s\<lparr>sy_base := b, sy_owner := own\<rparr>) \<and> returns r \<and> ready b \<and> view b = view (sy_base s) \<and>
        rd_pendings own = rd_pendings (sy_owner s) \<and> -1 \<le> rd_cachedVersion own)"

lemma asksI:
  assumes "m s = (r, s\<lparr>sy_base := b, sy_owner := own\<rparr>)" "returns r" "ready b" "view b = view (sy_base s)"
    and "rd_pendings own = rd_pendings (sy_owner s)" "-1 \<le> rd_cachedVersion own"
  shows "asks view ready m s"
  using assms unfolding asks_def by blast

lemma asks_kept:
  assumes "m s = (r, s)" "returns r" "ready (sy_base s)" "-1 \<le> rd_cachedVersion (sy_owner s)"
  shows "asks view ready m s"
proof -
  have "m s = (r, s\<lparr>sy_base := sy_base s, sy_owner := sy_owner s\<rparr>)" using assms(1) by simp
  then show ?thesis by (rule asksI) (use assms in simp_all)
qed

lemma asks_failed:
  assumes "m s = (Inl e, s\<lparr>sy_base := b\<rparr>)" "returns (Inl e :: error + unit)" "ready b" "view b = view (sy_base s)"
    and "-1 \<le> rd_cachedVersion (sy_owner s)"
  shows "asks view ready m s"
proof -
  have "m s = (Inl e, s\<lparr>sy_base := b, sy_owner := sy_owner s\<rparr>)" using assms(1) by simp
  moreover have "returns (Inl e)" using assms(2) by (cases e) (simp_all add: returns_def)
  ultimately show ?thesis by (rule asksI) (use assms in simp_all)
qed

context base_chain
begin

lemma Query_lift:
  assumes inv: "machine_inv L Z view ready T z0 h0 block_range s"
    and m: "\<exists>r b'. m s = (r, s\<lparr>sy_base := b'\<rparr>) \<and> returns r \<and> same (sy_base s) b'"
  shows "\<exists>r s'. thenM m (ret ()) s = (r, s') \<and> returns r \<and> machine_inv L Z view ready T z0 h0 block_range s'"
proof -
  obtain r b' where r: "m s = (r, s\<lparr>sy_base := b'\<rparr>)" "returns r" "ready b'" "view b' = view (sy_base s)"
    using m by (auto simp: base_same_def)
  have "machine_inv L Z view ready T z0 h0 block_range (s\<lparr>sy_base := b'\<rparr>)"
    by (rule machine_base [OF inv base_fits_now [OF inv r(3,4)]])
  with r(1,2) show ?thesis by (cases r) (auto simp: thenM_def bindM_def returns_def)
qed

lemma Updates_ok:
  assumes inv: "machine_inv L Z view ready T z0 h0 block_range s" and i: "allowed bc view ready Z block_range s (Updates h game)"
  shows "\<exists>s'. perform what L Z bc C block_range (Updates h game) s = (Inr (), s') \<and> machine_inv L Z view ready T z0 h0 block_range s'"
proof -
  note D = machine_invD [OF inv]
  let ?s = "s\<lparr>sy_owner := (sy_owner s)\<lparr>rd_requests := (rd_requests (sy_owner s) + 1) mod (u32_max + 1)\<rparr>\<rparr>"
  let ?tok = "''request_'' @ show_nat (rd_requests (sy_owner ?s))"
  have pub: "run_pub ?s = run_pub s" by (simp add: run_pub_def)
  obtain k where k: "run_inv L Z view z0 h0 k s" using D(6) by blast
  have inv': "machine_inv L Z view ready T z0 h0 block_range ?s"
    by (rule machine_frame [OF inv]) (use base_fits_now [OF inv D(1) refl] in \<open>auto simp: run_inv_def run_pub_def\<close>)
  have small: "\<forall>r\<in>set (blocks (sy_chain s)). r_height r \<le> height_limit" using tree_okD(1) [OF D(3) rows_in_treeD [OF D(4)]] by blast
  have "\<exists>res s'. PushZmqBlocks L Z bc h '''' [] (u32_of_int block_range) ?tok ?s = (Inr res, s')"
    by (rule PushZmqBlocks_returns [where T = T]) (use D k i run_inv_stored [OF k D(5)] pub in \<open>simp_all add: run_inv_def\<close>)
  then obtain ok E Q s' where run: "PushZmqBlocks L Z bc h '''' [] (u32_of_int block_range) ?tok ?s = (Inr (ok, E, Q), s')"
    by (metis prod.exhaust)
  have "pushed Z ?tok same h E Q ?s s'" using PushZmqBlocks_rpc [OF _ _ _ _ run] D i small by simp
  then obtain z b' where z: "send_events Z ?tok (map Detach E @ map Attach Q) (run_pub ?s) = (Inr (), z)"
      "s' = set_pub z (?s\<lparr>sy_base := b'\<rparr>)" "same (sy_base s) b'"
    unfolding pushed_def by auto
  have "keepsOk pub_ok (send_events Z ?tok (map Detach E @ map Attach Q))"
    unfolding send_events_def send_event_def SendBlockAttach_def SendBlockDetach_def
    by (auto split: zmq_event.split intro!: keepsOk_forM)
  from keepsOkD [OF this _ z(1)] have "pub_ok z" using k pub by (simp add: run_inv_def)
  then have "machine_inv L Z view ready T z0 h0 block_range s'"
    unfolding z(2) by (intro machine_pub [OF inv', where e = "Answer ?tok (map Detach E @ map Attach Q)"])
      (use z in \<open>simp_all add: base_same_def send_run_event_def\<close>)
  moreover have "perform what L Z bc C block_range (Updates h game) s = (Inr (), s')"
    using run by (simp add: game_sendupdates2_def game_sendupdates3_def upd_owner_def)
  ultimately show ?thesis by blast
qed

subsection \<open>The worker\<close>

lemma Pass_ok:
  assumes inv: "machine_inv L Z view ready T z0 h0 block_range s" and room: "has_room block_range 1 s"
    and C: "0 \<le> cf_maxReorgDepth C" "cf_maxReorgDepth C < 2147483647"
  shows "\<exists>s'. perform what L Z bc C block_range Pass s = (Inr (), s') \<and> machine_inv L Z view ready T z0 h0 block_range s'"
proof -
  note D = machine_invD [OF inv]
  let ?cb = "Some (TipUpdatedFrom L Z bc C)" and ?d = "nat (cf_maxReorgDepth C)"
  have client: "sync_client bc view tip ready L T ?d (run_inv L Z view z0 h0) ?cb"
    by (rule controller_client [OF base_chain_axioms C])
  have "\<exists>again s'. UpdateStep L bc ?cb block_range ?d s = (Inr again, s') \<and>
      sync_inv L T view ready (run_inv L Z view z0 h0) block_range s' \<and> same (sy_base s) (sy_base s')"
  proof (cases "blocks (sy_chain s) = []")
    case True
    from sync_client.UpdateStep_empty [OF client D(7) True room D(8)] show ?thesis by blast
  next
    case False
    from sync_client.UpdateStep_ok [OF client D(7) False room] obtain again s' where
        "UpdateStep L bc ?cb block_range ?d s = (Inr again, s')"
        "if fits (view (sy_base s)) (sy_chain s) (nat (start_height s))
         then advanced L T view tip ready (run_inv L Z view z0 h0) block_range s (nat (start_height s)) again s'
         else again \<and> went_back L T view tip ready (run_inv L Z view z0 h0) block_range s s'" by blast
    then show ?thesis by (auto simp: advanced_def went_back_def split: if_splits)
  qed
  then obtain again s' where "UpdateStep L bc ?cb block_range ?d s = (Inr again, s')"
      "sync_inv L T view ready (run_inv L Z view z0 h0) block_range s'" "same (sy_base s) (sy_base s')" by blast
  with D(8) show ?thesis by (simp add: Sync_iteration_def machine_inv_def base_same_def)
qed

lemma machine_info:
  assumes inv: "machine_inv L Z view ready T z0 h0 block_range s" and b: "ready b" "view b = view (sy_base s)"
    and own: "rd_pendings own = rd_pendings (sy_owner s)" "-1 \<le> rd_cachedVersion own"
  shows "machine_inv L Z view ready T z0 h0 block_range (s\<lparr>sy_base := b, sy_owner := own\<rparr>)"
  by (rule machine_frame [OF inv]) (use base_fits_now [OF inv b] own in \<open>auto simp: run_inv_def run_pub_def\<close>)

lemma machine_version: "machine_inv L Z view ready T z0 h0 block_range s \<Longrightarrow> -1 \<le> rd_cachedVersion (sy_owner s)"
  using machine_invD(6) by (fastforce simp: run_inv_def)

lemma asked_base:
  assumes "quiet view ready m good (sy_base s)"
  shows "\<exists>b. ready b \<and> view b = view (sy_base s) \<and>
    ((\<exists>a. good a \<and> PropagateBaseChainError what (run_base m) s = (Inr a, s\<lparr>sy_base := b\<rparr>)) \<or>
     (\<exists>e. returns (Inl e :: error + unit) \<and> PropagateBaseChainError what (run_base m) s = (Inl e, s\<lparr>sy_base := b\<rparr>)))"
  using assms
  by (auto simp: quiet_def PropagateBaseChainError_def run_base_def sy_on_base_def zoomM_def catchM_def returns_def
      split: prod.splits sum.splits error.splits)

lemma Ask_lift:
  assumes inv: "machine_inv L Z view ready T z0 h0 block_range s" and m: "asks view ready m s"
  shows "\<exists>r s'. thenM m (ret ()) s = (r, s') \<and> returns r \<and> machine_inv L Z view ready T z0 h0 block_range s'"
proof -
  obtain r b own where r: "m s = (r, s\<lparr>sy_base := b, sy_owner := own\<rparr>)" "returns r"
      "machine_inv L Z view ready T z0 h0 block_range (s\<lparr>sy_base := b, sy_owner := own\<rparr>)"
    using m machine_info [OF inv] unfolding asks_def by blast
  then show ?thesis by (cases r) (auto simp: thenM_def bindM_def returns_def)
qed

lemma NetworkInfo_asks:
  assumes "quiet view ready (bc_GetVersion bc) (\<lambda>v. v \<le> i64_max) (sy_base s)" "-1 \<le> rd_cachedVersion (sy_owner s)" "ready (sy_base s)"
  shows "asks view ready (getnetworkinfo what bc) s"
proof (cases "rd_cachedVersion (sy_owner s) = -1")
  case False
  have "getnetworkinfo what bc s = (Inr (json_set ''version'' (JInt (rd_cachedVersion (sy_owner s))) (JObject [])), s)"
    using False assms(2) by (simp add: getnetworkinfo_def)
  then show ?thesis using assms(2,3) by (intro asks_kept) auto
next
  case True
  from asked_base [OF assms(1), of what] show ?thesis
  proof (elim disjE exE conjE)
    fix a b assume b: "ready b" "view b = view (sy_base s)"
      and a: "a \<le> i64_max" "PropagateBaseChainError what (run_base (bc_GetVersion bc)) s = (Inr a, s\<lparr>sy_base := b\<rparr>)"
    then have "int64_of a = int a" by (simp add: int64_of_def)
    with a True have "getnetworkinfo what bc s = (Inr (json_set ''version'' (JInt (int a)) (JObject [])),
        s\<lparr>sy_base := b, sy_owner := (sy_owner s)\<lparr>rd_cachedVersion := int a\<rparr>\<rparr>)"
      by (simp add: getnetworkinfo_def upd_owner_def)
    then show ?thesis by (rule asksI) (use b in simp_all)
  next
    fix e b assume "ready b" "view b = view (sy_base s)" "returns (Inl e :: error + unit)"
      "PropagateBaseChainError what (run_base (bc_GetVersion bc)) s = (Inl e, s\<lparr>sy_base := b\<rparr>)"
    with True assms(2) show ?thesis by (intro asks_failed [where b = b and e = e]) (simp_all add: getnetworkinfo_def)
  qed
qed

lemma ChainInfo_asks:
  assumes "quiet view ready (bc_GetChain bc) (\<lambda>c. c \<noteq> []) (sy_base s)" "-1 \<le> rd_cachedVersion (sy_owner s)" "ready (sy_base s)"
    and inv: "chain_inv L (sy_chain s)"
  shows "asks view ready (getblockchaininfo what bc) s"
proof (cases "rd_cachedChain (sy_owner s) = []")
  case False
  then obtain j where "getblockchaininfo what bc s = (Inr j, s)" using getblockchaininfo_cached [OF inv] by blast
  then show ?thesis using assms(2,3) by (intro asks_kept) auto
next
  case True
  from asked_base [OF assms(1), of what] show ?thesis
  proof (elim disjE exE conjE)
    fix c b assume b: "ready b" "view b = view (sy_base s)"
      and c: "c \<noteq> []" "PropagateBaseChainError what (run_base (bc_GetChain bc)) s = (Inr c, s\<lparr>sy_base := b\<rparr>)"
    let ?s = "s\<lparr>sy_base := b, sy_owner := (sy_owner s)\<lparr>rd_cachedChain := c\<rparr>\<rparr>"
    obtain j where "getblockchaininfo what bc ?s = (Inr j, ?s)" using getblockchaininfo_cached [of L ?s] inv c(1) by auto
    moreover have "getblockchaininfo what bc s = getblockchaininfo what bc ?s"
      using True c by (simp add: getblockchaininfo_def upd_owner_def)
    ultimately have "getblockchaininfo what bc s = (Inr j, ?s)" by simp
    then show ?thesis by (rule asksI) (use b assms(2) in simp_all)
  next
    fix e b assume "ready b" "view b = view (sy_base s)" "returns (Inl e :: error + unit)"
      "PropagateBaseChainError what (run_base (bc_GetChain bc)) s = (Inl e, s\<lparr>sy_base := b\<rparr>)"
    with True assms(2) show ?thesis by (intro asks_failed [where b = b and e = e]) (simp_all add: getblockchaininfo_def)
  qed
qed

text \<open>Answers that are passed on.\<close>

lemma passed_on_asks:
  assumes "quiet view ready op good (sy_base s)" "-1 \<le> rd_cachedVersion (sy_owner s)"
    and "\<And>a t. \<exists>j. f a t = (Inr j, t)"
  shows "asks view ready (bindM (PropagateBaseChainError what (run_base op)) f) s"
  using asked_base [OF assms(1), of what]
proof (elim disjE exE conjE)
  fix a b assume b: "ready b" "view b = view (sy_base s)" "PropagateBaseChainError what (run_base op) s = (Inr a, s\<lparr>sy_base := b\<rparr>)"
  moreover obtain j where "f a (s\<lparr>sy_base := b\<rparr>) = (Inr j, s\<lparr>sy_base := b\<rparr>)" using assms(3) by blast
  ultimately have "bindM (PropagateBaseChainError what (run_base op)) f s = (Inr j, s\<lparr>sy_base := b, sy_owner := sy_owner s\<rparr>)" by simp
  then show ?thesis by (rule asksI) (use assms(2) b in simp_all)
next
  fix e b assume "ready b" "view b = view (sy_base s)" "returns (Inl e :: error + unit)"
    "PropagateBaseChainError what (run_base op) s = (Inl e, s\<lparr>sy_base := b\<rparr>)"
  with assms(2) show ?thesis by (intro asks_failed [where b = b and e = e]) simp_all
qed

lemma RawMempool_asks:
  assumes "quiet view ready (bc_GetMempool bc) good (sy_base s)" "-1 \<le> rd_cachedVersion (sy_owner s)"
  shows "asks view ready (getrawmempool what bc) s"
  unfolding getrawmempool_def by (rule passed_on_asks [OF assms]) simp

lemma VerifyMsg_asks:
  assumes "case decoded of None \<Rightarrow> True | Some raw \<Rightarrow> quiet view ready (bc_VerifyMessage bc msg raw) good (sy_base s)"
    and "-1 \<le> rd_cachedVersion (sy_owner s)" "ready (sy_base s)"
  shows "asks view ready (verifymessage what (\<lambda>_. decoded) bc addr msg signature) s"
proof (cases decoded)
  case None
  then have "verifymessage what (\<lambda>_. decoded) bc addr msg signature s =
      (Inl (Throw (JsonRpcException ERROR_RPC_INVALID_PARAMS ''signature is not base64-encoded'')), s)"
    by (simp add: verifymessage_def rpc_throw_def)
  then show ?thesis by (rule asks_kept) (use assms(2,3) in simp_all)
next
  case (Some raw)
  then have q: "quiet view ready (bc_VerifyMessage bc msg raw) good (sy_base s)" using assms(1) by simp
  have "verifymessage what (\<lambda>_. decoded) bc addr msg signature =
      bindM (PropagateBaseChainError what (run_base (bc_VerifyMessage bc msg raw))) (\<lambda>res.
        case res of
          None \<Rightarrow> if addr \<noteq> [] then ret (JBool False) else ret (json_set ''valid'' (JBool False) (JObject []))
        | Some signerAddr \<Rightarrow>
            if addr \<noteq> [] then ret (JBool (signerAddr = addr))
            else ret (json_set ''address'' (JString signerAddr) (json_set ''valid'' (JBool True) (JObject []))))"
    by (simp only: verifymessage_def Some option.case)
  then show ?thesis by (simp only:) (rule passed_on_asks [OF q assms(2)], simp split: option.split)
qed

subsection \<open>All steps\<close>

lemma perform_ok:
  assumes inv: "machine_inv L Z view ready T z0 h0 block_range s" and i: "allowed bc view ready Z block_range s i"
    and C: "0 \<le> cf_maxReorgDepth C" "cf_maxReorgDepth C < 2147483647"
  shows "\<exists>r s'. perform what L Z bc C block_range i s = (r, s') \<and> returns r \<and> machine_inv L Z view ready T z0 h0 block_range s'"
proof (cases i)
  case Pass
  then show ?thesis using Pass_ok [OF inv _ C, of what] i by fastforce
next
  case (NewTip t)
  then show ?thesis using NewTip_ok [OF inv, of t] i by fastforce
next
  case (NewMoves m)
  then show ?thesis using NewMoves_ok [OF inv, of m] i by fastforce
next
  case (Tracked cmd game)
  then show ?thesis using Tracked_ok [OF inv, of game cmd] i by fastforce
next
  case (BlockHash n)
  then have "0 \<le> n" "n \<le> 2147483647" using i by simp_all
  from Query_lift [where m = "getblockhash what bc n", OF inv getblockhash_returns [OF machine_invD(1,5) [OF inv] this]] BlockHash
  show ?thesis by simp
next
  case (BlockHeader hash)
  from Query_lift [where m = "getblockheader what bc hash", OF inv getblockheader_returns [OF machine_invD(1,5) [OF inv]]] BlockHeader
  show ?thesis by simp
next
  case (Updates h game)
  then show ?thesis using Updates_ok [OF inv, of h game what C] i by fastforce
next
  case NetworkInfo
  then have "asks view ready (getnetworkinfo what bc) s"
    using i by (intro NetworkInfo_asks machine_version [OF inv] machine_invD(1) [OF inv]) simp
  with Ask_lift [OF inv this] NetworkInfo show ?thesis by simp
next
  case ChainInfo
  then have "asks view ready (getblockchaininfo what bc) s"
    using i by (intro ChainInfo_asks [OF _ machine_version [OF inv] machine_invD(1,5) [OF inv]]) simp
  with Ask_lift [OF inv this] ChainInfo show ?thesis by simp
next
  case RawMempool
  then have "asks view ready (getrawmempool what bc) s"
    using i by (intro RawMempool_asks [where good = "\<lambda>_. True"] machine_version [OF inv]) simp
  with Ask_lift [OF inv this] RawMempool show ?thesis by simp
next
  case (VerifyMsg decoded addr msg signature)
  then have "asks view ready (verifymessage what (\<lambda>_. decoded) bc addr msg signature) s"
    using i by (intro VerifyMsg_asks [where good = "\<lambda>_. True"] machine_version [OF inv] machine_invD(1) [OF inv]) simp
  with Ask_lift [OF inv this] VerifyMsg show ?thesis by simp
qed

text \<open>The invariant holds whatever the interleaving, when the run starts on a good database.\<close>

lemma run_reachable_inv:
  assumes "run_reachable what L Z bc view ready T db c block_range s" "db_good L Z T db"
    and "tree_ok T" "distinct (cf_trackedGames (ct_config c))" "1 \<le> block_range" "block_range \<le> 2147483647"
    and "cf_maxReorgDepth (ct_config c) < 2147483647"
  shows "machine_inv L Z view ready T (track_configured (ct_config c)) (tip_hash db) block_range s \<and>
    0 \<le> cf_maxReorgDepth (ct_config c)"
  using assms(1)
proof (induction rule: run_reachable.induct)
  case (start b0 s c')
  then have B: "ready (sy_base s)" "base_in_tree L T (view (sy_base s))" "view (sy_base s) 0 \<noteq> None"
      "\<forall>n x. view (sy_base s) n = Some x \<longrightarrow> block_sendable Z x"
      "blocks (sy_chain s) \<noteq> [] \<longrightarrow> root_in_view (view (sy_base s)) (sy_chain s)" by (auto simp: base_fits_def)
  from started_inv [where ready = ready and view = view, OF start(1) assms(2) B(1) assms(3) B(2,4,5) assms(4-6)] B(3)
    Controller_Run_state(4) [OF start(1)]
  show ?case by (simp add: machine_inv_def)
next
  case (base s b)
  then have "machine_inv L Z view ready T (track_configured (ct_config c)) (tip_hash db) block_range (s\<lparr>sy_base := b\<rparr>)"
    by (elim conjE) (rule machine_base)
  with base.IH show ?case by simp
next
  case (step s i r s')
  then show ?case using perform_ok [of L Z T _ _ block_range s i "ct_config c" what] assms(7) by fastforce
qed

end

subsection \<open>Stopping and starting again\<close>

text \<open>The databases a sequence of runs can leave behind: each run starts on what the one before it left,
  with its own configuration and its own state of the base chain, and is stopped in any state.\<close>

inductive left_behind ::
  "(exn \<Rightarrow> string) \<Rightarrow> codec \<Rightarrow> zmq_lib \<Rightarrow> 'b BaseChain \<Rightarrow> ('b \<Rightarrow> mainchain) \<Rightarrow> ('b \<Rightarrow> bool) \<Rightarrow> block_tree \<Rightarrow> chainstate \<Rightarrow> bool"
  for what L Z bc view ready T where
  fresh: "left_behind what L Z bc view ready T Chainstate_new"
| stopped: "left_behind what L Z bc view ready T db \<Longrightarrow> run_reachable what L Z bc view ready T db c block_range s \<Longrightarrow>
    distinct (cf_trackedGames (ct_config c)) \<Longrightarrow> 1 \<le> block_range \<Longrightarrow> block_range \<le> 2147483647 \<Longrightarrow>
    cf_maxReorgDepth (ct_config c) < 2147483647 \<Longrightarrow>
    Controller_finish ms (c1, s) = (Inr (), (c2, s')) \<Longrightarrow> left_behind what L Z bc view ready T (sy_chain s')"

lemma RunData_destroy_chain: "sy_chain (snd (snd (RunData_destroy (c, s)))) = sy_chain s"
  by (simp add: RunData_destroy_def Sync_destroy_def thenM_def bindM_def CHECK_def getM_def modifyM_def zoomM_def)

lemma RunData_destroy_ok:
  assumes "ct_running c" "ct_sync c"
  shows "\<exists>c' s'. RunData_destroy (c, s) = (Inr (), (c', s')) \<and> ct_config c' = ct_config c \<and> \<not> ct_running c' \<and> \<not> ct_listening c' \<and>
    \<not> ct_baseCallbacks c' \<and> \<not> ct_syncCallbacks c' \<and> \<not> sy_updater s' \<and> sy_chain s' = sy_chain s"
  using assms by (simp add: RunData_destroy_def Sync_destroy_def thenM_def bindM_def CHECK_def getM_def modifyM_def zoomM_def)

text \<open>The wait ends with the first \<^verbatim>\<open>Stop\<close>, and not before.\<close>

lemma wait_loop_stops:
  assumes "\<not> ct_shouldStop c" "\<forall>m\<in>set ms. m = ret ()"
  shows "wait_loop (ms @ Stop # ms') c = (Inr (), c\<lparr>ct_shouldStop := True\<rparr>)"
  using assms
proof (induction ms)
  case Nil
  then show ?case by (cases ms') (simp_all add: Stop_def)
qed simp

lemma wait_loop_waits:
  assumes "\<not> ct_shouldStop c" "\<forall>m\<in>set ms. m = ret ()"
  shows "wait_loop ms c = (Inl Diverges, c)"
  using assms by (induction ms) simp_all

lemma Controller_finish_chain:
  assumes "Controller_finish ms (c, s) = (Inr (), (c', s'))"
  shows "sy_chain s' = sy_chain s"
  using assms RunData_destroy_chain [of _ s]
  by (auto simp: Controller_finish_def prog_Inr zoomM_simp) (metis snd_conv)

lemma left_behind_good:
  assumes "base_chain bc view tip ready" "tree_ok T" "left_behind what L Z bc view ready T db"
  shows "db_good L Z T db"
  using assms(3)
proof (induction rule: left_behind.induct)
  case fresh
  show ?case by (rule db_good_fresh)
next
  case (stopped db c block_range s ms c1 c2 s')
  from base_chain.run_reachable_inv [OF assms(1) stopped(2) stopped.IH assms(2) stopped(3-6)]
  have inv: "machine_inv L Z view ready T (track_configured (ct_config c)) (tip_hash db) block_range s" by simp
  from machine_invD(6) [OF inv] have "data_only (data_sendable L Z) (sy_chain s)" by (auto simp: run_inv_def)
  with machine_invD(4,5) [OF inv] show ?case by (simp add: db_good_def Controller_finish_chain [OF stopped(7)])
qed

end
