(* ===== verification/PropMachine.thy ===== *)
theory PropMachine
  imports PropControl PropSync RunMachine
begin

text \<open>
  The properties of the running program as a whole, for every interleaving of its threads.
\<close>

subsection \<open>An example run\<close>

lemma ex_short_view:
  assumes "Test_view ex_short h = Some b"
  shows "h = 0 \<and> b = ex_block ''g'' \<or> h = 1 \<and> b = ex_block ''a1''"
proof -
  have "Test_tip ex_short = 1" "Test_view ex_short 0 = Some (ex_block ''g'')" "Test_view ex_short 1 = Some (ex_block ''a1'')"
    by (code_simp, code_simp, code_simp)
  moreover from this(1) have "h \<le> 1" using mainchain_okD(2) [OF test.view_ok [OF ex_short_ready] assms] by simp
  ultimately show ?thesis using assms by (cases h) auto
qed

lemma ex_short_in_tree: "base_in_tree ex_codec ex_T (Test_view ex_short)"
  unfolding base_in_tree_def
proof (intro allI impI)
  fix h b assume v: "Test_view ex_short h = Some b"
  have "ex_T (blk_hash b) = Some (blk_parent b, h)"
    using ex_short_view [OF v] by (auto simp: ex_T_def ex_block_def ex_tree_def empty_block_def)
  moreover obtain x where "x \<in> fst ` set ex_tree" "b = ex_block x"
    using ex_view_block [OF _ v] by (auto simp: ex_short_def)
  ultimately show "ex_T (blk_hash b) = Some (blk_parent b, h) \<and> block_wf b \<and> codec_ok ex_codec b" using ex_codec_ok by metis
qed

lemma ex_sendable_block: "block_sendable ex_zlib (ex_block x)"
  by (simp add: ex_block_def empty_block_def block_sendable_def meta_ok_def split: option.split prod.split)

definition ex_imported :: "TestBaseChain run" where
  "ex_imported = snd (perform (\<lambda>_. '''') ex_codec ex_zlib TestChain ex_config 128 Pass ex_started)"

lemma ex_imported_chain: "blocks (sy_chain ex_imported) = [ex_row ''a1'' 0]"
  by code_simp

lemma ex_short_fits: "base_fits ex_codec ex_zlib ex_T Test_view (Test_ready ex_codec) ex_imported ex_short"
proof -
  have "Test_view ex_short 0 = Some (ex_block ''g'')" "Test_view ex_short 1 = Some (ex_block ''a1'')" by (code_simp, code_simp)
  moreover have "GetLowestUnprunedHeight (sy_chain ex_imported) = 1" "r_height (ex_row ''a1'' 0) = 1" "r_branch (ex_row ''a1'' 0) = 0"
      "r_hash (ex_row ''a1'' 0) = ''a1''" "blk_hash (ex_block ''a1'') = ''a1''"
    by (code_simp, code_simp, code_simp, code_simp, code_simp)
  ultimately show ?thesis
    using ex_short_ready ex_short_in_tree ex_short_view ex_sendable_block ex_imported_chain
    by (auto simp: base_fits_def root_in_view_def)
qed

text \<open>The program starts and imports its first block.\<close>

lemma ex_config_of: "ct_config ex_controller = ex_config" "distinct (cf_trackedGames ex_config)" "cf_maxReorgDepth ex_config = 2"
  by (simp_all add: ex_controller_def ex_config_def)

lemma ex_base_fits:
  assumes "blocks (sy_chain s) = [] \<or> blocks (sy_chain s) = [ex_row ''a1'' 0]"
  shows "base_fits ex_codec ex_zlib ex_T Test_view (Test_ready ex_codec) s ex_base"
proof -
  have "GetLowestUnprunedHeight (sy_chain s) = 1" if "blocks (sy_chain s) = [ex_row ''a1'' 0]"
  proof -
    have "GetLowestUnprunedHeight \<lparr>blocks = [ex_row ''a1'' 0], variables = [], savepoints = []\<rparr> = 1" by code_simp
    with that show ?thesis by (simp add: GetLowestUnprunedHeight_def GetMainchainHeight_def)
  qed
  moreover have "r_height (ex_row ''a1'' 0) = 1" "r_branch (ex_row ''a1'' 0) = 0" "r_hash (ex_row ''a1'' 0) = ''a1''"
      "blk_hash (ex_block ''a1'') = ''a1''" "Test_view ex_base 1 = Some (ex_block ''a1'')"
    by (code_simp, code_simp, code_simp, code_simp, code_simp)
  ultimately show ?thesis using assms ex_base_ready ex_base_in_tree ex_sendable by (auto simp: base_fits_def root_in_view_def ex_view)
qed

lemma ex_imported_reachable:
  "run_reachable (\<lambda>_. '''') ex_codec ex_zlib TestChain Test_view (Test_ready ex_codec) ex_T Chainstate_new ex_controller 128 ex_imported"
proof (rule run_reachable.step)
  obtain c' where run: "Controller_Run TestChain Chainstate_new (ex_controller, ex_base) = (Inr ex_started, c')"
    using ex_starts by blast
  show "run_reachable (\<lambda>_. '''') ex_codec ex_zlib TestChain Test_view (Test_ready ex_codec) ex_T Chainstate_new ex_controller 128 ex_started"
    by (rule run_reachable.start [OF run]) (use ex_base_fits [of ex_started] in \<open>simp add: ex_started_def\<close>)
  show "allowed TestChain Test_view (Test_ready ex_codec) ex_zlib 128 ex_started Pass"
  proof -
    have "has_room 128 1 ex_started" by code_simp
    then show ?thesis by simp
  qed
  show "perform (\<lambda>_. '''') ex_codec ex_zlib TestChain (ct_config ex_controller) 128 Pass ex_started =
      (fst (perform (\<lambda>_. '''') ex_codec ex_zlib TestChain ex_config 128 Pass ex_started), ex_imported)"
    by (simp add: ex_imported_def ex_config_of)
qed

text \<open>Then the base chain loses two blocks.\<close>

lemma ex_run_reachable:
  "run_reachable (\<lambda>_. '''') ex_codec ex_zlib TestChain Test_view (Test_ready ex_codec) ex_T Chainstate_new ex_controller 128
     (ex_imported\<lparr>sy_base := ex_short\<rparr>)"
  by (rule run_reachable.base [OF ex_imported_reachable ex_short_fits])

text \<open>Or the program is stopped and started again.\<close>

definition ex_restarted :: "TestBaseChain run" where
  "ex_restarted = ex_started\<lparr>sy_chain := sy_chain ex_imported\<rparr>"

lemma ex_left_behind:
  "left_behind (\<lambda>_. '''') ex_codec ex_zlib TestChain Test_view (Test_ready ex_codec) ex_T (sy_chain ex_imported)"
proof -
  let ?c = "ex_controller\<lparr>ct_running := True, ct_sync := True\<rparr>"
  have "wait_loop [Stop] ?c = (Inr (), ?c\<lparr>ct_shouldStop := True\<rparr>)"
    using wait_loop_stops [of ?c "[]" "[]"] by (simp add: ex_controller_def Controller_new_def)
  with RunData_destroy_ok [of "?c\<lparr>ct_shouldStop := True\<rparr>" ex_imported] obtain c2 s'
    where fin: "Controller_finish [Stop] (?c, ex_imported) = (Inr (), (c2, s'))" "sy_chain s' = sy_chain ex_imported"
    by (auto simp: Controller_finish_def zoomM_simp)
  from left_behind.stopped [OF left_behind.fresh ex_imported_reachable _ _ _ _ fin(1)] ex_config_of fin(2) show ?thesis by simp
qed

lemma ex_restarted_reachable:
  "run_reachable (\<lambda>_. '''') ex_codec ex_zlib TestChain Test_view (Test_ready ex_codec) ex_T (sy_chain ex_imported) ex_controller 128 ex_restarted"
proof -
  have "SetChain ''test'' (sy_chain ex_imported) = (Inr (), sy_chain ex_imported)" by code_simp
  from ex_starts_on [OF this] obtain c' where
      "Controller_Run TestChain (sy_chain ex_imported) (ex_controller, ex_base) = (Inr ex_restarted, c')"
    by (auto simp: ex_restarted_def)
  then show ?thesis
    by (rule run_reachable.start) (use ex_base_fits [of ex_restarted] ex_imported_chain in \<open>simp add: ex_restarted_def ex_started_def\<close>)
qed

subsection \<open>The properties\<close>





end
