(* ===== verification/Doubles.thy ===== *)
theory Doubles
  imports Prelude
begin

text \<open>
  The arithmetic of \<^verbatim>\<open>double\<close> the connectors use on payment amounts, on IEEE-754 bit patterns: the
  sum of two values, the conversion of an integer and the quotient of two finite values, each rounded to
  the nearest representable value with ties to even.  The magnitude of a finite value is a natural number
  in units of \<open>2 ^ -1074\<close>, the distance of the smallest two, so that all exact results are quotients of
  natural numbers.  The sign and the payload of a result that is not a number are not specified by the
  language; the model returns one such pattern.
\<close>

subsection \<open>Bit patterns\<close>

definition dbl_neg :: "64 word \<Rightarrow> bool" where
  "dbl_neg w \<longleftrightarrow> unat w \<ge> 2 ^ 63"

text \<open>The exponent and the fraction together.\<close>

definition dbl_bits :: "64 word \<Rightarrow> nat" where
  "dbl_bits w = unat w mod 2 ^ 63"

abbreviation inf_bits :: nat where "inf_bits \<equiv> 2047 * 2 ^ 52"

definition dbl_finite :: "64 word \<Rightarrow> bool" where
  "dbl_finite w \<longleftrightarrow> dbl_bits w < inf_bits"

definition dbl_nan :: "64 word \<Rightarrow> bool" where
  "dbl_nan w \<longleftrightarrow> dbl_bits w > inf_bits"

definition bits_mag :: "nat \<Rightarrow> nat" where
  "bits_mag n = (if n div 2 ^ 52 = 0 then n else (2 ^ 52 + n mod 2 ^ 52) * 2 ^ (n div 2 ^ 52 - 1))"

definition dbl_mag :: "64 word \<Rightarrow> nat" where
  "dbl_mag w = bits_mag (dbl_bits w)"

definition dbl_scaled :: "64 word \<Rightarrow> int" where
  "dbl_scaled w = (if dbl_neg w then - int (dbl_mag w) else int (dbl_mag w))"

definition dbl_make :: "bool \<Rightarrow> nat \<Rightarrow> 64 word" where
  "dbl_make neg bits = word_of_nat (bits + (if neg then 2 ^ 63 else 0))"

definition dbl_not_a_number :: "64 word" where
  "dbl_not_a_number = dbl_make False (inf_bits + 2 ^ 51)"

subsection \<open>Rounding\<close>

fun bitlen :: "nat \<Rightarrow> nat" where
  "bitlen n = (if n = 0 then 0 else Suc (bitlen (n div 2)))"

declare bitlen.simps [simp del]

definition round_div :: "nat \<Rightarrow> nat \<Rightarrow> nat" where
  "round_div a b =
     (let q = a div b; r = a mod b in
      if 2 * r < b \<or> (2 * r = b \<and> even q) then q else q + 1)"

text \<open>The number of bits below the 53 of the significand.\<close>

definition round_shift :: "nat \<Rightarrow> nat \<Rightarrow> nat" where
  "round_shift a b = bitlen (a div b) - 53"

text \<open>The bit pattern of the value nearest to \<open>a / b\<close>: a carry out of the significand increases the
  exponent by itself.\<close>

definition round_bits :: "nat \<Rightarrow> nat \<Rightarrow> nat" where
  "round_bits a b =
     (let s = round_shift a b in min inf_bits (s * 2 ^ 52 + round_div a (b * 2 ^ s)))"

subsection \<open>Operations\<close>

definition dbl_of_int :: "int \<Rightarrow> 64 word" where
  "dbl_of_int i = dbl_make (i < 0) (round_bits (nat \<bar>i\<bar> * 2 ^ 1074) 1)"

definition dbl_add :: "64 word \<Rightarrow> 64 word \<Rightarrow> 64 word" where
  "dbl_add x y =
     (if dbl_nan x \<or> dbl_nan y then dbl_not_a_number
      else if \<not> dbl_finite x then (if \<not> dbl_finite y \<and> dbl_neg x \<noteq> dbl_neg y then dbl_not_a_number else x)
      else if \<not> dbl_finite y then y
      else
        let t = dbl_scaled x + dbl_scaled y in
        dbl_make (if t = 0 then dbl_neg x \<and> dbl_neg y else t < 0) (round_bits (nat \<bar>t\<bar>) 1))"

text \<open>The quotient of finite values whose divisor is not zero; the code divides by a constant.\<close>

definition dbl_div :: "64 word \<Rightarrow> 64 word \<Rightarrow> 64 word" where
  "dbl_div x y =
     dbl_make (dbl_neg x \<noteq> dbl_neg y) (round_bits (dbl_mag x * 2 ^ 1074) (dbl_mag y))"

subsection \<open>Lemmas\<close>

lemma bitlen_bounds: "0 < n \<Longrightarrow> 2 ^ (bitlen n - 1) \<le> n \<and> n < 2 ^ bitlen n"
proof (induction n rule: bitlen.induct)
  case (1 n)
  show ?case
  proof (cases "n div 2 = 0")
    case True
    with "1.prems" have "n = 1" by simp
    moreover have "bitlen 1 = 1" by (simp add: bitlen.simps)
    ultimately show ?thesis by simp
  next
    case False
    with 1 have ih: "2 ^ (bitlen (n div 2) - 1) \<le> n div 2" "n div 2 < 2 ^ bitlen (n div 2)" by auto
    have "bitlen (n div 2) \<noteq> 0" using False by (simp add: bitlen.simps [of "n div 2"])
    then obtain k where k: "bitlen (n div 2) = Suc k" using not0_implies_Suc by blast
    then have "bitlen n = Suc (Suc k)" using "1.prems" by (simp add: bitlen.simps [of n])
    with ih k show ?thesis by simp linarith
  qed
qed

lemma round_div_error:
  assumes "0 < b"
  shows "2 * a \<le> 2 * (round_div a b * b) + b" "2 * (round_div a b * b) \<le> 2 * a + b"
proof -
  define q r where "q = a div b" and "r = a mod b"
  have a: "a = q * b + r" and r: "r < b" using assms by (auto simp: q_def r_def)
  show "2 * a \<le> 2 * (round_div a b * b) + b" "2 * (round_div a b * b) \<le> 2 * a + b"
    unfolding round_div_def Let_def q_def [symmetric] r_def [symmetric]
    using r by (auto simp: a algebra_simps)
qed

lemma round_div_between:
  assumes "0 < b" shows "a div b \<le> round_div a b" "round_div a b \<le> a div b + 1"
  by (auto simp: round_div_def Let_def)

lemma round_div_near:
  assumes "0 < b" "2 * a < (2 * n + 1) * b" "2 * n * b < 2 * a + b"
  shows "round_div a b = n"
proof -
  define m where "m = round_div a b"
  have "2 * (m * b) \<le> 2 * a + b" "2 * a \<le> 2 * (m * b) + b" using round_div_error [OF assms(1)] by (auto simp: m_def)
  with assms(2,3) have "2 * (m * b) < 2 * (n * b) + 2 * b" "2 * (n * b) < 2 * (m * b) + 2 * b"
    by (auto simp: algebra_simps)
  then have "m * b < (n + 1) * b" "n * b < (m + 1) * b" by (auto simp: algebra_simps)
  then have "m < n + 1" "n < m + 1" by (metis mult_less_cancel2)+
  then show ?thesis by (simp add: m_def)
qed

text \<open>The significand of a rounded value has at most 53 bits, and exactly 53 when bits were dropped.\<close>

lemma round_significand:
  assumes "0 < b"
  shows "round_div a (b * 2 ^ round_shift a b) \<le> 2 ^ 53"
    "round_shift a b \<noteq> 0 \<Longrightarrow> 2 ^ 52 \<le> round_div a (b * 2 ^ round_shift a b)"
proof -
  let ?s = "round_shift a b"
  have q: "a div (b * 2 ^ ?s) = a div b div 2 ^ ?s" by (simp add: div_mult2_eq)
  have pos: "0 < b * 2 ^ ?s" using assms by simp
  have "a div b < 2 ^ (53 + ?s)"
  proof (cases "a div b = 0")
    case False
    then have "a div b < 2 ^ bitlen (a div b)" using bitlen_bounds by blast
    also have "\<dots> \<le> 2 ^ (53 + ?s)" by (intro power_increasing) (auto simp: round_shift_def)
    finally show ?thesis .
  qed simp
  then have "a div (b * 2 ^ ?s) < 2 ^ 53" unfolding q by (simp add: less_mult_imp_div_less power_add)
  with round_div_between(2) [OF pos, of a] show "round_div a (b * 2 ^ ?s) \<le> 2 ^ 53" by linarith
  assume "?s \<noteq> 0"
  then have len: "bitlen (a div b) - 1 = 52 + ?s" and "a div b \<noteq> 0"
    by (auto simp: round_shift_def bitlen.simps [of 0] intro: ccontr)
  then have "2 ^ (52 + ?s) \<le> a div b" using bitlen_bounds [of "a div b"] by auto
  then have "2 ^ 52 \<le> a div (b * 2 ^ ?s)" unfolding q by (simp add: less_eq_div_iff_mult_less_eq power_add)
  with round_div_between(1) [OF pos, of a] show "2 ^ 52 \<le> round_div a (b * 2 ^ ?s)" by linarith
qed

lemma mag_of_parts:
  assumes "m \<le> 2 ^ 53" "s \<noteq> 0 \<Longrightarrow> 2 ^ 52 \<le> m"
  shows "bits_mag (s * 2 ^ 52 + m) = m * 2 ^ s"
proof -
  consider "m = 2 ^ 53" | "s = 0" "m < 2 ^ 52" | "2 ^ 52 \<le> m" "m < 2 ^ 53" using assms by linarith
  then show ?thesis
  proof cases
    case 1
    then have "s * 2 ^ 52 + m = (s + 2) * 2 ^ 52" by simp
    then show ?thesis using 1 by (simp add: bits_mag_def)
  next
    case 2
    then show ?thesis by (simp add: bits_mag_def)
  next
    case 3
    then obtain f where f: "m = 2 ^ 52 + f" "f < 2 ^ 52" using le_Suc_ex by fastforce
    then have e: "s * 2 ^ 52 + m = f + (s + 1) * 2 ^ 52" by simp
    have "(f + (s + 1) * 2 ^ 52) div 2 ^ 52 = s + 1" "(f + (s + 1) * 2 ^ 52) mod 2 ^ 52 = f"
      using f(2) by (simp_all add: div_mult_self1 del: mult_Suc)
    then show ?thesis unfolding e bits_mag_def using f(1) by simp
  qed
qed

lemma round_bits_mag:
  assumes "0 < b" "round_bits a b < inf_bits"
  shows "bits_mag (round_bits a b) = round_div a (b * 2 ^ round_shift a b) * 2 ^ round_shift a b"
  using mag_of_parts [OF round_significand [OF assms(1)]] assms(2)
  by (auto simp: round_bits_def Let_def)

lemma dbl_make_parts:
  assumes "bits \<le> inf_bits"
  shows "dbl_bits (dbl_make neg bits) = bits" "dbl_neg (dbl_make neg bits) = neg"
proof -
  have "unat (dbl_make neg bits) = bits + (if neg then 2 ^ 63 else 0)"
    unfolding dbl_make_def using assms by (subst unat_of_nat) (simp add: take_bit_eq_mod)
  then show "dbl_bits (dbl_make neg bits) = bits" "dbl_neg (dbl_make neg bits) = neg"
    using assms by (auto simp: dbl_bits_def dbl_neg_def)
qed

lemma round_bits_le: "round_bits a b \<le> inf_bits"
  by (simp add: round_bits_def Let_def)

lemma bitlen_less: "n < 2 ^ k \<Longrightarrow> bitlen n \<le> k"
proof (cases "n = 0")
  case False
  assume "n < 2 ^ k"
  then have "2 ^ (bitlen n - 1) < (2::nat) ^ k" using bitlen_bounds [of n] False by (meson le_less_trans neq0_conv)
  then show ?thesis using power_less_imp_less_exp [of "2::nat" "bitlen n - 1" k] by simp
qed (simp add: bitlen.simps [of 0])

lemma dbl_mag_round:
  assumes "0 < b" "round_bits a b < inf_bits"
  shows "dbl_mag (dbl_make neg (round_bits a b)) = round_div a (b * 2 ^ round_shift a b) * 2 ^ round_shift a b"
  using round_bits_mag [OF assms] dbl_make_parts(1) [OF round_bits_le] by (simp add: dbl_mag_def)

lemma round_bits_finite:
  assumes "0 < b" "round_shift a b \<le> 2000"
  shows "round_bits a b < inf_bits"
proof -
  have "round_shift a b * 2 ^ 52 + round_div a (b * 2 ^ round_shift a b) \<le> 2000 * 2 ^ 52 + 2 ^ 53"
    using round_significand(1) [OF assms(1)] assms(2) by (intro add_mono) simp_all
  then show ?thesis by (simp add: round_bits_def Let_def)
qed

text \<open>Integers up to 53 bits are converted exactly.\<close>

lemma round_div_exact: "0 < b \<Longrightarrow> round_div (m * b) b = m"
  by (simp add: round_div_def)

lemma dbl_of_int_exact:
  assumes "n < 2 ^ 53"
  shows "dbl_mag (dbl_of_int (int n)) = n * 2 ^ 1074" "\<not> dbl_neg (dbl_of_int (int n))"
proof -
  define e :: nat where "e = 1074"
  have "n * 2 ^ e < 2 ^ (e + 53)" using assms by (simp add: power_add)
  then have len: "bitlen (n * 2 ^ e) \<le> e + 53" by (rule bitlen_less)
  let ?s = "round_shift (n * 2 ^ e) 1"
  have s: "?s \<le> e" using len by (simp add: round_shift_def)
  then have split: "n * 2 ^ e = (n * 2 ^ (e - ?s)) * 2 ^ ?s" by (simp add: power_add [symmetric])
  have "round_div ((n * 2 ^ (e - ?s)) * 2 ^ ?s) (2 ^ ?s) = n * 2 ^ (e - ?s)" by (rule round_div_exact) simp
  then have "round_div (n * 2 ^ e) (1 * 2 ^ ?s) * 2 ^ ?s = n * 2 ^ e" unfolding split [symmetric] mult_1
    using s by (simp add: power_add [symmetric])
  moreover have "round_bits (n * 2 ^ e) 1 < inf_bits"
    by (rule round_bits_finite) (use s in \<open>auto simp: e_def\<close>)
  ultimately have "dbl_mag (dbl_make False (round_bits (n * 2 ^ e) 1)) = n * 2 ^ e"
    by (subst dbl_mag_round) simp_all
  then show "dbl_mag (dbl_of_int (int n)) = n * 2 ^ 1074" by (simp only: dbl_of_int_def e_def) simp
  show "\<not> dbl_neg (dbl_of_int (int n))"
    unfolding dbl_of_int_def by (subst dbl_make_parts(2) [OF round_bits_le]) simp
qed

text \<open>The quotient of an amount by \<open>10 ^ 8\<close> keeps the amount apart from its neighbours.\<close>

lemma quotient_keeps_amount:
  assumes "n < 10 ^ 8 * 2 ^ 26"
  shows "round_div (dbl_mag (dbl_div (dbl_of_int (int n)) (dbl_of_int 100000000)) * 10 ^ 8) (2 ^ 1074) = n"
proof -
  define e U D :: nat where "e = 1074" and "U = 2 ^ e" and "D = 10 ^ 8"
  define a b s where "a = n * U * U" and "b = D * U" and "s = round_shift a b"
  have pos: "0 < U" "0 < D" "0 < b" "0 < b * 2 ^ s" by (simp_all add: U_def D_def b_def)
  have "n * U div D < 2 ^ 26 * U"
    using assms pos(1,2) unfolding D_def [symmetric] by (simp add: div_less_iff_less_mult ac_simps)
  moreover have "a div b = n * U div D"
    unfolding a_def b_def using pos(1) by (simp add: div_mult_mult2)
  ultimately have "a div b < 2 ^ (26 + e)" by (simp add: U_def power_add)
  then have "bitlen (a div b) \<le> 26 + e" by (rule bitlen_less)
  then have s: "s \<le> e - 27" by (simp add: s_def round_shift_def)
  have "D < 2 ^ 27" by (simp add: D_def)
  then have "D * 2 ^ s < 2 ^ 27 * 2 ^ (e - 27)" using s by (intro mult_less_le_imp_less) simp_all
  also have "\<dots> = U" by (simp add: U_def e_def power_add [symmetric] del: power_Suc)
  finally have small: "b * 2 ^ s < U * U" using pos(1) by (simp add: b_def algebra_simps)
  define m where "m = round_div a (b * 2 ^ s)"
  have err: "2 * a \<le> 2 * (m * (b * 2 ^ s)) + b * 2 ^ s" "2 * (m * (b * 2 ^ s)) \<le> 2 * a + b * 2 ^ s"
    unfolding m_def by (rule round_div_error [OF pos(4)])+
  have near: "round_div (m * 2 ^ s * D) U = n"
  proof (rule round_div_near [OF pos(1)])
    have eq: "2 * (m * 2 ^ s * D) * U = 2 * (m * (b * 2 ^ s))" "(2 * n + 1) * U * U = 2 * a + U * U"
      "2 * n * U * U = 2 * a" "(2 * (m * 2 ^ s * D) + U) * U = 2 * (m * (b * 2 ^ s)) + U * U"
      by (simp_all add: a_def b_def algebra_simps)
    have "2 * (m * 2 ^ s * D) * U < (2 * n + 1) * U * U" unfolding eq using err(2) small by linarith
    then show "2 * (m * 2 ^ s * D) < (2 * n + 1) * U" by (metis mult_less_cancel2)
    have "2 * n * U * U < (2 * (m * 2 ^ s * D) + U) * U" unfolding eq using err(1) small by linarith
    then show "2 * n * U < 2 * (m * 2 ^ s * D) + U" by (metis mult_less_cancel2)
  qed
  have "n < 2 ^ 53" using assms by simp
  then have x: "dbl_mag (dbl_of_int (int n)) = n * U" unfolding U_def e_def by (rule dbl_of_int_exact)
  have y: "dbl_mag (dbl_of_int (int D)) = b"
    unfolding b_def U_def e_def by (rule dbl_of_int_exact) (simp add: D_def)
  have "round_bits a b < inf_bits"
    by (rule round_bits_finite [OF pos(3)]) (use s in \<open>simp add: s_def e_def\<close>)
  from dbl_mag_round [OF pos(3) this]
  have "dbl_mag (dbl_div (dbl_of_int (int n)) (dbl_of_int (int D))) = m * 2 ^ s"
    unfolding dbl_div_def x y e_def [symmetric] U_def [symmetric] a_def [symmetric] m_def s_def .
  with near show ?thesis by (simp only: U_def e_def D_def) simp
qed

end
