(* ===== verification/JsonConv.thy ===== *)
theory JsonConv
  imports Json Doubles CxxString
begin

text \<open>
  The conversions of \<^verbatim>\<open>Json::Value\<close> that the connectors apply to the answers of an RPC server.  A
  conversion of a value of the wrong type throws \<^verbatim>\<open>Json::LogicError\<close>, which the code does not catch
  close by.  How jsoncpp converts a floating-point number to a text or to an integer is left to the
  record \<open>real_conv\<close>; the connectors read such numbers only with \<^verbatim>\<open>asDouble\<close>.
\<close>

record real_conv =
  real_asString :: "64 word \<Rightarrow> string"
  real_asInteger :: "int \<Rightarrow> int \<Rightarrow> 64 word \<Rightarrow> int option"
  real_isInt64 :: "64 word \<Rightarrow> bool"

abbreviation json_fail :: "error + 'a" where
  "json_fail \<equiv> Inl (Throw (StdException ''Json::LogicError''))"

fun isString :: "json \<Rightarrow> bool" where
  "isString (JString s) = True"
| "isString _ = False"

text \<open>Reading a member of a constant value: an object or null, or else an error.\<close>

fun json_at :: "json \<Rightarrow> string \<Rightarrow> error + json" where
  "json_at (JObject m) k = Inr (json_get (JObject m) k)"
| "json_at JNull k = Inr JNull"
| "json_at _ k = json_fail"

fun json_has :: "json \<Rightarrow> string \<Rightarrow> error + bool" where
  "json_has (JObject m) k = Inr (map_of m k \<noteq> None)"
| "json_has JNull k = Inr False"
| "json_has _ k = json_fail"

text \<open>Reading an element by its index; missing ones read as null.\<close>

fun json_nth :: "json \<Rightarrow> nat \<Rightarrow> error + json" where
  "json_nth (JArray xs) i = Inr (if i < length xs then xs ! i else JNull)"
| "json_nth JNull i = Inr JNull"
| "json_nth _ i = json_fail"

text \<open>The values a range-based loop runs over.\<close>

fun json_elems :: "json \<Rightarrow> json list" where
  "json_elems (JArray xs) = xs"
| "json_elems (JObject m) = map snd m"
| "json_elems _ = []"

fun asString :: "real_conv \<Rightarrow> json \<Rightarrow> error + string" where
  "asString R JNull = Inr ''''"
| "asString R (JString s) = Inr s"
| "asString R (JBool b) = Inr (if b then ''true'' else ''false'')"
| "asString R (JInt i) = Inr (show_int i)"
| "asString R (JReal w) = Inr (real_asString R w)"
| "asString R _ = json_fail"

text \<open>\<^verbatim>\<open>asInt\<close>, \<^verbatim>\<open>asInt64\<close> and \<^verbatim>\<open>asUInt64\<close> differ in the range only.\<close>

fun asInteger :: "real_conv \<Rightarrow> int \<Rightarrow> int \<Rightarrow> json \<Rightarrow> error + int" where
  "asInteger R lo hi JNull = Inr 0"
| "asInteger R lo hi (JBool b) = Inr (if b then 1 else 0)"
| "asInteger R lo hi (JInt i) = (if lo \<le> i \<and> i \<le> hi then Inr i else json_fail)"
| "asInteger R lo hi (JReal w) = (case real_asInteger R lo hi w of None \<Rightarrow> json_fail | Some i \<Rightarrow> Inr i)"
| "asInteger R lo hi _ = json_fail"

definition asInt :: "real_conv \<Rightarrow> json \<Rightarrow> error + int" where
  "asInt R j = asInteger R (-2147483648) 2147483647 j"

definition asInt64 :: "real_conv \<Rightarrow> json \<Rightarrow> error + int" where
  "asInt64 R j = asInteger R (- int i64_max - 1) (int i64_max) j"

definition asUInt64 :: "real_conv \<Rightarrow> json \<Rightarrow> error + nat" where
  "asUInt64 R j = bindE (asInteger R 0 (int u64_max) j) (\<lambda>i. Inr (nat i))"

fun isInt64 :: "real_conv \<Rightarrow> json \<Rightarrow> bool" where
  "isInt64 R (JInt i) = (- int i64_max - 1 \<le> i \<and> i \<le> int i64_max)"
| "isInt64 R (JReal w) = real_isInt64 R w"
| "isInt64 R _ = False"

fun asDouble :: "json \<Rightarrow> error + 64 word" where
  "asDouble JNull = Inr 0"
| "asDouble (JBool b) = Inr (dbl_of_int (if b then 1 else 0))"
| "asDouble (JInt i) = Inr (dbl_of_int i)"
| "asDouble (JReal w) = Inr w"
| "asDouble _ = json_fail"

fun asBool :: "json \<Rightarrow> error + bool" where
  "asBool JNull = Inr False"
| "asBool (JBool b) = Inr b"
| "asBool (JInt i) = Inr (i \<noteq> 0)"
| "asBool (JReal w) = Inr (\<not> dbl_nan w \<and> dbl_mag w \<noteq> 0)"
| "asBool _ = json_fail"

text \<open>A member converted at once.\<close>

definition string_at :: "real_conv \<Rightarrow> json \<Rightarrow> string \<Rightarrow> error + string" where
  "string_at R j k = bindE (json_at j k) (asString R)"

lemma string_at_member [simp]: "map_of m k = Some (JString s) \<Longrightarrow> string_at R (JObject m) k = Inr s"
  by (simp add: string_at_def)

lemma asUInt64_int [simp]: "n \<le> u64_max \<Longrightarrow> asUInt64 R (JInt (int n)) = Inr n"
  by (simp add: asUInt64_def)

lemma asInt64_int [simp]: "n \<le> i64_max \<Longrightarrow> asInt64 R (JInt (int n)) = Inr (int n)"
  by (simp add: asInt64_def)

end
