(* ===== verification/RpcUtils.thy ===== *)
theory RpcUtils
  imports CxxString
begin

text \<open>
  \<^verbatim>\<open>src/rpcutils.hpp\<close> and \<^verbatim>\<open>src/rpcutils.cpp\<close>: the headers sent with the requests of an RPC client,
  and their parser.  The loop is compared with the reference that cuts the text at the semicolons
  and reads fields up to the first one without an equals sign.  Of the class \<^verbatim>\<open>RpcClient\<close> the headers
  it collects are modelled; its HTTP connection is library code.
\<close>

type_synonym RpcHeaders = "(string \<times> string) list"

function headers_loop :: "string \<Rightarrow> nat \<Rightarrow> RpcHeaders \<Rightarrow> error + RpcHeaders" where
  "headers_loop str pos res =
     (let keyEnd = str_find str (CHR ''='') pos in
      if keyEnd = npos then bindE (str_from str pos) (\<lambda>_. Inr res)
      else
        let valueEnd = str_find str (CHR '';'') pos in
        if valueEnd < keyEnd then bindE (str_from str pos) (\<lambda>_. Inr res)
        else
          bindE (checkE (valueEnd > keyEnd)) (\<lambda>_.
          bindE (str_substr str pos (keyEnd - pos)) (\<lambda>key.
          bindE (str_substr str (keyEnd + 1) (valueEnd - keyEnd - 1)) (\<lambda>val.
            let res' = smap_emplace key val res in
            if valueEnd = npos then Inr res' else headers_loop str (valueEnd + 1) res'))))"
  by pat_completeness auto
termination
proof (relation "measure (\<lambda>(str, pos, _). length str - pos)")
  fix str res key val res' and pos keyEnd valueEnd :: nat
  assume "valueEnd = str_find str (CHR '';'') pos" "valueEnd \<noteq> npos"
  with str_find_range [of str "CHR '';''" pos]
  show "((str, valueEnd + 1, res'), str, pos, res) \<in> measure (\<lambda>(str, pos, _). length str - pos)"
    by simp linarith
qed simp

declare headers_loop.simps [simp del]

definition ParseRpcHeaders :: "string \<Rightarrow> error + RpcHeaders" where
  "ParseRpcHeaders str = (if str = [] then Inr [] else headers_loop str 0 [])"

text \<open>\<^verbatim>\<open>RpcClient::AddHeaders\<close>: the headers of the HTTP client, in the order they are added.\<close>

definition AddHeaders :: "RpcHeaders \<Rightarrow> (string \<times> string) list \<Rightarrow> (string \<times> string) list" where
  "AddHeaders headers http = fold (\<lambda>h acc. acc @ [h]) headers http"

text \<open>A handler for \<^verbatim>\<open>jsonrpc::JsonRpcException\<close> only.\<close>

definition catchRpc :: "('s, 'a) prog \<Rightarrow> (int \<Rightarrow> string \<Rightarrow> ('s, 'a) prog) \<Rightarrow> ('s, 'a) prog" where
  "catchRpc m h = catchM m (\<lambda>e. case e of JsonRpcException c msg \<Rightarrow> h c msg | _ \<Rightarrow> failM (Throw e))"

subsection \<open>The reference\<close>

definition field_key :: "string \<Rightarrow> string" where
  "field_key f = takeWhile (\<lambda>x. x \<noteq> CHR ''='') f"

definition field_value :: "string \<Rightarrow> string" where
  "field_value f = drop (Suc (length (field_key f))) f"

fun read_fields :: "string list \<Rightarrow> RpcHeaders \<Rightarrow> RpcHeaders" where
  "read_fields [] m = m"
| "read_fields (f # fs) m =
     (if CHR ''='' \<in> set f then read_fields fs (smap_emplace (field_key f) (field_value f) m) else m)"

text \<open>The text of a list of headers.\<close>

definition header_text :: "RpcHeaders \<Rightarrow> string" where
  "header_text hs = join_with (CHR '';'') (map (\<lambda>(k, v). k @ CHR ''='' # v) hs)"

definition header_ok :: "string \<times> string \<Rightarrow> bool" where
  "header_ok h \<longleftrightarrow> CHR ''='' \<notin> set (fst h) \<and> CHR '';'' \<notin> set (fst h) \<and> CHR '';'' \<notin> set (snd h)"

lemma field_parts: "CHR ''='' \<notin> set k \<Longrightarrow> field_key (k @ CHR ''='' # v) = k \<and> field_value (k @ CHR ''='' # v) = v"
proof -
  assume "CHR ''='' \<notin> set k"
  then have "field_key (k @ CHR ''='' # v) = k" unfolding field_key_def by (subst takeWhile_append2) auto
  then show ?thesis by (simp add: field_value_def)
qed

text \<open>The key and the value the loop cuts out of the text are those of the field at the position.\<close>

lemma cut_field:
  assumes "drop pos str = k @ CHR ''='' # r" "pos \<le> length str"
  shows "str_substr str pos (pos + length k - pos) = Inr k"
    "str_substr str (pos + length k + 1) n = Inr (take n r)"
proof -
  have "length str - pos = length k + Suc (length r)" using arg_cong [OF assms(1), of length] by simp
  moreover have "drop (pos + length k + 1) str = r"
    using arg_cong [OF assms(1), of "drop (length k + 1)"] by (simp add: add.commute)
  ultimately show "str_substr str (pos + length k + 1) n = Inr (take n r)"
    using assms(2) by (simp add: str_substr_def)
  show "str_substr str pos (pos + length k - pos) = Inr k" using assms by (simp add: str_substr_def)
qed

text \<open>Where the two searches of one pass end, in terms of the first field.\<close>

lemma find_equals:
  assumes "length str < npos" "pos \<le> length str" "drop pos str = f @ r" "CHR ''='' \<in> set f"
  shows "str_find str (CHR ''='') pos = pos + length (field_key f)" "pos + length (field_key f) < pos + length f"
    "drop pos str = field_key f @ CHR ''='' # field_value f @ r" "pos + length (field_key f) \<noteq> npos"
proof -
  have f: "f = field_key f @ CHR ''='' # field_value f"
    unfolding field_key_def field_value_def by (rule takeWhile_first [OF assms(4)])
  then have lt: "length (field_key f) < length f" by (metis add_Suc_right length_Cons length_append less_add_Suc1)
  then show "pos + length (field_key f) < pos + length f" by simp
  have "takeWhile (\<lambda>x. x \<noteq> CHR ''='') (drop pos str) = field_key f"
    using assms(3,4) by (auto simp: field_key_def intro!: takeWhile_append1)
  moreover have "length f \<le> length str - pos" using arg_cong [OF assms(3), of length] by simp
  ultimately show "str_find str (CHR ''='') pos = pos + length (field_key f)" "pos + length (field_key f) \<noteq> npos"
    using lt assms(1,2) by (auto simp: str_find_def Let_def)
  show "drop pos str = field_key f @ CHR ''='' # field_value f @ r" using f assms(3) by (metis append_Cons append_assoc)
qed

lemma headers_loop_eq:
  "length str < npos \<Longrightarrow> pos \<le> length str \<Longrightarrow>
     headers_loop str pos res = Inr (read_fields (split_on (CHR '';'') (drop pos str)) res)"
proof (induction "length str - pos" arbitrary: pos res rule: less_induct)
  case less
  note len = less.prems
  have tail: "str_from str pos = Inr (drop pos str)" using len by (simp add: str_from_def)
  show ?case
  proof (cases rule: str_find_cases [OF len, where c = "CHR '';''", case_names absent present])
    case absent
    then have sp: "split_on (CHR '';'') (drop pos str) = [drop pos str]" by (simp add: split_on_absent)
    show ?thesis
    proof (cases "CHR ''='' \<in> set (drop pos str)")
      case True
      note fe = find_equals [OF len, of "drop pos str" "[]", simplified, OF True]
      have "length (field_value (drop pos str)) = length str - pos - Suc (length (field_key (drop pos str)))"
        by (simp add: field_value_def)
      with fe(2) len have "length (field_value (drop pos str)) \<le> npos - (pos + length (field_key (drop pos str))) - 1"
        and "\<not> npos < pos + length (field_key (drop pos str))" by linarith+
      with cut_field [OF fe(3) len(2)] fe(1,2,4) absent(2) sp True len show ?thesis
        by (subst headers_loop.simps) (simp add: Let_def)
    next
      case False
      then have "str_find str (CHR ''='') pos = npos"
        by (cases rule: str_find_cases [OF len, where c = "CHR ''=''"]) auto
      with False sp tail show ?thesis by (simp add: headers_loop.simps)
    qed
  next
    case (present f r)
    then have sp: "split_on (CHR '';'') (drop pos str) = f # split_on (CHR '';'') r" by (simp add: split_on_sep)
    show ?thesis
    proof (cases "CHR ''='' \<in> set f")
      case True
      note fe = find_equals [OF len present(1) True]
      have f: "length (field_value f) = length f - length (field_key f) - 1" by (simp add: field_value_def)
      have rest: "drop (Suc (pos + length f)) str = r"
        using arg_cong [OF present(1), of "drop (Suc (length f))"] by (simp add: add.commute)
      have "headers_loop str (pos + length f + 1) m = Inr (read_fields (split_on (CHR '';'') r) m)" for m
        using less.hyps [of "pos + length f + 1" m] present(4) len(1) rest by simp
      with cut_field [OF fe(3) len(2)] fe(1,2,4) present(3,5) sp True f show ?thesis
        by (subst headers_loop.simps) (simp add: Let_def)
    next
      case False
      have "pos + length f < str_find str (CHR ''='') pos"
      proof (cases rule: str_find_cases [OF len, where c = "CHR ''=''", case_names none some])
        case none
        then show ?thesis using present(4) len(1) by simp
      next
        case (some f' r')
        have at: "drop pos str ! length f' = CHR ''=''" "drop pos str ! length f = CHR '';''"
          by (simp add: some(1), simp add: present(1))
        have "i < length f \<Longrightarrow> drop pos str ! i \<noteq> CHR ''=''" for i
          using False by (auto simp: present(1) nth_append in_set_conv_nth)
        with at(1) have "\<not> length f' < length f" by blast
        moreover have "length f' \<noteq> length f" using at by auto
        ultimately show ?thesis using some(3) by simp
      qed
      with False sp tail present(3) show ?thesis by (subst headers_loop.simps) (simp add: Let_def)
    qed
  qed
qed

lemma ParseRpcHeaders_fields:
  "length str < npos \<Longrightarrow> ParseRpcHeaders str = Inr (read_fields (split_on (CHR '';'') str) [])"
  using headers_loop_eq [of str 0 "[]"] by (simp add: ParseRpcHeaders_def)

lemma read_fields_ok: "smap_ok m \<Longrightarrow> smap_ok (read_fields fs m)"
  by (induction fs m rule: read_fields.induct) (auto simp: smap_ok_emplace)

lemma read_fields_headers:
  "smap_ok (m @ hs) \<Longrightarrow> \<forall>h\<in>set hs. header_ok h \<Longrightarrow>
     read_fields (map (\<lambda>(k, v). k @ CHR ''='' # v) hs) m = m @ hs"
proof (induction hs arbitrary: m)
  case (Cons h hs)
  obtain k v where h: "h = (k, v)" by (cases h)
  have ok: "smap_ok ((m @ [(k, v)]) @ hs)" using Cons.prems h by simp
  then have "smap_emplace k v m = m @ [(k, v)]" by (rule smap_emplace_mid)
  with Cons.IH [OF ok] Cons.prems h show ?case by (simp add: header_ok_def field_parts)
qed simp

lemma split_header_text:
  "hs \<noteq> [] \<Longrightarrow> \<forall>h\<in>set hs. header_ok h \<Longrightarrow> split_on (CHR '';'') (header_text hs) = map (\<lambda>(k, v). k @ CHR ''='' # v) hs"
  unfolding header_text_def by (rule split_on_join) (auto simp: header_ok_def)

lemma AddHeaders_eq: "AddHeaders headers http = http @ headers"
  unfolding AddHeaders_def by (induction headers arbitrary: http) auto

end
