(* ===== verification/EthLib.thy ===== *)
theory EthLib
  imports BaseChain JsonConv RpcUtils
begin

text \<open>
  The parts the Ethereum connector shares: \<^verbatim>\<open>eth/hexutils.cpp\<close>, the move data of a log entry
  (\<^verbatim>\<open>GetMoveDataFromLogs\<close> of \<^verbatim>\<open>eth/ethchain.cpp\<close>), and what it uses of other packages.  The library
  eth-utils (the ABI decoder with its state \<open>'d\<close>, addresses, Keccak and ECDSA) and the constants that
  the build generates from the contracts are the record \<open>eth_lib\<close>.  What the code uses of
  websocketpp is the record \<open>ws_lib\<close>: for which addresses a connection can be set up, in which states of a
  connection a message is sent, a handle is valid and closing begins.  The stub generated from
  \<^verbatim>\<open>rpc-stubs/eth.json\<close> is the record \<open>EthRpcClient\<close>; a batch call takes a list of calls and answers with
  the error code and the result for each position, which stands for the ID of the call.
\<close>

datatype con_state = Connecting | Opened | Closing | Ended

record ws_lib =
  wl_connect :: "string \<Rightarrow> bool"
  wl_sends :: "con_state \<Rightarrow> bool"
  wl_valid :: "con_state \<Rightarrow> bool"
  wl_close :: "con_state \<Rightarrow> con_state option"

text \<open>The documented behaviour: a message is only sent on an open connection, otherwise an error code is
  returned; a connection can only be closed while it is open, otherwise there is an exception; and the
  handle of a connection that has ended is not valid any more.\<close>

definition ws_documented :: "ws_lib \<Rightarrow> bool" where
  "ws_documented W \<longleftrightarrow>
     (\<forall>st. (wl_sends W st \<longleftrightarrow> st = Opened) \<and> (wl_valid W st \<longleftrightarrow> st \<noteq> Ended) \<and>
        wl_close W st = (if st = Opened then Some Closing else None))"

text \<open>The connection to an endpoint can be set up.\<close>

definition ws_connects :: "ws_lib \<Rightarrow> string \<Rightarrow> bool" where
  "ws_connects W url \<longleftrightarrow> ws_documented W \<and> wl_connect W url"

record 'd eth_lib =
  el_json :: real_conv
  el_Hexlify :: "string \<Rightarrow> string"
  el_Unhexlify :: "string \<Rightarrow> string option"
  el_Keccak256 :: "string \<Rightarrow> string"
  el_ParseInt :: "string \<Rightarrow> error + int"
  el_AbiDecoder :: "string \<Rightarrow> error + 'd"
  el_ReadString :: "('d, string) prog"
  el_ReadUint :: "nat \<Rightarrow> ('d, string) prog"
  el_ReadArray :: "('d, nat \<times> 'd) prog"
  el_ReadDynamic :: "('d, 'd) prog"
  el_GetAllDataRead :: "'d \<Rightarrow> string"
  el_EncodeWord :: "string \<Rightarrow> string"
  el_EncodeWordBytes :: "string \<Rightarrow> string \<Rightarrow> string"
  el_ConcatHex :: "string \<Rightarrow> string \<Rightarrow> string"
  el_Address :: "string \<Rightarrow> string option"
  el_GetLowerCase :: "string \<Rightarrow> string"
  el_GetChecksummed :: "string \<Rightarrow> string"
  el_VerifyMessage :: "string \<Rightarrow> string \<Rightarrow> string option"
  el_websocketpp :: ws_lib
  el_sort :: "(json \<Rightarrow> json \<Rightarrow> bool) \<Rightarrow> json list \<Rightarrow> json list"
  MOVE_EVENT :: string
  ACCOUNT_WCHI_FCN :: string
  FORWARDER_EXECUTE_FCN :: string
  CALL_FORWARDER_CODE :: string
  TRACKING_ACCOUNTS_CODE :: string

type_synonym batch_call = "string \<times> json"
type_synonym batch_response = "nat \<Rightarrow> int \<times> json"

record 'r EthRpcClient =
  rpc_eth_chainId :: "('r, string) prog"
  rpc_web3_clientVersion :: "('r, string) prog"
  rpc_eth_blockNumber :: "('r, string) prog"
  rpc_eth_getBlockByHash :: "string \<Rightarrow> bool \<Rightarrow> ('r, json) prog"
  rpc_eth_getBlockByNumber :: "string \<Rightarrow> bool \<Rightarrow> ('r, json) prog"
  rpc_eth_getLogs :: "json \<Rightarrow> ('r, json) prog"
  rpc_eth_getTransactionByHash :: "string \<Rightarrow> ('r, json) prog"
  rpc_eth_call :: "json \<Rightarrow> string \<Rightarrow> json \<Rightarrow> ('r, string) prog"
  rpc_CallProcedures :: "batch_call list \<Rightarrow> ('r, batch_response) prog"

definition ConvertUint256 :: "string \<Rightarrow> error + string" where
  "ConvertUint256 withPrefix =
     bindE (str_substr withPrefix 0 2) (\<lambda>p.
     bindE (checkE (p = ''0x'')) (\<lambda>_. str_from withPrefix 2))"

text \<open>A negative number is written as the unsigned value of its type.\<close>

definition EncodeHexInt :: "int \<Rightarrow> string" where
  "EncodeHexInt val = ''0x'' @ show_hex (u64_of_int val)"

subsection \<open>Moves\<close>

definition DECIMALS :: nat where "DECIMALS = 8"

definition chi_amount :: "int \<Rightarrow> 64 word" where
  "chi_amount amount = dbl_div (dbl_of_int amount) (dbl_of_int (10 ^ DECIMALS))"

definition GetMoveDataFromLogs :: "'d eth_lib \<Rightarrow> ('d, MoveData) prog" where
  "GetMoveDataFromLogs E =
     bindM (el_ReadString E) (\<lambda>ns.
     bindM (el_ReadString E) (\<lambda>name.
     bindM (el_ReadString E) (\<lambda>mv.
     thenM (el_ReadUint E 256)
    (thenM (el_ReadUint E 160)
    (bindM (bindM (el_ReadUint E 256) (\<lambda>a. liftE (el_ParseInt E a))) (\<lambda>amount.
     bindM (el_ReadUint E 160) (\<lambda>receiver.
     bindM (case el_Address E receiver of None \<Rightarrow> failM Abort | Some a \<Rightarrow> ret a) (\<lambda>receiver.
     thenM (CHECK (amount \<ge> 0))
    (bindM (getM (el_GetAllDataRead E)) (\<lambda>dataHex.
     thenM (CHECK (take 2 dataHex = ''0x''))
    (bindM (case el_Unhexlify E (drop 2 dataHex) of None \<Rightarrow> failM Abort | Some d \<Rightarrow> ret d) (\<lambda>dataBin.
     let out = (if amount > 0 then json_set (el_GetChecksummed E receiver) (JReal (chi_amount amount)) (JObject [])
                else JObject []) in
     ret \<lparr>mv_txid = '''', mv_ns = ns, mv_name = name, mv_mv = mv, mv_burns = [],
          mv_metadata = json_set ''mvid'' (JString (el_Hexlify E (el_Keccak256 E dataBin)))
                          (json_set ''out'' out (JObject []))\<rparr>))))))))))))"

text \<open>Running a decoder that is a local variable.\<close>

definition run_dec :: "('d, 'a) prog \<Rightarrow> 'd \<Rightarrow> error + 'a" where
  "run_dec m d = fst (m d)"

subsection \<open>Lemmas\<close>

lemma ConvertUint256_Inr: "ConvertUint256 s = Inr h \<longleftrightarrow> s = ''0x'' @ h"
proof -
  have "s = CHR ''0'' # CHR ''x'' # drop 2 s" if "take 2 s = ''0x''"
    using append_take_drop_id [of 2 s] that by simp
  then show ?thesis
    by (auto simp: ConvertUint256_def str_substr_def str_from_def bindE_eq_Inr checkE_eq_Inr)
qed

end
