(* ===== verification/EthPending.thy ===== *)
theory EthPending
  imports EthLib
begin

text \<open>
  \<^verbatim>\<open>eth/pending.hpp\<close> and \<^verbatim>\<open>eth/pending.cpp\<close>: the extraction of moves from a pending transaction, and
  the local mempool.  A \<^verbatim>\<open>std::set\<close> of strings is its sorted list.  \<^verbatim>\<open>PendingMempool::GetContent\<close>
  releases its lock during the batch call, so its two locked sections are separate definitions and
  the pool may have changed in between.  The order of entries that compare equal is not specified for
  \<^verbatim>\<open>std::sort\<close>; it is the field \<open>el_sort\<close> of the library record.
\<close>

subsection \<open>PendingDataExtractor\<close>

record PendingDataExtractor =
  pe_accountsContract :: string
  pe_fwdCode :: string
  pe_accountsOverlayCode :: string
  pe_watchedContracts :: "string list"

abbreviation dummy_address :: string where
  "dummy_address \<equiv> ''0x4242424242424242424242424242424242424242''"

definition FakeDeploy :: "'d eth_lib \<Rightarrow> 'r EthRpcClient \<Rightarrow> string \<Rightarrow> string \<Rightarrow> ('r, string) prog" where
  "FakeDeploy E rpc code args =
     (let tx = json_set ''to'' (JString dummy_address) (JObject []);
          state = json_set ''code'' (JString (el_ConcatHex E code args)) (JObject []);
          overlay = json_set dummy_address state (JObject []) in
      rpc_eth_call rpc tx ''latest'' overlay)"

definition PendingDataExtractor_new ::
  "'d eth_lib \<Rightarrow> 'r EthRpcClient \<Rightarrow> string \<Rightarrow> ('r, PendingDataExtractor) prog" where
  "PendingDataExtractor_new E rpc acc =
     bindM (case el_Address E acc of None \<Rightarrow> failM Abort | Some a \<Rightarrow> ret (el_GetChecksummed E a)) (\<lambda>accountsContract.
     bindM (FakeDeploy E rpc (CALL_FORWARDER_CODE E) (el_EncodeWord E accountsContract)) (\<lambda>fwdCode.
     let wchiCall = json_set ''data'' (JString (ACCOUNT_WCHI_FCN E))
                      (json_set ''to'' (JString accountsContract) (JObject [])) in
     bindM (rpc_eth_call rpc wchiCall ''latest'' (JObject [])) (\<lambda>res.
     bindM (liftE (bindE (el_AbiDecoder E res) (run_dec (el_ReadUint E 160)))) (\<lambda>wchi.
     bindM (case el_Address E wchi of None \<Rightarrow> failM Abort | Some a \<Rightarrow> ret a) (\<lambda>wchiAddr.
     bindM (FakeDeploy E rpc (TRACKING_ACCOUNTS_CODE E) (el_EncodeWord E (el_GetChecksummed E wchiAddr))) (\<lambda>code.
     ret \<lparr>pe_accountsContract = accountsContract, pe_fwdCode = fwdCode, pe_accountsOverlayCode = code,
          pe_watchedContracts = []\<rparr>))))))"

definition Extractor_AddWatchedContract :: "'d eth_lib \<Rightarrow> string \<Rightarrow> (PendingDataExtractor, unit) prog" where
  "Extractor_AddWatchedContract E addr =
     bindM (case el_Address E addr of None \<Rightarrow> failM Abort | Some a \<Rightarrow> ret a) (\<lambda>parsed.
     modifyM (\<lambda>p. p\<lparr>pe_watchedContracts := insort_insert (el_GetChecksummed E parsed) (pe_watchedContracts p)\<rparr>))"

text \<open>The loop runs \<open>len\<close> times with an \<^verbatim>\<open>unsigned\<close> counter: for a length above its range it does not
  end, which the decoder of the array excludes for any data that fits into memory.\<close>

fun decode_loop :: "'d eth_lib \<Rightarrow> string \<Rightarrow> nat \<Rightarrow> ('d, MoveData list) prog" where
  "decode_loop E txid 0 = ret []"
| "decode_loop E txid (Suc n) =
     bindM (el_ReadDynamic E) (\<lambda>dec.
     bindM (liftE (run_dec (GetMoveDataFromLogs E) dec)) (\<lambda>cur.
     bindM (liftE (ConvertUint256 txid)) (\<lambda>id.
     bindM (decode_loop E txid n) (\<lambda>res. ret (cur\<lparr>mv_txid := id\<rparr> # res)))))"

definition DecodeMoveLogs :: "'d eth_lib \<Rightarrow> string \<Rightarrow> string \<Rightarrow> error + MoveData list" where
  "DecodeMoveLogs E txid hexStr =
     bindE (el_AbiDecoder E hexStr) (\<lambda>mainDecoder.
     bindE (run_dec (el_ReadArray E) mainDecoder) (\<lambda>(len, arr).
     if len > u32_max then Inl Diverges else run_dec (decode_loop E txid len) arr))"

definition GetMoves ::
  "'d eth_lib \<Rightarrow> 'r EthRpcClient \<Rightarrow> PendingDataExtractor \<Rightarrow> string \<Rightarrow> ('r, MoveData list) prog" where
  "GetMoves E rpc p txid =
     bindM (rpc_eth_getTransactionByHash rpc txid) (\<lambda>data.
     thenM (CHECK (isObject data))
       (if \<not> isNull (json_get data ''blockHash'') \<or> isNull (json_get data ''to'') then ret []
        else
          bindM (liftE (string_at (el_json E) data ''from'')) (\<lambda>fromStr.
          bindM (liftE (string_at (el_json E) data ''to'')) (\<lambda>toStr.
          case (el_Address E fromStr, el_Address E toStr) of
            (Some sender, Some target) \<Rightarrow>
              bindM (liftE (string_at (el_json E) data ''input'')) (\<lambda>callData.
                if el_GetChecksummed E target \<notin> set (pe_watchedContracts p) then ret []
                else
                  let execArgs = el_EncodeWordBytes E (el_GetChecksummed E target) callData;
                      tx = json_set ''data'' (JString (el_ConcatHex E (FORWARDER_EXECUTE_FCN E) execArgs))
                             (json_set ''value'' (json_get data ''value'')
                               (json_set ''from'' (JString (el_GetChecksummed E sender))
                                 (json_set ''to'' (JString (el_GetChecksummed E sender)) (JObject []))));
                      overlay = json_set (pe_accountsContract p) (json_set ''code'' (JString (pe_accountsOverlayCode p)) (JObject []))
                                  (json_set (el_GetChecksummed E sender) (json_set ''code'' (JString (pe_fwdCode p)) (JObject [])) (JObject [])) in
                  catchRpc (bindM (rpc_eth_call rpc tx ''latest'' overlay) (\<lambda>res. liftE (DecodeMoveLogs E txid res)))
                    (\<lambda>_ _. ret []))
          | _ \<Rightarrow> failM Abort))))"

subsection \<open>PendingMempool\<close>

definition Mempool_Add :: "string \<Rightarrow> (string list, unit) prog" where
  "Mempool_Add txid = modifyM (\<lambda>pool. insort_insert txid pool)"

definition IsEarlierForMempool :: "'d eth_lib \<Rightarrow> json \<Rightarrow> json \<Rightarrow> error + bool" where
  "IsEarlierForMempool E a b =
     bindE (checkE (isObject a)) (\<lambda>_.
     bindE (checkE (isObject b)) (\<lambda>_.
     bindE (string_at (el_json E) a ''from'') (\<lambda>strA.
     bindE (string_at (el_json E) b ''from'') (\<lambda>strB.
     case (el_Address E strA, el_Address E strB) of
       (Some fromA, Some fromB) \<Rightarrow>
         if fromA \<noteq> fromB then Inr (el_GetLowerCase E fromA < el_GetLowerCase E fromB)
         else
           bindE (bindE (string_at (el_json E) a ''nonce'') (el_ParseInt E)) (\<lambda>nonceA.
           bindE (bindE (string_at (el_json E) b ''nonce'') (el_ParseInt E)) (\<lambda>nonceB.
           Inr (nonceA < nonceB)))
     | _ \<Rightarrow> Inl Abort))))"

text \<open>Sorting with a comparison that can fail: two neighbours in the result were compared, so a pair
  that cannot be compared ends the sort with an error.\<close>

fun compare_all :: "(json \<Rightarrow> json \<Rightarrow> error + bool) \<Rightarrow> json list \<Rightarrow> error + unit" where
  "compare_all f [] = Inr ()"
| "compare_all f (x # xs) =
     bindE (mapE (f x) xs) (\<lambda>_. bindE (mapE (\<lambda>y. f y x) xs) (\<lambda>_. compare_all f xs))"

definition earlier :: "'d eth_lib \<Rightarrow> json \<Rightarrow> json \<Rightarrow> bool" where
  "earlier E a b = (case IsEarlierForMempool E a b of Inl e \<Rightarrow> False | Inr r \<Rightarrow> r)"

definition sort_transactions :: "'d eth_lib \<Rightarrow> json list \<Rightarrow> error + json list" where
  "sort_transactions E txs =
     bindE (compare_all (IsEarlierForMempool E) txs) (\<lambda>_. Inr (el_sort E (earlier E) txs))"

definition mempool_request :: "string list \<Rightarrow> batch_call list" where
  "mempool_request pool =
     map (\<lambda>txid. (''eth_getTransactionByHash'', JArray [JString (''0x'' @ txid)])) pool"

text \<open>The second locked section, over the transactions with their answers.\<close>

fun mempool_update :: "'d eth_lib \<Rightarrow> (string \<times> int \<times> json) list \<Rightarrow> (string list, json list) prog" where
  "mempool_update E [] = ret []"
| "mempool_update E ((txid, err, txJson) # es) =
     thenM (CHECK (err = 0))
       (if isNull txJson then thenM (modifyM (filter (\<lambda>t. t \<noteq> txid))) (mempool_update E es)
        else
          thenM (CHECK (isObject txJson))
         (bindM (liftE (string_at (el_json E) txJson ''hash'')) (\<lambda>h.
          thenM (CHECK (h = ''0x'' @ txid))
            (if isNull (json_get txJson ''blockHash'')
             then bindM (mempool_update E es) (\<lambda>txs. ret (txJson # txs))
             else thenM (modifyM (filter (\<lambda>t. t \<noteq> txid))) (mempool_update E es)))))"

definition mempool_result :: "'d eth_lib \<Rightarrow> json list \<Rightarrow> error + string list" where
  "mempool_result E txs =
     bindE (sort_transactions E txs) (\<lambda>txs.
     mapE (\<lambda>tx. bindE (string_at (el_json E) tx ''hash'') ConvertUint256) txs)"

definition Mempool_GetContent :: "'d eth_lib \<Rightarrow> 'r EthRpcClient \<Rightarrow> ('r \<times> string list, string list) prog" where
  "Mempool_GetContent E rpc =
     bindM (getM snd) (\<lambda>pool.
       if pool = [] then ret []
       else
         bindM (zoomM fst (\<lambda>r (_, p). (r, p)) (rpc_CallProcedures rpc (mempool_request pool))) (\<lambda>resp.
         bindM (zoomM snd (\<lambda>p (r, _). (r, p)) (mempool_update E (map (\<lambda>(i, txid). (txid, resp i)) (enumerate 0 pool)))) (\<lambda>txs.
         liftE (mempool_result E txs))))"

end
