(* ===== verification/WebSocket.thy ===== *)
theory WebSocket
  imports EthLib
begin

text \<open>
  \<^verbatim>\<open>eth/websocket.hpp\<close> and \<^verbatim>\<open>eth/websocket.cpp\<close>: the subscriber for new heads and pending
  transactions.  The connection keeps the IDs of the two subscriptions; the requests it has sent are
  listed in order.  The network loop of websocketpp is the sequence of the events it handles: the
  connection is opened, a message arrives, an interrupt is handled, the connection ends.  What websocketpp
  does with a request in a state of the connection is the parameter \<open>ws_lib\<close>, and the reader of jsoncpp is
  one too.
\<close>

record 'w ws_callbacks =
  ws_NewTip :: "string \<Rightarrow> ('w, unit) prog"
  ws_NewPendingTx :: "string \<Rightarrow> ('w, unit) prog"

record Connection =
  cn_subNewHeads :: string
  cn_subPendingTx :: string
  cn_sent :: "json list"
  cn_state :: con_state
  cn_shouldStop :: bool
  cn_worker :: bool

definition Connection_fresh :: Connection where
  "Connection_fresh =
     \<lparr>cn_subNewHeads = [], cn_subPendingTx = [], cn_sent = [], cn_state = Connecting,
      cn_shouldStop = False, cn_worker = True\<rparr>"

text \<open>The constructor ends the process when the connection cannot be set up.\<close>

definition Connection_new :: "ws_lib \<Rightarrow> string \<Rightarrow> ('s, Connection) prog" where
  "Connection_new W url = thenM (CHECK (wl_connect W url)) (ret Connection_fresh)"

definition ws_exception :: error where
  "ws_exception = Throw (StdException ''websocketpp::exception'')"

definition get_con_from_hdl :: "ws_lib \<Rightarrow> (Connection, unit) prog" where
  "get_con_from_hdl W = bindM (getM cn_state) (\<lambda>st. if wl_valid W st then ret () else failM ws_exception)"

text \<open>The error code of a message that is not sent is ignored.\<close>

definition con_send :: "ws_lib \<Rightarrow> json \<Rightarrow> (Connection, unit) prog" where
  "con_send W req =
     modifyM (\<lambda>c. if wl_sends W (cn_state c) then c\<lparr>cn_sent := cn_sent c @ [req]\<rparr> else c)"

definition con_close :: "ws_lib \<Rightarrow> (Connection, unit) prog" where
  "con_close W =
     bindM (getM cn_state) (\<lambda>st.
       case wl_close W st of None \<Rightarrow> failM ws_exception | Some st' \<Rightarrow> modifyM (\<lambda>c. c\<lparr>cn_state := st'\<rparr>))"

definition ID_NEW_HEADS :: int where "ID_NEW_HEADS = 1"
definition ID_PENDING_TX :: int where "ID_PENDING_TX = 2"

definition SendSubscribe :: "ws_lib \<Rightarrow> int \<Rightarrow> string \<Rightarrow> (Connection, unit) prog" where
  "SendSubscribe W callId type =
     (let req = json_set ''params'' (JArray [JString type])
                  (json_set ''method'' (JString ''eth_subscribe'')
                    (json_set ''id'' (JInt callId) (json_set ''jsonrpc'' (JString ''2.0'') (JObject [])))) in
      con_send W req)"

text \<open>The handlers for an opened connection and for an interrupt.\<close>

definition Connection_open :: "ws_lib \<Rightarrow> (Connection, unit) prog" where
  "Connection_open W = thenM (get_con_from_hdl W) (SendSubscribe W ID_NEW_HEADS ''newHeads'')"

definition Connection_interrupt :: "ws_lib \<Rightarrow> (Connection, unit) prog" where
  "Connection_interrupt W =
     bindM (getM cn_shouldStop) (\<lambda>stop. if stop then thenM (get_con_from_hdl W) (con_close W) else ret ())"

definition Connection_EnablePending :: "ws_lib \<Rightarrow> (Connection, unit) prog" where
  "Connection_EnablePending W =
     thenM (get_con_from_hdl W) (SendSubscribe W ID_PENDING_TX ''newPendingTransactions'')"

text \<open>The answer to a subscription.\<close>

definition handle_result :: "real_conv \<Rightarrow> json \<Rightarrow> (Connection, unit) prog" where
  "handle_result R data =
     bindM (liftE (json_has data ''result'')) (\<lambda>has.
       if \<not> has then ret ()
       else
         bindM (liftE (bindE (json_at data ''id'') (asInt R))) (\<lambda>id.
           if id = ID_NEW_HEADS then
             bindM (liftE (string_at R data ''result'')) (\<lambda>s. modifyM (\<lambda>c. c\<lparr>cn_subNewHeads := s\<rparr>))
           else if id = ID_PENDING_TX then
             bindM (liftE (string_at R data ''result'')) (\<lambda>s. modifyM (\<lambda>c. c\<lparr>cn_subPendingTx := s\<rparr>))
           else failM Abort))"

text \<open>A notification, with the subscriptions of the connection.\<close>

definition handle_notification :: "real_conv \<Rightarrow> 'w ws_callbacks \<Rightarrow> json \<Rightarrow> Connection \<Rightarrow> ('w, unit) prog" where
  "handle_notification R cb data c =
     bindM (liftE (json_has data ''method'')) (\<lambda>has.
       if \<not> has then ret ()
       else
         bindM (liftE (string_at R data ''method'')) (\<lambda>method.
           if method \<noteq> ''eth_subscription'' then ret ()
           else
             let params = json_get data ''params'' in
             thenM (CHECK (isObject params))
            (bindM (liftE (string_at R params ''subscription'')) (\<lambda>sub.
             let result = json_get params ''result'' in
               if sub = cn_subNewHeads c then
                 thenM (CHECK (isObject result))
                   (bindM (liftE (string_at R result ''hash'')) (\<lambda>h. ws_NewTip cb h))
               else if sub = cn_subPendingTx c then
                 thenM (CHECK (isString result))
                   (bindM (liftE (asString R result)) (\<lambda>t. ws_NewPendingTx cb t))
               else ret ()))))"

definition on_con :: "(Connection, 'a) prog \<Rightarrow> (Connection \<times> 'w, 'a) prog" where
  "on_con m = zoomM fst (\<lambda>c (_, w). (c, w)) m"

definition HandleMessage ::
  "(string \<Rightarrow> json option) \<Rightarrow> real_conv \<Rightarrow> 'w ws_callbacks \<Rightarrow> string \<Rightarrow> (Connection \<times> 'w, unit) prog" where
  "HandleMessage rd R cb payload =
     bindM (case rd payload of None \<Rightarrow> failM (Throw (StdException ''Json::RuntimeError'')) | Some data \<Rightarrow> ret data) (\<lambda>data.
     thenM (on_con (handle_result R data))
    (bindM (getM fst) (\<lambda>c.
     zoomM snd (\<lambda>w (c, _). (c, w)) (handle_notification R cb data c))))"

text \<open>The network loop, which ends with the connection.  \<open>WsError\<close> is an exception of websocketpp itself.\<close>

datatype ws_event = WsOpen | WsMessage string | WsInterrupt | WsEnd | WsError

fun ws_handle ::
  "ws_lib \<Rightarrow> (string \<Rightarrow> json option) \<Rightarrow> real_conv \<Rightarrow> 'w ws_callbacks \<Rightarrow> ws_event \<Rightarrow> (Connection \<times> 'w, unit) prog" where
  "ws_handle W rd R cb WsOpen =
     on_con (thenM (modifyM (\<lambda>c. c\<lparr>cn_state := Opened\<rparr>)) (Connection_open W))"
| "ws_handle W rd R cb (WsMessage payload) = HandleMessage rd R cb payload"
| "ws_handle W rd R cb WsInterrupt = on_con (Connection_interrupt W)"
| "ws_handle W rd R cb WsEnd = on_con (modifyM (\<lambda>c. c\<lparr>cn_state := Ended\<rparr>))"
| "ws_handle W rd R cb WsError = failM ws_exception"

fun endpoint_run ::
  "ws_lib \<Rightarrow> (string \<Rightarrow> json option) \<Rightarrow> real_conv \<Rightarrow> 'w ws_callbacks \<Rightarrow> ws_event list \<Rightarrow> (Connection \<times> 'w, unit) prog" where
  "endpoint_run W rd R cb [] = ret ()"
| "endpoint_run W rd R cb (e # es) =
     thenM (ws_handle W rd R cb e)
       (bindM (getM (\<lambda>(c, w). cn_state c)) (\<lambda>st. if st = Ended then ret () else endpoint_run W rd R cb es))"

text \<open>The function of the worker: an exception of websocketpp is fatal, and so is any other one, which
  leaves the function of the thread.\<close>

definition Connection_work ::
  "ws_lib \<Rightarrow> (string \<Rightarrow> json option) \<Rightarrow> real_conv \<Rightarrow> 'w ws_callbacks \<Rightarrow> ws_event list \<Rightarrow> (Connection \<times> 'w, unit) prog" where
  "Connection_work W rd R cb es = catchM (endpoint_run W rd R cb es) (\<lambda>_. failM Abort)"

text \<open>The destructor asks the worker to stop and waits for it.  \<open>es\<close> are the events that the worker still
  handles; without the end of the connection among them, the wait does not end.  An exception ends the
  process, as it leaves a destructor.\<close>

definition Connection_join ::
  "ws_lib \<Rightarrow> (string \<Rightarrow> json option) \<Rightarrow> real_conv \<Rightarrow> 'w ws_callbacks \<Rightarrow> ws_event list \<Rightarrow> (Connection \<times> 'w, unit) prog" where
  "Connection_join W rd R cb es =
     bindM (getM (\<lambda>(c, w). cn_state c)) (\<lambda>st.
       if st = Ended then ret ()
       else
         thenM (Connection_work W rd R cb es)
           (bindM (getM (\<lambda>(c, w). cn_state c)) (\<lambda>st. if st = Ended then ret () else failM Diverges)))"

definition Connection_destroy ::
  "ws_lib \<Rightarrow> (string \<Rightarrow> json option) \<Rightarrow> real_conv \<Rightarrow> 'w ws_callbacks \<Rightarrow> ws_event list \<Rightarrow> (Connection \<times> 'w, unit) prog" where
  "Connection_destroy W rd R cb es =
     bindM (getM (\<lambda>(c, w). cn_worker c)) (\<lambda>worker.
       if \<not> worker then ret ()
       else
         thenM (on_con (modifyM (\<lambda>c. c\<lparr>cn_shouldStop := True\<rparr>)))
        (thenM (catchM (on_con (get_con_from_hdl W)) (\<lambda>_. failM Abort))
        (thenM (Connection_join W rd R cb es)
           (on_con (modifyM (\<lambda>c. c\<lparr>cn_worker := False\<rparr>))))))"

text \<open>\<^verbatim>\<open>WebSocketSubscriber\<close>: the pointer to the connection.\<close>

record WebSocketSubscriber =
  ws_endpoint :: string
  ws_connection :: "Connection option"

definition WebSocketSubscriber_new :: "string \<Rightarrow> WebSocketSubscriber" where
  "WebSocketSubscriber_new ep = \<lparr>ws_endpoint = ep, ws_connection = None\<rparr>"

definition WebSocket_Start :: "ws_lib \<Rightarrow> (WebSocketSubscriber, unit) prog" where
  "WebSocket_Start W =
     bindM (getM ws_endpoint) (\<lambda>ep.
     bindM (Connection_new W ep) (\<lambda>con.
     modifyM (\<lambda>s. s\<lparr>ws_connection := Some con\<rparr>)))"

definition WebSocket_EnablePending :: "ws_lib \<Rightarrow> (WebSocketSubscriber, unit) prog" where
  "WebSocket_EnablePending W =
     bindM (getM ws_connection) (\<lambda>con.
       case con of
         None \<Rightarrow> failM Abort
       | Some c \<Rightarrow>
           let (r, c') = Connection_EnablePending W c in
           thenM (modifyM (\<lambda>s. s\<lparr>ws_connection := Some c'\<rparr>)) (liftE r))"

text \<open>Stopping destroys the connection, if there is one; so does the destructor.\<close>

definition WebSocket_Stop ::
  "ws_lib \<Rightarrow> (string \<Rightarrow> json option) \<Rightarrow> real_conv \<Rightarrow> 'w ws_callbacks \<Rightarrow> ws_event list \<Rightarrow> (WebSocketSubscriber \<times> 'w, unit) prog" where
  "WebSocket_Stop W rd R cb es =
     bindM (getM (\<lambda>(s, w). ws_connection s)) (\<lambda>con.
       case con of
         None \<Rightarrow> ret ()
       | Some c \<Rightarrow>
           (\<lambda>(s, w). case Connection_destroy W rd R cb es (c, w) of
              (r, (c', w')) \<Rightarrow> (r, (s\<lparr>ws_connection := None\<rparr>, w'))))"

definition WebSocketSubscriber_destroy ::
  "ws_lib \<Rightarrow> (string \<Rightarrow> json option) \<Rightarrow> real_conv \<Rightarrow> 'w ws_callbacks \<Rightarrow> ws_event list \<Rightarrow> (WebSocketSubscriber \<times> 'w, unit) prog" where
  "WebSocketSubscriber_destroy W rd R cb es = WebSocket_Stop W rd R cb es"

end
