(* ===== verification/EthChain.thy ===== *)
theory EthChain
  imports EthPending WebSocket
begin

text \<open>
  \<^verbatim>\<open>eth/ethchain.hpp\<close> and \<^verbatim>\<open>eth/ethchain.cpp\<close>: the connector to an Ethereum-like node.  The state holds
  the node behind the RPC interface and the fields of the class.  \<^verbatim>\<open>TryBlockRange\<close> asks for the blocks
  of a range in one batch and rejects an answer that does not form a chain; \<^verbatim>\<open>GetBlockRange\<close> repeats it
  until it succeeds, with a bound on the number of attempts here.  The flag
  \<^verbatim>\<open>--ethchain_fast_logs_depth\<close> is an argument.
\<close>

definition CHAIN_IDS :: "(int \<times> string) list" where
  "CHAIN_IDS = [(137, ''polygon''), (1337, ''ganache''), (31337, ''ganache''), (80001, ''mumbai'')]"

record 'r EthChain =
  ec_node :: 'r
  ec_headers :: RpcHeaders
  ec_accountsContract :: string
  ec_chainId :: int
  ec_pending :: "PendingDataExtractor option"
  ec_mempool :: "string list"
  ec_sub :: "WebSocketSubscriber option"

definition ec_rpc :: "('r, 'a) prog \<Rightarrow> ('r EthChain, 'a) prog" where
  "ec_rpc m = zoomM ec_node (\<lambda>r s. s\<lparr>ec_node := r\<rparr>) m"

subsection \<open>Blocks and moves from JSON\<close>

definition ExtractBaseData :: "'d eth_lib \<Rightarrow> json \<Rightarrow> error + BlockData" where
  "ExtractBaseData E val =
     bindE (checkE (isObject val)) (\<lambda>_.
     bindE (bindE (string_at (el_json E) val ''hash'') ConvertUint256) (\<lambda>hash.
     bindE (bindE (string_at (el_json E) val ''parentHash'') ConvertUint256) (\<lambda>parent.
     bindE (bindE (string_at (el_json E) val ''number'') (el_ParseInt E)) (\<lambda>number.
     bindE (bindE (string_at (el_json E) val ''timestamp'') (el_ParseInt E)) (\<lambda>timestamp.
     Inr \<lparr>blk_hash = hash, blk_parent = parent, blk_height = u64_of_int number, blk_rngseed = hash,
          blk_metadata = json_set ''timestamp'' (JInt timestamp) (JObject []), blk_moves = []\<rparr>)))))"

definition ExtractMove :: "'d eth_lib \<Rightarrow> json \<Rightarrow> error + MoveData" where
  "ExtractMove E val =
     bindE (bindE (string_at (el_json E) val ''data'') (el_AbiDecoder E)) (\<lambda>dec.
     bindE (run_dec (GetMoveDataFromLogs E) dec) (\<lambda>res.
     bindE (bindE (string_at (el_json E) val ''transactionHash'') ConvertUint256) (\<lambda>txid.
     Inr (res\<lparr>mv_txid := txid\<rparr>))))"

record BlockMoveExtractor =
  bm_blk :: BlockData
  bm_lastIndices :: "int \<times> int"

definition BlockMoveExtractor_new :: "BlockData \<Rightarrow> BlockMoveExtractor" where
  "BlockMoveExtractor_new b = \<lparr>bm_blk = b, bm_lastIndices = (-1, -1)\<rparr>"

text \<open>The order of \<^verbatim>\<open>std::pair\<close>.\<close>

definition indices_less :: "int \<times> int \<Rightarrow> int \<times> int \<Rightarrow> bool" where
  "indices_less a b \<longleftrightarrow> fst a < fst b \<or> (fst a = fst b \<and> snd a < snd b)"

definition ProcessLogEntry :: "'d eth_lib \<Rightarrow> string \<Rightarrow> json \<Rightarrow> BlockMoveExtractor \<Rightarrow> error + BlockMoveExtractor" where
  "ProcessLogEntry E accountsContract log x =
     bindE (checkE (isObject log)) (\<lambda>_.
     bindE (string_at (el_json E) log ''address'') (\<lambda>addr.
     bindE (case el_Address E addr of None \<Rightarrow> Inl Abort | Some a \<Rightarrow> Inr a) (\<lambda>logAddr.
     bindE (checkE (el_GetLowerCase E logAddr = accountsContract)) (\<lambda>_.
     bindE (bindE (json_nth (json_get log ''topics'') 0) (asString (el_json E))) (\<lambda>topic.
     bindE (checkE (topic = MOVE_EVENT E)) (\<lambda>_.
     bindE (bindE (string_at (el_json E) log ''blockHash'') ConvertUint256) (\<lambda>hash.
     bindE (checkE (hash = blk_hash (bm_blk x))) (\<lambda>_.
     bindE (bindE (string_at (el_json E) log ''transactionIndex'') (el_ParseInt E)) (\<lambda>txIndex.
     bindE (bindE (string_at (el_json E) log ''logIndex'') (el_ParseInt E)) (\<lambda>logIndex.
     bindE (checkE (indices_less (bm_lastIndices x) (txIndex, logIndex))) (\<lambda>_.
     bindE (ExtractMove E log) (\<lambda>mv.
     Inr (x\<lparr>bm_lastIndices := (txIndex, logIndex),
            bm_blk := (bm_blk x)\<lparr>blk_moves := blk_moves (bm_blk x) @ [mv]\<rparr>\<rparr>)))))))))))))"

fun process_logs :: "'d eth_lib \<Rightarrow> string \<Rightarrow> json list \<Rightarrow> BlockMoveExtractor \<Rightarrow> error + BlockMoveExtractor" where
  "process_logs E acc [] x = Inr x"
| "process_logs E acc (l # ls) x = bindE (ProcessLogEntry E acc l x) (process_logs E acc ls)"

subsection \<open>Block ranges\<close>

definition GetLogsOptions :: "'d eth_lib \<Rightarrow> string \<Rightarrow> json" where
  "GetLogsOptions E accountsContract =
     json_set ''topics'' (JArray [JString (MOVE_EVENT E)])
       (json_set ''address'' (JString accountsContract) (JObject []))"

definition block_request :: "int \<Rightarrow> batch_call" where
  "block_request h = (''eth_getBlockByNumber'', JArray [JString (EncodeHexInt h), JBool False])"

definition logs_request :: "'d eth_lib \<Rightarrow> string \<Rightarrow> BlockData \<Rightarrow> batch_call" where
  "logs_request E acc blk =
     (''eth_getLogs'', JArray [json_set ''blockHash'' (JString (''0x'' @ blk_hash blk)) (GetLogsOptions E acc)])"

definition range_options :: "'d eth_lib \<Rightarrow> string \<Rightarrow> nat \<Rightarrow> nat \<Rightarrow> json" where
  "range_options E acc startHeight endHeight =
     json_set ''toBlock'' (JString (EncodeHexInt (int64_of endHeight)))
       (json_set ''fromBlock'' (JString (EncodeHexInt (int64_of startHeight))) (GetLogsOptions E acc))"

text \<open>The answers for the blocks, in the order of their heights; \<open>None\<close> is the result \<^verbatim>\<open>false\<close>.\<close>

fun collect_blocks :: "'d eth_lib \<Rightarrow> int \<Rightarrow> (int \<times> json) list \<Rightarrow> BlockData list \<Rightarrow> error + BlockData list option" where
  "collect_blocks E startHeight [] res = Inr (Some res)"
| "collect_blocks E startHeight ((err, blockJson) # answers) res =
     bindE (checkE (err = 0)) (\<lambda>_.
       if isNull blockJson then Inr None
       else
         bindE (ExtractBaseData E blockJson) (\<lambda>blk.
           if res = [] then
             bindE (checkE (blk_height blk = u64_of_int startHeight)) (\<lambda>_.
             collect_blocks E startHeight answers [blk])
           else
             bindE (checkE (blk_height blk = u64_add (blk_height (last res)) 1)) (\<lambda>_.
               if blk_parent blk \<noteq> blk_hash (last res) then Inr None
               else collect_blocks E startHeight answers (res @ [blk]))))"

fun moves_one_by_one :: "'d eth_lib \<Rightarrow> string \<Rightarrow> (BlockData \<times> int \<times> json) list \<Rightarrow> error + BlockData list option" where
  "moves_one_by_one E acc [] = Inr (Some [])"
| "moves_one_by_one E acc ((blk, err, logs) # rest) =
     (if err \<noteq> 0 then Inr None
      else
        bindE (checkE (isArray logs)) (\<lambda>_.
        bindE (process_logs E acc (json_elems logs) (BlockMoveExtractor_new blk)) (\<lambda>x.
        bindE (moves_one_by_one E acc rest) (\<lambda>res.
        Inr (case res of None \<Rightarrow> None | Some bs \<Rightarrow> Some (bm_blk x # bs))))))"

definition AddMovesOneByOne ::
  "'d eth_lib \<Rightarrow> 'r EthRpcClient \<Rightarrow> string \<Rightarrow> BlockData list \<Rightarrow> ('r, BlockData list option) prog" where
  "AddMovesOneByOne E rpc acc blocks =
     bindM (rpc_CallProcedures rpc (map (logs_request E acc) blocks)) (\<lambda>resp.
     liftE (moves_one_by_one E acc (map (\<lambda>(i, blk). (blk, resp i)) (enumerate 0 blocks))))"

text \<open>The heights of the blocks are checked before the logs are requested.\<close>

fun heights_follow :: "nat list \<Rightarrow> bool" where
  "heights_follow (a # b # hs) =
     ((int64_of a \<noteq> -1 \<longrightarrow> b = u64_of_int (int64_of a + 1)) \<and> heights_follow (b # hs))"
| "heights_follow hs = True"

text \<open>The extractor of a hash is the one of the first block with this hash.\<close>

fun process_at :: "'d eth_lib \<Rightarrow> string \<Rightarrow> string \<Rightarrow> json \<Rightarrow> BlockMoveExtractor list \<Rightarrow> error + BlockMoveExtractor list" where
  "process_at E acc hash log [] = Inl Abort"
| "process_at E acc hash log (x # xs) =
     (if blk_hash (bm_blk x) = hash then bindE (ProcessLogEntry E acc log x) (\<lambda>x'. Inr (x' # xs))
      else bindE (process_at E acc hash log xs) (\<lambda>xs'. Inr (x # xs')))"

fun process_range :: "'d eth_lib \<Rightarrow> string \<Rightarrow> json list \<Rightarrow> BlockMoveExtractor list \<Rightarrow> error + BlockMoveExtractor list" where
  "process_range E acc [] xs = Inr xs"
| "process_range E acc (l # ls) xs =
     bindE (bindE (string_at (el_json E) l ''blockHash'') ConvertUint256) (\<lambda>hash.
     bindE (process_at E acc hash l xs) (process_range E acc ls))"

definition AddMovesFromHeightRange ::
  "'d eth_lib \<Rightarrow> 'r EthRpcClient \<Rightarrow> string \<Rightarrow> BlockData list \<Rightarrow> ('r, BlockData list) prog" where
  "AddMovesFromHeightRange E rpc acc blocks =
     thenM (CHECK (heights_follow (map blk_height blocks)))
       (if blocks = [] then failM Undefined
        else
          bindM (rpc_eth_getLogs rpc (range_options E acc (blk_height (hd blocks)) (blk_height (last blocks)))) (\<lambda>logs.
          thenM (CHECK (isArray logs))
         (bindM (liftE (process_range E acc (json_elems logs) (map BlockMoveExtractor_new blocks))) (\<lambda>xs.
          ret (map bm_blk xs)))))"

text \<open>Signed arithmetic that leaves the range of \<^verbatim>\<open>int64_t\<close> is undefined.\<close>

definition in_int64 :: "int \<Rightarrow> bool" where
  "in_int64 i \<longleftrightarrow> - int i64_max - 1 \<le> i \<and> i \<le> int i64_max"

definition TryBlockRange ::
  "'d eth_lib \<Rightarrow> 'r EthRpcClient \<Rightarrow> int \<Rightarrow> string \<Rightarrow> int \<Rightarrow> int \<Rightarrow> ('r, BlockData list option) prog" where
  "TryBlockRange E rpc fast_logs_depth acc startHeight endHeight0 =
     bindM (bindM (rpc_eth_blockNumber rpc) (\<lambda>s. liftE (el_ParseInt E s))) (\<lambda>tipHeight.
     let endHeight = (if tipHeight < endHeight0 then tipHeight else endHeight0) in
       if endHeight < startHeight then ret (Some [])
       else
         let heights = [startHeight..endHeight] in
         bindM (rpc_CallProcedures rpc (map block_request heights)) (\<lambda>resp.
         bindM (liftE (collect_blocks E startHeight (map resp [0..<length heights]) [])) (\<lambda>res.
           case res of
             None \<Rightarrow> ret None
           | Some blocks \<Rightarrow>
               thenM (CHECK (blocks \<noteq> [] \<and> blk_height (last blocks) = u64_of_int endHeight))
                 (if \<not> in_int64 (endHeight + fast_logs_depth) then failM Undefined
                  else if endHeight + fast_logs_depth < tipHeight
                  then bindM (AddMovesFromHeightRange E rpc acc blocks) (\<lambda>bs. ret (Some bs))
                  else AddMovesOneByOne E rpc acc blocks))))"

fun try_loop :: "nat \<Rightarrow> 'd eth_lib \<Rightarrow> 'r EthRpcClient \<Rightarrow> int \<Rightarrow> string \<Rightarrow> int \<Rightarrow> int \<Rightarrow> ('r, BlockData list) prog" where
  "try_loop 0 E rpc depth acc startHeight endHeight = failM Diverges"
| "try_loop (Suc n) E rpc depth acc startHeight endHeight =
     bindM (TryBlockRange E rpc depth acc startHeight endHeight) (\<lambda>res.
       case res of None \<Rightarrow> try_loop n E rpc depth acc startHeight endHeight | Some bs \<Rightarrow> ret bs)"

definition Eth_GetBlockRange ::
  "nat \<Rightarrow> 'd eth_lib \<Rightarrow> 'r EthRpcClient \<Rightarrow> int \<Rightarrow> nat \<Rightarrow> nat \<Rightarrow> ('r EthChain, BlockData list) prog" where
  "Eth_GetBlockRange fuel E rpc depth start count =
     (if count = 0 then ret []
      else
        let endHeight = u64_sub (u64_add start count) 1 in
        thenM (CHECK (endHeight \<ge> start))
       (bindM (getM ec_accountsContract) (\<lambda>acc.
          ec_rpc (try_loop fuel E rpc depth acc (int64_of start) (int64_of endHeight)))))"

subsection \<open>The other operations\<close>

definition EthChain_new ::
  "'d eth_lib \<Rightarrow> 'r EthRpcClient \<Rightarrow> string \<Rightarrow> string \<Rightarrow> string \<Rightarrow> ('r, 'r EthChain) prog" where
  "EthChain_new E rpc headers wsEndpoint acc =
     bindM (liftE (ParseRpcHeaders headers)) (\<lambda>hs.
     bindM (case el_Address E acc of None \<Rightarrow> failM Abort | Some a \<Rightarrow> ret a) (\<lambda>accAddr.
     bindM (bindM (rpc_eth_chainId rpc) (\<lambda>s. liftE (el_ParseInt E s))) (\<lambda>chainId.
     getM (\<lambda>r. \<lparr>ec_node = r, ec_headers = hs, ec_accountsContract = el_GetLowerCase E accAddr,
                ec_chainId = chainId, ec_pending = None, ec_mempool = [],
                ec_sub = (if wsEndpoint = [] then None else Some (WebSocketSubscriber_new wsEndpoint))\<rparr>))))"

text \<open>The callbacks of the websocket, over the connector and the owner of its callbacks.\<close>

definition NewTip :: "'w base_cb \<Rightarrow> string \<Rightarrow> ('r EthChain \<times> 'w, unit) prog" where
  "NewTip cb tip =
     bindM (liftE (ConvertUint256 tip)) (\<lambda>h. zoomM snd (\<lambda>w (s, _). (s, w)) (TipChanged cb h))"

definition NewPendingTx :: "'d eth_lib \<Rightarrow> 'r EthRpcClient \<Rightarrow> 'w base_cb \<Rightarrow> string \<Rightarrow> ('r EthChain \<times> 'w, unit) prog" where
  "NewPendingTx E rpc cb txid =
     bindM (getM (\<lambda>(s, w). ec_pending s)) (\<lambda>pending.
       case pending of
         None \<Rightarrow> failM Abort
       | Some p \<Rightarrow>
           bindM (catchRpc (zoomM fst (\<lambda>s (_, w). (s, w)) (ec_rpc (GetMoves E rpc p txid))) (\<lambda>_ _. ret [])) (\<lambda>moves.
             if moves = [] then ret ()
             else
               bindM (liftE (ConvertUint256 txid)) (\<lambda>h.
               thenM (zoomM (\<lambda>(s, w). ec_mempool s) (\<lambda>p (s, w). (s\<lparr>ec_mempool := p\<rparr>, w)) (Mempool_Add h))
                 (zoomM snd (\<lambda>w (s, _). (s, w)) (PendingMoves cb moves)))))"

definition Eth_Callbacks :: "'d eth_lib \<Rightarrow> 'r EthRpcClient \<Rightarrow> 'w base_cb \<Rightarrow> ('r EthChain \<times> 'w) ws_callbacks" where
  "Eth_Callbacks E rpc cb = \<lparr>ws_NewTip = NewTip cb, ws_NewPendingTx = NewPendingTx E rpc cb\<rparr>"

definition on_sub :: "(WebSocketSubscriber, unit) prog \<Rightarrow> ('r EthChain, unit) prog" where
  "on_sub m =
     bindM (getM ec_sub) (\<lambda>sub.
       case sub of
         None \<Rightarrow> ret ()
       | Some w \<Rightarrow> (let (r, w') = m w in thenM (modifyM (\<lambda>s. s\<lparr>ec_sub := Some w'\<rparr>)) (liftE r)))"

definition Eth_Start :: "'d eth_lib \<Rightarrow> 'r EthRpcClient \<Rightarrow> ('r EthChain, unit) prog" where
  "Eth_Start E rpc = thenM (ec_rpc (rpc_web3_clientVersion rpc)) (on_sub (WebSocket_Start (el_websocketpp E)))"

definition Eth_EnablePending :: "'d eth_lib \<Rightarrow> 'r EthRpcClient \<Rightarrow> ('r EthChain, bool) prog" where
  "Eth_EnablePending E rpc =
     thenM (bindM (getM ec_pending) (\<lambda>p. CHECK (p = None)))
    (bindM (getM ec_accountsContract) (\<lambda>acc.
     bindM (ec_rpc (PendingDataExtractor_new E rpc acc)) (\<lambda>p.
     thenM (modifyM (\<lambda>s. s\<lparr>ec_pending := Some p\<rparr>))
    (thenM (on_sub (WebSocket_EnablePending (el_websocketpp E))) (ret True)))))"

definition Eth_AddWatchedContract :: "'d eth_lib \<Rightarrow> string \<Rightarrow> ('r EthChain, unit) prog" where
  "Eth_AddWatchedContract E addr =
     bindM (getM ec_pending) (\<lambda>pending.
       case pending of
         None \<Rightarrow> failM Abort
       | Some p \<Rightarrow>
           (let (r, p') = Extractor_AddWatchedContract E addr p in
            thenM (modifyM (\<lambda>s. s\<lparr>ec_pending := Some p'\<rparr>)) (liftE r)))"

definition Eth_GetTipHeight :: "'d eth_lib \<Rightarrow> 'r EthRpcClient \<Rightarrow> ('r EthChain, nat) prog" where
  "Eth_GetTipHeight E rpc =
     bindM (ec_rpc (rpc_eth_blockNumber rpc)) (\<lambda>s. liftE (bindE (el_ParseInt E s) (\<lambda>i. Inr (u64_of_int i))))"

definition Eth_GetMainchainHeight :: "'d eth_lib \<Rightarrow> 'r EthRpcClient \<Rightarrow> string \<Rightarrow> ('r EthChain, int) prog" where
  "Eth_GetMainchainHeight E rpc hash =
     (let prefixHash = ''0x'' @ hash in
      bindM (catchRpc
               (bindM (ec_rpc (rpc_eth_getBlockByHash rpc prefixHash False)) (\<lambda>data.
                  if isNull data then ret None
                  else
                    thenM (CHECK (isObject data))
                      (bindM (liftE (string_at (el_json E) data ''number'')) (\<lambda>h. ret (Some h)))))
               (\<lambda>_ _. ret None)) (\<lambda>heightHex.
        case heightHex of
          None \<Rightarrow> ret (-1)
        | Some heightHex \<Rightarrow>
            bindM (ec_rpc (rpc_eth_getBlockByNumber rpc heightHex False)) (\<lambda>mainchain.
              if isNull mainchain then ret (-1)
              else
                thenM (CHECK (isObject mainchain))
                  (if json_get mainchain ''hash'' \<noteq> JString prefixHash then ret (-1)
                   else liftE (el_ParseInt E heightHex)))))"

definition Eth_GetMempool :: "'d eth_lib \<Rightarrow> 'r EthRpcClient \<Rightarrow> ('r EthChain, string list) prog" where
  "Eth_GetMempool E rpc =
     zoomM (\<lambda>s. (ec_node s, ec_mempool s)) (\<lambda>(r, p) s. s\<lparr>ec_node := r, ec_mempool := p\<rparr>) (Mempool_GetContent E rpc)"

definition Eth_VerifyMessage :: "'d eth_lib \<Rightarrow> string \<Rightarrow> string \<Rightarrow> ('r EthChain, string option) prog" where
  "Eth_VerifyMessage E msg signature =
     bindM (getM ec_chainId) (\<lambda>chainId.
       let fullMsg = ''Xaya signature for chain '' @ show_int chainId @ '':'' @ [CHR 0x0A, CHR 0x0A] @ msg;
           hexSgn = ''0x'' @ el_Hexlify E signature in
       ret (case el_VerifyMessage E fullMsg hexSgn of None \<Rightarrow> None | Some a \<Rightarrow> Some (el_GetChecksummed E a)))"

definition Eth_GetChain :: "('r EthChain, string) prog" where
  "Eth_GetChain =
     bindM (getM ec_chainId) (\<lambda>chainId.
       case map_of CHAIN_IDS chainId of None \<Rightarrow> failM Abort | Some c \<Rightarrow> ret c)"

definition Eth_GetVersion :: "('r EthChain, nat) prog" where
  "Eth_GetVersion = ret 1000000"

definition EthBase :: "nat \<Rightarrow> 'd eth_lib \<Rightarrow> 'r EthRpcClient \<Rightarrow> int \<Rightarrow> 'r EthChain BaseChain" where
  "EthBase fuel E rpc depth =
     \<lparr>bc_Start = Eth_Start E rpc, bc_EnablePending = Eth_EnablePending E rpc,
      bc_GetTipHeight = Eth_GetTipHeight E rpc, bc_GetBlockRange = Eth_GetBlockRange fuel E rpc depth,
      bc_GetMainchainHeight = Eth_GetMainchainHeight E rpc, bc_GetMempool = Eth_GetMempool E rpc,
      bc_VerifyMessage = Eth_VerifyMessage E, bc_GetChain = Eth_GetChain, bc_GetVersion = Eth_GetVersion\<rparr>"

subsection \<open>The watched contracts of the command line\<close>

text \<open>\<^verbatim>\<open>AddWatchedContracts\<close> of \<^verbatim>\<open>eth/main.cpp\<close>.\<close>

function watched_loop :: "'d eth_lib \<Rightarrow> string \<Rightarrow> ('r EthChain, unit) prog" where
  "watched_loop E lst =
     (let pos = str_find lst (CHR '','') 0 in
      if pos = npos then Eth_AddWatchedContract E lst
      else
        thenM (bindM (liftE (str_substr lst 0 pos)) (Eth_AddWatchedContract E))
          (watched_loop E (drop (pos + 1) lst)))"
  by pat_completeness auto
termination
proof (relation "measure (\<lambda>(E, lst). length lst)")
  fix E :: "'d eth_lib" and lst :: string and pos :: nat
  assume "pos = str_find lst (CHR '','') 0" "pos \<noteq> npos"
  with str_find_range [of lst "CHR '',''" 0]
  show "((E, drop (pos + 1) lst), E, lst) \<in> measure (\<lambda>(E, lst). length lst)" by auto
qed simp

declare watched_loop.simps [simp del]

definition AddWatchedContracts :: "'d eth_lib \<Rightarrow> string \<Rightarrow> ('r EthChain, unit) prog" where
  "AddWatchedContracts E lst = thenM (CHECK (lst \<noteq> [])) (watched_loop E lst)"

end
