(* ===== verification/CoreChain.thy ===== *)
theory CoreChain
  imports BaseChain JsonConv RpcUtils
begin

text \<open>
  \<^verbatim>\<open>xayacore/corechain.hpp\<close> and \<^verbatim>\<open>xayacore/corechain.cpp\<close>: the connector to a Xaya Core node.  The stub
  of the node's RPC interface is generated from \<^verbatim>\<open>rpc-stubs/core.json\<close>; it is the record
  \<open>CoreRpcClient\<close> of calls over the state \<open>'r\<close> of the node, and every call may fail with an exception.
  The hex and base64 functions of eth-utils and libxayautil are the record \<open>core_lib\<close>.  A ZMQ listener
  is the list of topics it is subscribed to, and one pass of its receiver thread handles one message.
  The two loops of \<^verbatim>\<open>GetBlockRange\<close> end only if the node lets them, so they have a bound.
\<close>

record core_lib =
  cl_json :: real_conv
  cl_Hexlify :: "string \<Rightarrow> string"
  cl_Unhexlify :: "string \<Rightarrow> string option"
  cl_EncodeBase64 :: "string \<Rightarrow> string"

record 'r CoreRpcClient =
  rpc_getnetworkinfo :: "('r, json) prog"
  rpc_getblockchaininfo :: "('r, json) prog"
  rpc_getzmqnotifications :: "('r, json) prog"
  rpc_getblockhash :: "int \<Rightarrow> ('r, string) prog"
  rpc_getblock :: "string \<Rightarrow> int \<Rightarrow> ('r, json) prog"
  rpc_getblockheader :: "string \<Rightarrow> ('r, json) prog"
  rpc_decoderawtransaction :: "string \<Rightarrow> ('r, json) prog"
  rpc_verifymessage :: "string \<Rightarrow> string \<Rightarrow> string \<Rightarrow> ('r, json) prog"
  rpc_getrawmempool :: "('r, json) prog"

subsection \<open>Moves and blocks from JSON\<close>

type_synonym amounts = "(string \<times> 64 word) list"

definition add_amount :: "string \<Rightarrow> 64 word \<Rightarrow> amounts \<Rightarrow> amounts" where
  "add_amount k v m =
     (let m1 = (if map_of m k = None then smap_emplace k 0 m else m) in
      smap_set k (dbl_add (the (map_of m1 k)) v) m1)"

definition vout_address :: "core_lib \<Rightarrow> json \<Rightarrow> json \<Rightarrow> amounts \<Rightarrow> error + amounts" where
  "vout_address X out spk outAmounts =
     (if isMember spk ''address'' then
        let addrVal = json_get spk ''address'' in
        bindE (checkE (isString addrVal)) (\<lambda>_.
        bindE (asString (cl_json X) addrVal) (\<lambda>addr.
        bindE (asDouble (json_get out ''value'')) (\<lambda>v.
        Inr (add_amount addr v outAmounts))))
      else Inr outAmounts)"

definition vout_burn :: "core_lib \<Rightarrow> json \<Rightarrow> json \<Rightarrow> amounts \<Rightarrow> error + amounts" where
  "vout_burn X out spk burns =
     (if isMember spk ''burn'' then
        let burnVal = json_get spk ''burn'' in
        bindE (checkE (isString burnVal)) (\<lambda>_.
        bindE (asString (cl_json X) burnVal) (\<lambda>hex.
        case cl_Unhexlify X hex of
          None \<Rightarrow> Inl Abort
        | Some burn \<Rightarrow>
            if take 2 burn = ''g/'' then
              bindE (asDouble (json_get out ''value'')) (\<lambda>v. Inr (add_amount (drop 2 burn) v burns))
            else Inr burns))
      else Inr burns)"

fun vout_loop :: "core_lib \<Rightarrow> json list \<Rightarrow> amounts \<Rightarrow> amounts \<Rightarrow> json \<Rightarrow> error + amounts \<times> amounts \<times> json" where
  "vout_loop X [] outAmounts burns nameOp = Inr (outAmounts, burns, nameOp)"
| "vout_loop X (out # outs) outAmounts burns nameOp =
     bindE (checkE (isObject out)) (\<lambda>_.
     let spk = json_get out ''scriptPubKey'' in
     bindE (checkE (isObject spk)) (\<lambda>_.
       if isMember spk ''nameOp'' then
         bindE (checkE (isNull nameOp)) (\<lambda>_. vout_loop X outs outAmounts burns (json_get spk ''nameOp''))
       else
         bindE (vout_address X out spk outAmounts) (\<lambda>outAmounts.
         bindE (vout_burn X out spk burns) (\<lambda>burns.
         vout_loop X outs outAmounts burns nameOp))))"

definition read_input :: "core_lib \<Rightarrow> json \<Rightarrow> error + json" where
  "read_input X inp =
     bindE (string_at (cl_json X) inp ''txid'') (\<lambda>txid.
     bindE (bindE (json_at inp ''vout'') (asInt (cl_json X))) (\<lambda>vout.
     Inr (json_set ''vout'' (JInt vout) (json_set ''txid'' (JString txid) (JObject [])))))"

text \<open>The amounts as a JSON object.\<close>

definition amounts_json :: "amounts \<Rightarrow> json" where
  "amounts_json m = fold (\<lambda>(k, v) j. json_set k (JReal v) j) m (JObject [])"

definition GetMoveFromTx :: "core_lib \<Rightarrow> json \<Rightarrow> error + MoveData option" where
  "GetMoveFromTx X data =
     bindE (json_at data ''vout'') (\<lambda>vout.
     bindE (vout_loop X (json_elems vout) [] [] JNull) (\<lambda>(outAmounts, burns, nameOp).
       if isNull nameOp then Inr None
       else
         bindE (checkE (isObject nameOp)) (\<lambda>_.
         bindE (string_at (cl_json X) nameOp ''name_encoding'') (\<lambda>ne.
         bindE (checkE (ne = ''utf8'')) (\<lambda>_.
         bindE (string_at (cl_json X) nameOp ''value_encoding'') (\<lambda>ve.
         bindE (checkE (ve = ''utf8'')) (\<lambda>_.
         bindE (checkE (isMember nameOp ''name'' \<and> isMember nameOp ''value'')) (\<lambda>_.
         bindE (string_at (cl_json X) nameOp ''name'') (\<lambda>fullName.
         let nsPos = str_find fullName (CHR ''/'') 0 in
         bindE (checkE (nsPos \<noteq> npos)) (\<lambda>_.
         bindE (string_at (cl_json X) data ''txid'') (\<lambda>txid.
         bindE (str_substr fullName 0 nsPos) (\<lambda>ns.
         bindE (str_from fullName (nsPos + 1)) (\<lambda>name.
         bindE (string_at (cl_json X) nameOp ''value'') (\<lambda>mv.
         bindE (string_at (cl_json X) data ''btxid'') (\<lambda>btxid.
         bindE (json_at data ''vin'') (\<lambda>vin.
         bindE (mapE (read_input X) (json_elems vin)) (\<lambda>inputs.
         Inr (Some \<lparr>mv_txid = txid, mv_ns = ns, mv_name = name, mv_mv = mv,
                    mv_burns = map (\<lambda>(k, v). (k, JReal v)) burns,
                    mv_metadata =
                      json_set ''inputs'' (JArray inputs)
                        (json_set ''out'' (amounts_json outAmounts)
                          (json_set ''btxid'' (JString btxid) (JObject [])))\<rparr>))))))))))))))))))"

fun tx_loop :: "core_lib \<Rightarrow> json list \<Rightarrow> error + MoveData list" where
  "tx_loop X [] = Inr []"
| "tx_loop X (tx # txs) =
     bindE (GetMoveFromTx X tx) (\<lambda>mv.
     bindE (tx_loop X txs) (\<lambda>mvs. Inr (case mv of None \<Rightarrow> mvs | Some m \<Rightarrow> m # mvs)))"

definition ConstructBlockData :: "core_lib \<Rightarrow> json \<Rightarrow> error + BlockData" where
  "ConstructBlockData X data =
     bindE (checkE (isObject data)) (\<lambda>_.
     bindE (string_at (cl_json X) data ''hash'') (\<lambda>hash.
     bindE (asUInt64 (cl_json X) (json_get data ''height'')) (\<lambda>height.
     bindE (if isMember data ''previousblockhash'' then string_at (cl_json X) data ''previousblockhash''
            else Inr '''') (\<lambda>parent.
     bindE (string_at (cl_json X) data ''rngseed'') (\<lambda>rngseed.
     bindE (asInt64 (cl_json X) (json_get data ''time'')) (\<lambda>time.
     bindE (asInt64 (cl_json X) (json_get data ''mediantime'')) (\<lambda>mediantime.
     bindE (tx_loop X (json_elems (json_get data ''tx''))) (\<lambda>moves.
     Inr \<lparr>blk_hash = hash, blk_parent = parent, blk_height = height, blk_rngseed = rngseed,
          blk_metadata = json_set ''mediantime'' (JInt mediantime)
                           (json_set ''timestamp'' (JInt time) (JObject [])),
          blk_moves = moves\<rparr>))))))))"

subsection \<open>Listeners\<close>

fun find_notification :: "core_lib \<Rightarrow> string \<Rightarrow> json list \<Rightarrow> error + string" where
  "find_notification X type [] = Inr ''''"
| "find_notification X type (n # ns) =
     bindE (checkE (isObject n)) (\<lambda>_.
     bindE (string_at (cl_json X) n ''type'') (\<lambda>t.
       if t = type then string_at (cl_json X) n ''address'' else find_notification X type ns))"

definition GetNotificationAddress :: "core_lib \<Rightarrow> 'r CoreRpcClient \<Rightarrow> string \<Rightarrow> ('r, string) prog" where
  "GetNotificationAddress X rpc type =
     bindM (rpc_getzmqnotifications rpc) (\<lambda>notifications.
     thenM (CHECK (isArray notifications))
       (liftE (find_notification X type (json_elems notifications))))"

text \<open>The node behind the RPC interface, and the topics of the listener at each address.\<close>

record 'r CoreChain =
  cc_node :: 'r
  cc_listeners :: "(string \<times> string list) list"

definition cc_rpc :: "('r, 'a) prog \<Rightarrow> ('r CoreChain, 'a) prog" where
  "cc_rpc m = zoomM cc_node (\<lambda>r s. s\<lparr>cc_node := r\<rparr>) m"

definition CoreChain_new :: "'r \<Rightarrow> 'r CoreChain" where
  "CoreChain_new r = \<lparr>cc_node = r, cc_listeners = []\<rparr>"

definition GetListenerForAddress :: "string \<Rightarrow> ('r CoreChain, unit) prog" where
  "GetListenerForAddress addr =
     bindM (getM cc_listeners) (\<lambda>ls.
       if map_of ls addr \<noteq> None then ret ()
       else modifyM (\<lambda>s. s\<lparr>cc_listeners := smap_emplace addr [] ls\<rparr>))"

definition Subscribe :: "string \<Rightarrow> string \<Rightarrow> ('r CoreChain, unit) prog" where
  "Subscribe addr topic =
     modifyM (\<lambda>s. s\<lparr>cc_listeners := map (\<lambda>(a, ts). (a, if a = addr then ts @ [topic] else ts)) (cc_listeners s)\<rparr>)"

definition HandleHashBlock :: "core_lib \<Rightarrow> 'w base_cb \<Rightarrow> string \<Rightarrow> ('w, unit) prog" where
  "HandleHashBlock X cb payload = TipChanged cb (cl_Hexlify X payload)"

text \<open>The handler uses the node and the owner of the callbacks.\<close>

definition HandleRawTx :: "core_lib \<Rightarrow> 'r CoreRpcClient \<Rightarrow> 'w base_cb \<Rightarrow> string \<Rightarrow> ('r \<times> 'w, unit) prog" where
  "HandleRawTx X rpc cb payload =
     bindM (catchRpc (bindM (zoomM fst (\<lambda>r (_, w). (r, w)) (rpc_decoderawtransaction rpc (cl_Hexlify X payload))) (\<lambda>tx. ret (Some tx)))
              (\<lambda>_ _. ret None)) (\<lambda>tx.
       case tx of
         None \<Rightarrow> ret ()
       | Some tx \<Rightarrow>
           bindM (liftE (GetMoveFromTx X tx)) (\<lambda>mv.
             case mv of None \<Rightarrow> ret () | Some m \<Rightarrow> zoomM snd (\<lambda>w (r, _). (r, w)) (PendingMoves cb [m])))"

text \<open>One pass of the receiver: the parts of the next message, if there is one.\<close>

definition ReceiveLoop_pass ::
  "core_lib \<Rightarrow> 'r CoreRpcClient \<Rightarrow> 'w base_cb \<Rightarrow> string list option \<Rightarrow> ('r \<times> 'w, unit) prog" where
  "ReceiveLoop_pass X rpc cb msg =
     (case msg of
        None \<Rightarrow> ret ()
      | Some parts \<Rightarrow>
          thenM (CHECK (length parts = 3))
         (thenM (CHECK (length (parts ! 2) = 4))
            (if parts ! 0 = ''hashblock'' then zoomM snd (\<lambda>w (r, _). (r, w)) (HandleHashBlock X cb (parts ! 1))
             else if parts ! 0 = ''rawtx'' then HandleRawTx X rpc cb (parts ! 1)
             else failM Abort)))"

text \<open>The receiver thread: its passes until it is asked to stop.  An exception that leaves its function ends
  the process.\<close>

fun Core_ReceiveLoop ::
  "core_lib \<Rightarrow> 'r CoreRpcClient \<Rightarrow> 'w base_cb \<Rightarrow> string list option list \<Rightarrow> ('r \<times> 'w, unit) prog" where
  "Core_ReceiveLoop X rpc cb [] = ret ()"
| "Core_ReceiveLoop X rpc cb (m # ms) = thenM (ReceiveLoop_pass X rpc cb m) (Core_ReceiveLoop X rpc cb ms)"

definition ZmqListener_work ::
  "core_lib \<Rightarrow> 'r CoreRpcClient \<Rightarrow> 'w base_cb \<Rightarrow> string list option list \<Rightarrow> ('r \<times> 'w, unit) prog" where
  "ZmqListener_work X rpc cb ms = catchM (Core_ReceiveLoop X rpc cb ms) (\<lambda>_. failM Abort)"

text \<open>The destructor joins all receivers.\<close>

definition CoreChain_destroy :: "('r CoreChain, unit) prog" where
  "CoreChain_destroy = modifyM (\<lambda>s. s\<lparr>cc_listeners := []\<rparr>)"

text \<open>A socket delivers the messages whose topic begins with one of its subscriptions.\<close>

definition sock_delivers :: "string list \<Rightarrow> string list \<Rightarrow> bool" where
  "sock_delivers topics parts \<longleftrightarrow> parts \<noteq> [] \<and> list_ex (\<lambda>t. take (length t) (hd parts) = t) topics"

subsection \<open>The base-chain interface\<close>

definition Core_Start :: "core_lib \<Rightarrow> 'r CoreRpcClient \<Rightarrow> ('r CoreChain, unit) prog" where
  "Core_Start X rpc =
     bindM (cc_rpc (rpc_getnetworkinfo rpc)) (\<lambda>info.
     bindM (liftE (bindE (json_at info ''version'') (asUInt64 (cl_json X)))) (\<lambda>version.
     thenM (CHECK (version \<ge> 1060000))
    (bindM (cc_rpc (GetNotificationAddress X rpc ''pubhashblock'')) (\<lambda>addr.
       if addr = [] then ret ()
       else thenM (GetListenerForAddress addr) (Subscribe addr ''hashblock'')))))"

definition Core_EnablePending :: "core_lib \<Rightarrow> 'r CoreRpcClient \<Rightarrow> ('r CoreChain, bool) prog" where
  "Core_EnablePending X rpc =
     bindM (cc_rpc (GetNotificationAddress X rpc ''pubrawtx'')) (\<lambda>addr.
       if addr = [] then ret False
       else thenM (GetListenerForAddress addr) (thenM (Subscribe addr ''rawtx'') (ret True)))"

definition Core_GetTipHeight :: "core_lib \<Rightarrow> 'r CoreRpcClient \<Rightarrow> ('r CoreChain, nat) prog" where
  "Core_GetTipHeight X rpc =
     bindM (cc_rpc (rpc_getblockchaininfo rpc)) (\<lambda>blockchain.
     liftE (bindE (json_at blockchain ''blocks'') (asUInt64 (cl_json X))))"

text \<open>The stub takes the height as an \<^verbatim>\<open>int\<close>.\<close>

definition int32_of :: "nat \<Rightarrow> int" where
  "int32_of n = (let m = int (n mod (u32_max + 1)) in if m \<le> 2147483647 then m else m - int (u32_max + 1))"

fun end_hash_loop :: "nat \<Rightarrow> core_lib \<Rightarrow> 'r CoreRpcClient \<Rightarrow> nat \<Rightarrow> nat \<Rightarrow> ('r, string option) prog" where
  "end_hash_loop 0 X rpc start endHeight = failM Diverges"
| "end_hash_loop (Suc n) X rpc start endHeight =
     bindM (rpc_getblockchaininfo rpc) (\<lambda>blockchain.
     bindM (liftE (bindE (json_at blockchain ''blocks'') (asUInt64 (cl_json X)))) (\<lambda>blocks.
       if blocks < start then ret None
       else if blocks \<le> endHeight then
         bindM (liftE (string_at (cl_json X) blockchain ''bestblockhash'')) (\<lambda>h. ret (Some h))
       else
         catchRpc (bindM (rpc_getblockhash rpc (int32_of endHeight)) (\<lambda>h. ret (Some h)))
           (\<lambda>code msg. if code \<noteq> -8 then failM (Throw (JsonRpcException code msg))
                       else end_hash_loop n X rpc start endHeight)))"

fun block_loop :: "nat \<Rightarrow> core_lib \<Rightarrow> 'r CoreRpcClient \<Rightarrow> nat \<Rightarrow> string \<Rightarrow> BlockData list \<Rightarrow> ('r, BlockData list) prog" where
  "block_loop 0 X rpc start endHash res = failM Diverges"
| "block_loop (Suc n) X rpc start endHash res =
     bindM (rpc_getblock rpc endHash 2) (\<lambda>data.
     bindM (liftE (ConstructBlockData X data)) (\<lambda>cur.
     thenM (CHECK (blk_height cur \<ge> start))
       (if blk_height cur > start then block_loop n X rpc start (blk_parent cur) (res @ [cur])
        else ret (res @ [cur]))))"

definition Core_GetBlockRange :: "nat \<Rightarrow> core_lib \<Rightarrow> 'r CoreRpcClient \<Rightarrow> nat \<Rightarrow> nat \<Rightarrow> ('r CoreChain, BlockData list) prog" where
  "Core_GetBlockRange fuel X rpc start count =
     (if count = 0 then ret []
      else
        let endHeight = u64_sub (u64_add start count) 1 in
        thenM (CHECK (endHeight \<ge> start))
       (bindM (cc_rpc (end_hash_loop fuel X rpc start endHeight)) (\<lambda>endHash.
          case endHash of
            None \<Rightarrow> ret []
          | Some h \<Rightarrow> bindM (cc_rpc (block_loop fuel X rpc start h [])) (\<lambda>res. ret (rev res)))))"

definition Core_GetMainchainHeight :: "core_lib \<Rightarrow> 'r CoreRpcClient \<Rightarrow> string \<Rightarrow> ('r CoreChain, int) prog" where
  "Core_GetMainchainHeight X rpc hash =
     catchRpc
       (bindM (cc_rpc (rpc_getblockheader rpc hash)) (\<lambda>data.
        thenM (CHECK (isObject data))
       (let conf = json_get data ''confirmations'' in
        thenM (CHECK (isInt64 (cl_json X) conf))
       (bindM (liftE (asInt64 (cl_json X) conf)) (\<lambda>c.
          if c = -1 then ret (-1)
          else
            thenM (CHECK (c \<ge> 0))
           (bindM (liftE (asUInt64 (cl_json X) (json_get data ''height''))) (\<lambda>h. ret (int64_of h))))))))
       (\<lambda>_ _. ret (-1))"

definition Core_GetMempool :: "core_lib \<Rightarrow> 'r CoreRpcClient \<Rightarrow> ('r CoreChain, string list) prog" where
  "Core_GetMempool X rpc =
     bindM (cc_rpc (rpc_getrawmempool rpc)) (\<lambda>mempool.
     thenM (CHECK (isArray mempool)) (liftE (mapE (asString (cl_json X)) (json_elems mempool))))"

definition Core_VerifyMessage :: "core_lib \<Rightarrow> 'r CoreRpcClient \<Rightarrow> string \<Rightarrow> string \<Rightarrow> ('r CoreChain, string option) prog" where
  "Core_VerifyMessage X rpc msg signature =
     bindM (catchRpc (bindM (cc_rpc (rpc_verifymessage rpc '''' msg (cl_EncodeBase64 X signature))) (\<lambda>res. ret (Some res)))
              (\<lambda>code _. thenM (CHECK (code = -3)) (ret None))) (\<lambda>res.
       case res of
         None \<Rightarrow> ret None
       | Some res \<Rightarrow>
           thenM (CHECK (isObject res))
          (bindM (liftE (asBool (json_get res ''valid''))) (\<lambda>ok.
             if \<not> ok then ret None
             else bindM (liftE (string_at (cl_json X) res ''address'')) (\<lambda>addr. ret (Some addr)))))"

definition Core_GetChain :: "core_lib \<Rightarrow> 'r CoreRpcClient \<Rightarrow> ('r CoreChain, string) prog" where
  "Core_GetChain X rpc =
     bindM (cc_rpc (rpc_getblockchaininfo rpc)) (\<lambda>info. liftE (string_at (cl_json X) info ''chain''))"

definition Core_GetVersion :: "core_lib \<Rightarrow> 'r CoreRpcClient \<Rightarrow> ('r CoreChain, nat) prog" where
  "Core_GetVersion X rpc =
     bindM (cc_rpc (rpc_getnetworkinfo rpc)) (\<lambda>info.
     liftE (bindE (json_at info ''version'') (asUInt64 (cl_json X))))"

definition CoreBase :: "nat \<Rightarrow> core_lib \<Rightarrow> 'r CoreRpcClient \<Rightarrow> 'r CoreChain BaseChain" where
  "CoreBase fuel X rpc =
     \<lparr>bc_Start = Core_Start X rpc, bc_EnablePending = Core_EnablePending X rpc,
      bc_GetTipHeight = Core_GetTipHeight X rpc, bc_GetBlockRange = Core_GetBlockRange fuel X rpc,
      bc_GetMainchainHeight = Core_GetMainchainHeight X rpc, bc_GetMempool = Core_GetMempool X rpc,
      bc_VerifyMessage = Core_VerifyMessage X rpc, bc_GetChain = Core_GetChain X rpc,
      bc_GetVersion = Core_GetVersion X rpc\<rparr>"

end
