(* ===== verification/CoreChainProofs.thy ===== *)
theory CoreChainProofs
  imports CoreChain
begin

text \<open>
  What the connector to Xaya Core gives, for a node that behaves as documented (\<open>core_node\<close>).  The node
  may take new blocks and reorganise between any two calls; \<open>ev\<close> relates its state before and after.  A
  block range is nevertheless the main chain of one moment, and for a node that does not change during
  the calls the connector keeps the contract of a base chain.
\<close>

subsection \<open>The node\<close>

text \<open>The answers of a reachable node in state \<open>r\<close> with main chain \<open>view r\<close>; \<open>T\<close> holds all blocks of the
  node by their hash, as the connector reads them.\<close>

definition core_node ::
  "core_lib \<Rightarrow> 'r CoreRpcClient \<Rightarrow> (string \<Rightarrow> BlockData option) \<Rightarrow> ('r \<Rightarrow> mainchain) \<Rightarrow> ('r \<Rightarrow> nat) \<Rightarrow>
     ('r \<Rightarrow> bool) \<Rightarrow> ('r \<Rightarrow> 'r \<Rightarrow> bool) \<Rightarrow> bool" where
  "core_node X rpc T view tip up ev \<longleftrightarrow>
     (\<forall>r. ev r r) \<and> (\<forall>r s t. ev r s \<and> ev s t \<longrightarrow> ev r t) \<and>
     (\<forall>hash b. T hash = Some b \<longrightarrow> blk_hash b = hash) \<and>
     (\<forall>r. up r \<longrightarrow>
        mainchain_ok (view r) (tip r) \<and> view r 0 \<noteq> None \<and> tip r \<le> 2147483647 \<and>
        (\<forall>h b. view r h = Some b \<longrightarrow> T (blk_hash b) = Some b) \<and>
        (\<exists>j r' b. rpc_getblockchaininfo rpc r = (Inr j, r') \<and> up r' \<and> ev r r' \<and> isObject j \<and>
           view r (tip r) = Some b \<and> json_get j ''blocks'' = JInt (int (tip r)) \<and>
           json_get j ''bestblockhash'' = JString (blk_hash b)) \<and>
        (\<forall>h. \<exists>r' msg. up r' \<and> ev r r' \<and> rpc_getblockhash rpc (int h) r =
           (case view r h of None \<Rightarrow> Inl (Throw (JsonRpcException (-8) msg)) | Some b \<Rightarrow> Inr (blk_hash b), r')) \<and>
        (\<forall>b. T (blk_hash b) = Some b \<longrightarrow>
           (\<exists>j r'. rpc_getblock rpc (blk_hash b) 2 r = (Inr j, r') \<and> up r' \<and> ev r r' \<and> ConstructBlockData X j = Inr b)) \<and>
        (\<forall>hash. \<exists>a r'. rpc_getblockheader rpc hash r = (a, r') \<and> up r' \<and> ev r r' \<and>
           (case T hash of
              None \<Rightarrow> (\<exists>c msg. a = Inl (Throw (JsonRpcException c msg))) \<and> (\<forall>h b. view r h = Some b \<longrightarrow> blk_hash b \<noteq> hash)
            | Some b \<Rightarrow> \<exists>j. a = Inr j \<and> isObject j \<and>
                (if view r (blk_height b) = Some b
                 then json_get j ''confirmations'' = JInt (int (Suc (tip r - blk_height b))) \<and>
                      json_get j ''height'' = JInt (int (blk_height b))
                 else json_get j ''confirmations'' = JInt (-1)))))"

lemma core_nodeD:
  assumes "core_node X rpc T view tip up ev"
  shows "ev r r" "ev r s \<Longrightarrow> ev s t \<Longrightarrow> ev r t"
    and "up r \<Longrightarrow> mainchain_ok (view r) (tip r)" "up r \<Longrightarrow> view r 0 \<noteq> None" "up r \<Longrightarrow> tip r \<le> 2147483647"
    and "up r \<Longrightarrow> view r h = Some b \<Longrightarrow> T (blk_hash b) = Some b"
    and "up r \<Longrightarrow> \<exists>j r' b. rpc_getblockchaininfo rpc r = (Inr j, r') \<and> up r' \<and> ev r r' \<and> isObject j \<and>
           view r (tip r) = Some b \<and> json_get j ''blocks'' = JInt (int (tip r)) \<and>
           json_get j ''bestblockhash'' = JString (blk_hash b)"
    and "up r \<Longrightarrow> \<exists>r' msg. up r' \<and> ev r r' \<and> rpc_getblockhash rpc (int h) r =
           (case view r h of None \<Rightarrow> Inl (Throw (JsonRpcException (-8) msg)) | Some b \<Rightarrow> Inr (blk_hash b), r')"
    and "up r \<Longrightarrow> T (blk_hash b) = Some b \<Longrightarrow>
           \<exists>j r'. rpc_getblock rpc (blk_hash b) 2 r = (Inr j, r') \<and> up r' \<and> ev r r' \<and> ConstructBlockData X j = Inr b"
    and "up r \<Longrightarrow> \<exists>a r'. rpc_getblockheader rpc hash r = (a, r') \<and> up r' \<and> ev r r' \<and>
           (case T hash of
              None \<Rightarrow> (\<exists>c msg. a = Inl (Throw (JsonRpcException c msg))) \<and> (\<forall>h b. view r h = Some b \<longrightarrow> blk_hash b \<noteq> hash)
            | Some b \<Rightarrow> \<exists>j. a = Inr j \<and> isObject j \<and>
                (if view r (blk_height b) = Some b
                 then json_get j ''confirmations'' = JInt (int (Suc (tip r - blk_height b))) \<and>
                      json_get j ''height'' = JInt (int (blk_height b))
                 else json_get j ''confirmations'' = JInt (-1)))"
    and "T hash = Some b \<Longrightarrow> blk_hash b = hash"
  using assms unfolding core_node_def by blast+

subsection \<open>Slices\<close>

lemma slice_snoc: "v (s + n) = Some b \<Longrightarrow> length (block_slice v s n) = n \<Longrightarrow> block_slice v s (Suc n) = block_slice v s n @ [b]"
proof -
  assume b: "v (s + n) = Some b" and full: "length (block_slice v s n) = n"
  then have "\<forall>i<Suc n. v (s + i) \<noteq> None" by (metis less_Suc_eq option.distinct(1) slice_all_iff)
  then have eq: "block_slice v s (Suc n) = map (\<lambda>i. the (v (s + i))) [0..<Suc n]"
      "block_slice v s n = map (\<lambda>i. the (v (s + i))) [0..<n]"
    by (intro slice_full; auto)+
  show ?thesis using b by (subst eq(1), subst eq(2)) simp
qed

lemma slice_cap:
  assumes ok: "mainchain_ok v t" and "v s \<noteq> None"
  shows "block_slice v s n = block_slice v s (min n (Suc t - s))"
proof (rule nth_equalityI)
  show len: "length (block_slice v s n) = length (block_slice v s (min n (Suc t - s)))"
    using slice_length [OF assms] by simp
  fix i assume i: "i < length (block_slice v s n)"
  then show "block_slice v s n ! i = block_slice v s (min n (Suc t - s)) ! i"
    using slice_nth [OF i] slice_nth [of i v s "min n (Suc t - s)"] len by simp
qed

text \<open>A chain from the genesis block has a block at every height up to its tip.\<close>

lemma full_chain:
  assumes "mainchain_ok v t" "v 0 \<noteq> None" "h \<le> t"
  shows "\<exists>b. v h = Some b"
  using mainchain_okD(3) [OF assms(1), of 0] assms(2,3) by auto

subsection \<open>The loops\<close>

lemma block_loop_ok:
  assumes node: "core_node X rpc T view tip up ev"
    and v: "mainchain_ok v t" "v 0 \<noteq> None" "\<forall>h b. v h = Some b \<longrightarrow> T (blk_hash b) = Some b"
  shows "up r \<Longrightarrow> v (start + k) = Some b \<Longrightarrow>
     \<exists>r'. up r' \<and> ev r r' \<and> block_loop fuel X rpc start (blk_hash b) res r =
       (if k < fuel then Inr (res @ rev (block_slice v start (Suc k))) else Inl Diverges, r')"
proof (induction fuel arbitrary: k b r res)
  case 0
  then show ?case using core_nodeD(1) [OF node] by auto
next
  case (Suc n)
  obtain j r1 where j: "rpc_getblock rpc (blk_hash b) 2 r = (Inr j, r1)" "up r1" "ev r r1" "ConstructBlockData X j = Inr b"
    using core_nodeD(9) [OF node Suc.prems(1)] v(3) Suc.prems(2) by blast
  have height: "blk_height b = start + k" using mainchain_okD(1) [OF v(1) Suc.prems(2)] .
  show ?case
  proof (cases k)
    case 0
    then show ?thesis using j height Suc.prems(2) by auto
  next
    case (Suc k')
    have "start + k' \<le> t" using mainchain_okD(2) [OF v(1) \<open>v (start + k) = Some b\<close>] Suc by simp
    then obtain p where p: "v (start + k') = Some p" using full_chain [OF v(1,2)] by blast
    then have parent: "blk_parent b = blk_hash p"
      using mainchain_okD(4) [OF v(1) p] \<open>v (start + k) = Some b\<close> Suc by simp
    have "v start \<noteq> None" using full_chain [OF v(1,2), of start] \<open>start + k' \<le> t\<close> by auto
    then have "length (block_slice v start (Suc k')) = Suc k'"
      using slice_length [OF v(1), of start "Suc k'"] mainchain_okD(2) [OF v(1) \<open>v (start + k) = Some b\<close>] Suc by simp
    then have snoc: "block_slice v start (Suc k) = block_slice v start (Suc k') @ [b]"
      using slice_snoc [of v start "Suc k'" b] \<open>v (start + k) = Some b\<close> Suc by simp
    obtain r' where r': "up r'" "ev r1 r'" "block_loop n X rpc start (blk_hash p) (res @ [b]) r1 =
        (if k' < n then Inr ((res @ [b]) @ rev (block_slice v start (Suc k'))) else Inl Diverges, r')"
      using Suc.IH [OF j(2) p] by blast
    have "ev r r'" using core_nodeD(2) [OF node j(3) r'(2)] .
    moreover have "block_loop (Suc n) X rpc start (blk_hash b) res r = block_loop n X rpc start (blk_hash p) (res @ [b]) r1"
      using j height parent Suc by simp
    ultimately show ?thesis using r' snoc Suc by auto
  qed
qed

text \<open>The first loop ends with nothing when the chain of some moment ends below the start, and else with
  the hash of the last requested block of that chain.\<close>

definition end_hash_found ::
  "('r \<Rightarrow> mainchain) \<Rightarrow> ('r \<Rightarrow> nat) \<Rightarrow> nat \<Rightarrow> nat \<Rightarrow> string option \<Rightarrow> 'r \<Rightarrow> bool" where
  "end_hash_found view tip start endHeight res r \<longleftrightarrow>
     (case res of None \<Rightarrow> tip r < start
      | Some h \<Rightarrow> start \<le> tip r \<and> (\<exists>b. view r (min (tip r) endHeight) = Some b \<and> blk_hash b = h))"

lemma int32_small: "n \<le> 2147483647 \<Longrightarrow> int32_of n = int n"
  by (simp add: int32_of_def Let_def)

lemma end_hash_loop_ok:
  assumes node: "core_node X rpc T view tip up ev"
  shows "up r \<Longrightarrow> start \<le> endHeight \<Longrightarrow>
     \<exists>a r'. end_hash_loop n X rpc start endHeight r = (a, r') \<and> up r' \<and> ev r r' \<and>
       (a = Inl Diverges \<or> (\<exists>res r1. a = Inr res \<and> up r1 \<and> ev r r1 \<and> ev r1 r' \<and> end_hash_found view tip start endHeight res r1))"
proof (induction n arbitrary: r)
  case 0
  then show ?case using core_nodeD(1) [OF node] by auto
next
  case (Suc n)
  obtain j r1 b where j: "rpc_getblockchaininfo rpc r = (Inr j, r1)" "up r1" "ev r r1" "isObject j" "view r (tip r) = Some b"
      "json_get j ''blocks'' = JInt (int (tip r))" "json_get j ''bestblockhash'' = JString (blk_hash b)"
    using core_nodeD(7) [OF node Suc.prems(1)] by blast
  have small: "tip r \<le> 2147483647" using core_nodeD(5) [OF node Suc.prems(1)] .
  have at: "json_at j k = Inr (json_get j k)" for k using j(4) by (auto simp: isObject_iff)
  note refl = core_nodeD(1) [OF node] and trans = core_nodeD(2) [OF node]
  have blocks: "bindE (json_at j ''blocks'') (asUInt64 (cl_json X)) = Inr (tip r)" using small by (simp add: at j(6))
  consider "tip r < start" | "start \<le> tip r" "tip r \<le> endHeight" | "endHeight < tip r" by linarith
  then show ?case
  proof cases
    case 1
    with j(1-3) blocks Suc.prems(1) refl show ?thesis
      by (auto simp: end_hash_found_def intro!: exI [of _ "None"] exI [of _ r])
  next
    case 2
    have "string_at (cl_json X) j ''bestblockhash'' = Inr (blk_hash b)" by (simp add: string_at_def at j(7))
    with 2 j(1-3,5) blocks Suc.prems(1) refl show ?thesis
      by (auto simp: end_hash_found_def min_absorb1 intro!: exI [of _ r])
  next
    case 3
    obtain r2 msg where q: "up r2" "ev r1 r2" "rpc_getblockhash rpc (int endHeight) r1 =
        (case view r1 endHeight of None \<Rightarrow> Inl (Throw (JsonRpcException (-8) msg)) | Some b \<Rightarrow> Inr (blk_hash b), r2)"
      using core_nodeD(8) [OF node j(2)] by blast
    have i: "int32_of endHeight = int endHeight" using 3 small by (simp add: int32_small)
    have ev: "ev r r2" using trans j(3) q(2) by blast
    show ?thesis
    proof (cases "view r1 endHeight")
      case None
      from Suc.IH [OF q(1) Suc.prems(2)] obtain a r' where ih: "end_hash_loop n X rpc start endHeight r2 = (a, r')" "up r'" "ev r2 r'"
          "a = Inl Diverges \<or> (\<exists>res r1. a = Inr res \<and> up r1 \<and> ev r2 r1 \<and> ev r1 r' \<and> end_hash_found view tip start endHeight res r1)"
        by blast
      have "end_hash_loop (Suc n) X rpc start endHeight r = (a, r')"
        using 3 Suc.prems(2) j(1) blocks i q(3) None ih(1) by (simp add: catchRpc_def)
      moreover have "ev r r'" "\<And>r1. ev r2 r1 \<Longrightarrow> ev r r1" using trans ev ih(3) by blast+
      ultimately show ?thesis using ih(2,4) by blast
    next
      case (Some c)
      have "endHeight \<le> tip r1" using mainchain_okD(2) [OF core_nodeD(3) [OF node j(2)] Some] .
      then have "end_hash_found view tip start endHeight (Some (blk_hash c)) r1"
        using Some Suc.prems(2) by (simp add: end_hash_found_def min_absorb2)
      moreover have "end_hash_loop (Suc n) X rpc start endHeight r = (Inr (Some (blk_hash c)), r2)"
        using 3 Suc.prems(2) j(1) blocks i q(3) Some by (simp add: catchRpc_def)
      ultimately show ?thesis using q(1,2) ev j(2,3) by blast
    qed
  qed
qed

lemma slice_below_start: "mainchain_ok v t \<Longrightarrow> t < s \<Longrightarrow> block_slice v s n = []"
  using mainchain_okD(2) [of v t s] by (cases n; cases "v s") fastforce+

lemma end_height: "0 < count \<Longrightarrow> start + count \<le> i64_max \<Longrightarrow> u64_sub (u64_add start count) 1 = start + count - 1"
  by (simp add: u64_add_exact u64_sub_exact)

text \<open>A block range is the slice of the main chain the node had at one moment during the call.\<close>

lemma Core_GetBlockRange_snapshot:
  assumes node: "core_node X rpc T view tip up ev" and up: "up (cc_node s)" and fits: "start + count \<le> i64_max"
  shows "\<exists>a s'. Core_GetBlockRange fuel X rpc start count s = (a, s') \<and> up (cc_node s') \<and> ev (cc_node s) (cc_node s') \<and>
    (a = Inl Diverges \<or> (\<exists>r. up r \<and> ev (cc_node s) r \<and> ev r (cc_node s') \<and> a = Inr (block_slice (view r) start count)))"
proof (cases "count = 0")
  case True
  then show ?thesis using up core_nodeD(1) [OF node] by (auto simp: Core_GetBlockRange_def)
next
  case False
  define e where "e = start + count - 1"
  have e: "u64_sub (u64_add start count) 1 = e" "start \<le> e" using False fits end_height by (auto simp: e_def)
  note refl = core_nodeD(1) [OF node] and trans = core_nodeD(2) [OF node]
  obtain a r' where a: "end_hash_loop fuel X rpc start e (cc_node s) = (a, r')" "up r'" "ev (cc_node s) r'"
      "a = Inl Diverges \<or> (\<exists>res r1. a = Inr res \<and> up r1 \<and> ev (cc_node s) r1 \<and> ev r1 r' \<and> end_hash_found view tip start e res r1)"
    using end_hash_loop_ok [OF node up e(2)] by blast
  show ?thesis
  proof (cases a)
    case (Inl err)
    then show ?thesis using a False e by (auto simp: Core_GetBlockRange_def cc_rpc_def zoomM_simp)
  next
    case (Inr res)
    then obtain r1 where r1: "up r1" "ev (cc_node s) r1" "ev r1 r'" "end_hash_found view tip start e res r1" using a(4) by auto
    have ok: "mainchain_ok (view r1) (tip r1)" using core_nodeD(3) [OF node r1(1)] .
    show ?thesis
    proof (cases res)
      case None
      then have "block_slice (view r1) start count = []" using r1(4) slice_below_start [OF ok] by (simp add: end_hash_found_def)
      then show ?thesis using a(1-3) Inr None r1(1-3) False e
        by (auto simp: Core_GetBlockRange_def cc_rpc_def zoomM_simp)
    next
      case (Some h)
      define k where "k = min (tip r1) e - start"
      obtain b where b: "view r1 (start + k) = Some b" "blk_hash b = h" and le: "start \<le> tip r1"
        using r1(4) Some e(2) by (auto simp: end_hash_found_def k_def)
      have "\<forall>h b. view r1 h = Some b \<longrightarrow> T (blk_hash b) = Some b" using core_nodeD(6) [OF node r1(1)] by blast
      from block_loop_ok [OF node ok core_nodeD(4) [OF node r1(1)] this a(2) b(1), of fuel "[]"]
      obtain r2 where r2: "up r2" "ev r' r2" "block_loop fuel X rpc start h [] r' =
          (if k < fuel then Inr (rev (block_slice (view r1) start (Suc k))) else Inl Diverges, r2)"
        using b(2) by auto
      have "view r1 start \<noteq> None" using full_chain [OF ok core_nodeD(4) [OF node r1(1)] le] by auto
      moreover have "Suc k = min count (Suc (tip r1) - start)" using False le by (auto simp: k_def e_def)
      ultimately have "block_slice (view r1) start (Suc k) = block_slice (view r1) start count"
        using slice_cap [OF ok] by metis
      then have "Core_GetBlockRange fuel X rpc start count s =
          (if k < fuel then Inr (block_slice (view r1) start count) else Inl Diverges, s\<lparr>cc_node := r2\<rparr>)"
        using a(1) Inr Some r2(3) False e by (simp add: Core_GetBlockRange_def cc_rpc_def zoomM_simp)
      moreover have "ev (cc_node s) r2" "ev r1 r2" using trans a(3) r1(3) r2(2) by blast+
      ultimately show ?thesis using r2(1) r1(1,2) by (cases "k < fuel") auto
    qed
  qed
qed

text \<open>The bounds of the loops are enough for a node that does not change during the call.\<close>

definition same_chain_as :: "('r \<Rightarrow> mainchain) \<Rightarrow> ('r \<Rightarrow> nat) \<Rightarrow> 'r \<Rightarrow> 'r \<Rightarrow> bool" where
  "same_chain_as view tip r r' \<longleftrightarrow> view r' = view r \<and> tip r' = tip r"

lemma Core_GetBlockRange_ends:
  assumes node: "core_node X rpc T view tip up (same_chain_as view tip)" and up: "up (cc_node s)"
    and fits: "start + count \<le> i64_max" and fuel: "tip (cc_node s) < fuel"
  shows "fst (Core_GetBlockRange fuel X rpc start count s) \<noteq> Inl Diverges"
proof (cases "count = 0")
  case False
  define e where "e = start + count - 1"
  have e: "u64_sub (u64_add start count) 1 = e" "start \<le> e" using False fits end_height by (auto simp: e_def)
  let ?r = "cc_node s"
  obtain n where n: "fuel = Suc n" using fuel by (cases fuel) auto
  note small = core_nodeD(5) [OF node up]
  obtain j r1 b where j: "rpc_getblockchaininfo rpc ?r = (Inr j, r1)" "up r1" "same_chain_as view tip ?r r1" "isObject j"
      "view ?r (tip ?r) = Some b" "json_get j ''blocks'' = JInt (int (tip ?r))" "json_get j ''bestblockhash'' = JString (blk_hash b)"
    using core_nodeD(7) [OF node up] by blast
  have at: "json_at j k = Inr (json_get j k)" for k using j(4) by (auto simp: isObject_iff)
  have blocks: "bindE (json_at j ''blocks'') (asUInt64 (cl_json X)) = Inr (tip ?r)" using small by (simp add: at j(6))
  have ends: "fst (end_hash_loop fuel X rpc start e ?r) \<noteq> Inl Diverges"
  proof (cases "e < tip ?r")
    case True
    then obtain c where "view r1 e = Some c"
      using full_chain [OF core_nodeD(3,4) [OF node up], of e] j(3) by (auto simp: same_chain_as_def)
    with core_nodeD(8) [OF node j(2), of e] obtain r2 where "rpc_getblockhash rpc (int e) r1 = (Inr (blk_hash c), r2)" by auto
    moreover have "int32_of e = int e" using True small by (simp add: int32_small)
    ultimately show ?thesis using True e(2) j(1) blocks by (simp add: n catchRpc_def)
  next
    case False
    then show ?thesis using j(1) blocks by (simp add: n string_at_def at j(7))
  qed
  obtain a r' where a: "end_hash_loop fuel X rpc start e ?r = (a, r')" "up r'" "same_chain_as view tip ?r r'"
      "a = Inl Diverges \<or> (\<exists>res r1. a = Inr res \<and> up r1 \<and> same_chain_as view tip ?r r1 \<and> same_chain_as view tip r1 r' \<and> end_hash_found view tip start e res r1)"
    using end_hash_loop_ok [OF node up e(2), of fuel] by blast
  have "a \<noteq> Inl Diverges" using ends a(1) by simp
  then obtain res r1 where res: "a = Inr res" "same_chain_as view tip ?r r1" "end_hash_found view tip start e res r1"
    using a(4) by blast
  from res(2,3) have found: "end_hash_found view tip start e res ?r"
    unfolding end_hash_found_def same_chain_as_def by (cases res) auto
  show ?thesis
  proof (cases res)
    case None
    then show ?thesis using a(1) res(1) False e by (simp add: Core_GetBlockRange_def cc_rpc_def zoomM_simp)
  next
    case (Some h)
    define k where "k = min (tip ?r) e - start"
    obtain c where c: "view ?r (start + k) = Some c" "blk_hash c = h"
      using found Some e(2) by (auto simp: end_hash_found_def k_def)
    have "\<forall>h b. view ?r h = Some b \<longrightarrow> T (blk_hash b) = Some b" using core_nodeD(6) [OF node up] by blast
    from block_loop_ok [OF node core_nodeD(3,4) [OF node up] this a(2) c(1), of fuel "[]"] c(2)
    obtain r2 where "block_loop fuel X rpc start h [] r' =
        (if k < fuel then Inr (rev (block_slice (view ?r) start (Suc k))) else Inl Diverges, r2)"
      by auto
    moreover have "k < fuel" using fuel by (simp add: k_def)
    ultimately show ?thesis using a(1) res(1) Some False e by (simp add: Core_GetBlockRange_def cc_rpc_def zoomM_simp)
  qed
qed (simp add: Core_GetBlockRange_def)

subsection \<open>The contract of a base chain\<close>

lemma Core_GetTipHeight_ok:
  assumes "core_node X rpc T view tip up ev" "up (cc_node s)"
  shows "\<exists>s'. Core_GetTipHeight X rpc s = (Inr (tip (cc_node s)), s') \<and> up (cc_node s') \<and> ev (cc_node s) (cc_node s')"
proof -
  obtain j r1 where j: "rpc_getblockchaininfo rpc (cc_node s) = (Inr j, r1)" "up r1" "ev (cc_node s) r1" "isObject j"
      "json_get j ''blocks'' = JInt (int (tip (cc_node s)))"
    using core_nodeD(7) [OF assms] by blast
  moreover have "json_at j ''blocks'' = Inr (json_get j ''blocks'')" using j(4) by (auto simp: isObject_iff)
  ultimately show ?thesis using core_nodeD(5) [OF assms] by (simp add: Core_GetTipHeight_def cc_rpc_def zoomM_simp)
qed

lemma Core_GetMainchainHeight_ok:
  assumes node: "core_node X rpc T view tip up ev" and up: "up (cc_node s)"
  shows "\<exists>h s'. Core_GetMainchainHeight X rpc hash s = (Inr h, s') \<and> mainheight_ok (view (cc_node s)) hash h \<and>
    up (cc_node s') \<and> ev (cc_node s) (cc_node s')"
proof -
  let ?r = "cc_node s"
  obtain a r' where a: "rpc_getblockheader rpc hash ?r = (a, r')" "up r'" "ev ?r r'"
      "case T hash of
         None \<Rightarrow> (\<exists>c msg. a = Inl (Throw (JsonRpcException c msg))) \<and> (\<forall>h b. view ?r h = Some b \<longrightarrow> blk_hash b \<noteq> hash)
       | Some b \<Rightarrow> \<exists>j. a = Inr j \<and> isObject j \<and>
           (if view ?r (blk_height b) = Some b
            then json_get j ''confirmations'' = JInt (int (Suc (tip ?r - blk_height b))) \<and>
                 json_get j ''height'' = JInt (int (blk_height b))
            else json_get j ''confirmations'' = JInt (-1))"
    using core_nodeD(10) [OF node up, of hash] by blast
  show ?thesis
  proof (cases "T hash")
    case None
    then show ?thesis using a
      by (auto simp: Core_GetMainchainHeight_def cc_rpc_def zoomM_simp catchRpc_def mainheight_ok_def)
  next
    case (Some b)
    then obtain j where j: "a = Inr j" "isObject j"
        "if view ?r (blk_height b) = Some b
            then json_get j ''confirmations'' = JInt (int (Suc (tip ?r - blk_height b))) \<and>
                 json_get j ''height'' = JInt (int (blk_height b))
            else json_get j ''confirmations'' = JInt (-1)" using a(4) by auto
    show ?thesis
    proof (cases "view ?r (blk_height b) = Some b")
      case True
      have b: "blk_height b \<le> tip ?r" "tip ?r \<le> 2147483647" "blk_hash b = hash"
        using mainchain_okD(2) [OF core_nodeD(3) [OF node up] True] core_nodeD(5) [OF node up] core_nodeD(11) [OF node Some] by auto
      then have "Core_GetMainchainHeight X rpc hash s = (Inr (int (blk_height b)), s\<lparr>cc_node := r'\<rparr>)"
        using a(1) j True by (simp add: Core_GetMainchainHeight_def cc_rpc_def zoomM_simp catchRpc_def asInt64_def int64_of_small)
      then show ?thesis using a(2,3) True b(3) by (auto simp: mainheight_ok_def)
    next
      case False
      have "blk_hash c \<noteq> hash" if c: "view ?r h = Some c" for h c
        using core_nodeD(6) [OF node up c] Some False c mainchain_okD(1) [OF core_nodeD(3) [OF node up] c] by auto
      then have "mainheight_ok (view ?r) hash (-1)" by (auto simp: mainheight_ok_def)
      moreover have "Core_GetMainchainHeight X rpc hash s = (Inr (-1), s\<lparr>cc_node := r'\<rparr>)"
        using a(1) j False by (simp add: Core_GetMainchainHeight_def cc_rpc_def zoomM_simp catchRpc_def asInt64_def)
      ultimately show ?thesis using a(2,3) by auto
    qed
  qed
qed

lemma CoreBase_contract:
  assumes node: "core_node X rpc T view tip up (same_chain_as view tip)"
  shows "base_chain (CoreBase fuel X rpc) (\<lambda>s. view (cc_node s)) (\<lambda>s. tip (cc_node s))
    (\<lambda>s. up (cc_node s) \<and> tip (cc_node s) < fuel)"
proof
  fix s :: "'a CoreChain" assume s: "up (cc_node s) \<and> tip (cc_node s) < fuel"
  then have up: "up (cc_node s)" by simp
  show "mainchain_ok (view (cc_node s)) (tip (cc_node s))" using core_nodeD(3) [OF node up] .
  show "\<exists>s'. bc_GetTipHeight (CoreBase fuel X rpc) s = (Inr (tip (cc_node s)), s') \<and> (up (cc_node s') \<and> tip (cc_node s') < fuel) \<and>
      view (cc_node s') = view (cc_node s) \<and> tip (cc_node s') = tip (cc_node s)"
    using Core_GetTipHeight_ok [OF node up] s by (auto simp: CoreBase_def same_chain_as_def)
  show "\<exists>r s'. bc_GetMainchainHeight (CoreBase fuel X rpc) hash s = (Inr r, s') \<and> mainheight_ok (view (cc_node s)) hash r \<and>
      (up (cc_node s') \<and> tip (cc_node s') < fuel) \<and> view (cc_node s') = view (cc_node s) \<and> tip (cc_node s') = tip (cc_node s)" for hash
    using Core_GetMainchainHeight_ok [OF node up, of hash] s by (auto simp: CoreBase_def same_chain_as_def)
  fix start count :: nat assume fits: "start + count \<le> i64_max"
  show "\<exists>s'. bc_GetBlockRange (CoreBase fuel X rpc) start count s = (Inr (block_slice (view (cc_node s)) start count), s') \<and>
      (up (cc_node s') \<and> tip (cc_node s') < fuel) \<and> view (cc_node s') = view (cc_node s) \<and> tip (cc_node s') = tip (cc_node s)"
    using Core_GetBlockRange_snapshot [OF node up fits, of fuel] Core_GetBlockRange_ends [OF node up fits, of fuel] s
    by (auto simp: CoreBase_def same_chain_as_def)
qed

subsection \<open>The listener\<close>

text \<open>The messages a node publishes: one of the topics that Xaya Core documents, a payload and a sequence number of
  four bytes.\<close>

fun node_message :: "string list \<Rightarrow> bool" where
  "node_message [t, p, q] \<longleftrightarrow> t \<in> {''hashblock'', ''hashtx'', ''rawblock'', ''rawtx'', ''sequence''} \<and> length q = 4"
| "node_message _ \<longleftrightarrow> False"

lemma node_message_hashblock:
  "node_message m \<Longrightarrow> sock_delivers [''hashblock''] m \<longleftrightarrow> hd m = ''hashblock''"
  by (cases m rule: node_message.cases) (auto simp: sock_delivers_def)

lemma hashblock_pass:
  assumes "node_message m" "hd m = ''hashblock''"
  shows "ReceiveLoop_pass X rpc cb (Some m) (r, w) =
    (fst (TipChanged cb (cl_Hexlify X (m ! 1)) w), (r, snd (TipChanged cb (cl_Hexlify X (m ! 1)) w)))"
  using assms by (cases m rule: node_message.cases) (auto simp: ReceiveLoop_pass_def HandleHashBlock_def zoomM_simp)

text \<open>Whatever the node publishes, the listener of \<^verbatim>\<open>Start\<close> reports the announced tips, in order, and never
  meets a topic it does not expect.\<close>

lemma listener_reports:
  assumes "\<forall>m\<in>set ms. node_message m"
    and "forM (map (\<lambda>m. cl_Hexlify X (m ! 1)) (filter (\<lambda>m. hd m = ''hashblock'') ms)) (TipChanged cb) w = (Inr (), w')"
  shows "ZmqListener_work X rpc cb (map Some (filter (sock_delivers [''hashblock'']) ms)) (r, w) = (Inr (), (r, w'))"
proof -
  have "filter (sock_delivers [''hashblock'']) ms = filter (\<lambda>m. hd m = ''hashblock'') ms"
    using assms(1) node_message_hashblock by (intro filter_cong) auto
  moreover have "Core_ReceiveLoop X rpc cb (map Some ns) (r, w) = (Inr (), (r, w'))"
    if "\<forall>m\<in>set ns. node_message m \<and> hd m = ''hashblock''" "forM (map (\<lambda>m. cl_Hexlify X (m ! 1)) ns) (TipChanged cb) w = (Inr (), w')" for ns w
    using that
  proof (induction ns arbitrary: w)
    case (Cons n ns)
    then obtain w1 where "TipChanged cb (cl_Hexlify X (n ! 1)) w = (Inr (), w1)"
        "forM (map (\<lambda>m. cl_Hexlify X (m ! 1)) ns) (TipChanged cb) w1 = (Inr (), w')" by (auto simp: prog_Inr)
    with Cons hashblock_pass [of n X rpc cb r w] show ?case by simp
  qed simp
  ultimately show ?thesis using assms by (simp add: ZmqListener_work_def)
qed

end
