(* ===== verification/CoreTypes.thy ===== *)
theory CoreTypes
  imports CoreChainProofs ZmqContent
begin

text \<open>
  Whatever the node answers, a block the connector accepts has the form the rest of the program relies
  on: it can be stored, and the publisher can send it.
\<close>

subsection \<open>Moves\<close>

lemma add_amount_ok: "smap_ok m \<Longrightarrow> smap_ok (add_amount k v m)"
  by (auto simp: add_amount_def Let_def intro!: smap_ok_set smap_ok_emplace)

lemma vout_loop_ok:
  "vout_loop X outs oa bs nm = Inr (oa', bs', nm') \<Longrightarrow> smap_ok oa \<Longrightarrow> smap_ok bs \<Longrightarrow> smap_ok oa' \<and> smap_ok bs'"
proof (induction X outs oa bs nm rule: vout_loop.induct)
  case (2 X out outs oa bs nm)
  have a: "smap_ok m'" if "vout_address X out s m = Inr m'" "smap_ok m" for s m m'
    using that by (auto simp: vout_address_def bindE_eq_Inr Let_def add_amount_ok split: if_splits)
  have b: "smap_ok m'" if "vout_burn X out s m = Inr m'" "smap_ok m" for s m m'
    using that by (auto simp: vout_burn_def bindE_eq_Inr Let_def add_amount_ok split: if_splits option.splits)
  from 2 a b show ?case by (auto simp: bindE_eq_Inr checkE_eq_Inr Let_def split: if_splits)
qed simp

definition move_ok :: "MoveData \<Rightarrow> bool" where
  "move_ok mv \<longleftrightarrow> move_wf mv \<and> isObject (mv_metadata mv)"

lemma GetMoveFromTx_ok: "GetMoveFromTx X data = Inr (Some mv) \<Longrightarrow> move_ok mv"
  unfolding GetMoveFromTx_def
  by (auto simp: bindE_eq_Inr checkE_eq_Inr move_ok_def move_wf_def smap_ok_def comp_def case_prod_unfold Let_def
      split: if_splits dest!: vout_loop_ok)

lemma tx_loop_ok: "tx_loop X txs = Inr mvs \<Longrightarrow> list_all move_ok mvs"
  by (induction txs arbitrary: mvs) (auto simp: bindE_eq_Inr dest: GetMoveFromTx_ok split: option.splits)

text \<open>What the publisher relies on for the strict reader of moves: it accepts objects only, and the
  members of an object are ordered.\<close>

definition reader_ok :: "zmq_lib \<Rightarrow> bool" where
  "reader_ok Z \<longleftrightarrow> (\<forall>s v. json_read_strict Z s = Some v \<longrightarrow> isObject v \<and> smap_ok (members (json_get v ''g'')))"

lemma move_ok_sendable: "reader_ok Z \<Longrightarrow> move_ok mv \<Longrightarrow> tx_ok Z mv"
  by (auto simp: reader_ok_def move_ok_def tx_ok_def meta_ok_def ParseMoveJson_def split: option.splits)

lemma block_ok_sendable:
  assumes "list_all move_ok (blk_moves b)" "isObject (blk_metadata b)"
  shows "block_wf b" "reader_ok Z \<Longrightarrow> block_sendable Z b"
  using assms move_ok_sendable by (auto simp: block_wf_def block_sendable_def meta_ok_def list_all_iff move_ok_def)

lemma ConstructBlockData_ok:
  "ConstructBlockData X data = Inr b \<Longrightarrow> list_all move_ok (blk_moves b) \<and> isObject (blk_metadata b)"
  unfolding ConstructBlockData_def by (auto simp: bindE_eq_Inr checkE_eq_Inr dest: tx_loop_ok)

end
