(* ===== verification/EthProofs.thy ===== *)
theory EthProofs
  imports EthChain CoreTypes
begin

text \<open>
  What the Ethereum connector gives.  For any node at all, a block range it returns is a chain: it
  starts at the requested height, and every block is the child of the one before it.  For a node that
  answers as documented (\<open>eth_node\<close>) the connector keeps the contract of a base chain, on the path that
  asks for the logs of each block as well as on the fast path.
\<close>

subsection \<open>Blocks without their moves\<close>

definition base_data :: "BlockData \<Rightarrow> BlockData" where
  "base_data b = b\<lparr>blk_moves := []\<rparr>"

lemma base_data_sel [simp]:
  "blk_hash (base_data b) = blk_hash b" "blk_parent (base_data b) = blk_parent b" "blk_height (base_data b) = blk_height b"
  "blk_metadata (base_data b) = blk_metadata b" "blk_moves (base_data b) = []"
  by (simp_all add: base_data_def)

lemma base_data_eqD:
  "base_data a = base_data b \<Longrightarrow> blk_hash a = blk_hash b \<and> blk_parent a = blk_parent b \<and> blk_height a = blk_height b \<and>
     blk_metadata a = blk_metadata b"
  by (metis base_data_sel)

text \<open>Whether blocks form a chain does not depend on their moves.\<close>

lemma linked_base: "linked (map base_data bs) = linked bs"
  by (induction bs rule: linked.induct) auto

definition chain_from :: "nat \<Rightarrow> BlockData list \<Rightarrow> bool" where
  "chain_from s bs \<longleftrightarrow> linked bs \<and> (bs \<noteq> [] \<longrightarrow> blk_height (hd bs) = s)"

lemma chain_from_base: "map base_data bs = map base_data cs \<Longrightarrow> chain_from s bs = chain_from s cs"
proof -
  assume eq: "map base_data bs = map base_data cs"
  then have "linked bs = linked cs" by (metis linked_base)
  moreover have "bs \<noteq> [] \<Longrightarrow> blk_height (hd bs) = blk_height (hd cs)" "bs = [] \<longleftrightarrow> cs = []"
    using eq by (cases bs; cases cs; auto dest: base_data_eqD)+
  ultimately show ?thesis by (auto simp: chain_from_def)
qed

lemma chain_from_last: "chain_from s bs \<Longrightarrow> bs \<noteq> [] \<Longrightarrow> blk_height (last bs) = s + length bs - 1"
proof (induction bs arbitrary: s rule: linked.induct)
  case (1 a b bs)
  then have "chain_from (Suc s) (b # bs)" by (auto simp: chain_from_def)
  with 1 show ?case by simp
qed (auto simp: chain_from_def)

lemma chain_from_snoc:
  "chain_from s bs \<Longrightarrow> bs \<noteq> [] \<Longrightarrow> blk_parent b = blk_hash (last bs) \<Longrightarrow> blk_height b = Suc (blk_height (last bs)) \<Longrightarrow>
     chain_from s (bs @ [b])"
  by (auto simp: chain_from_def linked_append)

subsection \<open>Any node\<close>

lemma ExtractBaseData_ok: "ExtractBaseData E j = Inr b \<Longrightarrow> blk_moves b = [] \<and> isObject (blk_metadata b)"
  by (auto simp: ExtractBaseData_def bindE_eq_Inr)

lemma collect_blocks_chain:
  "collect_blocks E (int s) answers res = Inr (Some bs) \<Longrightarrow> s + length res + length answers \<le> u64_max \<Longrightarrow>
     chain_from s res \<Longrightarrow> \<forall>b\<in>set res. blk_moves b = [] \<and> isObject (blk_metadata b) \<Longrightarrow>
     chain_from s bs \<and> length bs = length res + length answers \<and> (\<forall>b\<in>set bs. blk_moves b = [] \<and> isObject (blk_metadata b))"
proof (induction E "int s" answers res rule: collect_blocks.induct)
  case (2 E err blockJson answers res)
  obtain blk where blk: "ExtractBaseData E blockJson = Inr blk" "\<not> isNull blockJson" "err = 0"
    using "2.prems"(1) by (auto simp: bindE_eq_Inr checkE_eq_Inr split: if_splits)
  have ok: "blk_moves blk = [] \<and> isObject (blk_metadata blk)" using ExtractBaseData_ok [OF blk(1)] .
  show ?case
  proof (cases "res = []")
    case True
    then have h: "blk_height blk = s" and rec: "collect_blocks E (int s) answers [blk] = Inr (Some bs)"
      using "2.prems"(1,2) blk by (auto simp: bindE_eq_Inr checkE_eq_Inr u64_of_int_exact)
    have "chain_from s [blk]" using h by (simp add: chain_from_def)
    with "2.hyps"(1) [OF blk(2) True rec] "2.prems"(2) True ok show ?thesis by simp
  next
    case False
    have last: "blk_height (last res) = s + length res - 1" using chain_from_last [OF "2.prems"(3) False] .
    then have "u64_add (blk_height (last res)) 1 = Suc (blk_height (last res))"
      using "2.prems"(2) by (simp add: u64_add_exact)
    then have h: "blk_height blk = Suc (blk_height (last res))" "blk_parent blk = blk_hash (last res)"
      and rec: "collect_blocks E (int s) answers (res @ [blk]) = Inr (Some bs)"
      using "2.prems"(1) blk False by (auto simp: bindE_eq_Inr checkE_eq_Inr split: if_splits)
    have "chain_from s (res @ [blk])" using chain_from_snoc [OF "2.prems"(3) False h(2,1)] .
    with "2.hyps"(2) [OF blk(2) False _ rec] h(2) "2.prems"(2,4) ok show ?thesis by auto
  qed
qed simp

text \<open>Processing logs changes the moves of the blocks only, and adds moves in the form the publisher needs.\<close>

lemma GetMoveDataFromLogs_ok: "run_dec (GetMoveDataFromLogs E) d = Inr mv \<Longrightarrow> mv_burns mv = [] \<and> isObject (mv_metadata mv)"
proof -
  assume "run_dec (GetMoveDataFromLogs E) d = Inr mv"
  then obtain d' where "GetMoveDataFromLogs E d = (Inr mv, d')" by (metis run_dec_def prod.collapse)
  then show ?thesis by (auto simp: GetMoveDataFromLogs_def prog_Inr Let_def split: option.splits if_splits)
qed

lemma ExtractMove_ok: "ExtractMove E j = Inr mv \<Longrightarrow> move_ok mv"
  by (auto simp: ExtractMove_def bindE_eq_Inr move_ok_def move_wf_def dest!: GetMoveDataFromLogs_ok)

definition ext_of :: "BlockData \<Rightarrow> BlockMoveExtractor \<Rightarrow> bool" where
  "ext_of b x \<longleftrightarrow> base_data (bm_blk x) = base_data b \<and> list_all move_ok (blk_moves (bm_blk x))"

lemma ProcessLogEntry_Inr:
  assumes "ProcessLogEntry E acc l x = Inr x'"
  obtains mv i where "ExtractMove E l = Inr mv" "indices_less (bm_lastIndices x) i"
    "bindE (string_at (el_json E) l ''blockHash'') ConvertUint256 = Inr (blk_hash (bm_blk x))"
    "x' = \<lparr>bm_blk = (bm_blk x)\<lparr>blk_moves := blk_moves (bm_blk x) @ [mv]\<rparr>, bm_lastIndices = i\<rparr>"
  using assms by (auto simp: ProcessLogEntry_def bindE_eq_Inr checkE_eq_Inr split: option.splits)

lemma ProcessLogEntry_ok:
  assumes "ProcessLogEntry E acc l x = Inr x'" "ext_of b x"
  shows "ext_of b x'"
proof -
  obtain mv i where "ExtractMove E l = Inr mv"
      "x' = \<lparr>bm_blk = (bm_blk x)\<lparr>blk_moves := blk_moves (bm_blk x) @ [mv]\<rparr>, bm_lastIndices = i\<rparr>"
    using ProcessLogEntry_Inr [OF assms(1)] by metis
  then show ?thesis using assms(2) ExtractMove_ok by (auto simp: ext_of_def base_data_def)
qed

lemma process_logs_ok: "process_logs E acc ls x = Inr x' \<Longrightarrow> ext_of b x \<Longrightarrow> ext_of b x'"
  by (induction ls arbitrary: x) (auto simp: bindE_eq_Inr dest: ProcessLogEntry_ok)

lemma ext_of_new: "blk_moves b = [] \<Longrightarrow> ext_of b (BlockMoveExtractor_new b)"
  by (simp add: ext_of_def BlockMoveExtractor_new_def)

lemma moves_one_by_one_ok:
  "moves_one_by_one E acc xs = Inr (Some bs) \<Longrightarrow> \<forall>x\<in>set xs. blk_moves (fst x) = [] \<Longrightarrow>
     map base_data bs = map (base_data \<circ> fst) xs \<and> (\<forall>b\<in>set bs. list_all move_ok (blk_moves b))"
proof (induction E acc xs arbitrary: bs rule: moves_one_by_one.induct)
  case (2 E acc blk err logs rest)
  then obtain x bs' where x: "process_logs E acc (json_elems logs) (BlockMoveExtractor_new blk) = Inr x"
      "moves_one_by_one E acc rest = Inr (Some bs')" "bs = bm_blk x # bs'"
    by (auto simp: bindE_eq_Inr checkE_eq_Inr split: if_splits option.splits)
  have "ext_of blk x" using process_logs_ok [OF x(1)] ext_of_new "2.prems"(2) by simp
  with x(3) "2.IH" [OF _ x(2)] "2.prems" show ?case
    by (auto simp: ext_of_def split: if_splits)
qed simp

lemma process_at_ok:
  "process_at E acc hash l xs = Inr xs' \<Longrightarrow> list_all2 ext_of bs xs \<Longrightarrow> list_all2 ext_of bs xs'"
  by (induction xs arbitrary: bs xs')
     (auto simp: bindE_eq_Inr list_all2_Cons2 dest: ProcessLogEntry_ok split: if_splits)

lemma process_range_ok:
  "process_range E acc ls xs = Inr xs' \<Longrightarrow> list_all2 ext_of bs xs \<Longrightarrow> list_all2 ext_of bs xs'"
  by (induction ls arbitrary: xs) (auto simp: bindE_eq_Inr dest: process_at_ok)

lemma ext_of_all:
  "list_all2 ext_of bs xs \<Longrightarrow> map base_data (map bm_blk xs) = map base_data bs \<and> (\<forall>b\<in>set (map bm_blk xs). list_all move_ok (blk_moves b))"
  by (induction bs xs rule: list_all2_induct) (auto simp: ext_of_def)

definition range_ok :: "nat \<Rightarrow> nat \<Rightarrow> BlockData list \<Rightarrow> bool" where
  "range_ok s n bs \<longleftrightarrow> chain_from s bs \<and> length bs \<le> n \<and> (\<forall>b\<in>set bs. list_all move_ok (blk_moves b) \<and> isObject (blk_metadata b))"

lemma range_ok_base:
  assumes "chain_from s blocks" "length blocks \<le> n" "\<forall>b\<in>set blocks. isObject (blk_metadata b)"
    and "map base_data bs = map base_data blocks" "\<forall>b\<in>set bs. list_all move_ok (blk_moves b)"
  shows "range_ok s n bs"
proof -
  have "isObject (blk_metadata b)" if b: "b \<in> set bs" for b
  proof -
    have "base_data b \<in> set (map base_data blocks)" using b assms(4) by (metis image_eqI list.set_map)
    then obtain c where "c \<in> set blocks" "base_data b = base_data c" by auto
    then show ?thesis using assms(3) base_data_eqD by metis
  qed
  moreover have "length bs = length blocks" using assms(4) by (metis length_map)
  ultimately show ?thesis using assms chain_from_base [OF assms(4)] by (auto simp: range_ok_def)
qed

lemma answers_blocks: "map fst (map (\<lambda>(i, blk). (blk, f i)) (enumerate n blocks)) = blocks"
  by (induction blocks arbitrary: n) auto

lemma TryBlockRange_ok:
  assumes "TryBlockRange E rpc fast acc (int s) (int s + int n - 1) r = (Inr (Some bs), r')" "s + n \<le> i64_max"
  shows "range_ok s n bs"
proof -
  obtain t tip r1 where t: "rpc_eth_blockNumber rpc r = (Inr t, r1)" "el_ParseInt E t = Inr tip"
    using assms(1) by (auto simp: TryBlockRange_def prog_Inr Let_def split: if_splits)
  define e where "e = (if tip < int s + int n - 1 then tip else int s + int n - 1)"
  show ?thesis
  proof (cases "e < int s")
    case True
    then show ?thesis using assms(1) t by (auto simp: TryBlockRange_def e_def range_ok_def chain_from_def Let_def split: if_splits)
  next
    case False
    let ?hs = "[int s..e]"
    obtain resp r2 blocks where c: "rpc_CallProcedures rpc (map block_request ?hs) r1 = (Inr resp, r2)"
        "collect_blocks E (int s) (map resp [0..<length ?hs]) [] = Inr (Some blocks)"
      and fin: "(if e + fast < tip then bindM (AddMovesFromHeightRange E rpc acc blocks) (\<lambda>bs. ret (Some bs))
                 else AddMovesOneByOne E rpc acc blocks) r2 = (Inr (Some bs), r')"
    proof -
      have "bindM (rpc_CallProcedures rpc (map block_request ?hs)) (\<lambda>resp.
         bindM (liftE (collect_blocks E (int s) (map resp [0..<length ?hs]) [])) (\<lambda>res.
           case res of
             None \<Rightarrow> ret None
           | Some blocks \<Rightarrow>
               thenM (CHECK (blocks \<noteq> [] \<and> blk_height (last blocks) = u64_of_int e))
                 (if \<not> in_int64 (e + fast) then failM Undefined
                  else if e + fast < tip
                  then bindM (AddMovesFromHeightRange E rpc acc blocks) (\<lambda>bs. ret (Some bs))
                  else AddMovesOneByOne E rpc acc blocks))) r1 = (Inr (Some bs), r')"
        using assms(1) t False unfolding e_def by (simp add: TryBlockRange_def Let_def)
      then obtain resp r2 res where "rpc_CallProcedures rpc (map block_request ?hs) r1 = (Inr resp, r2)"
          "collect_blocks E (int s) (map resp [0..<length ?hs]) [] = Inr res"
          "(case res of None \<Rightarrow> ret None
           | Some blocks \<Rightarrow>
               thenM (CHECK (blocks \<noteq> [] \<and> blk_height (last blocks) = u64_of_int e))
                 (if \<not> in_int64 (e + fast) then failM Undefined
                  else if e + fast < tip
                  then bindM (AddMovesFromHeightRange E rpc acc blocks) (\<lambda>bs. ret (Some bs))
                  else AddMovesOneByOne E rpc acc blocks)) r2 = (Inr (Some bs), r')"
        by (auto simp: bindM_eq_Inr)
      then show thesis using that [of resp r2] by (cases res) (auto simp: thenM_eq_Inr CHECK_eq_Inr split: if_splits)
    qed
    have len: "s + length ?hs \<le> s + n" using False by (auto simp: e_def)
    have "chain_from s ([] :: BlockData list)" by (simp add: chain_from_def)
    with collect_blocks_chain [OF c(2)] len assms(2)
    have b: "chain_from s blocks" "length blocks = length ?hs" "\<forall>b\<in>set blocks. blk_moves b = [] \<and> isObject (blk_metadata b)"
      by auto
    have news: "list_all2 ext_of blocks (map BlockMoveExtractor_new blocks)"
      using b(3) by (simp add: list_all2_conv_all_nth ext_of_new)
    have "map base_data bs = map base_data blocks \<and> (\<forall>b\<in>set bs. list_all move_ok (blk_moves b))"
    proof (cases "e + fast < tip")
      case True
      then obtain logs xs where "process_range E acc (json_elems logs) (map BlockMoveExtractor_new blocks) = Inr xs" "bs = map bm_blk xs"
        using fin by (auto simp: AddMovesFromHeightRange_def prog_Inr split: if_splits)
      with process_range_ok [OF _ news] ext_of_all show ?thesis by blast
    next
      case False
      then obtain resp' where "moves_one_by_one E acc (map (\<lambda>(i, blk). (blk, resp' i)) (enumerate 0 blocks)) = Inr (Some bs)"
        using fin by (auto simp: AddMovesOneByOne_def prog_Inr)
      from moves_one_by_one_ok [OF this] b(3) show ?thesis
        using answers_blocks [of resp' 0 blocks] by (metis (no_types, lifting) image_eqI list.map_comp list.set_map)
    qed
    then show ?thesis using range_ok_base [of s blocks n bs] b len by auto
  qed
qed

lemma try_loop_ok:
  "try_loop fuel E rpc fast acc (int s) (int s + int n - 1) r = (Inr bs, r') \<Longrightarrow> s + n \<le> i64_max \<Longrightarrow> range_ok s n bs"
proof (induction fuel arbitrary: r)
  case (Suc fuel)
  then obtain res r1 where "TryBlockRange E rpc fast acc (int s) (int s + int n - 1) r = (Inr res, r1)"
      "(case res of None \<Rightarrow> try_loop fuel E rpc fast acc (int s) (int s + int n - 1) | Some bs \<Rightarrow> ret bs) r1 = (Inr bs, r')"
    by (auto simp: bindM_eq_Inr)
  with Suc.IH [of r1] Suc.prems(2) TryBlockRange_ok [of E rpc fast acc s n r _ r1] show ?case
    by (cases res) auto
qed simp

lemma heights_int64: "0 < count \<Longrightarrow> start + count \<le> i64_max \<Longrightarrow>
    int64_of start = int start \<and> int64_of (start + count - 1) = int start + int count - 1"
  by (simp add: int64_of_small of_nat_diff)

lemma Eth_GetBlockRange_ok:
  assumes "Eth_GetBlockRange fuel E rpc fast start count s = (Inr bs, s')" "start + count \<le> i64_max"
  shows "range_ok start count bs"
proof (cases "count = 0")
  case True
  then show ?thesis using assms(1) by (simp add: Eth_GetBlockRange_def range_ok_def chain_from_def)
next
  case False
  then obtain r' where "try_loop fuel E rpc fast (ec_accountsContract s) (int start) (int start + int count - 1) (ec_node s) = (Inr bs, r')"
    using assms end_height [of count start] heights_int64 [of count start]
    by (auto simp: Eth_GetBlockRange_def ec_rpc_def zoomM_simp prod_eq_iff)
  from try_loop_ok [OF this assms(2)] show ?thesis .
qed

subsection \<open>A node that answers as documented\<close>

text \<open>The answers of a reachable node with main chain \<open>view r\<close>, which does not change during the calls.
  \<open>ans\<close> is the answer to a call in a batch, \<open>logs\<close> the move events of a block in their order.\<close>

definition eth_tip_ok :: "'d eth_lib \<Rightarrow> 'r EthRpcClient \<Rightarrow> ('r \<Rightarrow> mainchain) \<Rightarrow> ('r \<Rightarrow> nat) \<Rightarrow> ('r \<Rightarrow> bool) \<Rightarrow> 'r \<Rightarrow> bool" where
  "eth_tip_ok E rpc view tip up r \<longleftrightarrow>
     mainchain_ok (view r) (tip r) \<and> view r 0 \<noteq> None \<and> tip r < 2 ^ 62 \<and>
     (\<exists>t r'. rpc_eth_blockNumber rpc r = (Inr t, r') \<and> up r' \<and> same_chain_as view tip r r' \<and> el_ParseInt E t = Inr (int (tip r)))"

definition eth_batch_ok ::
  "'r EthRpcClient \<Rightarrow> ('r \<Rightarrow> batch_call \<Rightarrow> int \<times> json) \<Rightarrow> ('r \<Rightarrow> mainchain) \<Rightarrow> ('r \<Rightarrow> nat) \<Rightarrow> ('r \<Rightarrow> bool) \<Rightarrow> 'r \<Rightarrow> bool" where
  "eth_batch_ok rpc ans view tip up r \<longleftrightarrow>
     (\<forall>req. \<exists>resp r'. rpc_CallProcedures rpc req r = (Inr resp, r') \<and> up r' \<and> same_chain_as view tip r r' \<and>
        (\<forall>i<length req. resp i = ans r (req ! i))) \<and>
     (\<forall>opt. \<exists>r'. rpc_eth_getLogs rpc opt r = (Inr (snd (ans r (''eth_getLogs'', JArray [opt]))), r') \<and>
        up r' \<and> same_chain_as view tip r r') \<and>
     (\<forall>r'. same_chain_as view tip r r' \<longrightarrow> ans r' = ans r)"

text \<open>The block at a height, its move events, and the events of a range of heights.\<close>

definition eth_blocks_ok ::
  "'d eth_lib \<Rightarrow> string \<Rightarrow> (batch_call \<Rightarrow> int \<times> json) \<Rightarrow> (BlockData \<Rightarrow> json list) \<Rightarrow> mainchain \<Rightarrow> bool" where
  "eth_blocks_ok E acc an logs v \<longleftrightarrow>
     (\<forall>h b. v h = Some b \<longrightarrow>
        (\<exists>j. an (block_request (int h)) = (0, j) \<and> isObject j \<and> ExtractBaseData E j = Inr (base_data b)) \<and>
        an (logs_request E acc b) = (0, JArray (logs b)) \<and>
        (\<exists>x. process_logs E acc (logs b) (BlockMoveExtractor_new (base_data b)) = Inr x \<and> bm_blk x = b)) \<and>
     (\<forall>a z. a \<le> z \<and> v a \<noteq> None \<and> v z \<noteq> None \<longrightarrow>
        an (''eth_getLogs'', JArray [range_options E acc a z]) = (0, JArray (concat (map logs (block_slice v a (Suc z - a))))))"

text \<open>A block by its hash, and the block of the main chain at a height.\<close>

definition eth_lookup_ok :: "'d eth_lib \<Rightarrow> 'r EthRpcClient \<Rightarrow> ('r \<Rightarrow> mainchain) \<Rightarrow> ('r \<Rightarrow> nat) \<Rightarrow> ('r \<Rightarrow> bool) \<Rightarrow> 'r \<Rightarrow> bool" where
  "eth_lookup_ok E rpc view tip up r \<longleftrightarrow>
     (\<forall>hash. \<exists>j r'. rpc_eth_getBlockByHash rpc (''0x'' @ hash) False r = (Inr j, r') \<and> up r' \<and> same_chain_as view tip r r' \<and>
        (j = JNull \<and> (\<forall>h b. view r h = Some b \<longrightarrow> blk_hash b \<noteq> hash) \<or>
         isObject j \<and> (\<exists>n h. json_get j ''number'' = JString n \<and> el_ParseInt E n = Inr (int h) \<and>
           (\<forall>k b. view r k = Some b \<and> blk_hash b = hash \<longrightarrow> k = h)))) \<and>
     (\<forall>n h. el_ParseInt E n = Inr (int h) \<longrightarrow>
        (\<exists>j r'. rpc_eth_getBlockByNumber rpc n False r = (Inr j, r') \<and> up r' \<and> same_chain_as view tip r r' \<and>
           (case view r h of None \<Rightarrow> j = JNull | Some b \<Rightarrow> isObject j \<and> json_get j ''hash'' = JString (''0x'' @ blk_hash b))))"

definition eth_node ::
  "'d eth_lib \<Rightarrow> 'r EthRpcClient \<Rightarrow> string \<Rightarrow> ('r \<Rightarrow> batch_call \<Rightarrow> int \<times> json) \<Rightarrow> (BlockData \<Rightarrow> json list) \<Rightarrow>
     ('r \<Rightarrow> mainchain) \<Rightarrow> ('r \<Rightarrow> nat) \<Rightarrow> ('r \<Rightarrow> bool) \<Rightarrow> bool" where
  "eth_node E rpc acc ans logs view tip up \<longleftrightarrow>
     (\<forall>r. up r \<longrightarrow> eth_tip_ok E rpc view tip up r \<and> eth_batch_ok rpc ans view tip up r \<and>
        eth_blocks_ok E acc (ans r) logs (view r) \<and> eth_lookup_ok E rpc view tip up r)"

lemma eth_batchD:
  assumes "eth_batch_ok rpc ans view tip up r"
  shows "\<exists>resp r'. rpc_CallProcedures rpc req r = (Inr resp, r') \<and> up r' \<and> same_chain_as view tip r r' \<and>
      (\<forall>i<length req. resp i = ans r (req ! i))"
    "\<exists>r'. rpc_eth_getLogs rpc opt r = (Inr (snd (ans r (''eth_getLogs'', JArray [opt]))), r') \<and> up r' \<and> same_chain_as view tip r r'"
    "same_chain_as view tip r r' \<Longrightarrow> ans r' = ans r"
  using assms by (simp_all add: eth_batch_ok_def)

lemma eth_blocksD:
  assumes "eth_blocks_ok E acc an logs v" "v h = Some b"
  shows "\<exists>j. an (block_request (int h)) = (0, j) \<and> isObject j \<and> ExtractBaseData E j = Inr (base_data b)"
    "an (logs_request E acc b) = (0, JArray (logs b))"
    "\<exists>x. process_logs E acc (logs b) (BlockMoveExtractor_new (base_data b)) = Inr x \<and> bm_blk x = b"
    "h \<le> z \<Longrightarrow> v z = Some c \<Longrightarrow>
       an (''eth_getLogs'', JArray [range_options E acc h z]) = (0, JArray (concat (map logs (block_slice v h (Suc z - h)))))"
  using assms by (simp_all add: eth_blocks_ok_def)

subsection \<open>The events of a range\<close>

text \<open>Events that belong to one extractor are processed there.\<close>

lemma process_at_mid:
  assumes "\<forall>p\<in>set pre. blk_hash (bm_blk p) \<noteq> blk_hash (bm_blk x)" "ProcessLogEntry E acc l x = Inr x'"
  shows "process_at E acc (blk_hash (bm_blk x)) l (pre @ x # post) = Inr (pre @ x' # post)"
  using assms by (induction pre) auto

lemma process_range_mid:
  "process_logs E acc ls x = Inr x' \<Longrightarrow> \<forall>p\<in>set pre. blk_hash (bm_blk p) \<noteq> blk_hash (bm_blk x) \<Longrightarrow>
     process_range E acc (ls @ rest) (pre @ x # post) = process_range E acc rest (pre @ x' # post)"
proof (induction ls arbitrary: x)
  case (Cons l ls)
  then obtain y where y: "ProcessLogEntry E acc l x = Inr y" "process_logs E acc ls y = Inr x'" by (auto simp: bindE_eq_Inr)
  obtain mv i where e: "bindE (string_at (el_json E) l ''blockHash'') ConvertUint256 = Inr (blk_hash (bm_blk x))"
      "y = \<lparr>bm_blk = (bm_blk x)\<lparr>blk_moves := blk_moves (bm_blk x) @ [mv]\<rparr>, bm_lastIndices = i\<rparr>"
    using ProcessLogEntry_Inr [OF y(1)] by metis
  have "blk_hash (bm_blk y) = blk_hash (bm_blk x)" using e(2) by simp
  with Cons.IH [OF y(2)] Cons.prems(2) process_at_mid [OF Cons.prems(2) y(1)] e(1) show ?case by simp
qed simp

lemma process_range_all:
  assumes "\<forall>b\<in>set bs. \<exists>x. process_logs E acc (logs b) (BlockMoveExtractor_new (base_data b)) = Inr x \<and> bm_blk x = b"
    and "distinct (map blk_hash bs)"
  shows "\<exists>xs. process_range E acc (concat (map logs bs)) (map BlockMoveExtractor_new (map base_data bs)) = Inr xs \<and> map bm_blk xs = bs"
proof -
  have "\<exists>xs. process_range E acc (concat (map logs cs)) (pre @ map BlockMoveExtractor_new (map base_data cs)) = Inr (pre @ xs) \<and> map bm_blk xs = cs"
    if "\<forall>b\<in>set cs. \<exists>x. process_logs E acc (logs b) (BlockMoveExtractor_new (base_data b)) = Inr x \<and> bm_blk x = b"
      "distinct (map blk_hash (map bm_blk pre @ cs))" for cs pre
    using that
  proof (induction cs arbitrary: pre)
    case (Cons b cs)
    then obtain x where x: "process_logs E acc (logs b) (BlockMoveExtractor_new (base_data b)) = Inr x" "bm_blk x = b" by auto
    have "\<forall>p\<in>set pre. blk_hash (bm_blk p) \<noteq> blk_hash (bm_blk (BlockMoveExtractor_new (base_data b)))"
      using Cons.prems(2) by (force simp: BlockMoveExtractor_new_def)
    note step = process_range_mid [OF x(1) this, of "concat (map logs cs)" "map BlockMoveExtractor_new (map base_data cs)"]
    have "distinct (map blk_hash (map bm_blk (pre @ [x]) @ cs))" using Cons.prems(2) x(2) by simp
    from Cons.IH [OF _ this] Cons.prems(1) obtain xs where "process_range E acc (concat (map logs cs))
        ((pre @ [x]) @ map BlockMoveExtractor_new (map base_data cs)) = Inr ((pre @ [x]) @ xs)" "map bm_blk xs = cs" by auto
    with step x(2) show ?case by (intro exI [of _ "x # xs"]) simp
  qed simp
  from this [of bs "[]"] assms show ?thesis by simp
qed

lemma moves_one_by_one_all:
  assumes "\<forall>b\<in>set bs. \<exists>x. process_logs E acc (logs b) (BlockMoveExtractor_new (base_data b)) = Inr x \<and> bm_blk x = b"
  shows "moves_one_by_one E acc (map (\<lambda>b. (base_data b, 0, JArray (logs b))) bs) = Inr (Some bs)"
  using assms by (induction bs) auto

subsection \<open>One attempt\<close>

lemma collect_good:
  assumes "\<forall>b\<in>set bs. isObject (js b) \<and> ExtractBaseData E (js b) = Inr (base_data b)"
  shows "chain_from s (res @ bs) \<Longrightarrow> s + length res + length bs \<le> u64_max \<Longrightarrow>
     collect_blocks E (int s) (map (\<lambda>b. (0, js b)) bs) (map base_data res) = Inr (Some (map base_data (res @ bs)))"
  using assms
proof (induction bs arbitrary: res)
  case (Cons b bs)
  have j: "\<not> isNull (js b)" "ExtractBaseData E (js b) = Inr (base_data b)" using Cons.prems(3) by (cases "js b"; auto)+
  have rec: "collect_blocks E (int s) (map (\<lambda>b. (0, js b)) bs) (map base_data (res @ [b])) = Inr (Some (map base_data (res @ b # bs)))"
    using Cons.IH [of "res @ [b]"] Cons.prems by simp
  show ?case
  proof (cases "res = []")
    case True
    then have "blk_height b = s" using Cons.prems(1) by (simp add: chain_from_def)
    with True rec j Cons.prems(2) show ?thesis by (simp add: u64_of_int_exact)
  next
    case False
    have l: "chain_from s res" "blk_parent b = blk_hash (last res)" "blk_height b = Suc (blk_height (last res))"
      using Cons.prems(1) False linked_append [of res "b # bs"] by (auto simp: chain_from_def)
    then have "blk_height (last res) = s + length res - 1" using chain_from_last [OF _ False] by blast
    then have "blk_height b = u64_add (blk_height (last res)) 1" using l(3) Cons.prems(2) by (simp add: u64_add_exact)
    with False rec j l(2) show ?thesis by (simp add: last_map)
  qed
qed simp

lemma slice_chain: "mainchain_ok v t \<Longrightarrow> chain_from s (block_slice v s n)"
  using slice_linked [of v t s n] mainchain_okD(1) [of v t s]
  by (cases n) (auto simp: chain_from_def split: option.split)

lemma slice_height: "mainchain_ok v t \<Longrightarrow> i < length (block_slice v s n) \<Longrightarrow> blk_height (block_slice v s n ! i) = s + i"
  using slice_nth mainchain_okD(1) by metis

lemma slice_distinct:
  assumes ok: "mainchain_ok v t"
  shows "distinct (map blk_hash (block_slice v s n))"
proof -
  have "i = j" if "i < length (block_slice v s n)" "j < length (block_slice v s n)"
      "blk_hash (block_slice v s n ! i) = blk_hash (block_slice v s n ! j)" for i j
    using mainchain_okD(5) [OF ok slice_nth [OF that(1)] slice_nth [OF that(2)] that(3)] by simp
  then show ?thesis unfolding distinct_conv_nth by (metis length_map nth_map)
qed

lemma heights_follow_chain:
  "linked bs \<Longrightarrow> \<forall>b\<in>set bs. blk_height b < i64_max \<Longrightarrow> heights_follow (map blk_height bs)"
  by (induction bs rule: linked.induct) (auto simp: int64_of_small u64_of_int_def nat_mod_as_int)

lemma map_upto_int: "[int s..int s + int k - 1] = map (\<lambda>i. int (s + i)) [0..<k]"
  by (rule nth_equalityI) (auto simp: nth_upto)

lemma AddMovesOneByOne_good:
  assumes node: "eth_batch_ok rpc ans view tip up r" "eth_blocks_ok E acc (ans r) logs v" and bs: "\<forall>b\<in>set bs. \<exists>h. v h = Some b"
  shows "\<exists>r'. AddMovesOneByOne E rpc acc (map base_data bs) r = (Inr (Some bs), r') \<and> up r' \<and> same_chain_as view tip r r'"
proof -
  obtain resp r' where q: "rpc_CallProcedures rpc (map (logs_request E acc) (map base_data bs)) r = (Inr resp, r')" "up r'"
      "same_chain_as view tip r r'" "\<forall>i<length bs. resp i = ans r (logs_request E acc (base_data (bs ! i)))"
    using eth_batchD(1) [OF node(1), of "map (logs_request E acc) (map base_data bs)"] by auto
  have "logs_request E acc (base_data b) = logs_request E acc b" for b by (simp add: logs_request_def)
  then have "resp i = (0, JArray (logs (bs ! i)))" if i: "i < length bs" for i
  proof -
    obtain h where "v h = Some (bs ! i)" using bs nth_mem [OF i] by blast
    from eth_blocksD(2) [OF node(2) this] q(4) i \<open>\<And>b. logs_request E acc (base_data b) = logs_request E acc b\<close>
    show ?thesis by simp
  qed
  then have "map (\<lambda>(i, blk). (blk, resp i)) (enumerate 0 (map base_data bs)) = map (\<lambda>b. (base_data b, 0, JArray (logs b))) bs"
    by (intro nth_equalityI) (auto simp: nth_enumerate_eq)
  moreover have "\<forall>b\<in>set bs. \<exists>x. process_logs E acc (logs b) (BlockMoveExtractor_new (base_data b)) = Inr x \<and> bm_blk x = b"
    using bs eth_blocksD(3) [OF node(2)] by blast
  ultimately show ?thesis using q(1-3) moves_one_by_one_all [of bs E acc logs] by (simp add: AddMovesOneByOne_def)
qed

lemma AddMovesFromHeightRange_good:
  assumes node: "eth_batch_ok rpc ans view tip up r" "eth_blocks_ok E acc (ans r) logs v"
    and v: "mainchain_ok v t" "t < 2 ^ 62" and bs: "bs = block_slice v s k" "length bs = k" "0 < k"
  shows "\<exists>r'. AddMovesFromHeightRange E rpc acc (map base_data bs) r = (Inr bs, r') \<and> up r' \<and> same_chain_as view tip r r'"
proof -
  define z where "z = s + k - 1"
  have ne: "bs \<noteq> []" using bs by auto
  have nth: "v (s + i) = Some (bs ! i)" if "i < k" for i using slice_nth [of i v s k] bs that by simp
  have ends: "blk_height (hd bs) = s" "blk_height (last bs) = z" "v s \<noteq> None" "v z \<noteq> None" "s \<le> z"
    using slice_height [OF v(1), of 0 s k] slice_height [OF v(1), of "k - 1" s k] nth [of 0] nth [of "k - 1"] bs ne
    by (auto simp: hd_conv_nth last_conv_nth z_def)
  have small: "\<forall>b\<in>set bs. blk_height b < i64_max"
    using mainchain_okD(1,2) [OF v(1)] v(2) slice_in [of _ v s k] bs(1) by fastforce
  have "linked bs" using slice_linked [OF v(1)] bs(1) by simp
  then have "heights_follow (map blk_height bs)" using heights_follow_chain small by blast
  then have follow: "heights_follow (map blk_height (map base_data bs))" by (simp add: comp_def)
  obtain r' where q: "rpc_eth_getLogs rpc (range_options E acc s z) r = (Inr (snd (ans r (''eth_getLogs'', JArray [range_options E acc s z]))), r')"
      "up r'" "same_chain_as view tip r r'"
    using eth_batchD(2) [OF node(1)] by blast
  have "Suc z - s = k" using bs(3) by (simp add: z_def)
  then have "ans r (''eth_getLogs'', JArray [range_options E acc s z]) = (0, JArray (concat (map logs bs)))"
    using eth_blocksD(4) [OF node(2), of s _ z] ends(3-5) bs(1) by auto
  moreover have "\<forall>b\<in>set bs. \<exists>x. process_logs E acc (logs b) (BlockMoveExtractor_new (base_data b)) = Inr x \<and> bm_blk x = b"
    using eth_blocksD(3) [OF node(2)] slice_in [of _ v s k] bs(1) by blast
  then obtain xs where "process_range E acc (concat (map logs bs)) (map BlockMoveExtractor_new (map base_data bs)) = Inr xs" "map bm_blk xs = bs"
    using process_range_all [of bs E acc logs] slice_distinct [OF v(1), of s k] bs(1) by blast
  ultimately show ?thesis
    using q follow ne ends(1,2) by (simp add: AddMovesFromHeightRange_def hd_map last_map)
qed

lemma eth_nodeD:
  assumes "eth_node E rpc acc ans logs view tip up" "up r"
  shows "eth_tip_ok E rpc view tip up r" "eth_batch_ok rpc ans view tip up r"
    "eth_blocks_ok E acc (ans r) logs (view r)" "eth_lookup_ok E rpc view tip up r"
  using assms by (simp_all add: eth_node_def)

lemma same_chain_trans: "same_chain_as view tip r s \<Longrightarrow> same_chain_as view tip s t \<Longrightarrow> same_chain_as view tip r t"
  by (simp add: same_chain_as_def)

text \<open>The batch for the blocks of a slice is answered with exactly these blocks.\<close>

lemma collect_slice:
  assumes batch: "eth_batch_ok rpc ans view tip up r" and blocks: "eth_blocks_ok E acc (ans r) logs v"
    and v: "mainchain_ok v t" and bs: "bs = block_slice v s n" and len: "s + length bs \<le> u64_max"
  shows "\<exists>resp r'. rpc_CallProcedures rpc (map block_request [int s..int s + int (length bs) - 1]) r = (Inr resp, r') \<and> up r' \<and>
    same_chain_as view tip r r' \<and> collect_blocks E (int s) (map resp [0..<length bs]) [] = Inr (Some (map base_data bs))"
proof -
  let ?req = "map block_request [int s..int s + int (length bs) - 1]"
  obtain resp r' where q: "rpc_CallProcedures rpc ?req r = (Inr resp, r')" "up r'" "same_chain_as view tip r r'"
      "\<forall>i<length ?req. resp i = ans r (?req ! i)"
    using eth_batchD(1) [OF batch] by blast
  define js where "js b = snd (ans r (block_request (int (blk_height b))))" for b :: BlockData
  have ans: "ans r (block_request (int (blk_height b))) = (0, js b) \<and> isObject (js b) \<and> ExtractBaseData E (js b) = Inr (base_data b)"
    if b: "b \<in> set bs" for b
  proof -
    obtain h where h: "v h = Some b" using slice_in [of b v s n] b bs by blast
    then show ?thesis using eth_blocksD(1) [OF blocks h] mainchain_okD(1) [OF v h] by (auto simp: js_def)
  qed
  have "resp i = (0, js (bs ! i))" if i: "i < length bs" for i
    using q(4) i ans [OF nth_mem [OF i]] slice_height [OF v, of i s n] bs by (simp add: map_upto_int)
  then have "map resp [0..<length bs] = map (\<lambda>b. (0, js b)) bs" by (intro nth_equalityI) simp_all
  moreover have "collect_blocks E (int s) (map (\<lambda>b. (0, js b)) bs) (map base_data []) = Inr (Some (map base_data ([] @ bs)))"
    using slice_chain [OF v, of s n] bs len ans by (intro collect_good) auto
  ultimately show ?thesis using q(1-3) by auto
qed

lemma TryBlockRange_good:
  assumes node: "eth_node E rpc acc ans logs view tip up" and up: "up r" and range: "0 < n" "s + n \<le> i64_max"
    and flag: "-2147483648 \<le> fast" "fast \<le> 2147483647"
  shows "\<exists>r'. TryBlockRange E rpc fast acc (int s) (int s + int n - 1) r = (Inr (Some (block_slice (view r) s n)), r') \<and>
    up r' \<and> same_chain_as view tip r r'"
proof -
  let ?v = "view r" and ?t = "tip r"
  obtain t r1 where t: "rpc_eth_blockNumber rpc r = (Inr t, r1)" "up r1" "same_chain_as view tip r r1" "el_ParseInt E t = Inr (int ?t)"
      and ok: "mainchain_ok ?v ?t" "?v 0 \<noteq> None" "?t < 2 ^ 62"
    using eth_nodeD(1) [OF node up] by (auto simp: eth_tip_ok_def)
  have same1: "view r1 = ?v" "ans r1 = ans r" using t(3) eth_batchD(3) [OF eth_nodeD(2) [OF node up] t(3)] by (auto simp: same_chain_as_def)
  define e where "e = (if int ?t < int s + int n - 1 then int ?t else int s + int n - 1)"
  show ?thesis
  proof (cases "e < int s")
    case True
    then have "?t < s" using range(1) by (auto simp: e_def split: if_splits)
    then have "block_slice ?v s n = []" using slice_below_start [OF ok(1)] by blast
    with True t show ?thesis by (auto simp: TryBlockRange_def e_def [symmetric])
  next
    case False
    define bs where "bs = block_slice ?v s n"
    have le: "s \<le> ?t" using False by (auto simp: e_def split: if_splits)
    then have vs: "?v s \<noteq> None" using full_chain [OF ok(1,2)] by auto
    have len: "length bs = min n (Suc ?t - s)" unfolding bs_def by (rule slice_length [OF ok(1) vs])
    have e: "e = int s + int (length bs) - 1" "0 < length bs" using len le range(1) by (auto simp: e_def)
    have hs: "nat (e - int s + 1) = length bs" using e(1) by simp
    have "s + length bs \<le> u64_max" using len range(2) by auto
    from collect_slice [OF eth_nodeD(2) [OF node t(2)] eth_nodeD(3) [OF node t(2)], of ?t bs s n, unfolded same1, OF ok(1) bs_def this]
    obtain resp r2 where c: "rpc_CallProcedures rpc (map block_request [int s..e]) r1 = (Inr resp, r2)" "up r2"
        "same_chain_as view tip r1 r2" "collect_blocks E (int s) (map resp [0..<length bs]) [] = Inr (Some (map base_data bs))"
      unfolding e(1) by blast
    have same2: "same_chain_as view tip r r2" using same_chain_trans [OF t(3) c(3)] .
    then have r2: "eth_batch_ok rpc ans view tip up r2" "eth_blocks_ok E acc (ans r2) logs ?v"
      using eth_nodeD(2,3) [OF node c(2)] by (simp_all add: same_chain_as_def)
    have ne: "bs \<noteq> []" using e(2) by auto
    have "blk_height (last bs) = s + (length bs - 1)"
      using slice_height [OF ok(1), of "length bs - 1" s n] ne by (simp add: bs_def [symmetric] last_conv_nth)
    moreover have "e = int (s + (length bs - 1))" using e by (simp add: of_nat_diff Suc_le_eq)
    moreover have "u64_of_int (int x) = x" if "x \<le> i64_max" for x using that by simp
    moreover have "s + (length bs - 1) \<le> i64_max" using len range(2) by linarith
    ultimately have h: "blk_height (last (map base_data bs)) = u64_of_int e" using ne by (simp only: last_map base_data_sel simp_thms)
    have fits: "in_int64 (e + fast)" using e(1) len ok(3) flag le by (auto simp: in_int64_def)
    let ?fin = "if e + fast < int ?t then bindM (AddMovesFromHeightRange E rpc acc (map base_data bs)) (\<lambda>bs. ret (Some bs))
                else AddMovesOneByOne E rpc acc (map base_data bs)"
    have step: "TryBlockRange E rpc fast acc (int s) (int s + int n - 1) r = ?fin r2"
      using t(1,4) False c(1,4) h ne fits unfolding TryBlockRange_def Let_def e_def [symmetric]
      by (simp add: e_def [symmetric] hs)
    have cap: "bs = block_slice ?v s (length bs)" using slice_cap [OF ok(1) vs, of n] len by (simp add: bs_def)
    have in_view: "\<forall>b\<in>set bs. \<exists>h. ?v h = Some b" using slice_in [of _ ?v s n] by (auto simp: bs_def)
    have "\<exists>r'. ?fin r2 = (Inr (Some bs), r') \<and> up r' \<and> same_chain_as view tip r2 r'"
    proof (cases "e + fast < int ?t")
      case True
      with AddMovesFromHeightRange_good [OF r2 ok(1,3) cap refl e(2)] show ?thesis by auto
    next
      case False
      with AddMovesOneByOne_good [OF r2 in_view] show ?thesis by simp
    qed
    then show ?thesis using step same_chain_trans [OF same2] by (auto simp: bs_def)
  qed
qed

subsection \<open>The contract of a base chain\<close>

lemma Eth_GetMainchainHeight_good:
  assumes node: "eth_node E rpc acc ans logs view tip up" and up: "up (ec_node s)"
  shows "\<exists>h s'. Eth_GetMainchainHeight E rpc hash s = (Inr h, s') \<and> mainheight_ok (view (ec_node s)) hash h \<and>
    up (ec_node s') \<and> same_chain_as view tip (ec_node s) (ec_node s') \<and> ec_accountsContract s' = ec_accountsContract s"
proof -
  let ?r = "ec_node s"
  obtain j r1 where j: "rpc_eth_getBlockByHash rpc (''0x'' @ hash) False ?r = (Inr j, r1)" "up r1" "same_chain_as view tip ?r r1"
      "j = JNull \<and> (\<forall>h b. view ?r h = Some b \<longrightarrow> blk_hash b \<noteq> hash) \<or>
        isObject j \<and> (\<exists>n h. json_get j ''number'' = JString n \<and> el_ParseInt E n = Inr (int h) \<and>
          (\<forall>k b. view ?r k = Some b \<and> blk_hash b = hash \<longrightarrow> k = h))"
    using eth_nodeD(4) [OF node up] unfolding eth_lookup_ok_def by blast
  from j(4) show ?thesis
  proof (elim disjE conjE exE)
    assume "j = JNull" "\<forall>h b. view ?r h = Some b \<longrightarrow> blk_hash b \<noteq> hash"
    then show ?thesis using j(1-3)
      by (auto simp: Eth_GetMainchainHeight_def ec_rpc_def zoomM_simp catchRpc_def mainheight_ok_def Let_def)
  next
    fix n h assume n: "isObject j" "json_get j ''number'' = JString n" "el_ParseInt E n = Inr (int h)"
      "\<forall>k b. view ?r k = Some b \<and> blk_hash b = hash \<longrightarrow> k = h"
    obtain m r2 where m: "rpc_eth_getBlockByNumber rpc n False r1 = (Inr m, r2)" "up r2" "same_chain_as view tip r1 r2"
        "case view r1 h of None \<Rightarrow> m = JNull | Some b \<Rightarrow> isObject m \<and> json_get m ''hash'' = JString (''0x'' @ blk_hash b)"
      using eth_nodeD(4) [OF node j(2)] n(3) unfolding eth_lookup_ok_def by blast
    have same: "same_chain_as view tip ?r r2" using same_chain_trans [OF j(3) m(3)] .
    have num: "string_at (el_json E) j ''number'' = Inr n" "\<not> isNull j"
      using n(1,2) by (auto simp: string_at_def isObject_iff)
    have "Eth_GetMainchainHeight E rpc hash s =
        (if isNull m then (Inr (-1), s\<lparr>ec_node := r2\<rparr>)
         else (thenM (CHECK (isObject m)) (if json_get m ''hash'' \<noteq> JString (''0x'' @ hash) then ret (-1) else liftE (Inr (int h)))) (s\<lparr>ec_node := r2\<rparr>))"
      using j(1) m(1) n(1,3) num by (simp add: Eth_GetMainchainHeight_def ec_rpc_def zoomM_simp catchRpc_def Let_def)
    also have "\<dots> = (Inr (if (\<exists>b. view ?r h = Some b \<and> blk_hash b = hash) then int h else -1), s\<lparr>ec_node := r2\<rparr>)"
      using m(4) j(3) by (cases "view r1 h") (auto simp: same_chain_as_def isObject_iff)
    finally have res: "Eth_GetMainchainHeight E rpc hash s =
      (Inr (if (\<exists>b. view ?r h = Some b \<and> blk_hash b = hash) then int h else -1), s\<lparr>ec_node := r2\<rparr>)" .
    have "mainheight_ok (view ?r) hash (if (\<exists>b. view ?r h = Some b \<and> blk_hash b = hash) then int h else -1)"
    proof (cases "\<exists>b. view ?r h = Some b \<and> blk_hash b = hash")
      case False
      with n(4) have "\<forall>k b. view ?r k = Some b \<longrightarrow> blk_hash b \<noteq> hash" by blast
      with False show ?thesis by (simp add: mainheight_ok_def)
    qed (auto simp: mainheight_ok_def)
    with res show ?thesis using m(2) same by (intro exI [of _ "s\<lparr>ec_node := r2\<rparr>"] exI conjI) simp_all
  qed
qed

lemma EthBase_contract:
  assumes node: "eth_node E rpc acc ans logs view tip up" and fuel: "0 < fuel"
    and flag: "-2147483648 \<le> fast" "fast \<le> 2147483647"
  shows "base_chain (EthBase fuel E rpc fast) (\<lambda>s. view (ec_node s)) (\<lambda>s. tip (ec_node s))
    (\<lambda>s. up (ec_node s) \<and> ec_accountsContract s = acc)"
proof
  fix s :: "'b EthChain" assume s: "up (ec_node s) \<and> ec_accountsContract s = acc"
  then have up: "up (ec_node s)" by simp
  show "mainchain_ok (view (ec_node s)) (tip (ec_node s))" using eth_nodeD(1) [OF node up] by (simp add: eth_tip_ok_def)
  obtain t r1 where t: "rpc_eth_blockNumber rpc (ec_node s) = (Inr t, r1)" "up r1" "same_chain_as view tip (ec_node s) r1"
      "el_ParseInt E t = Inr (int (tip (ec_node s)))" "tip (ec_node s) < 2 ^ 62"
    using eth_nodeD(1) [OF node up] by (auto simp: eth_tip_ok_def)
  then show "\<exists>s'. bc_GetTipHeight (EthBase fuel E rpc fast) s = (Inr (tip (ec_node s)), s') \<and>
      (up (ec_node s') \<and> ec_accountsContract s' = acc) \<and> view (ec_node s') = view (ec_node s) \<and> tip (ec_node s') = tip (ec_node s)"
    using s by (simp add: EthBase_def Eth_GetTipHeight_def ec_rpc_def zoomM_simp same_chain_as_def u64_of_int_exact)
  show "\<exists>r s'. bc_GetMainchainHeight (EthBase fuel E rpc fast) hash s = (Inr r, s') \<and> mainheight_ok (view (ec_node s)) hash r \<and>
      (up (ec_node s') \<and> ec_accountsContract s' = acc) \<and> view (ec_node s') = view (ec_node s) \<and> tip (ec_node s') = tip (ec_node s)" for hash
    using Eth_GetMainchainHeight_good [OF node up, of hash] s by (auto simp: EthBase_def same_chain_as_def)
  fix start count :: nat assume fits: "start + count \<le> i64_max"
  show "\<exists>s'. bc_GetBlockRange (EthBase fuel E rpc fast) start count s = (Inr (block_slice (view (ec_node s)) start count), s') \<and>
      (up (ec_node s') \<and> ec_accountsContract s' = acc) \<and> view (ec_node s') = view (ec_node s) \<and> tip (ec_node s') = tip (ec_node s)"
  proof (cases "count = 0")
    case True
    then show ?thesis using s by (simp add: EthBase_def Eth_GetBlockRange_def)
  next
    case False
    obtain n where n: "fuel = Suc n" using fuel by (cases fuel) auto
    obtain r' where "TryBlockRange E rpc fast acc (int start) (int start + int count - 1) (ec_node s) =
        (Inr (Some (block_slice (view (ec_node s)) start count)), r')" "up r'" "same_chain_as view tip (ec_node s) r'"
      using TryBlockRange_good [OF node up _ fits flag] False by blast
    with s n False fits end_height [of count start] heights_int64 [of count start] show ?thesis
      by (simp add: EthBase_def Eth_GetBlockRange_def ec_rpc_def zoomM_simp same_chain_as_def)
  qed
qed

end
