(* ===== verification/EthPendingProofs.thy ===== *)
theory EthPendingProofs
  imports EthChain "HOL-Library.Multiset"
begin

text \<open>
  The local mempool: a query returns exactly the transactions of the pool that the node still reports
  as pending, ordered by sender and nonce, and drops the others from the pool.  The loops over the
  comma-separated list of watched contracts and over the batch are compared with their references.
\<close>

subsection \<open>Sorting\<close>

text \<open>What the C++ standard promises for \<^verbatim>\<open>std::sort\<close> with a strict weak order.\<close>

definition strict_weak :: "('a \<Rightarrow> 'a \<Rightarrow> bool) \<Rightarrow> 'a set \<Rightarrow> bool" where
  "strict_weak lt S \<longleftrightarrow>
     (\<forall>x\<in>S. \<not> lt x x) \<and> (\<forall>x\<in>S. \<forall>y\<in>S. \<forall>z\<in>S. lt x y \<and> lt y z \<longrightarrow> lt x z) \<and>
     (\<forall>x\<in>S. \<forall>y\<in>S. \<forall>z\<in>S. lt x z \<longrightarrow> lt x y \<or> lt y z)"

definition sort_ok :: "(('a \<Rightarrow> 'a \<Rightarrow> bool) \<Rightarrow> 'a list \<Rightarrow> 'a list) \<Rightarrow> bool" where
  "sort_ok f \<longleftrightarrow>
     (\<forall>lt xs. strict_weak lt (set xs) \<longrightarrow> mset (f lt xs) = mset xs \<and> sorted_wrt (\<lambda>x y. \<not> lt y x) (f lt xs))"

text \<open>Different addresses are different in lower case.\<close>

definition addresses_ok :: "'d eth_lib \<Rightarrow> bool" where
  "addresses_ok E \<longleftrightarrow>
     (\<forall>s t a b. el_Address E s = Some a \<and> el_Address E t = Some b \<and> el_GetLowerCase E a = el_GetLowerCase E b \<longrightarrow> a = b)"

definition tx_sender :: "'d eth_lib \<Rightarrow> json \<Rightarrow> string option" where
  "tx_sender E tx = (case string_at (el_json E) tx ''from'' of Inl e \<Rightarrow> None | Inr s \<Rightarrow> el_Address E s)"

definition tx_nonce :: "'d eth_lib \<Rightarrow> json \<Rightarrow> int" where
  "tx_nonce E tx = (case bindE (string_at (el_json E) tx ''nonce'') (el_ParseInt E) of Inl e \<Rightarrow> 0 | Inr n \<Rightarrow> n)"

definition tx_less :: "'d eth_lib \<Rightarrow> json \<Rightarrow> json \<Rightarrow> bool" where
  "tx_less E x y \<longleftrightarrow>
     (let a = el_GetLowerCase E (the (tx_sender E x)); b = el_GetLowerCase E (the (tx_sender E y)) in
      a < b \<or> (a = b \<and> tx_nonce E x < tx_nonce E y))"

lemma IsEarlier_Inr:
  assumes "IsEarlierForMempool E x y = Inr r" "addresses_ok E"
  shows "r = tx_less E x y"
proof -
  obtain sA sB a b where f: "string_at (el_json E) x ''from'' = Inr sA" "string_at (el_json E) y ''from'' = Inr sB"
      "el_Address E sA = Some a" "el_Address E sB = Some b"
      and r: "(if a \<noteq> b then Inr (el_GetLowerCase E a < el_GetLowerCase E b)
         else
           bindE (bindE (string_at (el_json E) x ''nonce'') (el_ParseInt E)) (\<lambda>nonceA.
           bindE (bindE (string_at (el_json E) y ''nonce'') (el_ParseInt E)) (\<lambda>nonceB.
           Inr (nonceA < nonceB)))) = Inr r"
    using assms(1) unfolding IsEarlierForMempool_def by (auto simp: bindE_eq_Inr split: option.splits)
  have s: "tx_sender E x = Some a" "tx_sender E y = Some b" using f by (simp_all add: tx_sender_def)
  show ?thesis
  proof (cases "a = b")
    case True
    then obtain m n where "bindE (string_at (el_json E) x ''nonce'') (el_ParseInt E) = Inr m"
        "bindE (string_at (el_json E) y ''nonce'') (el_ParseInt E) = Inr n" "r = (m < n)"
      using r by (simp only: bindE_eq_Inr if_False not_True_eq_False simp_thms) blast
    then show ?thesis using s True by (simp add: tx_less_def tx_nonce_def)
  next
    case False
    then have "el_GetLowerCase E a \<noteq> el_GetLowerCase E b" using assms(2) f(3,4) by (auto simp: addresses_ok_def)
    then show ?thesis using s r False by (simp add: tx_less_def)
  qed
qed

lemma mapE_all: "mapE f xs = Inr ys \<Longrightarrow> x \<in> set xs \<Longrightarrow> \<exists>y. f x = Inr y"
  by (induction xs arbitrary: ys) (auto simp: bindE_eq_Inr)

lemma compare_all_pairs:
  "compare_all f xs = Inr u \<Longrightarrow> x \<in> set xs \<Longrightarrow> y \<in> set xs \<Longrightarrow> x \<noteq> y \<Longrightarrow> \<exists>r. f x y = Inr r"
  by (induction f xs rule: compare_all.induct) (auto simp: bindE_eq_Inr dest: mapE_all)

lemma earlier_eq:
  assumes "compare_all (IsEarlierForMempool E) txs = Inr u" "addresses_ok E" "x \<in> set txs" "y \<in> set txs"
  shows "earlier E x y \<longleftrightarrow> tx_less E x y"
proof (cases "x = y")
  case True
  then have "\<not> tx_less E x y" by (simp add: tx_less_def)
  moreover have "\<not> earlier E x x"
    using IsEarlier_Inr [of E x x, OF _ assms(2)] by (auto simp: earlier_def tx_less_def split: sum.split)
  ultimately show ?thesis using True by simp
next
  case False
  then obtain r where "IsEarlierForMempool E x y = Inr r" using compare_all_pairs [OF assms(1,3,4)] by blast
  with IsEarlier_Inr [OF this assms(2)] show ?thesis by (simp add: earlier_def)
qed

lemma strict_weak_tx_less: "strict_weak (tx_less E) S"
  unfolding strict_weak_def tx_less_def Let_def by (auto intro: less_trans) 

lemma strict_weak_cong: "(\<And>x y. x \<in> S \<Longrightarrow> y \<in> S \<Longrightarrow> f x y = g x y) \<Longrightarrow> strict_weak f S = strict_weak g S"
  by (simp add: strict_weak_def)

lemma sort_transactions_ok:
  assumes "sort_ok (el_sort E)" "addresses_ok E" "sort_transactions E txs = Inr ys"
  shows "mset ys = mset txs" "sorted_wrt (\<lambda>x y. \<not> tx_less E y x) ys"
proof -
  obtain u where u: "compare_all (IsEarlierForMempool E) txs = Inr u" and ys: "ys = el_sort E (earlier E) txs"
    using assms(3) by (auto simp: sort_transactions_def bindE_eq_Inr)
  note eq = earlier_eq [OF u assms(2)]
  have "strict_weak (earlier E) (set txs)" using strict_weak_tx_less strict_weak_cong eq by metis
  then have s: "mset ys = mset txs" "sorted_wrt (\<lambda>x y. \<not> earlier E y x) ys" using assms(1) ys by (simp_all add: sort_ok_def)
  then show "mset ys = mset txs" by simp
  then have "set ys = set txs" by (metis set_mset_mset)
  then show "sorted_wrt (\<lambda>x y. \<not> tx_less E y x) ys"
    using s(2) eq by (auto intro: sorted_wrt_mono_rel [rotated])
qed

subsection \<open>The answers of the batch\<close>

definition pending_tx :: "json \<Rightarrow> bool" where
  "pending_tx j \<longleftrightarrow> \<not> isNull j \<and> isNull (json_get j ''blockHash'')"

abbreviation still_pending :: "string \<times> int \<times> json \<Rightarrow> bool" where
  "still_pending e \<equiv> pending_tx (snd (snd e))"

lemma mempool_update_eq:
  "mempool_update E es pool = (Inr txs, pool') \<Longrightarrow>
     txs = map (snd \<circ> snd) (filter still_pending es) \<and>
     pool' = filter (\<lambda>t. \<forall>e\<in>set es. fst e = t \<longrightarrow> still_pending e) pool \<and>
     (\<forall>e\<in>set es. still_pending e \<longrightarrow> string_at (el_json E) (snd (snd e)) ''hash'' = Inr (''0x'' @ fst e))"
proof (induction es arbitrary: pool txs)
  case (Cons e es)
  obtain txid err j where e: "e = (txid, err, j)" by (cases e)
  show ?case
  proof (cases "still_pending e")
    case True
    then obtain txs' where t: "mempool_update E es pool = (Inr txs', pool')" "txs = j # txs'"
        "string_at (el_json E) j ''hash'' = Inr (''0x'' @ txid)"
      using Cons.prems e by (auto simp: prog_Inr pending_tx_def split: if_splits)
    from Cons.IH [OF t(1)] t(2,3) True e show ?thesis by simp
  next
    case False
    then have "mempool_update E es (filter (\<lambda>t. t \<noteq> txid) pool) = (Inr txs, pool')"
      using Cons.prems e by (auto simp: prog_Inr pending_tx_def split: if_splits)
    from Cons.IH [OF this] False e show ?thesis by (auto simp: filter_filter intro!: filter_cong)
  qed
qed simp

lemma answers_fst: "map fst (map (\<lambda>(i, txid). (txid, f i)) (enumerate n pool)) = pool"
  by (induction pool arbitrary: n) auto

lemma zoomM_eq: "zoomM g p m s = (x, s') \<longleftrightarrow> (\<exists>t. m (g s) = (x, t) \<and> s' = p t s)"
  by (auto simp: zoomM_def split: prod.splits)

text \<open>A query, with the pool as a set: sorted and without repetitions.\<close>

lemma GetContent_ok:
  assumes lib: "sort_ok (el_sort E)" "addresses_ok E" and pool: "distinct pool"
    and call: "Mempool_GetContent E rpc (r, pool) = (Inr res, (r', pool'))"
  shows "\<exists>txs. sorted_wrt (\<lambda>x y. \<not> tx_less E y x) txs \<and> list_all2 (\<lambda>tx h. string_at (el_json E) tx ''hash'' = Inr (''0x'' @ h)) txs res \<and>
    (\<forall>tx\<in>set txs. isNull (json_get tx ''blockHash'')) \<and> mset res = mset pool' \<and> (\<exists>P. pool' = filter P pool)"
proof (cases "pool = []")
  case True
  then show ?thesis using call by (auto simp: Mempool_GetContent_def)
next
  case False
  then obtain resp r1 where resp: "rpc_CallProcedures rpc (mempool_request pool) r = (Inr resp, r1)"
    using call by (auto simp: Mempool_GetContent_def prog_Inr zoomM_eq)
  define es where "es = map (\<lambda>(i, txid). (txid, resp i)) (enumerate 0 pool)"
  obtain txs where txs: "mempool_update E es pool = (Inr txs, pool')" "mempool_result E txs = Inr res"
    using call False resp by (auto simp: Mempool_GetContent_def prog_Inr zoomM_eq es_def)
  note up = mempool_update_eq [OF txs(1)]
  obtain ys where ys: "sort_transactions E txs = Inr ys" "mapE (\<lambda>tx. bindE (string_at (el_json E) tx ''hash'') ConvertUint256) ys = Inr res"
    using txs(2) by (auto simp: mempool_result_def bindE_eq_Inr)
  note sorted = sort_transactions_ok [OF lib ys(1)]
  have hashes: "list_all2 (\<lambda>tx h. string_at (el_json E) tx ''hash'' = Inr (''0x'' @ h)) ys res"
    using ys(2) by (induction ys arbitrary: res) (auto simp: bindE_eq_Inr ConvertUint256_Inr)
  have "set ys = set txs" using sorted(1) by (metis set_mset_mset)
  then have "\<forall>tx\<in>set ys. isNull (json_get tx ''blockHash'')" using up by (auto simp: pending_tx_def)
  moreover have "mset res = mset pool'"
  proof -
    define hash where "hash tx = (case string_at (el_json E) tx ''hash'' of Inl e \<Rightarrow> '''' | Inr s \<Rightarrow> drop 2 s)" for tx
    have "res = map hash ys" using hashes by (induction ys res rule: list_all2_induct) (auto simp: hash_def)
    then have "mset res = mset (map hash txs)" using sorted(1) by (metis mset_map)
    also have "map hash txs = map fst (filter still_pending es)"
      using up by (auto simp: hash_def)
    also have "\<dots> = filter (\<lambda>t. \<forall>e\<in>set es. fst e = t \<longrightarrow> still_pending e) (map fst es)"
    proof -
      have "distinct (map fst es)" using answers_fst [of resp 0 pool] pool by (simp add: es_def)
      then have "inj_on fst (set es)" by (simp add: distinct_map)
      then have "filter still_pending es = filter (\<lambda>e. \<forall>d\<in>set es. fst d = fst e \<longrightarrow> still_pending d) es"
        by (intro filter_cong) (auto dest: inj_onD)
      then show ?thesis by (simp add: filter_map comp_def)
    qed
    also have "\<dots> = pool'" using up answers_fst [of resp 0 pool] by (simp add: es_def)
    finally show ?thesis .
  qed
  ultimately show ?thesis using sorted(2) hashes up by blast
qed

subsection \<open>The list of watched contracts\<close>

lemma thenM_ret: "thenM m (ret ()) = m"
  by (rule ext) (simp add: thenM_def bindM_def split: prod.split sum.split)

lemma bind_liftE: "bindM (liftE (Inr a)) f = f a"
  by (rule ext) simp

lemma watched_loop_eq:
  "length lst < npos \<Longrightarrow> watched_loop E lst = forM (split_on (CHR '','') lst) (Eth_AddWatchedContract E)"
proof (induction E lst rule: watched_loop.induct)
  case (1 E lst)
  show ?case
  proof (cases rule: str_find_cases [OF "1.prems" le0, where c = "CHR '',''", case_names absent present])
    case absent
    then show ?thesis by (simp add: watched_loop.simps split_on_absent thenM_ret)
  next
    case (present f r)
    then have l: "lst = f @ CHR '','' # r" by simp
    note ih = "1.IH" [OF refl present(5) [simplified present(3) [symmetric]]]
    then show ?thesis
      using present(3,5) l "1.prems" split_on_sep [OF present(2), of r]
      by (subst watched_loop.simps) (simp add: str_substr_def bind_liftE)
  qed
qed

end
