(* ===== verification/ConnectExamples.thy ===== *)
theory ConnectExamples
  imports EthProofs EthPendingProofs
begin

text \<open>
  Small nodes on which the properties of the two connectors are applied: a Xaya Core node with two
  branches that may switch from one to the other at every call, and an Ethereum-like node whose
  second block has one move.
\<close>

subsection \<open>A Xaya Core node\<close>

definition ex_real :: real_conv where
  "ex_real = \<lparr>real_asString = (\<lambda>_. ''''), real_asInteger = (\<lambda>_ _ _. None), real_isInt64 = (\<lambda>_. False)\<rparr>"

definition ex_core_lib :: core_lib where
  "ex_core_lib = \<lparr>cl_json = ex_real, cl_Hexlify = (\<lambda>s. s), cl_Unhexlify = Some, cl_EncodeBase64 = (\<lambda>s. s)\<rparr>"

definition ex_tx :: json where
  "ex_tx = JObject [(''btxid'', JString ''bt''), (''txid'', JString ''t''),
     (''vin'', JArray [JObject [(''txid'', JString ''in''), (''vout'', JInt 1)]]),
     (''vout'', JArray
        [JObject [(''scriptPubKey'', JObject [(''nameOp'', JObject
            [(''name'', JString ''p/alice''), (''name_encoding'', JString ''utf8''),
             (''value'', JString ''m''), (''value_encoding'', JString ''utf8'')])])]])]"

definition ex_core_json :: "string \<Rightarrow> json" where
  "ex_core_json h =
     JObject ([(''hash'', JString h), (''height'', JInt (if h = ''c0'' then 0 else 1)), (''mediantime'', JInt 5),
       (''rngseed'', JString ''s''), (''time'', JInt 7), (''tx'', JArray (if h = ''c1'' then [ex_tx] else []))] @
       (if h = ''c0'' then [] else [(''previousblockhash'', JString ''c0'')]))"

definition ex_core_move :: MoveData where
  "ex_core_move = \<lparr>mv_txid = ''t'', mv_ns = ''p'', mv_name = ''alice'', mv_mv = ''m'', mv_burns = [],
     mv_metadata = JObject [(''btxid'', JString ''bt''),
       (''inputs'', JArray [JObject [(''txid'', JString ''in''), (''vout'', JInt 1)]]), (''out'', JObject [])]\<rparr>"

definition ex_core_block :: "string \<Rightarrow> BlockData" where
  "ex_core_block h =
     \<lparr>blk_hash = h, blk_parent = (if h = ''c0'' then '''' else ''c0''), blk_height = (if h = ''c0'' then 0 else 1),
      blk_rngseed = ''s'', blk_metadata = JObject [(''mediantime'', JInt 5), (''timestamp'', JInt 7)],
      blk_moves = (if h = ''c1'' then [ex_core_move] else [])\<rparr>"

definition ex_core_T :: "string \<Rightarrow> BlockData option" where
  "ex_core_T h = (if h \<in> {''c0'', ''c1'', ''d1''} then Some (ex_core_block h) else None)"

text \<open>The state counts the calls; the first block of the main chain changes after the first one.\<close>

definition ex_core_tip :: "nat \<Rightarrow> string" where
  "ex_core_tip r = (if r = 0 then ''c1'' else ''d1'')"

definition ex_core_view :: "nat \<Rightarrow> mainchain" where
  "ex_core_view r h = (if h = 0 then Some (ex_core_block ''c0'') else if h = 1 then Some (ex_core_block (ex_core_tip r)) else None)"

definition ex_core_rpc :: "(nat \<Rightarrow> nat) \<Rightarrow> nat CoreRpcClient" where
  "ex_core_rpc step =
     \<lparr>rpc_getnetworkinfo = (\<lambda>r. (Inr (JObject [(''version'', JInt 1060000)]), step r)),
      rpc_getblockchaininfo = (\<lambda>r. (Inr (JObject [(''bestblockhash'', JString (ex_core_tip r)), (''blocks'', JInt 1),
        (''chain'', JString ''regtest'')]), step r)),
      rpc_getzmqnotifications = (\<lambda>r. (Inr (JArray []), step r)),
      rpc_getblockhash = (\<lambda>h r. (case ex_core_view r (nat h) of None \<Rightarrow> Inl (Throw (JsonRpcException (-8) '''')) | Some b \<Rightarrow> Inr (blk_hash b), step r)),
      rpc_getblock = (\<lambda>h v r. (case ex_core_T h of None \<Rightarrow> Inl (Throw (JsonRpcException (-5) '''')) | Some b \<Rightarrow> Inr (ex_core_json h), step r)),
      rpc_getblockheader = (\<lambda>h r. (case ex_core_T h of None \<Rightarrow> Inl (Throw (JsonRpcException (-5) ''''))
         | Some b \<Rightarrow> Inr (JObject [(''confirmations'', JInt (if ex_core_view r (blk_height b) = Some b then int (Suc (1 - blk_height b)) else -1)),
              (''height'', JInt (int (blk_height b)))]), step r)),
      rpc_decoderawtransaction = (\<lambda>_ r. (Inr ex_tx, step r)),
      rpc_verifymessage = (\<lambda>_ _ _ r. (Inr (JObject [(''valid'', JBool False)]), step r)),
      rpc_getrawmempool = (\<lambda>r. (Inr (JArray []), step r))\<rparr>"

lemma ex_core_tx: "GetMoveFromTx ex_core_lib ex_tx = Inr (Some ex_core_move)"
  by (simp add: GetMoveFromTx_def ex_tx_def ex_core_move_def ex_core_lib_def string_at_def str_find_def str_substr_def
      str_from_def read_input_def asInt_def amounts_json_def Let_def)

lemma ex_core_construct: "ConstructBlockData ex_core_lib (ex_core_json h) = Inr (ex_core_block h)"
  by (simp add: ConstructBlockData_def ex_core_json_def ex_core_block_def asUInt64_def asInt64_def ex_core_tx)

lemma ex_core_blocks:
  "blk_hash (ex_core_block h) = h" "blk_height (ex_core_block ''c0'') = 0" "h \<noteq> ''c0'' \<Longrightarrow> blk_height (ex_core_block h) = 1"
  "h \<noteq> ''c0'' \<Longrightarrow> blk_parent (ex_core_block h) = ''c0''"
  by (simp_all add: ex_core_block_def)

lemma ex_core_chain: "mainchain_ok (ex_core_view r) 1"
  unfolding mainchain_ok_def ex_core_view_def ex_core_tip_def
  by (auto simp: ex_core_blocks le_Suc_eq split: if_splits)

lemma ex_core_node:
  assumes "\<And>r. ev r r" "\<And>r s t. ev r s \<Longrightarrow> ev s t \<Longrightarrow> ev r t" "\<And>r. ev r (step r)"
  shows "core_node ex_core_lib (ex_core_rpc step) ex_core_T ex_core_view (\<lambda>_. 1) (\<lambda>_. True) ev"
proof -
  have T: "ex_core_T (blk_hash b) = Some b" if "ex_core_view r h = Some b" for r h b
    using that by (auto simp: ex_core_view_def ex_core_tip_def ex_core_T_def ex_core_blocks split: if_splits)
  have hash: "blk_hash b = h" if "ex_core_T h = Some b" for h b
    using that by (auto simp: ex_core_T_def ex_core_blocks split: if_splits)
  have get: "rpc_getblock (ex_core_rpc step) (blk_hash b) 2 r = (Inr (ex_core_json (blk_hash b)), step r) \<and>
      ConstructBlockData ex_core_lib (ex_core_json (blk_hash b)) = Inr b" if "ex_core_T (blk_hash b) = Some b" for b r
    using that by (auto simp: ex_core_rpc_def ex_core_T_def ex_core_construct split: if_splits)
  have tip: "ex_core_view r 1 = Some (ex_core_block (ex_core_tip r))" for r by (simp add: ex_core_view_def)
  have none: "\<forall>h b. ex_core_view r h = Some b \<longrightarrow> blk_hash b \<noteq> hash" if "ex_core_T hash = None" for r hash
    using T that by fastforce
  show ?thesis
    unfolding core_node_def
  proof (intro conjI allI impI)
    fix r
    show "mainchain_ok (ex_core_view r) 1" by (rule ex_core_chain)
    show "ex_core_view r 0 \<noteq> None" by (simp add: ex_core_view_def)
    show "\<exists>j r' b. rpc_getblockchaininfo (ex_core_rpc step) r = (Inr j, r') \<and> True \<and> ev r r' \<and> isObject j \<and>
        ex_core_view r 1 = Some b \<and> json_get j ''blocks'' = JInt (int 1) \<and> json_get j ''bestblockhash'' = JString (blk_hash b)"
      using assms(3) tip by (simp add: ex_core_rpc_def ex_core_blocks)
    show "\<exists>r' msg. True \<and> ev r r' \<and> rpc_getblockhash (ex_core_rpc step) (int h) r =
        (case ex_core_view r h of None \<Rightarrow> Inl (Throw (JsonRpcException (-8) msg)) | Some b \<Rightarrow> Inr (blk_hash b), r')" for h
      using assms(3) by (auto simp: ex_core_rpc_def)
    show "\<exists>j r'. rpc_getblock (ex_core_rpc step) (blk_hash b) 2 r = (Inr j, r') \<and> True \<and> ev r r' \<and> ConstructBlockData ex_core_lib j = Inr b"
      if "ex_core_T (blk_hash b) = Some b" for b
      using get [OF that] assms(3) by blast
    show "\<exists>a r'. rpc_getblockheader (ex_core_rpc step) hash r = (a, r') \<and> True \<and> ev r r' \<and>
        (case ex_core_T hash of
           None \<Rightarrow> (\<exists>c msg. a = Inl (Throw (JsonRpcException c msg))) \<and> (\<forall>h b. ex_core_view r h = Some b \<longrightarrow> blk_hash b \<noteq> hash)
         | Some b \<Rightarrow> \<exists>j. a = Inr j \<and> isObject j \<and>
             (if ex_core_view r (blk_height b) = Some b
              then json_get j ''confirmations'' = JInt (int (Suc (1 - blk_height b))) \<and> json_get j ''height'' = JInt (int (blk_height b))
              else json_get j ''confirmations'' = JInt (-1)))" for hash
      using assms(3) none [of hash r] by (cases "ex_core_T hash") (simp_all add: ex_core_rpc_def)
  qed (use assms T hash in \<open>auto\<close>)
qed

subsection \<open>An Ethereum-like node\<close>

fun ins_by :: "('a \<Rightarrow> 'a \<Rightarrow> bool) \<Rightarrow> 'a \<Rightarrow> 'a list \<Rightarrow> 'a list" where
  "ins_by lt x [] = [x]"
| "ins_by lt x (y # ys) = (if lt y x then y # ins_by lt x ys else x # y # ys)"

definition sort_by :: "('a \<Rightarrow> 'a \<Rightarrow> bool) \<Rightarrow> 'a list \<Rightarrow> 'a list" where
  "sort_by lt xs = foldr (ins_by lt) xs []"

lemma mset_ins_by: "mset (ins_by lt x ys) = add_mset x (mset ys)"
  by (induction ys) auto

lemma set_ins_by: "set (ins_by lt x ys) = insert x (set ys)"
  using mset_ins_by [of lt x ys] by (metis set_mset_add_mset_insert set_mset_mset)

lemma sorted_ins_by:
  assumes "strict_weak lt S" "x \<in> S"
  shows "set ys \<subseteq> S \<Longrightarrow> sorted_wrt (\<lambda>x y. \<not> lt y x) ys \<Longrightarrow> sorted_wrt (\<lambda>x y. \<not> lt y x) (ins_by lt x ys)"
proof (induction ys)
  case (Cons y ys)
  have asym: "\<not> (lt a b \<and> lt b a)" if "a \<in> S" "b \<in> S" for a b using assms(1) that unfolding strict_weak_def by blast
  have trans: "lt a b \<or> lt b c" if "lt a c" "a \<in> S" "b \<in> S" "c \<in> S" for a b c
    using assms(1) that unfolding strict_weak_def by blast
  show ?case
  proof (cases "lt y x")
    case True
    then show ?thesis using Cons asym [of x y] assms(2) by (auto simp: set_ins_by)
  next
    case False
    then show ?thesis using Cons.prems trans [of _ x y] assms(2) by auto
  qed
qed simp

lemma sort_by_ok: "sort_ok sort_by"
  unfolding sort_ok_def
proof (intro allI impI)
  fix lt :: "'a \<Rightarrow> 'a \<Rightarrow> bool" and xs assume weak: "strict_weak lt (set xs)"
  have "mset (foldr (ins_by lt) ys []) = mset ys" for ys by (induction ys) (auto simp: mset_ins_by)
  moreover from this have "set (foldr (ins_by lt) ys []) = set ys" for ys by (metis set_mset_mset)
  then have "set ys \<subseteq> set xs \<Longrightarrow> sorted_wrt (\<lambda>x y. \<not> lt y x) (foldr (ins_by lt) ys [])" for ys
    by (induction ys) (auto intro!: sorted_ins_by [OF weak])
  ultimately show "mset (sort_by lt xs) = mset xs \<and> sorted_wrt (\<lambda>x y. \<not> lt y x) (sort_by lt xs)"
    by (simp add: sort_by_def)
qed

definition pop :: "(string list, string) prog" where
  "pop d = (case d of [] \<Rightarrow> (Inl Abort, d) | x # xs \<Rightarrow> (Inr x, xs))"

definition ex_ws_lib :: ws_lib where
  "ex_ws_lib =
     \<lparr>wl_connect = (\<lambda>_. True), wl_sends = (\<lambda>st. st = Opened), wl_valid = (\<lambda>st. st \<noteq> Ended),
      wl_close = (\<lambda>st. if st = Opened then Some Closing else None)\<rparr>"

lemma ex_ws_documented: "ws_documented ex_ws_lib" "wl_connect ex_ws_lib ep"
  by (simp_all add: ws_documented_def ex_ws_lib_def)

definition ex_eth_lib :: "string list eth_lib" where
  "ex_eth_lib =
     \<lparr>el_json = ex_real, el_Hexlify = (\<lambda>s. s), el_Unhexlify = Some, el_Keccak256 = (\<lambda>s. s),
      el_ParseInt = (\<lambda>s. if s = ''0x0'' then Inr 0 else if s = ''0x1'' then Inr 1
        else if s = ''0x89'' then Inr 137 else Inl Abort),
      el_AbiDecoder = (\<lambda>_. Inr [''p'', ''alice'', ''m'', ''nonce'', ''mover'', ''0x0'', ''receiver'']),
      el_ReadString = pop, el_ReadUint = (\<lambda>_. pop), el_ReadArray = (\<lambda>d. (Inr (0, d), d)), el_ReadDynamic = (\<lambda>d. (Inr d, d)),
      el_GetAllDataRead = (\<lambda>_. ''0xdata''), el_EncodeWord = (\<lambda>s. s), el_EncodeWordBytes = (@), el_ConcatHex = (@),
      el_Address = Some, el_GetLowerCase = (\<lambda>s. s), el_GetChecksummed = (\<lambda>s. s), el_VerifyMessage = (\<lambda>_ _. None),
      el_websocketpp = ex_ws_lib, el_sort = sort_by, MOVE_EVENT = ''event'', ACCOUNT_WCHI_FCN = '''', FORWARDER_EXECUTE_FCN = '''',
      CALL_FORWARDER_CODE = '''', TRACKING_ACCOUNTS_CODE = ''''\<rparr>"

definition ex_eth_json :: "string \<Rightarrow> json" where
  "ex_eth_json h =
     JObject [(''hash'', JString (''0x'' @ h)), (''number'', JString (if h = ''e0'' then ''0x0'' else ''0x1'')),
       (''parentHash'', JString (if h = ''e0'' then ''0x'' else ''0xe0'')), (''timestamp'', JString ''0x1'')]"

definition ex_eth_log :: json where
  "ex_eth_log =
     JObject [(''address'', JString ''accounts''), (''blockHash'', JString ''0xe1''), (''data'', JString ''d''),
       (''logIndex'', JString ''0x0''), (''topics'', JArray [JString ''event'']), (''transactionHash'', JString ''0xt''),
       (''transactionIndex'', JString ''0x1'')]"

definition ex_eth_move :: MoveData where
  "ex_eth_move = \<lparr>mv_txid = ''t'', mv_ns = ''p'', mv_name = ''alice'', mv_mv = ''m'', mv_burns = [],
     mv_metadata = JObject [(''mvid'', JString ''data''), (''out'', JObject [])]\<rparr>"

definition ex_eth_block :: "string \<Rightarrow> BlockData" where
  "ex_eth_block h =
     \<lparr>blk_hash = h, blk_parent = (if h = ''e0'' then '''' else ''e0''), blk_height = (if h = ''e0'' then 0 else 1),
      blk_rngseed = h, blk_metadata = JObject [(''timestamp'', JInt 1)],
      blk_moves = (if h = ''e1'' then [ex_eth_move] else [])\<rparr>"

definition ex_eth_view :: "unit \<Rightarrow> mainchain" where
  "ex_eth_view r h = (if h = 0 then Some (ex_eth_block ''e0'') else if h = 1 then Some (ex_eth_block ''e1'') else None)"

definition ex_eth_logs :: "BlockData \<Rightarrow> json list" where
  "ex_eth_logs b = (if blk_hash b = ''e1'' then [ex_eth_log] else [])"

definition ex_eth_tx :: "string \<Rightarrow> string \<Rightarrow> json" where
  "ex_eth_tx txid nonce = JObject [(''from'', JString ''sender''), (''hash'', JString (''0x'' @ txid)), (''nonce'', JString nonce)]"

text \<open>The answers to the calls of a batch.\<close>

definition ex_eth_ans :: "unit \<Rightarrow> batch_call \<Rightarrow> int \<times> json" where
  "ex_eth_ans r c =
     (0, if c = block_request 0 then ex_eth_json ''e0''
         else if c = block_request 1 then ex_eth_json ''e1''
         else if c = (''eth_getTransactionByHash'', JArray [JString ''0xt1'']) then ex_eth_tx ''t1'' ''0x1''
         else if c = (''eth_getTransactionByHash'', JArray [JString ''0xt2'']) then JNull
         else if c = (''eth_getTransactionByHash'', JArray [JString ''0xt3'']) then ex_eth_tx ''t3'' ''0x0''
         else if c = logs_request ex_eth_lib ''accounts'' (ex_eth_block ''e1'') \<or>
              c = (''eth_getLogs'', JArray [range_options ex_eth_lib ''accounts'' 0 1]) \<or>
              c = (''eth_getLogs'', JArray [range_options ex_eth_lib ''accounts'' 1 1]) then JArray [ex_eth_log]
         else JArray [])"

definition ex_eth_rpc :: "unit EthRpcClient" where
  "ex_eth_rpc =
     \<lparr>rpc_eth_chainId = (\<lambda>r. (Inr ''0x89'', r)), rpc_web3_clientVersion = (\<lambda>r. (Inr '''', r)),
      rpc_eth_blockNumber = (\<lambda>r. (Inr ''0x1'', r)),
      rpc_eth_getBlockByHash = (\<lambda>h _ r. (Inr (if h = ''0xe0'' then ex_eth_json ''e0'' else if h = ''0xe1'' then ex_eth_json ''e1'' else JNull), r)),
      rpc_eth_getBlockByNumber = (\<lambda>n _ r. (Inr (if n = ''0x0'' then ex_eth_json ''e0'' else if n = ''0x1'' then ex_eth_json ''e1'' else JNull), r)),
      rpc_eth_getLogs = (\<lambda>opt r. (Inr (snd (ex_eth_ans r (''eth_getLogs'', JArray [opt]))), r)),
      rpc_eth_getTransactionByHash = (\<lambda>_ r. (Inr JNull, r)), rpc_eth_call = (\<lambda>_ _ _ r. (Inr '''', r)),
      rpc_CallProcedures = (\<lambda>req r. (Inr (\<lambda>i. ex_eth_ans r (req ! i)), r))\<rparr>"

lemma ex_eth_extractor:
  "PendingDataExtractor_new ex_eth_lib ex_eth_rpc ''accounts'' r =
     (Inr \<lparr>pe_accountsContract = ''accounts'', pe_fwdCode = [], pe_accountsOverlayCode = [], pe_watchedContracts = []\<rparr>, r)"
  by (simp add: PendingDataExtractor_new_def FakeDeploy_def Let_def run_dec_def ex_eth_lib_def ex_eth_rpc_def pop_def)

lemma ex_eth_hex: "EncodeHexInt 0 = ''0x0''" "EncodeHexInt 1 = ''0x1''"
proof -
  have "show_hex 0 = ''0''" "show_hex 1 = ''1''" by (code_simp, code_simp)
  then show "EncodeHexInt 0 = ''0x0''" "EncodeHexInt 1 = ''0x1''" by (simp_all add: EncodeHexInt_def)
qed

lemma ex_eth_calls:
  "block_request 0 = (''eth_getBlockByNumber'', JArray [JString ''0x0'', JBool False])"
  "block_request 1 = (''eth_getBlockByNumber'', JArray [JString ''0x1'', JBool False])"
  "logs_request ex_eth_lib ''accounts'' (ex_eth_block h) =
     (''eth_getLogs'', JArray [JObject [(''address'', JString ''accounts''), (''blockHash'', JString (''0x'' @ h)), (''topics'', JArray [JString ''event''])]])"
  "range_options ex_eth_lib ''accounts'' a z =
     JObject [(''address'', JString ''accounts''), (''fromBlock'', JString (EncodeHexInt (int64_of a))),
       (''toBlock'', JString (EncodeHexInt (int64_of z))), (''topics'', JArray [JString ''event''])]"
  by (simp_all add: block_request_def ex_eth_hex logs_request_def range_options_def GetLogsOptions_def ex_eth_lib_def ex_eth_block_def)

lemma ex_eth_range: "EncodeHexInt (int64_of 0) = ''0x0''" "EncodeHexInt (int64_of 1) = ''0x1''"
  by (simp_all add: int64_of_small ex_eth_hex)

lemma ex_eth_base: "ExtractBaseData ex_eth_lib (ex_eth_json h) = Inr (base_data (ex_eth_block h))"
  by (simp add: ExtractBaseData_def ex_eth_json_def ex_eth_lib_def base_data_def ex_eth_block_def string_at_def
      ConvertUint256_def str_substr_def str_from_def)

lemma ex_eth_move: "run_dec (GetMoveDataFromLogs ex_eth_lib) [''p'', ''alice'', ''m'', ''nonce'', ''mover'', ''0x0'', ''receiver''] =
    Inr (ex_eth_move\<lparr>mv_txid := ''''\<rparr>)"
  by (simp add: run_dec_def GetMoveDataFromLogs_def ex_eth_lib_def pop_def ex_eth_move_def)

lemma ex_eth_process:
  "process_logs ex_eth_lib ''accounts'' [ex_eth_log] (BlockMoveExtractor_new (base_data (ex_eth_block ''e1''))) =
     Inr \<lparr>bm_blk = ex_eth_block ''e1'', bm_lastIndices = (1, 0)\<rparr>"
proof -
  have "ExtractMove ex_eth_lib ex_eth_log = Inr ex_eth_move"
    using ex_eth_move
    by (simp add: ExtractMove_def ex_eth_log_def string_at_def ex_eth_lib_def ConvertUint256_def str_substr_def str_from_def)
       (simp add: ex_eth_move_def)
  then show ?thesis
    by (simp add: ProcessLogEntry_def BlockMoveExtractor_new_def) 
       (simp add: ex_eth_log_def string_at_def ex_eth_lib_def ConvertUint256_def str_substr_def str_from_def
          indices_less_def base_data_def ex_eth_block_def)
qed

lemma ex_eth_chain: "mainchain_ok (ex_eth_view r) 1"
  unfolding mainchain_ok_def ex_eth_view_def ex_eth_block_def by (auto simp: le_Suc_eq split: if_splits)

lemma ex_eth_view_cases:
  assumes "ex_eth_view r h = Some b"
  obtains "h = 0" "b = ex_eth_block ''e0''" | "h = 1" "b = ex_eth_block ''e1''"
  using assms by (auto simp: ex_eth_view_def split: if_splits)

lemma ex_eth_blocks: "eth_blocks_ok ex_eth_lib ''accounts'' (ex_eth_ans r) ex_eth_logs (ex_eth_view r)"
  unfolding eth_blocks_ok_def
proof (intro conjI allI impI)
  fix h b assume b: "ex_eth_view r h = Some b"
  show "\<exists>j. ex_eth_ans r (block_request (int h)) = (0, j) \<and> isObject j \<and> ExtractBaseData ex_eth_lib j = Inr (base_data b)"
    using b by (cases rule: ex_eth_view_cases) (simp_all add: ex_eth_ans_def ex_eth_calls ex_eth_base, simp_all add: ex_eth_json_def)
  show "ex_eth_ans r (logs_request ex_eth_lib ''accounts'' b) = (0, JArray (ex_eth_logs b))"
    using b by (cases rule: ex_eth_view_cases) (simp_all add: ex_eth_ans_def ex_eth_calls ex_eth_logs_def, simp_all add: ex_eth_block_def)
  show "\<exists>x. process_logs ex_eth_lib ''accounts'' (ex_eth_logs b) (BlockMoveExtractor_new (base_data b)) = Inr x \<and> bm_blk x = b"
    using b
  proof (cases rule: ex_eth_view_cases)
    case 1
    then show ?thesis by (simp add: ex_eth_logs_def BlockMoveExtractor_new_def base_data_def ex_eth_block_def)
  next
    case 2
    then have "ex_eth_logs b = [ex_eth_log]" by (simp add: ex_eth_logs_def ex_eth_block_def)
    with 2 ex_eth_process show ?thesis by simp
  qed
next
  fix a z assume az: "a \<le> z \<and> ex_eth_view r a \<noteq> None \<and> ex_eth_view r z \<noteq> None"
  have logs: "ex_eth_logs (ex_eth_block ''e0'') = []" "ex_eth_logs (ex_eth_block ''e1'') = [ex_eth_log]"
    by (simp_all add: ex_eth_logs_def ex_eth_block_def)
  consider "a = 0" "z = 0" | "a = 0" "z = 1" | "a = 1" "z = 1"
    using az by (auto simp: ex_eth_view_def split: if_splits)
  then show "ex_eth_ans r (''eth_getLogs'', JArray [range_options ex_eth_lib ''accounts'' a z]) =
      (0, JArray (concat (map ex_eth_logs (block_slice (ex_eth_view r) a (Suc z - a)))))"
    by cases (simp_all add: ex_eth_ans_def ex_eth_calls ex_eth_range ex_eth_hex ex_eth_view_def logs numeral_2_eq_2)
qed

lemma ex_eth_node: "eth_node ex_eth_lib ex_eth_rpc ''accounts'' ex_eth_ans ex_eth_logs ex_eth_view (\<lambda>_. 1) (\<lambda>_. True)"
  unfolding eth_node_def
proof (intro allI impI conjI)
  fix r :: unit
  show "eth_tip_ok ex_eth_lib ex_eth_rpc ex_eth_view (\<lambda>_. 1) (\<lambda>_. True) r"
    using ex_eth_chain by (simp add: eth_tip_ok_def ex_eth_rpc_def ex_eth_lib_def same_chain_as_def ex_eth_view_def)
  show "eth_batch_ok ex_eth_rpc ex_eth_ans ex_eth_view (\<lambda>_. 1) (\<lambda>_. True) r"
    by (auto simp: eth_batch_ok_def ex_eth_rpc_def same_chain_as_def)
  show "eth_blocks_ok ex_eth_lib ''accounts'' (ex_eth_ans r) ex_eth_logs (ex_eth_view r)" by (rule ex_eth_blocks)
  have "el_ParseInt ex_eth_lib n = Inr i \<longleftrightarrow> n = ''0x0'' \<and> i = 0 \<or> n = ''0x1'' \<and> i = 1 \<or> n = ''0x89'' \<and> i = 137" for n i
    by (auto simp: ex_eth_lib_def)
  then show "eth_lookup_ok ex_eth_lib ex_eth_rpc ex_eth_view (\<lambda>_. 1) (\<lambda>_. True) r"
    by (auto simp: eth_lookup_ok_def ex_eth_rpc_def same_chain_as_def ex_eth_view_def ex_eth_json_def ex_eth_block_def split: if_splits)
qed

end
