(* ===== verification/PropConnect.thy ===== *)
theory PropConnect
  imports ConnectExamples
begin

text \<open>
  The properties of the two connectors and of their helpers: the contract of a base chain, what holds
  for any node, the form of the blocks, the local mempool, the headers of the RPC client and the
  payment amounts.
\<close>

subsection \<open>Xaya Core\<close>



text \<open>C15.  Over a node that does not change during the calls, the connector to Xaya Core keeps the
  contract every client of a base chain relies on: its queries return, without an error, the tip
  height, the slices and the heights of the node's main chain.\<close>

theorem core_keeps_contract:
  assumes "core_node X rpc T view tip up (same_chain_as view tip)"
  shows "base_chain (CoreBase fuel X rpc) (\<lambda>s. view (cc_node s)) (\<lambda>s. tip (cc_node s))
    (\<lambda>s. up (cc_node s) \<and> tip (cc_node s) < fuel)"
  by (rule CoreBase_contract [OF assms])

theorem core_keeps_contract_witness:
  "base_chain (CoreBase 2 ex_core_lib (ex_core_rpc id)) (\<lambda>s. ex_core_view (cc_node s)) (\<lambda>s. 1) (\<lambda>s. True \<and> 1 < (2::nat))"
proof -
  have "core_node ex_core_lib (ex_core_rpc id) ex_core_T ex_core_view (\<lambda>_. 1) (\<lambda>_. True) (same_chain_as ex_core_view (\<lambda>_. 1))"
    by (rule ex_core_node) (simp_all add: same_chain_as_def)
  from core_keeps_contract [OF this, of 2] show ?thesis .
qed


definition ex_reader :: zmq_lib where
  "ex_reader = \<lparr>json_write = (\<lambda>_. ''''), json_read = (\<lambda>_. None), uv_filter = Some, json_read_strict = (\<lambda>s. Some (JObject []))\<rparr>"


subsection \<open>Ethereum\<close>


definition ex_eth :: "unit EthChain" where
  "ex_eth = \<lparr>ec_node = (), ec_headers = [], ec_accountsContract = ''accounts'', ec_chainId = 137,
     ec_pending = None, ec_mempool = [], ec_sub = None\<rparr>"

lemma ex_eth_contract:
  "base_chain (EthBase 1 ex_eth_lib ex_eth_rpc 1024) (\<lambda>s. ex_eth_view (ec_node s)) (\<lambda>s. 1)
     (\<lambda>s. True \<and> ec_accountsContract s = ''accounts'')"
  using EthBase_contract [OF ex_eth_node, of 1 1024] by simp

lemma ex_eth_query: "\<exists>s'. Eth_GetBlockRange 1 ex_eth_lib ex_eth_rpc 1024 0 2 ex_eth = (Inr [ex_eth_block ''e0'', ex_eth_block ''e1''], s')"
proof -
  have "block_slice (ex_eth_view ()) 0 2 = [ex_eth_block ''e0'', ex_eth_block ''e1'']"
    by (simp add: ex_eth_view_def numeral_2_eq_2)
  with base_chain.GetBlockRange_law [OF ex_eth_contract, of ex_eth 0 2] show ?thesis
    by (auto simp: ex_eth_def EthBase_def)
qed





lemma ex_mempool: "Mempool_GetContent ex_eth_lib ex_eth_rpc ((), [''t1'', ''t2'', ''t3'']) = (Inr [''t3'', ''t1''], ((), [''t1'', ''t3'']))"
proof -
  have ans: "map (\<lambda>(i, txid). (txid, ex_eth_ans () (mempool_request [''t1'', ''t2'', ''t3''] ! i))) (enumerate 0 [''t1'', ''t2'', ''t3'']) =
      [(''t1'', 0, ex_eth_tx ''t1'' ''0x1''), (''t2'', 0, JNull), (''t3'', 0, ex_eth_tx ''t3'' ''0x0'')]"
    by (simp add: mempool_request_def ex_eth_ans_def ex_eth_calls numeral_2_eq_2)
  have upd: "mempool_update ex_eth_lib [(''t1'', 0, ex_eth_tx ''t1'' ''0x1''), (''t2'', 0, JNull), (''t3'', 0, ex_eth_tx ''t3'' ''0x0'')]
      [''t1'', ''t2'', ''t3''] = (Inr [ex_eth_tx ''t1'' ''0x1'', ex_eth_tx ''t3'' ''0x0''], [''t1'', ''t3''])"
    by (simp add: ex_eth_tx_def string_at_def)
  have less: "IsEarlierForMempool ex_eth_lib (ex_eth_tx ''t1'' ''0x1'') (ex_eth_tx ''t3'' ''0x0'') = Inr False"
    "IsEarlierForMempool ex_eth_lib (ex_eth_tx ''t3'' ''0x0'') (ex_eth_tx ''t1'' ''0x1'') = Inr True"
    by (simp_all add: IsEarlierForMempool_def ex_eth_tx_def string_at_def ex_eth_lib_def)
  have "sort_transactions ex_eth_lib [ex_eth_tx ''t1'' ''0x1'', ex_eth_tx ''t3'' ''0x0''] = Inr [ex_eth_tx ''t3'' ''0x0'', ex_eth_tx ''t1'' ''0x1'']"
    using less by (simp add: sort_transactions_def earlier_def sort_by_def) (simp add: ex_eth_lib_def sort_by_def earlier_def less)
  then have res: "mempool_result ex_eth_lib [ex_eth_tx ''t1'' ''0x1'', ex_eth_tx ''t3'' ''0x0''] = Inr [''t3'', ''t1'']"
    by (simp add: mempool_result_def ex_eth_tx_def string_at_def ConvertUint256_def str_substr_def str_from_def)
  have call: "rpc_CallProcedures ex_eth_rpc req r = (Inr (\<lambda>i. ex_eth_ans r (req ! i)), r)" for req r by (simp add: ex_eth_rpc_def)
  show ?thesis
    using ans upd res by (simp add: Mempool_GetContent_def zoomM_simp call)
qed


text \<open>C27.  The payment of a move, written as a floating-point number of CHI, still identifies the amount:
  multiplied by \<open>10 ^ 8\<close> and rounded to the nearest integer it gives the amount back, for every
  amount below \<open>2 ^ 26\<close> CHI.\<close>

theorem chi_amount_exact:
  assumes "amount < 10 ^ 8 * 2 ^ 26"
  shows "round_div (dbl_mag (chi_amount (int amount)) * 10 ^ 8) (2 ^ 1074) = amount"
  using quotient_keeps_amount [OF assms] by (simp only: chi_amount_def DECIMALS_def) simp

theorem chi_amount_exact_witness:
  "round_div (dbl_mag (chi_amount (int 12345678)) * 10 ^ 8) (2 ^ 1074) = 12345678"
  by (rule chi_amount_exact) simp

subsection \<open>The headers of the RPC client\<close>

text \<open>C26.  The parser of the headers ends for every text and never fails its \<^verbatim>\<open>CHECK\<close>: it reads the
  fields between the semicolons up to the first one without an equals sign, and the result is an
  ordered map.\<close>

theorem ParseRpcHeaders_total:
  assumes "length str < npos"
  shows "ParseRpcHeaders str = Inr (read_fields (split_on (CHR '';'') str) []) \<and> smap_ok (read_fields (split_on (CHR '';'') str) [])"
  using ParseRpcHeaders_fields [OF assms] read_fields_ok by simp

theorem ParseRpcHeaders_total_witness:
  "ParseRpcHeaders ''abc=xyz;foo;1=2'' = Inr [(''abc'', ''xyz'')]"
proof -
  have "read_fields (split_on (CHR '';'') ''abc=xyz;foo;1=2'') [] = [(''abc'', ''xyz'')]"
    by (simp add: field_key_def field_value_def smap_emplace_def)
  then show ?thesis using ParseRpcHeaders_total [of "''abc=xyz;foo;1=2''"] by simp
qed

text \<open>Parsing the text of a list of headers gives the headers back, whatever the values contain except a
  semicolon.\<close>

theorem ParseRpcHeaders_roundtrip:
  assumes "smap_ok hs" "hs \<noteq> []" "\<forall>h\<in>set hs. header_ok h" "length (header_text hs) < npos"
  shows "ParseRpcHeaders (header_text hs) = Inr hs"
  using ParseRpcHeaders_fields [OF assms(4)] split_header_text [OF assms(2,3)] read_fields_headers [of "[]" hs] assms(1,3) by simp

theorem ParseRpcHeaders_roundtrip_witness:
  "ParseRpcHeaders ''Auth=a=b;Key=''= Inr [(''Auth'', ''a=b''), (''Key'', '''')]"
proof -
  have "smap_ok [(''Auth'', ''a=b''), (''Key'', '''')]" by code_simp
  moreover have "header_text [(''Auth'', ''a=b''), (''Key'', '''')] = ''Auth=a=b;Key=''" by (simp add: header_text_def)
  ultimately show ?thesis using ParseRpcHeaders_roundtrip [of "[(''Auth'', ''a=b''), (''Key'', '''')]"] by (simp add: header_ok_def)
qed

end
