(* ===== verification/WebSocketProofs.thy ===== *)
theory WebSocketProofs
  imports EthChain
begin

text \<open>
  What the websocket subscriber does with the messages of a node.  The messages are the notes of a small
  abstract machine, which keeps the IDs of the two subscriptions and calls the owner for the heads and
  transactions announced under them; the network loop implements it.  The life cycle of the connection:
  a stop ends the worker, and the cases in which the process ends or a subscription is lost.
\<close>

subsection \<open>The abstract machine of the notes\<close>

datatype ws_note =
    HeadsSubscribed string
  | PendingSubscribed string
  | NewHead string string
  | NewTx string string
  | OtherNote

datatype ws_call = TipCall string | TxCall string

type_synonym ws_subs = "string \<times> string"

fun note_step :: "ws_subs \<Rightarrow> ws_note \<Rightarrow> ws_subs \<times> ws_call list" where
  "note_step (heads, txs) (HeadsSubscribed s) = ((s, txs), [])"
| "note_step (heads, txs) (PendingSubscribed s) = ((heads, s), [])"
| "note_step (heads, txs) (NewHead s h) = ((heads, txs), if s = heads then [TipCall h] else [])"
| "note_step (heads, txs) (NewTx s t) = ((heads, txs), if s = txs then [TxCall t] else [])"
| "note_step st OtherNote = (st, [])"

text \<open>A node announces no block under the subscription for transactions, and no transaction under the one
  for heads.\<close>

fun note_fits :: "ws_subs \<Rightarrow> ws_note \<Rightarrow> bool" where
  "note_fits (heads, txs) (NewHead s h) \<longleftrightarrow> s = heads \<or> s \<noteq> txs"
| "note_fits (heads, txs) (NewTx s t) \<longleftrightarrow> s \<noteq> heads"
| "note_fits st n \<longleftrightarrow> True"

fun notes_run :: "ws_subs \<Rightarrow> ws_note list \<Rightarrow> ws_subs \<times> ws_call list" where
  "notes_run st [] = (st, [])"
| "notes_run st (n # ns) =
     (let (st1, calls1) = note_step st n; (st2, calls2) = notes_run st1 ns in (st2, calls1 @ calls2))"

fun notes_fit :: "ws_subs \<Rightarrow> ws_note list \<Rightarrow> bool" where
  "notes_fit st [] \<longleftrightarrow> True"
| "notes_fit st (n # ns) \<longleftrightarrow> note_fits st n \<and> notes_fit (fst (note_step st n)) ns"

fun do_call :: "'w ws_callbacks \<Rightarrow> ws_call \<Rightarrow> ('w, unit) prog" where
  "do_call cb (TipCall h) = ws_NewTip cb h"
| "do_call cb (TxCall t) = ws_NewPendingTx cb t"

text \<open>The JSON values that carry a note.\<close>

definition is_answer :: "real_conv \<Rightarrow> json \<Rightarrow> int \<Rightarrow> string \<Rightarrow> bool" where
  "is_answer R d callId s \<longleftrightarrow>
     json_has d ''result'' = Inr True \<and> bindE (json_at d ''id'') (asInt R) = Inr callId \<and>
     string_at R d ''result'' = Inr s \<and> json_has d ''method'' = Inr False"

definition is_notification :: "real_conv \<Rightarrow> json \<Rightarrow> string \<Rightarrow> bool" where
  "is_notification R d s \<longleftrightarrow>
     json_has d ''result'' = Inr False \<and> json_has d ''method'' = Inr True \<and>
     string_at R d ''method'' = Inr ''eth_subscription'' \<and> isObject (json_get d ''params'') \<and>
     string_at R (json_get d ''params'') ''subscription'' = Inr s"

fun is_note :: "real_conv \<Rightarrow> json \<Rightarrow> ws_note \<Rightarrow> bool" where
  "is_note R d (HeadsSubscribed s) \<longleftrightarrow> is_answer R d 1 s"
| "is_note R d (PendingSubscribed s) \<longleftrightarrow> is_answer R d 2 s"
| "is_note R d (NewHead s h) \<longleftrightarrow>
     is_notification R d s \<and> isObject (json_get (json_get d ''params'') ''result'') \<and>
     string_at R (json_get (json_get d ''params'') ''result'') ''hash'' = Inr h"
| "is_note R d (NewTx s t) \<longleftrightarrow>
     is_notification R d s \<and> isString (json_get (json_get d ''params'') ''result'') \<and>
     asString R (json_get (json_get d ''params'') ''result'') = Inr t"
| "is_note R d OtherNote \<longleftrightarrow>
     json_has d ''result'' = Inr False \<and>
     (json_has d ''method'' = Inr False \<or>
      json_has d ''method'' = Inr True \<and> (\<exists>m. string_at R d ''method'' = Inr m \<and> m \<noteq> ''eth_subscription''))"

definition carries :: "(string \<Rightarrow> json option) \<Rightarrow> real_conv \<Rightarrow> string \<Rightarrow> ws_note \<Rightarrow> bool" where
  "carries rd R p n \<longleftrightarrow> (\<exists>d. rd p = Some d \<and> is_note R d n)"

subsection \<open>The handler of messages implements it\<close>

abbreviation cn_subs :: "Connection \<Rightarrow> ws_subs" where
  "cn_subs c \<equiv> (cn_subNewHeads c, cn_subPendingTx c)"

definition with_subs :: "ws_subs \<Rightarrow> Connection \<Rightarrow> Connection" where
  "with_subs st c = c\<lparr>cn_subNewHeads := fst st, cn_subPendingTx := snd st\<rparr>"

lemma with_subs_simps [simp]:
  "cn_subs (with_subs st c) = st" "with_subs st (with_subs st' c) = with_subs st c" "with_subs (cn_subs c) c = c"
  "cn_state (with_subs st c) = cn_state c" "cn_sent (with_subs st c) = cn_sent c"
  "cn_shouldStop (with_subs st c) = cn_shouldStop c" "cn_worker (with_subs st c) = cn_worker c"
  "cn_subNewHeads (with_subs st c) = fst st" "cn_subPendingTx (with_subs st c) = snd st"
  by (simp_all add: with_subs_def)

lemma on_con_simp [simp]: "on_con m (c, w) = (fst (m c), (snd (m c), w))"
  by (simp add: on_con_def zoomM_def case_prod_unfold)

lemma bindM_liftE [simp]:
  "bindM (liftE (Inr a)) f = f a" "thenM (CHECK True) m = m"
  by (simp_all add: fun_eq_iff)

lemma thenM_unit [simp]: "thenM m (ret ()) = (m :: ('s, unit) prog)"
  by (simp add: fun_eq_iff thenM_def bindM_def split: prod.split sum.split)

lemma handle_result_note:
  assumes "is_note R d n"
  shows "handle_result R d c = (Inr (), with_subs (fst (note_step (cn_subs c) n)) c)"
  using assms
  by (cases n) (simp_all add: handle_result_def is_answer_def is_notification_def ID_NEW_HEADS_def ID_PENDING_TX_def with_subs_def)

lemma handle_notification_note:
  assumes "is_note R d n" "note_fits (cn_subs c) n"
  shows "handle_notification R cb d (with_subs (fst (note_step (cn_subs c) n)) c) w =
    forM (snd (note_step (cn_subs c) n)) (do_call cb) w"
proof (cases n)
  case (NewHead s h)
  with assms show ?thesis
    by (cases "s = cn_subNewHeads c") (simp_all add: handle_notification_def is_notification_def Let_def)
next
  case (NewTx s t)
  with assms show ?thesis
    by (cases "s = cn_subPendingTx c") (simp_all add: handle_notification_def is_notification_def Let_def)
qed (use assms in \<open>auto simp: handle_notification_def is_answer_def\<close>)

lemma HandleMessage_note:
  assumes "carries rd R p n" "note_fits (cn_subs c) n"
  shows "HandleMessage rd R cb p (c, w) =
    (case note_step (cn_subs c) n of (st, calls) \<Rightarrow>
      case forM calls (do_call cb) w of (r, w') \<Rightarrow> (r, (with_subs st c, w')))"
proof -
  obtain d where d: "rd p = Some d" "is_note R d n" using assms(1) by (auto simp: carries_def)
  show ?thesis
    using d(1) handle_result_note [OF d(2), of c] handle_notification_note [OF d(2) assms(2), of cb w]
    by (simp add: HandleMessage_def zoomM_simp case_prod_unfold)
qed

subsection \<open>The network loop\<close>

text \<open>A loop that has not ended goes on with the events after it.\<close>

lemma endpoint_run_append:
  assumes "endpoint_run W rd R cb es (c, w) = (Inr (), (c', w'))" "cn_state c' \<noteq> Ended"
  shows "endpoint_run W rd R cb (es @ es') (c, w) = endpoint_run W rd R cb es' (c', w')"
  using assms
proof (induction es arbitrary: c w)
  case (Cons e es)
  from Cons.prems(1) obtain c1 w1 where step: "ws_handle W rd R cb e (c, w) = (Inr (), (c1, w1))"
      "(if cn_state c1 = Ended then (Inr (), (c1, w1)) else endpoint_run W rd R cb es (c1, w1)) = (Inr (), (c', w'))"
    by (auto simp: prog_Inr split: if_splits)
  with Cons.prems(2) have "cn_state c1 \<noteq> Ended" by (auto split: if_splits)
  with step Cons.IH [of c1 w1] Cons.prems(2) show ?case by simp
qed simp

lemma endpoint_run_notes:
  assumes "list_all2 (carries rd R) ps ns" "notes_fit (cn_subs c) ns" "cn_state c \<noteq> Ended"
    and "forM (snd (notes_run (cn_subs c) ns)) (do_call cb) w = (Inr (), w')"
  shows "endpoint_run W rd R cb (map WsMessage ps) (c, w) = (Inr (), (with_subs (fst (notes_run (cn_subs c) ns)) c, w'))"
  using assms
proof (induction ps ns arbitrary: c w rule: list_all2_induct)
  case (Cons p ps n ns)
  obtain st calls where n: "note_step (cn_subs c) n = (st, calls)" by (cases "note_step (cn_subs c) n")
  obtain st2 calls2 where ns: "notes_run st ns = (st2, calls2)" by (cases "notes_run st ns")
  obtain w1 where w1: "forM calls (do_call cb) w = (Inr (), w1)" "forM calls2 (do_call cb) w1 = (Inr (), w')"
    using Cons.prems(3) by (auto simp: n ns forM_append prog_Inr)
  have "HandleMessage rd R cb p (c, w) = (Inr (), (with_subs st c, w1))"
    using HandleMessage_note [OF Cons.hyps(1), of c cb w] Cons.prems(1) by (simp add: n w1)
  with Cons.IH [of "with_subs st c" w1] Cons.prems w1 show ?case by (simp add: n ns)
qed auto

text \<open>The heads announced under a subscription are the tips reported.\<close>

fun tips_of :: "ws_call list \<Rightarrow> string list" where
  "tips_of [] = []"
| "tips_of (TipCall h # cs) = h # tips_of cs"
| "tips_of (TxCall t # cs) = tips_of cs"

fun announced :: "string \<Rightarrow> ws_note list \<Rightarrow> string list" where
  "announced sub [] = []"
| "announced sub (NewHead s h # ns) = (if s = sub then h # announced sub ns else announced sub ns)"
| "announced sub (_ # ns) = announced sub ns"

fun resubscribes :: "ws_note \<Rightarrow> bool" where
  "resubscribes (HeadsSubscribed s) \<longleftrightarrow> True"
| "resubscribes _ \<longleftrightarrow> False"

lemma tips_of_append: "tips_of (xs @ ys) = tips_of xs @ tips_of ys"
  by (induction xs rule: tips_of.induct) simp_all

lemma notes_run_tips:
  "list_all (\<lambda>n. \<not> resubscribes n) ns \<Longrightarrow> tips_of (snd (notes_run (sub, txs) ns)) = announced sub ns"
proof (induction ns arbitrary: txs)
  case (Cons n ns)
  then show ?case by (cases n) (simp_all add: case_prod_unfold Let_def tips_of_append)
qed simp

lemma notes_run_append:
  "notes_run st (ns @ ms) =
    (fst (notes_run (fst (notes_run st ns)) ms), snd (notes_run st ns) @ snd (notes_run (fst (notes_run st ns)) ms))"
  by (induction ns arbitrary: st) (simp_all add: case_prod_unfold Let_def)

lemma notes_fit_append: "notes_fit st (ns @ ms) \<longleftrightarrow> notes_fit st ns \<and> notes_fit (fst (notes_run st ns)) ms"
  by (induction ns arbitrary: st) (simp_all add: case_prod_unfold Let_def)

subsection \<open>Opening and stopping\<close>

definition subscribe_request :: "int \<Rightarrow> string \<Rightarrow> json" where
  "subscribe_request callId type =
     JObject [(''id'', JInt callId), (''jsonrpc'', JString ''2.0''), (''method'', JString ''eth_subscribe''),
       (''params'', JArray [JString type])]"

lemma SendSubscribe_request: "SendSubscribe W callId type = con_send W (subscribe_request callId type)"
  by (simp add: SendSubscribe_def subscribe_request_def Let_def)

lemma work_opened:
  assumes W: "ws_documented W" and "list_all2 (carries rd R) ps ns" "notes_fit ([], []) ns"
    and "forM (snd (notes_run ([], []) ns)) (do_call cb) w = (Inr (), w')"
  shows "\<exists>c. Connection_work W rd R cb (WsOpen # map WsMessage ps) (Connection_fresh, w) = (Inr (), (c, w')) \<and>
    cn_state c = Opened \<and> cn_sent c = [subscribe_request 1 ''newHeads''] \<and> cn_subs c = fst (notes_run ([], []) ns)"
proof -
  let ?c = "Connection_fresh\<lparr>cn_state := Opened, cn_sent := [subscribe_request 1 ''newHeads'']\<rparr>"
  have "ws_handle W rd R cb WsOpen (Connection_fresh, w) = (Inr (), (?c, w))"
    using W by (simp add: ws_documented_def Connection_open_def get_con_from_hdl_def SendSubscribe_request con_send_def ID_NEW_HEADS_def Connection_fresh_def)
  moreover have "cn_subs ?c = ([], [])" by (simp add: Connection_fresh_def)
  ultimately show ?thesis
    using endpoint_run_notes [of rd R ps ns ?c cb w w' W] assms by (simp add: Connection_work_def)
qed

text \<open>Messages that arrive before and after the closing handshake has begun are handled.\<close>

lemma destroy_ok:
  assumes W: "ws_documented W" and "cn_worker c" "cn_state c = Opened" "list_all2 (carries rd R) ps ns" "list_all2 (carries rd R) qs ms"
    and "notes_fit (cn_subs c) (ns @ ms)"
    and "forM (snd (notes_run (cn_subs c) (ns @ ms))) (do_call cb) w = (Inr (), w')"
  shows "\<exists>c'. Connection_destroy W rd R cb (map WsMessage ps @ WsInterrupt # map WsMessage qs @ [WsEnd]) (c, w) = (Inr (), (c', w')) \<and>
    cn_state c' = Ended \<and> \<not> cn_worker c'"
proof -
  let ?c = "c\<lparr>cn_shouldStop := True\<rparr>" and ?st = "fst (notes_run (cn_subs c) ns)"
  obtain w1 where w1: "forM (snd (notes_run (cn_subs c) ns)) (do_call cb) w = (Inr (), w1)"
      "forM (snd (notes_run ?st ms)) (do_call cb) w1 = (Inr (), w')"
    using assms(7) by (auto simp: notes_run_append forM_append prog_Inr)
  let ?c1 = "with_subs ?st ?c"
  let ?c2 = "?c1\<lparr>cn_state := Closing\<rparr>"
  let ?c3 = "with_subs (fst (notes_run ?st ms)) ?c2"
  have run1: "endpoint_run W rd R cb (map WsMessage ps) (?c, w) = (Inr (), (?c1, w1))"
    using endpoint_run_notes [OF assms(4), of ?c cb w w1] assms(3,6) w1(1) by (simp add: notes_fit_append)
  have subs2: "cn_subs ?c2 = ?st" by (simp add: with_subs_def)
  have run2: "endpoint_run W rd R cb (map WsMessage qs) (?c2, w1) = (Inr (), (?c3, w'))"
    using endpoint_run_notes [OF assms(5), of ?c2 cb w1 w'] assms(6) w1(2) unfolding subs2 by (simp add: notes_fit_append)
  have "endpoint_run W rd R cb (map WsMessage ps @ WsInterrupt # map WsMessage qs @ [WsEnd]) (?c, w) =
      endpoint_run W rd R cb (map WsMessage qs @ [WsEnd]) (?c2, w1)"
    using endpoint_run_append [OF run1] assms(3) W
    by (simp add: ws_documented_def Connection_interrupt_def get_con_from_hdl_def con_close_def)
  also have "\<dots> = (Inr (), (?c3\<lparr>cn_state := Ended\<rparr>, w'))"
    using endpoint_run_append [OF run2, of "[WsEnd]"] by simp
  finally show ?thesis
    using assms(2,3) W by (simp add: ws_documented_def Connection_destroy_def Connection_join_def Connection_work_def get_con_from_hdl_def)
qed

subsection \<open>Where the process ends\<close>

text \<open>A message that jsoncpp cannot read is an exception outside of websocketpp, which the worker does not catch.\<close>

lemma unreadable_message_aborts:
  assumes "rd p = None"
  shows "Connection_work W rd R cb (WsMessage p # es) (c, w) = (Inl Abort, (c, w))"
  using assms by (simp add: Connection_work_def HandleMessage_def)

text \<open>When the node has ended the connection, stopping it interrupts a handle that is not valid any more, and
  the exception leaves the destructor.\<close>

lemma stop_after_loss_aborts:
  assumes "ws_documented W" "cn_worker c" "cn_state c = Ended"
  shows "Connection_destroy W rd R cb es (c, w) = (Inl Abort, (c\<lparr>cn_shouldStop := True\<rparr>, w))"
  using assms by (simp add: ws_documented_def Connection_destroy_def get_con_from_hdl_def ws_exception_def)

text \<open>So does a stop before the connection is open.\<close>

lemma stop_before_open_aborts:
  assumes "ws_documented W" "cn_worker c" "cn_state c = Connecting"
  shows "Connection_destroy W rd R cb (WsInterrupt # es) (c, w) = (Inl Abort, (c\<lparr>cn_shouldStop := True\<rparr>, w))"
  using assms
  by (simp add: ws_documented_def Connection_destroy_def Connection_join_def Connection_work_def Connection_interrupt_def get_con_from_hdl_def
      con_close_def ws_exception_def)

subsection \<open>Requests\<close>

text \<open>The events of the network only lead to requests for heads.\<close>

definition asks_heads_only :: "Connection \<times> 'w \<Rightarrow> bool" where
  "asks_heads_only s \<longleftrightarrow> set (cn_sent (fst s)) \<subseteq> {subscribe_request 1 ''newHeads''}"

lemma handle_result_sent: "cn_sent (snd (handle_result R d c)) = cn_sent c"
  by (auto simp: handle_result_def bindM_def liftE_def split: sum.split)

lemma HandleMessage_sent: "cn_sent (fst (snd (HandleMessage rd R cb p s))) = cn_sent (fst s)"
  by (cases s) (auto simp: HandleMessage_def bindM_def thenM_def handle_result_sent zoomM_simp split: option.split sum.split prod.split)

lemma ws_handle_asks: "keepsM asks_heads_only (ws_handle W rd R cb e)"
proof (cases e)
  case WsOpen
  then show ?thesis
    by (auto simp: keepsM_def asks_heads_only_def Connection_open_def get_con_from_hdl_def SendSubscribe_request con_send_def
        ID_NEW_HEADS_def bindM_def thenM_def split: if_splits)
next
  case WsInterrupt
  then show ?thesis
    by (auto simp: keepsM_def asks_heads_only_def Connection_interrupt_def get_con_from_hdl_def con_close_def bindM_def thenM_def
        split: option.splits if_splits)
qed (simp_all add: keepsM_def asks_heads_only_def HandleMessage_sent)

lemma endpoint_run_asks: "keepsM asks_heads_only (endpoint_run W rd R cb es)"
proof (induction es)
  case (Cons e es)
  show ?case unfolding endpoint_run.simps by (intro keepsM_then keepsM_bind ws_handle_asks) (use Cons in simp_all)
qed (simp add: keepsM_def)

lemma Connection_work_asks: "keepsM asks_heads_only (Connection_work W rd R cb es)"
proof -
  have "snd (Connection_work W rd R cb es s) = snd (endpoint_run W rd R cb es s)" for s
    by (auto simp: Connection_work_def catchM_def split: prod.split sum.split error.split)
  then show ?thesis using endpoint_run_asks [of W rd R cb es] by (simp add: keepsM_def)
qed

text \<open>Before the connection is open, the request for pending transactions is dropped, and nothing repeats it.\<close>

lemma early_request_lost:
  assumes W: "ws_documented W" and "WebSocket_Start W s = (Inr (), s1)" "WebSocket_EnablePending W s1 = (Inr (), s2)" "ws_connection s2 = Some c"
  shows "c = Connection_fresh"
proof -
  have s1: "ws_connection s1 = Some Connection_fresh" using assms(2) by (auto simp: WebSocket_Start_def Connection_new_def prog_Inr)
  have "wl_valid W Connecting" "\<not> wl_sends W Connecting" using W unfolding ws_documented_def by blast+
  then have "Connection_EnablePending W Connection_fresh = (Inr (), Connection_fresh)"
    by (simp add: Connection_EnablePending_def get_con_from_hdl_def SendSubscribe_request con_send_def Connection_fresh_def)
  with s1 have "WebSocket_EnablePending W s1 = (Inr (), s1\<lparr>ws_connection := Some Connection_fresh\<rparr>)"
    by (simp add: WebSocket_EnablePending_def)
  with assms(3,4) show ?thesis by auto
qed

lemma on_sub_Inr:
  "on_sub m b = (Inr (), b') \<longleftrightarrow>
     (case ec_sub b of None \<Rightarrow> b' = b | Some w \<Rightarrow> \<exists>w'. m w = (Inr (), w') \<and> b' = b\<lparr>ec_sub := Some w'\<rparr>)"
  by (auto simp: on_sub_def prog_Inr case_prod_unfold Let_def prod_eq_iff split: option.split)

lemma early_pending_lost:
  assumes W: "ws_documented (el_websocketpp E)" and "Eth_Start E rpc b = (Inr (), b1)" "Eth_EnablePending E rpc b1 = (Inr True, b2)"
    and "ec_sub b2 = Some s" "ws_connection s = Some c"
  shows "c = Connection_fresh"
proof -
  obtain r b0 where 1: "on_sub (WebSocket_Start (el_websocketpp E)) b0 = (Inr (), b1)"
    using assms(2) by (auto simp: Eth_Start_def prog_Inr)
  obtain b3 where 2: "on_sub (WebSocket_EnablePending (el_websocketpp E)) b3 = (Inr (), b2)" "ec_sub b3 = ec_sub b1"
    using assms(3) by (auto simp: Eth_EnablePending_def ec_rpc_def prog_Inr zoomM_simp)
  from 2 assms(4) obtain s1 where "ec_sub b1 = Some s1" "WebSocket_EnablePending (el_websocketpp E) s1 = (Inr (), s)"
    by (auto simp: on_sub_Inr split: option.splits)
  moreover from this(1) 1 obtain s0 where "WebSocket_Start (el_websocketpp E) s0 = (Inr (), s1)"
    by (auto simp: on_sub_Inr split: option.splits)
  ultimately show ?thesis using early_request_lost [OF W] assms(5) by blast
qed

end
