(* ===== verification/PropWebSocket.thy ===== *)
theory PropWebSocket
  imports PropConnect WebSocketProofs
begin

text \<open>
  Properties of the websocket of the Ethereum connector: what it reports, how it stops, and when a
  subscription is lost.
\<close>

text \<open>C17.  Over a websocketpp that does what its documentation says, the websocket worker implements the machine of the notes: on a new connection it subscribes to new
  heads, and when the node confirms this, every head that the node announces under this subscription is
  reported to the connector, in order and once; pending transactions, other notifications and repeated
  messages in between do not disturb this.  The calls it makes are those of the machine.\<close>

theorem websocket_reports_heads:
  assumes "ws_documented W" "list_all2 (carries rd R) ps (HeadsSubscribed sub # ns)" "notes_fit ([], []) (HeadsSubscribed sub # ns)"
    and "list_all (\<lambda>n. \<not> resubscribes n) ns" "notes_run (sub, []) ns = (st, calls)"
    and "forM calls (do_call (Eth_Callbacks E rpc cb)) (e, w) = (Inr (), (e', w'))"
  shows "\<exists>c. Connection_work W rd R (Eth_Callbacks E rpc cb) (WsOpen # map WsMessage ps) (Connection_fresh, (e, w)) = (Inr (), (c, (e', w'))) \<and>
    cn_sent c = [subscribe_request ID_NEW_HEADS ''newHeads''] \<and> tips_of calls = announced sub ns"
proof -
  have run: "snd (notes_run ([], []) (HeadsSubscribed sub # ns)) = calls" using assms(5) by simp
  have "tips_of calls = announced sub ns" using notes_run_tips [OF assms(4), of sub "[]"] assms(5) by simp
  with work_opened [OF assms(1-3), unfolded run, OF assms(6)] show ?thesis by (auto simp: ID_NEW_HEADS_def)
qed

definition ex_note :: "string \<Rightarrow> json \<Rightarrow> json" where
  "ex_note sub result =
     JObject [(''method'', JString ''eth_subscription''),
       (''params'', JObject [(''result'', result), (''subscription'', JString sub)])]"

definition ex_ws_reader :: "string \<Rightarrow> json option" where
  "ex_ws_reader =
     map_of [(''answer'', JObject [(''id'', JInt 1), (''result'', JString ''s1'')]),
       (''head'', ex_note ''s1'' (JObject [(''hash'', JString ''0xaa'')])),
       (''tx'', ex_note ''s2'' (JString ''0xbb''))]"

lemma ex_ws_carries:
  "carries ex_ws_reader ex_real ''answer'' (HeadsSubscribed ''s1'')"
  "carries ex_ws_reader ex_real ''head'' (NewHead ''s1'' ''0xaa'')"
  "carries ex_ws_reader ex_real ''tx'' (NewTx ''s2'' ''0xbb'')"
  by (simp_all add: carries_def ex_ws_reader_def ex_note_def is_answer_def is_notification_def string_at_def asInt_def)

definition ex_ws_owner :: "string list base_cb" where
  "ex_ws_owner =
     \<lparr>bc_cb = Some \<lparr>cb_TipChanged = (\<lambda>h. modifyM (\<lambda>w. w @ [h])), cb_PendingMoves = (\<lambda>_. ret ())\<rparr>\<rparr>"

lemma ex_ws_tip: "NewTip ex_ws_owner ''0xaa'' (e, w) = (Inr (), (e, w @ [''aa'']))"
  by (simp add: NewTip_def ConvertUint256_def str_substr_def str_from_def TipChanged_def ex_ws_owner_def zoomM_simp bindE_def checkE_def)

theorem websocket_reports_heads_witness:
  "\<exists>c. Connection_work ex_ws_lib ex_ws_reader ex_real (Eth_Callbacks ex_eth_lib ex_eth_rpc ex_ws_owner)
     (WsOpen # map WsMessage [''answer'', ''tx'', ''head'', ''head'']) (Connection_fresh, (ex_eth, [])) =
       (Inr (), (c, (ex_eth, [''aa'', ''aa'']))) \<and> cn_sent c = [subscribe_request ID_NEW_HEADS ''newHeads'']"
  using websocket_reports_heads [of ex_ws_lib ex_ws_reader ex_real "[''answer'', ''tx'', ''head'', ''head'']" "''s1''"
      "[NewTx ''s2'' ''0xbb'', NewHead ''s1'' ''0xaa'', NewHead ''s1'' ''0xaa'']" "(''s1'', [])"
      "[TipCall ''0xaa'', TipCall ''0xaa'']" ex_eth_lib ex_eth_rpc ex_ws_owner ex_eth "[]" ex_eth "[''aa'', ''aa'']"]
  by (auto simp: ex_ws_documented ex_ws_carries Eth_Callbacks_def ex_ws_tip)


definition ex_ws :: WebSocketSubscriber where
  "ex_ws = \<lparr>ws_endpoint = ''ws'', ws_connection = Some (Connection_fresh\<lparr>cn_subNewHeads := ''s1'', cn_state := Opened\<rparr>)\<rparr>"


text \<open>C37.  The subscription to pending transactions is lost when it is requested before the connection is open:
  the connector is told that pending moves are enabled, the error code of the request is not looked at,
  and whatever the network does afterwards, the request is never sent.\<close>

theorem pending_subscription_lost:
  assumes "ws_documented (el_websocketpp E)" "Eth_Start E rpc b = (Inr (), b1)" "Eth_EnablePending E rpc b1 = (Inr True, b2)"
    and "ec_sub b2 = Some s" "ws_connection s = Some c"
  shows "subscribe_request ID_PENDING_TX ''newPendingTransactions'' \<notin>
    set (cn_sent (fst (snd (Connection_work (el_websocketpp E) rd R cb es (c, w)))))"
proof -
  have "c = Connection_fresh" by (rule early_pending_lost [OF assms])
  then have "asks_heads_only (c, w)" by (simp add: asks_heads_only_def Connection_fresh_def)
  with Connection_work_asks [of "el_websocketpp E" rd R cb es] have "asks_heads_only (snd (Connection_work (el_websocketpp E) rd R cb es (c, w)))"
    unfolding keepsM_def by blast
  then show ?thesis by (auto simp: asks_heads_only_def subscribe_request_def)
qed

definition ex_eth_ws :: "unit EthChain" where
  "ex_eth_ws = ex_eth\<lparr>ec_sub := Some (WebSocketSubscriber_new ''ws'')\<rparr>"

theorem pending_subscription_lost_witness:
  "\<exists>b1 b2. Eth_Start ex_eth_lib ex_eth_rpc ex_eth_ws = (Inr (), b1) \<and> Eth_EnablePending ex_eth_lib ex_eth_rpc b1 = (Inr True, b2) \<and>
     subscribe_request ID_PENDING_TX ''newPendingTransactions'' \<notin>
       set (cn_sent (fst (snd (Connection_work (el_websocketpp ex_eth_lib) ex_ws_reader ex_real (Eth_Callbacks ex_eth_lib ex_eth_rpc ex_ws_owner)
         (WsOpen # map WsMessage [''answer'', ''head'']) (the (ws_connection (the (ec_sub b2))), (ex_eth, []))))))"
proof -
  have W: "el_websocketpp ex_eth_lib = ex_ws_lib" by (simp add: ex_eth_lib_def)
  have D: "ws_documented (el_websocketpp ex_eth_lib)" by (simp add: W ex_ws_documented)
  then have V: "wl_valid ex_ws_lib Connecting" "\<not> wl_sends ex_ws_lib Connecting" unfolding W ws_documented_def by blast+
  let ?s = "\<lparr>ws_endpoint = ''ws'', ws_connection = Some Connection_fresh\<rparr>"
  have 1: "Eth_Start ex_eth_lib ex_eth_rpc ex_eth_ws = (Inr (), ex_eth\<lparr>ec_sub := Some ?s\<rparr>)"
    by (simp add: Eth_Start_def on_sub_def ec_rpc_def zoomM_simp WebSocket_Start_def Connection_new_def WebSocketSubscriber_new_def
        ex_eth_ws_def ex_eth_def ex_eth_rpc_def W ex_ws_documented)
  obtain p where "PendingDataExtractor_new ex_eth_lib ex_eth_rpc ''accounts'' () = (Inr p, ())"
    using ex_eth_extractor by blast
  then have 2: "Eth_EnablePending ex_eth_lib ex_eth_rpc (ex_eth\<lparr>ec_sub := Some ?s\<rparr>) = (Inr True, ex_eth\<lparr>ec_sub := Some ?s, ec_pending := Some p\<rparr>)"
    by (simp add: Eth_EnablePending_def on_sub_def ec_rpc_def zoomM_simp WebSocket_EnablePending_def Connection_EnablePending_def
        get_con_from_hdl_def SendSubscribe_request con_send_def Connection_fresh_def ex_eth_def W V)
  from pending_subscription_lost [OF D 1 2, of ?s Connection_fresh ex_ws_reader ex_real
      "Eth_Callbacks ex_eth_lib ex_eth_rpc ex_ws_owner" "WsOpen # map WsMessage [''answer'', ''head'']" "(ex_eth, [])"] 1 2 show ?thesis by auto
qed

end
