(* ===== verification/Shutdown.thy ===== *)
theory Shutdown
  imports Prelude
begin

text \<open>
  The threads of a running controller and its mutex (\<^verbatim>\<open>src/controller.cpp\<close>).  \<^verbatim>\<open>Run\<close> holds \<^verbatim>\<open>mut\<close> except
  while it waits on the condition variable, also during the final pause and the destructor of
  \<^verbatim>\<open>RunData\<close>; the RPC methods \<^verbatim>\<open>stop\<close> and \<^verbatim>\<open>getzmqnotifications\<close> lock \<^verbatim>\<open>mut\<close>, the others do not.
  \<^verbatim>\<open>StopListening\<close> accepts no more calls; whether it waits for the handlers of the calls that were
  accepted, as libmicrohttpd documents it, is the parameter \<open>waits\<close>.  The locations of the threads are the states of a step
  relation; a wake-up of the condition variable may be spurious.
\<close>

subsection \<open>The threads\<close>

datatype run_pc = RunEntry | RunLocked | RunStarted | RunChecks | RunWaits | RunSleeps | RunJoins | RunReturned

datatype rpc_kind = KStop | KZmqNotifications | KOther

datatype handler = Entering rpc_kind | Inside rpc_kind | Finished

datatype lock_owner = ByRun | ByHandler nat

record threads =
  th_mut :: "lock_owner option"
  th_stop :: bool
  th_pc :: run_pc
  th_listening :: bool
  th_handlers :: "handler list"

fun needs_mut :: "rpc_kind \<Rightarrow> bool" where
  "needs_mut KStop \<longleftrightarrow> True"
| "needs_mut KZmqNotifications \<longleftrightarrow> True"
| "needs_mut KOther \<longleftrightarrow> False"

definition threads_new :: threads where
  "threads_new = \<lparr>th_mut = None, th_stop = False, th_pc = RunEntry, th_listening = False, th_handlers = []\<rparr>"

inductive thread_step :: "bool \<Rightarrow> threads \<Rightarrow> threads \<Rightarrow> bool" for waits where
  lock: "th_pc s = RunEntry \<Longrightarrow> th_mut s = None \<Longrightarrow> thread_step waits s (s\<lparr>th_mut := Some ByRun, th_pc := RunLocked\<rparr>)"
| listen: "th_pc s = RunLocked \<Longrightarrow> thread_step waits s (s\<lparr>th_listening := True, th_pc := RunStarted\<rparr>)"
| reset: "th_pc s = RunStarted \<Longrightarrow> thread_step waits s (s\<lparr>th_stop := False, th_pc := RunChecks\<rparr>)"
| wait: "th_pc s = RunChecks \<Longrightarrow> \<not> th_stop s \<Longrightarrow> thread_step waits s (s\<lparr>th_mut := None, th_pc := RunWaits\<rparr>)"
| wake: "th_pc s = RunWaits \<Longrightarrow> th_mut s = None \<Longrightarrow> thread_step waits s (s\<lparr>th_mut := Some ByRun, th_pc := RunChecks\<rparr>)"
| pause: "th_pc s = RunChecks \<Longrightarrow> th_stop s \<Longrightarrow> thread_step waits s (s\<lparr>th_pc := RunSleeps\<rparr>)"
| close: "th_pc s = RunSleeps \<Longrightarrow> thread_step waits s (s\<lparr>th_listening := False, th_pc := RunJoins\<rparr>)"
| joined: "th_pc s = RunJoins \<Longrightarrow> (waits \<longrightarrow> (\<forall>h\<in>set (th_handlers s). h = Finished)) \<Longrightarrow>
    thread_step waits s (s\<lparr>th_mut := None, th_pc := RunReturned\<rparr>)"
| call: "th_listening s \<Longrightarrow> thread_step waits s (s\<lparr>th_handlers := th_handlers s @ [Entering k]\<rparr>)"
| enter: "i < length (th_handlers s) \<Longrightarrow> th_handlers s ! i = Entering k \<Longrightarrow> needs_mut k \<Longrightarrow> th_mut s = None \<Longrightarrow>
    thread_step waits s (s\<lparr>th_mut := Some (ByHandler i), th_handlers := (th_handlers s)[i := Inside k]\<rparr>)"
| leave: "i < length (th_handlers s) \<Longrightarrow> th_handlers s ! i = Inside k \<Longrightarrow>
    thread_step waits s (s\<lparr>th_mut := None, th_stop := th_stop s \<or> k = KStop, th_handlers := (th_handlers s)[i := Finished]\<rparr>)"
| other: "i < length (th_handlers s) \<Longrightarrow> th_handlers s ! i = Entering k \<Longrightarrow> \<not> needs_mut k \<Longrightarrow>
    thread_step waits s (s\<lparr>th_handlers := (th_handlers s)[i := Finished]\<rparr>)"

inductive_cases thread_step_cases: "thread_step waits s s'"

abbreviation thread_steps :: "bool \<Rightarrow> threads \<Rightarrow> threads \<Rightarrow> bool" where
  "thread_steps waits \<equiv> (thread_step waits)\<^sup>*\<^sup>*"

subsection \<open>The invariant of the mutex\<close>

text \<open>The owner of the mutex is where the locations say; the server listens while \<^verbatim>\<open>Run\<close> is between its
  start and its end.\<close>

definition run_holds :: "run_pc \<Rightarrow> bool" where
  "run_holds pc \<longleftrightarrow> pc \<in> {RunLocked, RunStarted, RunChecks, RunSleeps, RunJoins}"

fun is_inside :: "handler \<Rightarrow> bool" where
  "is_inside (Inside k) \<longleftrightarrow> True"
| "is_inside _ \<longleftrightarrow> False"

definition holds_at :: "handler list \<Rightarrow> nat \<Rightarrow> bool" where
  "holds_at hs i \<longleftrightarrow> i < length hs \<and> is_inside (hs ! i)"

definition threads_inv :: "threads \<Rightarrow> bool" where
  "threads_inv s \<longleftrightarrow>
     (th_mut s = Some ByRun \<longleftrightarrow> run_holds (th_pc s)) \<and>
     (\<forall>i. th_mut s = Some (ByHandler i) \<longleftrightarrow> holds_at (th_handlers s) i) \<and>
     (th_listening s \<longleftrightarrow> th_pc s \<in> {RunStarted, RunChecks, RunWaits, RunSleeps})"

lemma holds_at_update: "i < length hs \<Longrightarrow> holds_at (hs[i := h]) j \<longleftrightarrow> (if j = i then is_inside h else holds_at hs j)"
  by (simp add: holds_at_def)

lemma holds_at_snoc: "holds_at (hs @ [Entering k]) j \<longleftrightarrow> holds_at hs j"
  by (auto simp: holds_at_def nth_append less_Suc_eq)

lemma threads_inv_new: "threads_inv threads_new"
  by (simp add: threads_inv_def threads_new_def run_holds_def holds_at_def)

lemma thread_step_inv:
  assumes "thread_step waits s s'" "threads_inv s"
  shows "threads_inv s'"
  using assms
proof (induction rule: thread_step.induct)
  case (leave i s k)
  then have "th_mut s = Some (ByHandler i)" by (simp add: threads_inv_def holds_at_def)
  with leave show ?case by (auto simp: threads_inv_def holds_at_update)
next
  case (other i s k)
  then have "\<not> holds_at (th_handlers s) i" by (simp add: holds_at_def)
  with other have "holds_at ((th_handlers s)[i := Finished]) j \<longleftrightarrow> holds_at (th_handlers s) j" for j by (simp add: holds_at_update)
  with other show ?case by (simp add: threads_inv_def)
qed (auto simp: threads_inv_def run_holds_def holds_at_update holds_at_snoc)

lemma thread_steps_inv: "thread_steps waits s s' \<Longrightarrow> threads_inv s \<Longrightarrow> threads_inv s'"
  by (induction rule: rtranclp_induct) (auto intro: thread_step_inv)

subsection \<open>The end of a run\<close>

text \<open>A handler that wants the mutex while \<^verbatim>\<open>Run\<close> joins the handlers is never finished.\<close>

definition blocked :: "threads \<Rightarrow> nat \<Rightarrow> rpc_kind \<Rightarrow> bool" where
  "blocked s i k \<longleftrightarrow> th_pc s = RunJoins \<and> i < length (th_handlers s) \<and> th_handlers s ! i = Entering k \<and> needs_mut k"

lemma blocked_step:
  assumes "thread_step True s s'" "threads_inv s" "blocked s i k"
  shows "blocked s' i k"
proof -
  have s: "th_mut s = Some ByRun" "\<not> th_listening s" "th_pc s = RunJoins" "i < length (th_handlers s)"
      "th_handlers s ! i = Entering k" "needs_mut k"
    using assms(2,3) by (simp_all add: threads_inv_def blocked_def run_holds_def)
  from s(4,5) have "\<not> (\<forall>h\<in>set (th_handlers s). h = Finished)" by (metis handler.distinct(3) nth_mem)
  with assms(1) s show ?thesis
    by (cases rule: thread_step.cases) (auto simp: blocked_def nth_list_update)
qed

lemma blocked_steps:
  assumes "thread_steps True s s'" "threads_inv s" "blocked s i k"
  shows "blocked s' i k"
  using assms(1)
proof (induction rule: rtranclp_induct)
  case (step t u)
  from thread_steps_inv [OF step(1) assms(2)] have "threads_inv t" .
  with step show ?case by (auto intro: blocked_step)
qed (rule assms(3))

text \<open>Otherwise the handlers finish one by one, and \<^verbatim>\<open>Run\<close> returns.\<close>

definition unfinished :: "threads \<Rightarrow> nat" where
  "unfinished s = length (filter (\<lambda>h. h \<noteq> Finished) (th_handlers s))"

lemma unfinished_update:
  assumes "i < length hs" "hs ! i \<noteq> Finished"
  shows "Suc (length (filter (\<lambda>h. h \<noteq> Finished) (hs[i := Finished]))) = length (filter (\<lambda>h. h \<noteq> Finished) hs)"
proof -
  have "hs = take i hs @ hs ! i # drop (Suc i) hs" using assms(1) by (simp add: id_take_nth_drop)
  then have "filter (\<lambda>h. h \<noteq> Finished) hs = filter (\<lambda>h. h \<noteq> Finished) (take i hs) @ hs ! i # filter (\<lambda>h. h \<noteq> Finished) (drop (Suc i) hs)"
    using assms(2) by (metis (mono_tags, lifting) filter.simps(2) filter_append)
  then show ?thesis using assms(1) by (simp add: upd_conv_take_nth_drop)
qed

lemma joins_return:
  assumes "threads_inv s" "th_pc s = RunJoins" "\<forall>i. \<forall>k. \<not> blocked s i k"
  shows "\<exists>s'. thread_steps waits s s' \<and> th_pc s' = RunReturned"
  using assms
proof (induction "unfinished s" arbitrary: s)
  case 0
  then have "\<forall>h\<in>set (th_handlers s). h = Finished" by (simp add: unfinished_def filter_empty_conv)
  from thread_step.joined [OF 0(3), of waits] this show ?case by (intro exI conjI r_into_rtranclp) auto
next
  case (Suc n)
  then have "filter (\<lambda>h. h \<noteq> Finished) (th_handlers s) \<noteq> []" by (auto simp: unfinished_def)
  then obtain i where i: "i < length (th_handlers s)" "th_handlers s ! i \<noteq> Finished"
    by (auto simp: filter_empty_conv in_set_conv_nth)
  have "th_mut s = Some ByRun" using Suc(3,4) by (simp add: threads_inv_def run_holds_def)
  then have "\<not> holds_at (th_handlers s) i" using Suc(3) by (auto simp: threads_inv_def)
  with i obtain k where k: "th_handlers s ! i = Entering k" by (cases "th_handlers s ! i") (simp_all add: holds_at_def)
  with Suc(4,5) i have "\<not> needs_mut k" by (auto simp: blocked_def)
  note st = thread_step.other [OF i(1) k this]
  let ?s = "s\<lparr>th_handlers := (th_handlers s)[i := Finished]\<rparr>"
  have "n = unfinished ?s" using unfinished_update [OF i] Suc(2) by (simp add: unfinished_def)
  moreover have "\<not> blocked ?s j k" for j k using Suc(5) i(1) by (cases "j = i") (auto simp: blocked_def)
  ultimately obtain s' where "thread_steps waits ?s s'" "th_pc s' = RunReturned"
    using Suc(1) [of ?s] thread_step_inv [OF st Suc(3)] Suc(4) by auto
  with st show ?case by (intro exI [of _ s']) (auto intro: converse_rtranclp_into_rtranclp)
qed

text \<open>If \<^verbatim>\<open>StopListening\<close> does not wait, \<^verbatim>\<open>Run\<close> returns in any case.\<close>

lemma joins_unwaited: "th_pc s = RunJoins \<Longrightarrow> \<exists>s'. thread_steps False s s' \<and> th_pc s' = RunReturned"
  using thread_step.joined [of s False] by (intro exI conjI r_into_rtranclp) auto

end
