(* ===== verification/PropShutdown.thy ===== *)
theory PropShutdown
  imports PropMachine Shutdown
begin

text \<open>
  Properties of the end of a run: what \<^verbatim>\<open>Run\<close> takes down, and when it returns.
\<close>



text \<open>C8.  Once the server is closed, \<^verbatim>\<open>Run\<close> can return exactly if \<^verbatim>\<open>StopListening\<close> does not wait for the handlers
  of accepted calls, or no handler is waiting for the mutex of the controller: otherwise a call of
  \<^verbatim>\<open>stop\<close> or \<^verbatim>\<open>getzmqnotifications\<close> that arrives after the first \<^verbatim>\<open>stop\<close> has been noticed, such as in the
  pause of ten milliseconds, waits for \<^verbatim>\<open>Run\<close>, which waits for the handler.\<close>

theorem shutdown_completes_iff:
  assumes "thread_steps waits threads_new s" "th_pc s = RunJoins"
  shows "(\<exists>s'. thread_steps waits s s' \<and> th_pc s' = RunReturned) \<longleftrightarrow>
    \<not> waits \<or> (\<forall>k. Entering k \<in> set (th_handlers s) \<longrightarrow> \<not> needs_mut k)"
proof (cases waits)
  case False
  then show ?thesis using joins_unwaited [OF assms(2)] by simp
next
  case True
  have inv: "threads_inv s" by (rule thread_steps_inv [OF assms(1) threads_inv_new])
  have eq: "(\<exists>i k. blocked s i k) \<longleftrightarrow> (\<exists>k. Entering k \<in> set (th_handlers s) \<and> needs_mut k)"
    using assms(2) by (auto simp: blocked_def in_set_conv_nth)
  have "th_pc s' \<noteq> RunReturned" if "blocked s i k" "thread_steps True s s'" for i k s'
    using blocked_steps [OF that(2) inv that(1)] by (simp add: blocked_def)
  moreover from True have "waits = True" by simp
  ultimately show ?thesis using joins_return [OF inv assms(2), of True] eq by blast
qed

definition ex_stuck :: threads where
  "ex_stuck = \<lparr>th_mut = Some ByRun, th_stop = True, th_pc = RunJoins, th_listening = False, th_handlers = [Finished, Entering KStop]\<rparr>"

text \<open>Two calls of \<^verbatim>\<open>stop\<close>, the second one in the pause.\<close>

lemma ex_stuck_reachable: "thread_steps True threads_new ex_stuck"
proof -
  note step = rtranclp.rtrancl_into_rtrancl
  have 1: "thread_steps True threads_new (threads_new\<lparr>th_mut := Some ByRun, th_pc := RunLocked\<rparr>)"
    by (intro r_into_rtranclp thread_step.lock) (simp_all add: threads_new_def)
  note 2 = step [OF 1 thread_step.listen]
  note 3 = step [OF 2 thread_step.reset, simplified]
  note 4 = step [OF 3 thread_step.wait, simplified]
  note 5 = step [OF 4 thread_step.call [where k = KStop], simplified]
  note 6 = step [OF 5 thread_step.enter [where i = 0 and k = KStop], simplified threads_new_def, simplified]
  note 7 = step [OF 6 thread_step.leave [where i = 0 and k = KStop], simplified]
  note 8 = step [OF 7 thread_step.wake, simplified]
  note 9 = step [OF 8 thread_step.pause, simplified]
  note 10 = step [OF 9 thread_step.call [where k = KStop], simplified]
  note 11 = step [OF 10 thread_step.close, simplified]
  then show ?thesis by (simp add: ex_stuck_def threads_new_def)
qed

theorem shutdown_completes_iff_witness:
  "thread_steps True threads_new ex_stuck \<and> \<not> (\<exists>s'. thread_steps True ex_stuck s' \<and> th_pc s' = RunReturned)"
  using ex_stuck_reachable shutdown_completes_iff [OF ex_stuck_reachable] by (auto simp: ex_stuck_def)

end
