(* ===== verification/Programs.thy ===== *)
theory Programs
  imports BlockCache Rpc EthChain CoreChain
begin

text \<open>
  \<^verbatim>\<open>eth/main.cpp\<close> and \<^verbatim>\<open>xayacore/main.cpp\<close>: the two programs, from their command-line flags to the
  point where \<^verbatim>\<open>Controller::Run\<close> waits.  The parser of the command line is library code, so a program
  starts with the values of its flags.  The node behind the RPC endpoint and the database in the data
  directory are inputs.  An exception that reaches \<^verbatim>\<open>main\<close> becomes the exit code \<open>EXIT_FAILURE\<close>; a
  failed \<^verbatim>\<open>CHECK\<close> ends the process.
\<close>

definition EXIT_SUCCESS :: int where "EXIT_SUCCESS = 0"
definition EXIT_FAILURE :: int where "EXIT_FAILURE = 1"

definition require :: "bool \<Rightarrow> string \<Rightarrow> error + unit" where
  "require b msg = (if b then Inr () else Inl (Throw (StdException msg)))"

text \<open>Running an operation on an object that is a local variable of \<^verbatim>\<open>main\<close>.\<close>

definition runE :: "('s, 'a) prog \<Rightarrow> 's \<Rightarrow> error + 'a \<times> 's" where
  "runE m s = (case m s of (Inl e, _) \<Rightarrow> Inl e | (Inr a, s') \<Rightarrow> Inr (a, s'))"

definition exit_code :: "error + 'a \<Rightarrow> error + int" where
  "exit_code r =
     (case r of
        Inr _ \<Rightarrow> Inr EXIT_SUCCESS
      | Inl (Throw _) \<Rightarrow> Inr EXIT_FAILURE
      | Inl e \<Rightarrow> Inl e)"

subsection \<open>The flags\<close>

record Flags =
  fl_datadir :: string
  fl_port :: int
  fl_listen_locally :: bool
  fl_zmq_address :: string
  fl_max_reorg_depth :: int
  fl_sanity_checks :: bool

record EthFlags = Flags +
  fl_eth_rpc_url :: string
  fl_eth_ws_url :: string
  fl_accounts_contract :: string
  fl_eth_rpc_headers :: string
  fl_fast_logs_depth :: int
  fl_watch_for_pending_moves :: string
  fl_blockcache_memory :: bool
  fl_blockcache_mysql :: string

record CoreFlags = Flags +
  fl_core_rpc_url :: string
  fl_pending_moves :: bool

definition check_flags :: "'a Flags_scheme \<Rightarrow> error + unit" where
  "check_flags F =
     bindE (require (fl_port F \<noteq> 0) ''--port must be set'') (\<lambda>_.
     bindE (require (fl_zmq_address F \<noteq> []) ''--zmq_address must be set'') (\<lambda>_.
     bindE (require (fl_datadir F \<noteq> []) ''--datadir must be set'') (\<lambda>_.
     require (\<not> fl_max_reorg_depth F < 0) ''--max_reorg_depth must not be negative'')))"

definition eth_check_flags :: "EthFlags \<Rightarrow> error + unit" where
  "eth_check_flags F =
     bindE (require (fl_eth_rpc_url F \<noteq> []) ''--eth_rpc_url must be set'') (\<lambda>_.
     bindE (require (fl_accounts_contract F \<noteq> []) ''--accounts_contract must be set'') (\<lambda>_.
     check_flags F))"

definition core_check_flags :: "CoreFlags \<Rightarrow> error + unit" where
  "core_check_flags F =
     bindE (require (fl_core_rpc_url F \<noteq> []) ''--core_rpc_url must be set'') (\<lambda>_. check_flags F)"

text \<open>The setters both programs call.\<close>

definition setup_controller :: "'a Flags_scheme \<Rightarrow> (Controller, unit) prog" where
  "setup_controller F =
     thenM (SetMaxReorgDepth (u32_of_int (fl_max_reorg_depth F)))
    (thenM (SetZmqEndpoint (fl_zmq_address F))
       (SetRpcBinding (fl_port F) (fl_listen_locally F)))"

definition setup_checks :: "'a Flags_scheme \<Rightarrow> (Controller, unit) prog" where
  "setup_checks F = (if fl_sanity_checks F then EnableSanityChecks else ret ())"

definition on_controller :: "(Controller, 'a) prog \<Rightarrow> (Controller \<times> 'b, 'a) prog" where
  "on_controller m = zoomM fst (\<lambda>c (_, b). (c, b)) m"

subsection \<open>The Ethereum program\<close>

text \<open>The storage behind the pointer \<^verbatim>\<open>cacheStore\<close>, which may be null.\<close>

datatype block_store = NoStore | MemStore mem_store | SqlStore mysql

definition choose_store :: "mypp_lib \<Rightarrow> EthFlags \<Rightarrow> error + block_store" where
  "choose_store M F =
     (let store = (if fl_blockcache_memory F then MemStore [] else NoStore) in
      if fl_blockcache_mysql F = [] then Inr store
      else
        bindE (require (store = NoStore) ''only one block cache can be chosen'') (\<lambda>_.
        bindE (runE (MySql_Connect M (fl_blockcache_mysql F)) None) (\<lambda>(ok, impl).
        bindE (require ok ''--blockcache_mysql is invalid'') (\<lambda>_.
          case impl of None \<Rightarrow> Inl Abort | Some conn \<Rightarrow> Inr (SqlStore conn)))))"

text \<open>The virtual calls of the storage.\<close>

definition any_Store :: "codec \<Rightarrow> BlockData list \<Rightarrow> (block_store, unit) prog" where
  "any_Store L bs s =
     (case s of
        NoStore \<Rightarrow> (Inl Undefined, s)
      | MemStore m \<Rightarrow> (case Mem_Store bs m of (r, m') \<Rightarrow> (r, MemStore m'))
      | SqlStore q \<Rightarrow> (case MySql_Store L bs q of (r, q') \<Rightarrow> (r, SqlStore q')))"

definition any_GetRange :: "codec \<Rightarrow> nat \<Rightarrow> nat \<Rightarrow> (block_store, BlockData list) prog" where
  "any_GetRange L start count s =
     (case s of
        NoStore \<Rightarrow> (Inl Undefined, s)
      | MemStore m \<Rightarrow> (case Mem_GetRange start count m of (r, m') \<Rightarrow> (r, MemStore m'))
      | SqlStore q \<Rightarrow> (case MySql_GetRange L start count q of (r, q') \<Rightarrow> (r, SqlStore q')))"

definition any_storage :: "codec \<Rightarrow> block_store Storage" where
  "any_storage L = \<lparr>st_Store = any_Store L, st_GetRange = any_GetRange L\<rparr>"

text \<open>The base chain without a cache, in the state that has room for one.\<close>

definition uncached :: "'b BaseChain \<Rightarrow> ('b, 's) cache_state BaseChain" where
  "uncached base =
     \<lparr>bc_Start = on_base (bc_Start base), bc_EnablePending = on_base (bc_EnablePending base),
      bc_GetTipHeight = on_base (bc_GetTipHeight base),
      bc_GetBlockRange = (\<lambda>s n. on_base (bc_GetBlockRange base s n)),
      bc_GetMainchainHeight = (\<lambda>h. on_base (bc_GetMainchainHeight base h)),
      bc_GetMempool = on_base (bc_GetMempool base),
      bc_VerifyMessage = (\<lambda>m s. on_base (bc_VerifyMessage base m s)),
      bc_GetChain = on_base (bc_GetChain base), bc_GetVersion = on_base (bc_GetVersion base)\<rparr>"

definition baseOrCache :: "codec \<Rightarrow> 'b BaseChain \<Rightarrow> int \<Rightarrow> block_store \<Rightarrow> ('b, block_store) cache_state BaseChain" where
  "baseOrCache L base minDepth store =
     (case store of
        NoStore \<Rightarrow> uncached base
      | _ \<Rightarrow> BlockCacheChain base (any_storage L) (u64_of_int minDepth))"

definition eth_pending :: "('r EthChain, block_store) cache_state BaseChain \<Rightarrow> 'd eth_lib \<Rightarrow> EthFlags \<Rightarrow>
    (Controller \<times> ('r EthChain, block_store) cache_state, unit) prog" where
  "eth_pending bc E F =
     (if fl_watch_for_pending_moves F = [] then ret ()
      else
        thenM (Controller_EnablePending bc)
          (zoomM snd (\<lambda>b (c, _). (c, b)) (on_base (AddWatchedContracts E (fl_watch_for_pending_moves F)))))"

definition eth_configure :: "('r EthChain, block_store) cache_state BaseChain \<Rightarrow> 'd eth_lib \<Rightarrow> EthFlags \<Rightarrow>
    (Controller \<times> ('r EthChain, block_store) cache_state, unit) prog" where
  "eth_configure bc E F =
     thenM (on_controller (setup_controller F))
    (thenM (eth_pending bc E F) (on_controller (setup_checks F)))"

definition eth_start :: "mypp_lib \<Rightarrow> codec \<Rightarrow> nat \<Rightarrow> 'd eth_lib \<Rightarrow> 'r EthRpcClient \<Rightarrow> EthFlags \<Rightarrow> chainstate \<Rightarrow> 'r \<Rightarrow>
    error + Controller \<times> ('r EthChain, block_store) cache_state BaseChain \<times> ('r EthChain, block_store) cache_state run" where
  "eth_start M L fuel E rpc F db r =
     bindE (eth_check_flags F) (\<lambda>_.
     bindE (runE (EthChain_new E rpc (fl_eth_rpc_headers F) (fl_eth_ws_url F) (fl_accounts_contract F)) r) (\<lambda>(base, _).
     bindE (runE (Eth_Start E rpc) base) (\<lambda>(_, base).
     bindE (choose_store M F) (\<lambda>store.
     let bc = baseOrCache L (EthBase fuel E rpc (fl_fast_logs_depth F)) (fl_max_reorg_depth F) store in
     bindE (runE (eth_configure bc E F) (Controller_new, \<lparr>cc_base = base, cc_store = store, cc_lastTipHeight = 0\<rparr>)) (\<lambda>(_, st).
     bindE (runE (Controller_Run bc db) st) (\<lambda>(run, (c, _)).
     Inr (c, bc, run)))))))"

definition eth_main :: "mypp_lib \<Rightarrow> codec \<Rightarrow> nat \<Rightarrow> 'd eth_lib \<Rightarrow> 'r EthRpcClient \<Rightarrow> EthFlags \<Rightarrow> chainstate \<Rightarrow> 'r \<Rightarrow> error + int" where
  "eth_main M L fuel E rpc F db r = exit_code (eth_start M L fuel E rpc F db r)"

subsection \<open>The Xaya Core program\<close>

definition core_configure :: "'r CoreChain BaseChain \<Rightarrow> CoreFlags \<Rightarrow> (Controller \<times> 'r CoreChain, unit) prog" where
  "core_configure bc F =
     thenM (on_controller (setup_controller F))
    (thenM (if fl_pending_moves F then Controller_EnablePending bc else ret ())
       (on_controller (setup_checks F)))"

definition core_start :: "nat \<Rightarrow> core_lib \<Rightarrow> 'r CoreRpcClient \<Rightarrow> CoreFlags \<Rightarrow> chainstate \<Rightarrow> 'r \<Rightarrow>
    error + Controller \<times> 'r CoreChain run" where
  "core_start fuel X rpc F db r =
     bindE (core_check_flags F) (\<lambda>_.
     bindE (runE (Core_Start X rpc) (CoreChain_new r)) (\<lambda>(_, base).
     let bc = CoreBase fuel X rpc in
     bindE (runE (core_configure bc F) (Controller_new, base)) (\<lambda>(_, st).
     bindE (runE (Controller_Run bc db) st) (\<lambda>(run, (c, _)).
     Inr (c, run)))))"

definition core_main :: "nat \<Rightarrow> core_lib \<Rightarrow> 'r CoreRpcClient \<Rightarrow> CoreFlags \<Rightarrow> chainstate \<Rightarrow> 'r \<Rightarrow> error + int" where
  "core_main fuel X rpc F db r = exit_code (core_start fuel X rpc F db r)"

end
