(* ===== verification/ProgramProofs.thy ===== *)
theory ProgramProofs
  imports Programs ControllerRun EthProofs EthPendingProofs
begin

text \<open>
  The start-up of the two programs and the sync that follows it: the contracts of the connectors, of the
  block cache and of the controller are put together.
\<close>

subsection \<open>Any of the storages\<close>

definition any_content :: "codec \<Rightarrow> block_store \<Rightarrow> mainchain" where
  "any_content L s =
     (case s of NoStore \<Rightarrow> Map.empty | MemStore m \<Rightarrow> map_of m | SqlStore q \<Rightarrow> MySql_content L q)"

definition any_inv :: "codec \<Rightarrow> block_store \<Rightarrow> bool" where
  "any_inv L s = (case s of NoStore \<Rightarrow> False | MemStore m \<Rightarrow> Mem_inv m | SqlStore q \<Rightarrow> MySql_inv L q)"

definition any_block :: "codec \<Rightarrow> BlockData \<Rightarrow> bool" where
  "any_block L b \<longleftrightarrow> Mem_block b \<and> MySql_block L b"

interpretation any: block_storage "any_storage L" "any_content L" "any_inv L" "any_block L" for L
proof
  fix s bs start count
  show "\<exists>s'. st_Store (any_storage L) bs s = (Inr (), s') \<and> any_inv L s' \<and>
      (\<forall>h b. any_content L s' h = Some b \<longrightarrow> any_content L s h = Some b \<or> (b \<in> set bs \<and> blk_height b = h))"
    if "any_inv L s" "\<forall>b\<in>set bs. any_block L b"
  proof (cases s)
    case (MemStore m)
    with mem.Store_law [of m bs] that show ?thesis
      by (fastforce simp: any_storage_def any_Store_def any_inv_def any_content_def any_block_def InMemoryBlockStorage_def)
  next
    case (SqlStore q)
    with my.Store_law [of L q bs] that show ?thesis
      by (fastforce simp: any_storage_def any_Store_def any_inv_def any_content_def any_block_def MySqlBlockStorage_def)
  qed (use that in \<open>simp add: any_inv_def\<close>)
  show "\<exists>res s'. st_GetRange (any_storage L) start count s = (Inr res, s') \<and> any_inv L s' \<and>
      any_content L s' = any_content L s \<and> (length res = count \<longrightarrow>
        res = block_slice (any_content L s) start count \<and> length (block_slice (any_content L s) start count) = count)"
    if "any_inv L s" "start + count \<le> i64_max"
  proof (cases s)
    case (MemStore m)
    with mem.GetRange_law [of m start count] that show ?thesis
      by (fastforce simp: any_storage_def any_GetRange_def any_inv_def any_content_def InMemoryBlockStorage_def)
  next
    case (SqlStore q)
    with my.GetRange_law [of L q start count] that show ?thesis
      by (fastforce simp: any_storage_def any_GetRange_def any_inv_def any_content_def MySqlBlockStorage_def)
  qed (use that in \<open>simp add: any_inv_def\<close>)
qed

text \<open>What a program needs of the storage it starts with: there is none, or what it holds is on the
  main chain.\<close>

definition store_fits :: "codec \<Rightarrow> mainchain \<Rightarrow> block_store \<Rightarrow> bool" where
  "store_fits L v s \<longleftrightarrow> s = NoStore \<or> any_inv L s \<and> cache_agrees (any_content L s) v"

lemma store_fits_memory: "store_fits L v (MemStore [])"
  by (simp add: store_fits_def any_inv_def any_content_def Mem_inv_def smap_ok_def cache_agrees_def)

subsection \<open>The base chain or its cache\<close>

lemma uncached_contract:
  assumes "base_chain bc view tip ready"
  shows "base_chain (uncached bc) (\<lambda>c. view (cc_base c)) (\<lambda>c. tip (cc_base c)) (\<lambda>c. ready (cc_base c))"
proof -
  have at: "m (cc_base c) = (Inr a, b) \<Longrightarrow> on_base m c = (Inr a, c\<lparr>cc_base := b\<rparr>)" for m a b and c :: "('a, 'c) cache_state"
    by (simp add: on_base_def zoomM_def)
  show ?thesis
  proof
    fix c :: "('a, 'c) cache_state" assume r: "ready (cc_base c)"
    show "mainchain_ok (view (cc_base c)) (tip (cc_base c))" using base_chain.view_ok [OF assms r] .
    show "\<exists>c'. bc_GetTipHeight (uncached bc) c = (Inr (tip (cc_base c)), c') \<and> ready (cc_base c') \<and>
        view (cc_base c') = view (cc_base c) \<and> tip (cc_base c') = tip (cc_base c)"
      using base_chain.GetTipHeight_law [OF assms r] by (fastforce simp: uncached_def dest: at)
    show "\<exists>h c'. bc_GetMainchainHeight (uncached bc) hash c = (Inr h, c') \<and> mainheight_ok (view (cc_base c)) hash h \<and>
        ready (cc_base c') \<and> view (cc_base c') = view (cc_base c) \<and> tip (cc_base c') = tip (cc_base c)" for hash
      using base_chain.GetMainchainHeight_law [OF assms r, of hash] by (fastforce simp: uncached_def dest: at)
    fix start count :: nat assume "start + count \<le> i64_max"
    with base_chain.GetBlockRange_law [OF assms r]
    show "\<exists>c'. bc_GetBlockRange (uncached bc) start count c = (Inr (block_slice (view (cc_base c)) start count), c') \<and>
        ready (cc_base c') \<and> view (cc_base c') = view (cc_base c) \<and> tip (cc_base c') = tip (cc_base c)"
      by (fastforce simp: uncached_def dest: at)
  qed
qed

definition either_ready ::
  "('b \<Rightarrow> mainchain) \<Rightarrow> ('b \<Rightarrow> bool) \<Rightarrow> codec \<Rightarrow> int \<Rightarrow> block_store \<Rightarrow> ('b, block_store) cache_state \<Rightarrow> bool" where
  "either_ready view ready L minDepth store c \<longleftrightarrow>
     (if store = NoStore then ready (cc_base c)
      else cache_valid view ready (any_content L) (any_inv L) (any_block L) (u64_of_int minDepth) c)"

lemma baseOrCache_contract:
  assumes "base_chain bc view tip ready"
  shows "base_chain (baseOrCache L bc minDepth store) (\<lambda>c. view (cc_base c)) (\<lambda>c. tip (cc_base c))
    (either_ready view ready L minDepth store)"
proof (cases "store = NoStore")
  case True
  then have "either_ready view ready L minDepth store = (\<lambda>c. ready (cc_base c))"
    by (simp add: fun_eq_iff either_ready_def)
  with True uncached_contract [OF assms] show ?thesis by (simp add: baseOrCache_def)
next
  case False
  then have "either_ready view ready L minDepth store =
      cache_valid view ready (any_content L) (any_inv L) (any_block L) (u64_of_int minDepth)"
    by (simp add: fun_eq_iff either_ready_def)
  moreover have "block_cache bc view tip ready (any_storage L) (any_content L) (any_inv L) (any_block L)"
    by (intro block_cache.intro assms any.block_storage_axioms)
  note block_cache.cache_is_base_chain [OF this, of "u64_of_int minDepth"]
  ultimately show ?thesis using False by (cases store) (simp_all add: baseOrCache_def)
qed

subsection \<open>The start of the Ethereum program\<close>

text \<open>The calls a reachable node answers at the start: the chain ID, which has to be a known one, and the
  version of the client.\<close>

definition eth_starts :: "'d eth_lib \<Rightarrow> 'r EthRpcClient \<Rightarrow> ('r \<Rightarrow> mainchain) \<Rightarrow> ('r \<Rightarrow> nat) \<Rightarrow> ('r \<Rightarrow> bool) \<Rightarrow> bool" where
  "eth_starts E rpc view tip up \<longleftrightarrow>
     (\<forall>r. up r \<longrightarrow>
        (\<exists>t c r'. rpc_eth_chainId rpc r = (Inr t, r') \<and> el_ParseInt E t = Inr c \<and> map_of CHAIN_IDS c \<noteq> None \<and>
           up r' \<and> same_chain_as view tip r r') \<and>
        (\<exists>v r'. rpc_web3_clientVersion rpc r = (Inr v, r') \<and> up r' \<and> same_chain_as view tip r r'))"

text \<open>Pending moves are not tracked, or the addresses of the watched contracts are valid and the calls
  behind the constructor of the extractor succeed.\<close>

definition eth_watches ::
  "'d eth_lib \<Rightarrow> 'r EthRpcClient \<Rightarrow> ('r \<Rightarrow> mainchain) \<Rightarrow> ('r \<Rightarrow> nat) \<Rightarrow> ('r \<Rightarrow> bool) \<Rightarrow> string \<Rightarrow> string \<Rightarrow> bool" where
  "eth_watches E rpc view tip up acc lst \<longleftrightarrow>
     lst = [] \<or> length lst < npos \<and> (\<forall>a\<in>set (split_on (CHR '','') lst). el_Address E a \<noteq> None) \<and>
       (\<forall>r. up r \<longrightarrow> (\<exists>p r'. PendingDataExtractor_new E rpc acc r = (Inr p, r') \<and> up r' \<and> same_chain_as view tip r r'))"

definition eth_live :: "('r \<Rightarrow> mainchain) \<Rightarrow> ('r \<Rightarrow> nat) \<Rightarrow> ('r \<Rightarrow> bool) \<Rightarrow> string \<Rightarrow> 'r \<Rightarrow> 'r EthChain \<Rightarrow> bool" where
  "eth_live view tip up acc r b \<longleftrightarrow>
     up (ec_node b) \<and> same_chain_as view tip r (ec_node b) \<and> ec_accountsContract b = acc \<and> map_of CHAIN_IDS (ec_chainId b) \<noteq> None"

definition sub_started :: "ws_lib \<Rightarrow> 'r EthChain \<Rightarrow> bool" where
  "sub_started W b \<longleftrightarrow> (\<forall>w. ec_sub b = Some w \<longrightarrow> (\<exists>c. ws_connection w = Some c \<and> wl_valid W (cn_state c)))"

lemma EthChain_new_ok:
  assumes "eth_starts E rpc view tip up" "up r" "el_Address E a = Some ad" "length headers < npos"
  shows "\<exists>b r'. EthChain_new E rpc headers ws a r = (Inr b, r') \<and> eth_live view tip up (el_GetLowerCase E ad) r b \<and> ec_pending b = None \<and>
    ec_sub b = (if ws = [] then None else Some (WebSocketSubscriber_new ws))"
proof -
  obtain t c r' where "rpc_eth_chainId rpc r = (Inr t, r')" "el_ParseInt E t = Inr c" "map_of CHAIN_IDS c \<noteq> None"
      "up r'" "same_chain_as view tip r r'"
    using assms(1,2) unfolding eth_starts_def by blast
  with ParseRpcHeaders_fields [OF assms(4)] assms(3) show ?thesis
    by (simp add: EthChain_new_def eth_live_def)
qed

lemma Eth_Start_ok:
  assumes "eth_starts E rpc view tip up" "eth_live view tip up acc r b" "ec_pending b = None"
    and "\<And>w. ec_sub b = Some w \<Longrightarrow> ws_connects (el_websocketpp E) (ws_endpoint w)"
  shows "\<exists>b'. Eth_Start E rpc b = (Inr (), b') \<and> eth_live view tip up acc r b' \<and> sub_started (el_websocketpp E) b' \<and> ec_pending b' = None"
proof -
  obtain v r' where "rpc_web3_clientVersion rpc (ec_node b) = (Inr v, r')" "up r'" "same_chain_as view tip (ec_node b) r'"
    using assms(1,2) unfolding eth_starts_def eth_live_def by blast
  with assms(2-4) show ?thesis
    by (cases "ec_sub b")
      (auto simp: Eth_Start_def ec_rpc_def zoomM_simp on_sub_def WebSocket_Start_def Connection_new_def Connection_fresh_def eth_live_def sub_started_def ws_connects_def ws_documented_def same_chain_as_def)
qed

lemma Eth_EnablePending_ok:
  assumes "eth_watches E rpc view tip up acc lst" "lst \<noteq> []" "eth_live view tip up acc r b" "sub_started (el_websocketpp E) b" "ec_pending b = None"
  shows "\<exists>b'. Eth_EnablePending E rpc b = (Inr True, b') \<and> eth_live view tip up acc r b' \<and> ec_pending b' \<noteq> None"
proof -
  have "ec_accountsContract b = acc" "up (ec_node b)" using assms(3) by (simp_all add: eth_live_def)
  moreover obtain p r' where "PendingDataExtractor_new E rpc acc (ec_node b) = (Inr p, r')" "up r'" "same_chain_as view tip (ec_node b) r'"
    using assms(1,2) \<open>up (ec_node b)\<close> unfolding eth_watches_def by blast
  ultimately show ?thesis using assms(3-5)
    by (cases "ec_sub b")
      (auto simp: Eth_EnablePending_def ec_rpc_def zoomM_simp on_sub_def WebSocket_EnablePending_def Connection_EnablePending_def
        get_con_from_hdl_def con_send_def SendSubscribe_def Let_def eth_live_def sub_started_def same_chain_as_def)
qed

lemma AddWatchedContracts_ok:
  assumes "eth_watches E rpc view tip up acc lst" "lst \<noteq> []" "eth_live view tip up acc r b" "ec_pending b \<noteq> None"
  shows "\<exists>b'. AddWatchedContracts E lst b = (Inr (), b') \<and> eth_live view tip up acc r b'"
proof -
  have "\<exists>b'. forM as (Eth_AddWatchedContract E) b = (Inr (), b') \<and> eth_live view tip up acc r b'"
    if "\<forall>a\<in>set as. el_Address E a \<noteq> None" for as
    using that assms(3,4)
  proof (induction as arbitrary: b)
    case (Cons a as)
    then obtain p ad where p: "ec_pending b = Some p" "el_Address E a = Some ad" by auto
    let ?p = "p\<lparr>pe_watchedContracts := insort_insert (el_GetChecksummed E ad) (pe_watchedContracts p)\<rparr>"
    have "Eth_AddWatchedContract E a b = (Inr (), b\<lparr>ec_pending := Some ?p\<rparr>)"
      using p by (simp add: Eth_AddWatchedContract_def Extractor_AddWatchedContract_def)
    moreover have "eth_live view tip up acc r (b\<lparr>ec_pending := Some ?p\<rparr>)" using Cons.prems(2) by (simp add: eth_live_def)
    ultimately show ?case using Cons.IH [of "b\<lparr>ec_pending := Some ?p\<rparr>"] Cons.prems(1) by simp
  qed simp
  from this [of "split_on (CHR '','') lst"] assms(1,2) show ?thesis
    by (auto simp: AddWatchedContracts_def eth_watches_def watched_loop_eq)
qed

subsection \<open>The configuration\<close>

text \<open>The configuration a program ends up with.\<close>

definition configured :: "'a Flags_scheme \<Rightarrow> Controller \<Rightarrow> bool" where
  "configured F c \<longleftrightarrow> \<not> ct_running c \<and> cf_maxReorgDepth (ct_config c) = fl_max_reorg_depth F \<and>
     cf_zmqAddr (ct_config c) = fl_zmq_address F \<and> cf_rpcPort (ct_config c) = fl_port F \<and> cf_trackedGames (ct_config c) = []"

lemma setup_controller_ok:
  assumes "0 \<le> fl_max_reorg_depth F" "fl_max_reorg_depth F \<le> 2147483647"
  shows "\<exists>c. on_controller (setup_controller F) (Controller_new, b) = (Inr (), (c, b)) \<and> configured F c \<and> \<not> cf_pending (ct_config c)"
proof -
  have "u32_of_int (fl_max_reorg_depth F) = nat (fl_max_reorg_depth F)" using assms by (simp add: u32_of_int_def)
  with assms show ?thesis
    by (simp add: on_controller_def zoomM_def setup_controller_def SetMaxReorgDepth_def SetZmqEndpoint_def SetRpcBinding_def
        configure_def Controller_new_def configured_def thenM_def bindM_def)
qed

lemma setup_checks_ok:
  assumes "configured F c"
  shows "\<exists>c'. on_controller (setup_checks F) (c, b) = (Inr (), (c', b)) \<and> configured F c'"
  using assms by (auto simp: on_controller_def zoomM_simp setup_checks_def EnableSanityChecks_def configure_def configured_def)

lemma Controller_EnablePending_ok:
  assumes "configured F c" "\<not> cf_pending (ct_config c)" "bc_EnablePending bc b = (Inr ok, b')"
  shows "\<exists>c'. Controller_EnablePending bc (c, b) = (Inr (), (c', b')) \<and> configured F c'"
  using assms by (auto simp: Controller_EnablePending_def zoomM_simp configured_def)

lemma baseOrCache_ops:
  "bc_EnablePending (baseOrCache L base d store) = on_base (bc_EnablePending base)"
  "bc_GetChain (baseOrCache L base d store) = on_base (bc_GetChain base)"
  by (cases store; simp add: baseOrCache_def uncached_def BlockCacheChain_def)+

lemma eth_pending_ok:
  assumes "eth_watches E rpc view tip up acc (fl_watch_for_pending_moves F)" "configured F c" "\<not> cf_pending (ct_config c)"
    and "eth_live view tip up acc r (cc_base st)" "sub_started (el_websocketpp E) (cc_base st)" "ec_pending (cc_base st) = None"
    and bc: "bc_EnablePending bc = on_base (Eth_EnablePending E rpc)"
  shows "\<exists>c' b'. eth_pending bc E F (c, st) = (Inr (), (c', st\<lparr>cc_base := b'\<rparr>)) \<and> configured F c' \<and> eth_live view tip up acc r b'"
proof (cases "fl_watch_for_pending_moves F = []")
  case True
  then show ?thesis using assms(2,4) by (auto simp: eth_pending_def intro!: exI [of _ "cc_base st"])
next
  case False
  obtain b1 where b1: "Eth_EnablePending E rpc (cc_base st) = (Inr True, b1)" "eth_live view tip up acc r b1" "ec_pending b1 \<noteq> None"
    using Eth_EnablePending_ok [OF assms(1) False assms(4-6)] by blast
  then obtain c' where "Controller_EnablePending bc (c, st) = (Inr (), (c', st\<lparr>cc_base := b1\<rparr>))" "configured F c'"
    using Controller_EnablePending_ok [OF assms(2,3), of bc st True "st\<lparr>cc_base := b1\<rparr>"] bc by (auto simp: on_base_def zoomM_simp)
  moreover obtain b2 where "AddWatchedContracts E (fl_watch_for_pending_moves F) b1 = (Inr (), b2)" "eth_live view tip up acc r b2"
    using AddWatchedContracts_ok [OF assms(1) False b1(2,3)] by blast
  ultimately show ?thesis using False by (auto simp: eth_pending_def on_base_def zoomM_simp)
qed

lemma eth_configure_ok:
  assumes "eth_watches E rpc view tip up acc (fl_watch_for_pending_moves F)" "0 \<le> fl_max_reorg_depth F" "fl_max_reorg_depth F \<le> 2147483647"
    and "eth_live view tip up acc r (cc_base st)" "sub_started (el_websocketpp E) (cc_base st)" "ec_pending (cc_base st) = None"
    and bc: "bc_EnablePending bc = on_base (Eth_EnablePending E rpc)"
  shows "\<exists>c b'. eth_configure bc E F (Controller_new, st) = (Inr (), (c, st\<lparr>cc_base := b'\<rparr>)) \<and> configured F c \<and> eth_live view tip up acc r b'"
proof -
  obtain c1 where c1: "on_controller (setup_controller F) (Controller_new, st) = (Inr (), (c1, st))" "configured F c1" "\<not> cf_pending (ct_config c1)"
    using setup_controller_ok [OF assms(2,3), of st] by auto
  obtain c2 b' where c2: "eth_pending bc E F (c1, st) = (Inr (), (c2, st\<lparr>cc_base := b'\<rparr>))" "configured F c2" "eth_live view tip up acc r b'"
    using eth_pending_ok [OF assms(1) c1(2,3) assms(4-6) bc] by blast
  obtain c3 where "on_controller (setup_checks F) (c2, st\<lparr>cc_base := b'\<rparr>) = (Inr (), (c3, st\<lparr>cc_base := b'\<rparr>))" "configured F c3"
    using setup_checks_ok [OF c2(2), of "st\<lparr>cc_base := b'\<rparr>"] by auto
  with c1(1) c2 show ?thesis by (auto simp: eth_configure_def)
qed

text \<open>With valid flags the Ethereum program reaches the point where the controller waits.\<close>

lemma eth_start_ok:
  fixes L :: codec and fuel :: nat
  assumes "eth_starts E rpc view tip up" "eth_watches E rpc view tip up (el_GetLowerCase E ad) (fl_watch_for_pending_moves F)"
    and "up r" "el_Address E (fl_accounts_contract F) = Some ad" "length (fl_eth_rpc_headers F) < npos"
    and ws: "fl_eth_ws_url F = [] \<or> ws_connects (el_websocketpp E) (fl_eth_ws_url F)"
    and flags: "eth_check_flags F = Inr ()" "0 < fl_port F" "fl_max_reorg_depth F \<le> 2147483647" and store: "choose_store M F = Inr store"
  defines "bc \<equiv> baseOrCache L (EthBase fuel E rpc (fl_fast_logs_depth F)) (fl_max_reorg_depth F) store"
  shows "\<exists>c s c0 b0 b1. eth_start M L fuel E rpc F Chainstate_new r = Inr (c, bc, s) \<and>
    Controller_Run bc Chainstate_new (c0, b0) = (Inr s, (c, b1)) \<and> ct_config c = ct_config c0 \<and> configured F c0 \<and>
    eth_live view tip up (el_GetLowerCase E ad) r (cc_base (sy_base s)) \<and> cc_store (sy_base s) = store \<and> cc_lastTipHeight (sy_base s) = 0"
proof -
  let ?acc = "el_GetLowerCase E ad"
  have "0 \<le> fl_max_reorg_depth F" "fl_zmq_address F \<noteq> []"
    using flags(1) by (auto simp: eth_check_flags_def check_flags_def require_def bindE_def split: if_splits)
  note depth = this(1) flags(3)
  obtain b1 r1 where new: "EthChain_new E rpc (fl_eth_rpc_headers F) (fl_eth_ws_url F) (fl_accounts_contract F) r = (Inr b1, r1)"
      "eth_live view tip up ?acc r b1" "ec_pending b1 = None"
      "ec_sub b1 = (if fl_eth_ws_url F = [] then None else Some (WebSocketSubscriber_new (fl_eth_ws_url F)))"
    using EthChain_new_ok [OF assms(1,3-5)] by blast
  have sub: "ws_connects (el_websocketpp E) (ws_endpoint w)" if "ec_sub b1 = Some w" for w
    using that ws new(4) by (auto simp: WebSocketSubscriber_new_def split: if_splits)
  obtain b2 where start: "Eth_Start E rpc b1 = (Inr (), b2)" "eth_live view tip up ?acc r b2" "sub_started (el_websocketpp E) b2" "ec_pending b2 = None"
    using Eth_Start_ok [OF assms(1) new(2,3) sub] by blast
  let ?st = "\<lparr>cc_base = b2, cc_store = store, cc_lastTipHeight = 0\<rparr>"
  have "bc_EnablePending bc = on_base (Eth_EnablePending E rpc)" by (simp add: bc_def baseOrCache_ops EthBase_def)
  with eth_configure_ok [OF assms(2) depth, of r ?st bc] start obtain c0 b3
    where conf: "eth_configure bc E F (Controller_new, ?st) = (Inr (), (c0, ?st\<lparr>cc_base := b3\<rparr>))" "configured F c0" "eth_live view tip up ?acc r b3"
    by auto
  obtain name where "Eth_GetChain b3 = (Inr name, b3)" using conf(3) by (auto simp: Eth_GetChain_def eth_live_def)
  then have chain: "bc_GetChain bc (?st\<lparr>cc_base := b3\<rparr>) = (Inr name, ?st\<lparr>cc_base := b3\<rparr>)"
    by (simp add: bc_def baseOrCache_ops EthBase_def on_base_def zoomM_simp)
  have "\<not> ct_running c0" "0 \<le> cf_maxReorgDepth (ct_config c0)" "cf_zmqAddr (ct_config c0) \<noteq> []" "-1 < cf_rpcPort (ct_config c0)"
    using conf(2) depth(1) \<open>fl_zmq_address F \<noteq> []\<close> flags(2) by (simp_all add: configured_def)
  from Controller_Run_starts [OF this chain chain] obtain s c b4
    where run: "Controller_Run bc Chainstate_new (c0, ?st\<lparr>cc_base := b3\<rparr>) = (Inr s, (c, b4))" "sy_base s = ?st\<lparr>cc_base := b3\<rparr>" "ct_config c = ct_config c0"
    by blast
  have "eth_start M L fuel E rpc F Chainstate_new r = Inr (c, bc, s)"
    using flags(1) new(1) start(1) store conf(1) run(1)
    by (simp add: eth_start_def Let_def bc_def [symmetric] bindE_def runE_def)
  with run conf(2,3) show ?thesis by (intro exI [of _ c] exI [of _ s] exI [of _ c0]) auto
qed

subsection \<open>The Ethereum program follows the chain\<close>

text \<open>The blocks of a node are of the form the publisher can send.\<close>

lemma eth_view_sendable:
  assumes node: "eth_node E rpc acc ans logs view tip up" and r: "up r" and b: "view r h = Some b" and Z: "reader_ok Z"
  shows "block_sendable Z b"
proof -
  have ok: "mainchain_ok (view r) (tip r)" "tip r < 2 ^ 62" using eth_nodeD(1) [OF node r] by (simp_all add: eth_tip_ok_def)
  have fits: "h + 1 \<le> i64_max" using mainchain_okD(2) [OF ok(1) b] ok(2) by simp
  let ?s = "\<lparr>ec_node = r, ec_headers = [], ec_accountsContract = acc, ec_chainId = 0, ec_pending = None, ec_mempool = [], ec_sub = None\<rparr>"
  have "block_slice (view r) h 1 = [b]" using b by simp
  with base_chain.GetBlockRange_law [OF EthBase_contract [OF node, of 1 0], of ?s h 1] r fits
  obtain s' where "Eth_GetBlockRange 1 E rpc 0 h 1 ?s = (Inr [b], s')" by (auto simp: EthBase_def)
  from Eth_GetBlockRange_ok [OF this fits] Z block_ok_sendable(2) [of b Z] show ?thesis by (simp add: range_ok_def)
qed

lemma either_ready_start:
  assumes "store_fits L (view (cc_base c)) store" "cc_store c = store" "cc_lastTipHeight c = 0" "ready (cc_base c)"
    and "mainchain_ok (view (cc_base c)) t" "base_in_tree L T (view (cc_base c))" "0 \<le> d" "d \<le> 2147483647"
  shows "either_ready view ready L d store c"
proof -
  have "any_block L b" if "view (cc_base c) h = Some b" for h b
    using base_in_treeD(2,3) [OF assms(6) that] mainchain_okD(1,2,7) [OF assms(5)] that
    by (fastforce simp: any_block_def Mem_block_def MySql_block_def)
  with assms show ?thesis by (auto simp: either_ready_def store_fits_def cache_valid_def)
qed

lemma eth_program_sync:
  fixes L :: codec and fuel :: nat
  assumes node: "eth_node E rpc (el_GetLowerCase E ad) ans logs view tip up" "eth_starts E rpc view tip up"
      "eth_watches E rpc view tip up (el_GetLowerCase E ad) (fl_watch_for_pending_moves F)" "up r"
    and addr: "el_Address E (fl_accounts_contract F) = Some ad" "length (fl_eth_rpc_headers F) < npos"
      "fl_eth_ws_url F = [] \<or> ws_connects (el_websocketpp E) (fl_eth_ws_url F)"
    and flags: "eth_check_flags F = Inr ()" "0 < fl_port F" "fl_max_reorg_depth F < 2147483647"
      "-2147483648 \<le> fl_fast_logs_depth F" "fl_fast_logs_depth F \<le> 2147483647" "0 < fuel"
    and store: "choose_store M F = Inr store" "store_fits L (view r) store"
    and chain: "tree_ok T" "base_in_tree L T (view r)" "reader_ok Z"
    and bounds: "1 \<le> block_range" "block_range \<le> 2147483647" "Suc (tip r) < n" "n * step_cost block_range < i64_max - 1"
  shows "\<exists>c bc s s' log b. eth_start M L fuel E rpc F Chainstate_new r = Inr (c, bc, s) \<and>
    Sync_run n L bc (Some (TipUpdatedFrom L Z bc (ct_config c))) block_range (nat (fl_max_reorg_depth F)) s = (Inr (), s') \<and>
    view r (tip r) = Some b \<and> tip_is (sy_chain s') b \<and>
    send_log Z log ZmqPub_new = (Inr (), run_pub s') \<and> follow_log '''' log = Some (blk_hash b)"
proof -
  let ?acc = "el_GetLowerCase E ad"
  let ?ready = "\<lambda>s. up (ec_node s) \<and> ec_accountsContract s = ?acc"
  define bc where "bc = baseOrCache L (EthBase fuel E rpc (fl_fast_logs_depth F)) (fl_max_reorg_depth F) store"
  have base: "base_chain bc (\<lambda>c. view (ec_node (cc_base c))) (\<lambda>c. tip (ec_node (cc_base c)))
      (either_ready (\<lambda>s. view (ec_node s)) ?ready L (fl_max_reorg_depth F) store)"
    unfolding bc_def by (rule baseOrCache_contract [OF EthBase_contract [OF node(1) flags(6,4,5)]])
  obtain c s c0 b0 b1 where st: "eth_start M L fuel E rpc F Chainstate_new r = Inr (c, bc, s)"
      "Controller_Run bc Chainstate_new (c0, b0) = (Inr s, (c, b1))" "ct_config c = ct_config c0" "configured F c0"
      "eth_live view tip up ?acc r (cc_base (sy_base s))" "cc_store (sy_base s) = store" "cc_lastTipHeight (sy_base s) = 0"
    using eth_start_ok [OF node(2-4) addr flags(1,2) less_imp_le [OF flags(3)] store(1), of L fuel, folded bc_def]
    by (elim exE conjE) (rule that)
  have depth: "0 \<le> fl_max_reorg_depth F"
    using flags(1) by (auto simp: eth_check_flags_def check_flags_def require_def bindE_def split: if_splits)
  have same: "view (ec_node (cc_base (sy_base s))) = view r" "tip (ec_node (cc_base (sy_base s))) = tip r"
    using st(5) by (simp_all add: eth_live_def same_chain_as_def)
  have ok: "mainchain_ok (view r) (tip r)" "view r 0 \<noteq> None" using eth_nodeD(1) [OF node(1,4)] by (simp_all add: eth_tip_ok_def)
  have ready: "either_ready (\<lambda>s. view (ec_node s)) ?ready L (fl_max_reorg_depth F) store (sy_base s)"
    by (rule either_ready_start) (use st same store ok chain depth flags in \<open>simp_all add: eth_live_def\<close>)
  have conf: "cf_trackedGames (ct_config c0) = []" "cf_maxReorgDepth (ct_config c0) = fl_max_reorg_depth F"
    using st(4) by (simp_all add: configured_def)
  then have pub: "track_configured (ct_config c0) = ZmqPub_new" by (simp add: track_configured_def)
  have "\<exists>s' log b. Sync_run n L bc (Some (TipUpdatedFrom L Z bc (ct_config c0))) block_range (nat (cf_maxReorgDepth (ct_config c0))) s = (Inr (), s') \<and>
      view (ec_node (cc_base (sy_base s))) (tip (ec_node (cc_base (sy_base s)))) = Some b \<and> tip_is (sy_chain s') b \<and>
      send_log Z log (track_configured (ct_config c0)) = (Inr (), run_pub s') \<and> follow_log '''' log = Some (blk_hash b)"
    by (rule fresh_sync [OF base st(2) ready chain(1)])
      (use same ok(2) chain(2,3) conf flags(3) bounds eth_view_sendable [OF node(1,4)] in simp_all)
  then show ?thesis
    using st(1) unfolding st(3) [symmetric] conf(2) [folded st(3)] same pub [folded st(3)]
    by blast
qed

subsection \<open>The Xaya Core program follows the chain\<close>

text \<open>The calls a reachable node answers at the start: a version that is recent enough, the enabled
  notifications and the name of the chain.\<close>

definition core_starts :: "'r CoreRpcClient \<Rightarrow> ('r \<Rightarrow> mainchain) \<Rightarrow> ('r \<Rightarrow> nat) \<Rightarrow> ('r \<Rightarrow> bool) \<Rightarrow> bool" where
  "core_starts rpc view tip up \<longleftrightarrow>
     (\<forall>r. up r \<longrightarrow>
        (\<exists>j v r'. rpc_getnetworkinfo rpc r = (Inr j, r') \<and> isObject j \<and> json_get j ''version'' = JInt v \<and>
           1060000 \<le> v \<and> v \<le> 2147483647 \<and> up r' \<and> same_chain_as view tip r r') \<and>
        (\<exists>ns r'. rpc_getzmqnotifications rpc r = (Inr (JArray ns), r') \<and> up r' \<and> same_chain_as view tip r r' \<and>
           (\<forall>n\<in>set ns. isObject n \<and> (\<exists>t a. json_get n ''type'' = JString t \<and> json_get n ''address'' = JString a))) \<and>
        (\<exists>j c r'. rpc_getblockchaininfo rpc r = (Inr j, r') \<and> isObject j \<and> json_get j ''chain'' = JString c \<and>
           up r' \<and> same_chain_as view tip r r'))"

definition core_live :: "('r \<Rightarrow> mainchain) \<Rightarrow> ('r \<Rightarrow> nat) \<Rightarrow> ('r \<Rightarrow> bool) \<Rightarrow> 'r \<Rightarrow> 'r CoreChain \<Rightarrow> bool" where
  "core_live view tip up r b \<longleftrightarrow> up (cc_node b) \<and> same_chain_as view tip r (cc_node b)"

lemma object_at: "isObject j \<Longrightarrow> json_at j k = Inr (json_get j k)"
  by (auto simp: isObject_iff)

lemma find_notification_ok:
  "\<forall>n\<in>set ns. isObject n \<and> (\<exists>t a. json_get n ''type'' = JString t \<and> json_get n ''address'' = JString a) \<Longrightarrow>
     \<exists>a. find_notification X type ns = Inr a"
  by (induction ns) (auto simp: string_at_def object_at)

lemma GetNotificationAddress_ok:
  assumes "core_starts rpc view tip up" "core_live view tip up r b"
  shows "\<exists>a b'. cc_rpc (GetNotificationAddress X rpc type) b = (Inr a, b') \<and> core_live view tip up r b'"
proof -
  obtain ns r' where n: "rpc_getzmqnotifications rpc (cc_node b) = (Inr (JArray ns), r')" "up r'" "same_chain_as view tip (cc_node b) r'"
      "\<forall>n\<in>set ns. isObject n \<and> (\<exists>t a. json_get n ''type'' = JString t \<and> json_get n ''address'' = JString a)"
    using assms unfolding core_starts_def core_live_def by blast
  moreover obtain a where "find_notification X type ns = Inr a" using find_notification_ok [OF n(4)] by blast
  ultimately show ?thesis using assms(2)
    by (simp add: cc_rpc_def zoomM_simp GetNotificationAddress_def core_live_def same_chain_as_def)
qed

lemma listen_ok: "\<exists>b'. thenM (GetListenerForAddress addr) (thenM (Subscribe addr tpc) (ret x)) b = (Inr x, b') \<and> cc_node b' = cc_node b"
  by (simp add: GetListenerForAddress_def Subscribe_def thenM_def bindM_def)

lemma Core_Start_ok:
  assumes "core_starts rpc view tip up" "core_live view tip up r b"
  shows "\<exists>b'. Core_Start X rpc b = (Inr (), b') \<and> core_live view tip up r b'"
proof -
  obtain j v r' where j: "rpc_getnetworkinfo rpc (cc_node b) = (Inr j, r')" "isObject j" "json_get j ''version'' = JInt v"
      "1060000 \<le> v" "v \<le> 2147483647" "up r'" "same_chain_as view tip (cc_node b) r'"
    using assms unfolding core_starts_def core_live_def by blast
  have "core_live view tip up r (b\<lparr>cc_node := r'\<rparr>)" using j(6,7) assms(2) by (simp add: core_live_def same_chain_as_def)
  then obtain a b1 where "cc_rpc (GetNotificationAddress X rpc ''pubhashblock'') (b\<lparr>cc_node := r'\<rparr>) = (Inr a, b1)" "core_live view tip up r b1"
    using GetNotificationAddress_ok [OF assms(1)] by blast
  moreover obtain b2 where "thenM (GetListenerForAddress a) (Subscribe a ''hashblock'') b1 = (Inr (), b2)" "cc_node b2 = cc_node b1"
    using listen_ok [of a "''hashblock''" "()" b1] by (auto simp: thenM_ret)
  moreover have "bindE (json_at j ''version'') (asUInt64 (cl_json X)) = Inr (nat v)" using j by (simp add: object_at asUInt64_def)
  ultimately show ?thesis using j(1,4) by (auto simp: Core_Start_def cc_rpc_def zoomM_simp core_live_def)
qed

lemma Core_EnablePending_ok:
  assumes "core_starts rpc view tip up" "core_live view tip up r b"
  shows "\<exists>ok b'. Core_EnablePending X rpc b = (Inr ok, b') \<and> core_live view tip up r b'"
proof -
  obtain a b1 where "cc_rpc (GetNotificationAddress X rpc ''pubrawtx'') b = (Inr a, b1)" "core_live view tip up r b1"
    using GetNotificationAddress_ok [OF assms] by blast
  moreover obtain b2 where "thenM (GetListenerForAddress a) (thenM (Subscribe a ''rawtx'') (ret True)) b1 = (Inr True, b2)" "cc_node b2 = cc_node b1"
    using listen_ok [of a "''rawtx''" True b1] by blast
  ultimately show ?thesis by (cases "a = []") (auto simp: Core_EnablePending_def core_live_def)
qed

lemma Core_GetChain_ok:
  assumes "core_starts rpc view tip up" "core_live view tip up r b"
  shows "\<exists>ch b'. Core_GetChain X rpc b = (Inr ch, b') \<and> core_live view tip up r b'"
proof -
  obtain j c r' where "rpc_getblockchaininfo rpc (cc_node b) = (Inr j, r')" "isObject j" "json_get j ''chain'' = JString c"
      "up r'" "same_chain_as view tip (cc_node b) r'"
    using assms unfolding core_starts_def core_live_def by blast
  then show ?thesis using assms(2)
    by (simp add: Core_GetChain_def cc_rpc_def zoomM_simp string_at_def object_at core_live_def same_chain_as_def)
qed

lemma core_configure_ok:
  assumes "core_starts rpc view tip up" "0 \<le> fl_max_reorg_depth F" "fl_max_reorg_depth F \<le> 2147483647" "core_live view tip up r b"
  shows "\<exists>c b'. core_configure (CoreBase fuel X rpc) F (Controller_new, b) = (Inr (), (c, b')) \<and> configured F c \<and> core_live view tip up r b'"
proof -
  obtain c1 where c1: "on_controller (setup_controller F) (Controller_new, b) = (Inr (), (c1, b))" "configured F c1" "\<not> cf_pending (ct_config c1)"
    using setup_controller_ok [OF assms(2,3), of b] by auto
  obtain ok b1 where b1: "bc_EnablePending (CoreBase fuel X rpc) b = (Inr ok, b1)" "core_live view tip up r b1"
    using Core_EnablePending_ok [OF assms(1,4), of X] by (auto simp: CoreBase_def)
  have "\<exists>c2 b2. (if fl_pending_moves F then Controller_EnablePending (CoreBase fuel X rpc) else ret ()) (c1, b) = (Inr (), (c2, b2)) \<and>
      configured F c2 \<and> core_live view tip up r b2"
    using Controller_EnablePending_ok [OF c1(2,3) b1(1)] b1(2) c1(2) assms(4) by auto
  then obtain c2 b2 where c2: "(if fl_pending_moves F then Controller_EnablePending (CoreBase fuel X rpc) else ret ()) (c1, b) = (Inr (), (c2, b2))"
      "configured F c2" "core_live view tip up r b2" by blast
  obtain c3 where "on_controller (setup_checks F) (c2, b2) = (Inr (), (c3, b2))" "configured F c3"
    using setup_checks_ok [OF c2(2), of b2] by auto
  with c1(1) c2(1,3) show ?thesis unfolding core_configure_def by simp
qed

lemma core_start_ok:
  fixes fuel :: nat and X :: core_lib
  assumes "core_starts rpc view tip up" "up r" and flags: "core_check_flags F = Inr ()" "0 < fl_port F" "fl_max_reorg_depth F \<le> 2147483647"
  defines "bc \<equiv> CoreBase fuel X rpc"
  shows "\<exists>c s c0 b0 b1. core_start fuel X rpc F Chainstate_new r = Inr (c, s) \<and>
    Controller_Run bc Chainstate_new (c0, b0) = (Inr s, (c, b1)) \<and> ct_config c = ct_config c0 \<and> configured F c0 \<and>
    core_live view tip up r (sy_base s)"
proof -
  have "0 \<le> fl_max_reorg_depth F" "fl_zmq_address F \<noteq> []"
    using flags(1) by (auto simp: core_check_flags_def check_flags_def require_def bindE_def split: if_splits)
  note depth = this(1) flags(3)
  have "core_live view tip up r (CoreChain_new r)" using assms(2) by (simp add: core_live_def CoreChain_new_def same_chain_as_def)
  then obtain b1 where start: "Core_Start X rpc (CoreChain_new r) = (Inr (), b1)" "core_live view tip up r b1"
    using Core_Start_ok [OF assms(1), where X = X] by blast
  obtain c0 b2 where conf: "core_configure bc F (Controller_new, b1) = (Inr (), (c0, b2))" "configured F c0" "core_live view tip up r b2"
    using core_configure_ok [OF assms(1) depth start(2), of fuel X] unfolding bc_def by blast
  obtain ch b3 where ch: "bc_GetChain bc b2 = (Inr ch, b3)" "core_live view tip up r b3"
    using Core_GetChain_ok [OF assms(1) conf(3), of X] by (auto simp: bc_def CoreBase_def)
  obtain ch2 b4 where ch2: "bc_GetChain bc b3 = (Inr ch2, b4)" "core_live view tip up r b4"
    using Core_GetChain_ok [OF assms(1) ch(2), of X] by (auto simp: bc_def CoreBase_def)
  have "\<not> ct_running c0" "0 \<le> cf_maxReorgDepth (ct_config c0)" "cf_zmqAddr (ct_config c0) \<noteq> []" "-1 < cf_rpcPort (ct_config c0)"
    using conf(2) depth(1) \<open>fl_zmq_address F \<noteq> []\<close> flags(2) by (simp_all add: configured_def)
  from Controller_Run_starts [OF this ch(1) ch2(1)] obtain s c b5
    where run: "Controller_Run bc Chainstate_new (c0, b2) = (Inr s, (c, b5))" "sy_base s = b4" "ct_config c = ct_config c0"
    by blast
  have "core_start fuel X rpc F Chainstate_new r = Inr (c, s)"
    using flags(1) start(1) conf(1) run(1) by (simp add: core_start_def Let_def bc_def [symmetric] bindE_def runE_def)
  with run conf(2) ch2(2) show ?thesis by (intro exI [of _ c] exI [of _ s] exI [of _ c0]) auto
qed

lemma core_program_sync:
  fixes L :: codec and fuel :: nat
  assumes node: "core_node X rpc U view tip up (same_chain_as view tip)" "core_starts rpc view tip up" "up r" "tip r < fuel"
    and flags: "core_check_flags F = Inr ()" "0 < fl_port F" "fl_max_reorg_depth F < 2147483647"
    and chain: "tree_ok T" "base_in_tree L T (view r)" "reader_ok Z"
    and bounds: "1 \<le> block_range" "block_range \<le> 2147483647" "Suc (tip r) < n" "n * step_cost block_range < i64_max - 1"
  shows "\<exists>c s s' log b. core_start fuel X rpc F Chainstate_new r = Inr (c, s) \<and>
    Sync_run n L (CoreBase fuel X rpc) (Some (TipUpdatedFrom L Z (CoreBase fuel X rpc) (ct_config c))) block_range (nat (fl_max_reorg_depth F)) s = (Inr (), s') \<and>
    view r (tip r) = Some b \<and> tip_is (sy_chain s') b \<and>
    send_log Z log ZmqPub_new = (Inr (), run_pub s') \<and> follow_log '''' log = Some (blk_hash b)"
proof -
  define bc where "bc = CoreBase fuel X rpc"
  note base = CoreBase_contract [OF node(1), of fuel, folded bc_def]
  obtain c s c0 b0 b1 where st: "core_start fuel X rpc F Chainstate_new r = Inr (c, s)"
      "Controller_Run bc Chainstate_new (c0, b0) = (Inr s, (c, b1))" "ct_config c = ct_config c0" "configured F c0"
      "core_live view tip up r (sy_base s)"
    using core_start_ok [OF node(2,3) flags(1,2) less_imp_le [OF flags(3)], of fuel X, folded bc_def]
    by (elim exE conjE) (rule that)
  have same: "view (cc_node (sy_base s)) = view r" "tip (cc_node (sy_base s)) = tip r"
    using st(5) by (simp_all add: core_live_def same_chain_as_def)
  have ready: "up (cc_node (sy_base s)) \<and> tip (cc_node (sy_base s)) < fuel" using st(5) same node(4) by (simp add: core_live_def)
  have conf: "cf_trackedGames (ct_config c0) = []" "cf_maxReorgDepth (ct_config c0) = fl_max_reorg_depth F"
    using st(4) by (simp_all add: configured_def)
  then have pub: "track_configured (ct_config c0) = ZmqPub_new" by (simp add: track_configured_def)
  have send: "block_sendable Z b" if "view r h = Some b" for h b
    using core_nodeD(9) [OF node(1,3) core_nodeD(6) [OF node(1,3) that]] ConstructBlockData_ok block_ok_sendable(2) chain(3) by blast
  have "\<exists>s' log b. Sync_run n L bc (Some (TipUpdatedFrom L Z bc (ct_config c0))) block_range (nat (cf_maxReorgDepth (ct_config c0))) s = (Inr (), s') \<and>
      view (cc_node (sy_base s)) (tip (cc_node (sy_base s))) = Some b \<and> tip_is (sy_chain s') b \<and>
      send_log Z log (track_configured (ct_config c0)) = (Inr (), run_pub s') \<and> follow_log '''' log = Some (blk_hash b)"
    by (rule fresh_sync [OF base st(2) ready chain(1)])
      (use same chain(2) conf flags(3) bounds send core_nodeD(4) [OF node(1,3)] in simp_all)
  then show ?thesis
    using st(1) unfolding st(3) [symmetric] conf(2) [folded st(3)] same pub [folded st(3)] bc_def
    by blast
qed

end
