(* ===== verification/ProgramExamples.thy ===== *)
theory ProgramExamples
  imports ProgramProofs ConnectExamples
begin

text \<open>
  The two example nodes of \<^verbatim>\<open>ConnectExamples\<close> with the flags, the encoder of blocks and the tree of blocks
  that the programs need to run over them.
\<close>

subsection \<open>An encoder for a list of blocks\<close>

text \<open>A JSON value is written as its position in a list, a block as its hash.\<close>

definition list_codec :: "json list \<Rightarrow> codec" where
  "list_codec js =
     \<lparr>json_write = (\<lambda>j. replicate (length (takeWhile (\<lambda>x. x \<noteq> j) js)) (CHR ''x'')),
      json_read = (\<lambda>s. if length s < length js then Some (js ! length s) else None),
      SerializeToString = pb_hash, ParseFromString = (\<lambda>_. None)\<rparr>"

definition block_codec :: "json list \<Rightarrow> BlockData list \<Rightarrow> codec" where
  "block_codec js bs =
     (list_codec js)\<lparr>ParseFromString := (\<lambda>d.
        case find (\<lambda>b. blk_hash b = d) bs of
          None \<Rightarrow> None
        | Some b \<Rightarrow> (case store_block (list_codec js) b of Inl e \<Rightarrow> None | Inr p \<Rightarrow> Some p))\<rparr>"

definition chain_tree :: "BlockData list \<Rightarrow> block_tree" where
  "chain_tree bs = map_of (map (\<lambda>b. (blk_hash b, blk_parent b, blk_height b)) bs)"

subsection \<open>Ethereum\<close>

abbreviation ex_eth_blocks_list :: "BlockData list" where
  "ex_eth_blocks_list \<equiv> [ex_eth_block ''e0'', ex_eth_block ''e1'']"

definition ex_eth_codec :: codec where
  "ex_eth_codec = block_codec [JObject [(''timestamp'', JInt 1)], mv_metadata ex_eth_move] ex_eth_blocks_list"

definition ex_eth_T :: block_tree where
  "ex_eth_T = chain_tree ex_eth_blocks_list"

definition ex_eth_flags :: EthFlags where
  "ex_eth_flags =
     \<lparr>fl_datadir = ''dir'', fl_port = 8000, fl_listen_locally = True, fl_zmq_address = ''tcp'', fl_max_reorg_depth = 10,
      fl_sanity_checks = True, fl_eth_rpc_url = ''url'', fl_eth_ws_url = ''ws'', fl_accounts_contract = ''accounts'',
      fl_eth_rpc_headers = '''', fl_fast_logs_depth = 1024, fl_watch_for_pending_moves = ''x,y'',
      fl_blockcache_memory = True, fl_blockcache_mysql = ''''\<rparr>"

lemma ex_eth_in_tree: "base_in_tree ex_eth_codec ex_eth_T (ex_eth_view r)"
  unfolding base_in_tree_def
proof (intro allI impI)
  fix h b assume "ex_eth_view r h = Some b"
  then show "ex_eth_T (blk_hash b) = Some (blk_parent b, h) \<and> block_wf b \<and> codec_ok ex_eth_codec b"
  proof (cases rule: ex_eth_view_cases)
    case 1
    then show ?thesis
      by (simp add: ex_eth_T_def chain_tree_def ex_eth_block_def block_wf_def codec_ok_def json_stable_def ex_eth_codec_def
          block_codec_def list_codec_def store_block_def StoreJson_def)
  next
    case 2
    then show ?thesis
      by (simp add: ex_eth_T_def chain_tree_def ex_eth_block_def block_wf_def codec_ok_def json_stable_def ex_eth_codec_def
          block_codec_def list_codec_def store_block_def StoreJson_def ex_eth_move_def move_wf_def move_stable_def store_move_def smap_ok_def)
  qed
qed

lemma ex_eth_tree: "tree_ok ex_eth_T"
  by (auto simp: tree_ok_def ex_eth_T_def chain_tree_def ex_eth_block_def split: if_splits)

lemma ex_eth_starts: "eth_starts ex_eth_lib ex_eth_rpc ex_eth_view (\<lambda>_. 1) (\<lambda>_. True)"
  by (simp add: eth_starts_def ex_eth_rpc_def ex_eth_lib_def CHAIN_IDS_def same_chain_as_def)

lemma ex_eth_watches: "eth_watches ex_eth_lib ex_eth_rpc ex_eth_view (\<lambda>_. 1) (\<lambda>_. True) ''accounts'' ''x,y''"
  using ex_eth_extractor by (simp add: eth_watches_def same_chain_as_def ex_eth_lib_def)

lemma ex_eth_flags_ok:
  "eth_check_flags ex_eth_flags = Inr ()" "choose_store M ex_eth_flags = Inr (MemStore [])"
  by (simp_all add: eth_check_flags_def check_flags_def require_def ex_eth_flags_def choose_store_def)

subsection \<open>Xaya Core\<close>

abbreviation ex_core_blocks_list :: "BlockData list" where
  "ex_core_blocks_list \<equiv> [ex_core_block ''c0'', ex_core_block ''c1'', ex_core_block ''d1'']"

definition ex_core_codec :: codec where
  "ex_core_codec = block_codec [JObject [(''mediantime'', JInt 5), (''timestamp'', JInt 7)], mv_metadata ex_core_move] ex_core_blocks_list"

definition ex_core_tree :: block_tree where
  "ex_core_tree = chain_tree ex_core_blocks_list"

definition ex_core_flags :: CoreFlags where
  "ex_core_flags =
     \<lparr>fl_datadir = ''dir'', fl_port = 8000, fl_listen_locally = True, fl_zmq_address = ''tcp'', fl_max_reorg_depth = 10,
      fl_sanity_checks = False, fl_core_rpc_url = ''url'', fl_pending_moves = True\<rparr>"

lemma ex_core_in_tree: "base_in_tree ex_core_codec ex_core_tree (ex_core_view r)"
  unfolding base_in_tree_def
proof (intro allI impI)
  fix h b assume v: "ex_core_view r h = Some b"
  then consider "h = 0" "b = ex_core_block ''c0''" | "h = 1" "b = ex_core_block ''c1''" | "h = 1" "b = ex_core_block ''d1''"
    by (auto simp: ex_core_view_def ex_core_tip_def split: if_splits)
  then show "ex_core_tree (blk_hash b) = Some (blk_parent b, h) \<and> block_wf b \<and> codec_ok ex_core_codec b"
    by cases
      (simp_all add: ex_core_tree_def chain_tree_def ex_core_block_def block_wf_def codec_ok_def json_stable_def ex_core_codec_def
        block_codec_def list_codec_def store_block_def StoreJson_def ex_core_move_def move_wf_def move_stable_def store_move_def smap_ok_def)
qed

lemma ex_core_tree_ok: "tree_ok ex_core_tree"
  by (auto simp: tree_ok_def ex_core_tree_def chain_tree_def ex_core_block_def split: if_splits)

lemma ex_core_starts: "core_starts (ex_core_rpc id) ex_core_view (\<lambda>_. 1) (\<lambda>_. True)"
  by (simp add: core_starts_def ex_core_rpc_def same_chain_as_def)

lemma ex_core_flags_ok: "core_check_flags ex_core_flags = Inr ()"
  by (simp add: core_check_flags_def check_flags_def require_def ex_core_flags_def)

end
