(* ===== verification/Spec2Isabelle.thy ===== *)
theory Spec2Isabelle
  imports PropStore PropPublish PropControl PropSync PropMachine PropConnect PropWebSocket PropShutdown ProgramExamples
begin

text \<open>
  Xaya X (\<^verbatim>\<open>libxayax\<close>) connects game state processors to a blockchain: it follows the main chain of a
  node, keeps the recent blocks in a database and publishes every attached and detached block and every
  pending move over ZeroMQ, with an RPC interface like the one of Xaya Core.  This development models
  the C++ code of the library and of the two programs built on it, and shows that they follow the
  chain of their node.

  \<^bold>\<open>The parts and how they interact.\<close>  A connector (\<^verbatim>\<open>EthChain\<close>, \<^verbatim>\<open>CoreChain\<close>) implements the abstract
  class \<^verbatim>\<open>BaseChain\<close> on top of a node's RPC interface; \<^verbatim>\<open>BlockCacheChain\<close> is a base chain over another
  one with a storage for old blocks.  The controller owns a \<^verbatim>\<open>Chainstate\<close> (the database of known blocks
  with their branches), a \<^verbatim>\<open>ZmqPub\<close> (the publisher), a \<^verbatim>\<open>PendingManager\<close> (which holds moves back until
  the chain state has reached the announced tip) and the \<^verbatim>\<open>Sync\<close> worker.  A pass of the worker asks the
  base chain for blocks, finds the fork point, updates the chain state in one batch and calls
  \<^verbatim>\<open>TipUpdatedFrom\<close> of the controller, which publishes the path from the old to the new tip, releases
  pending moves and prunes.  The RPC server reads the chain state, asks the base chain for pruned blocks
  and publishes blocks again on request.

  \<^bold>\<open>How code becomes definitions.\<close>  A class is a record of its fields, a method a program: a function
  from the state to a result and the new state (\<open>prog\<close> in \<^verbatim>\<open>Prelude\<close>).  A failed \<^verbatim>\<open>CHECK\<close> or
  \<^verbatim>\<open>LOG (FATAL)\<close> is the error \<open>Abort\<close>, an exception is \<open>Throw\<close>, undefined behaviour is \<open>Undefined\<close> and a
  loop whose bound is used up is \<open>Diverges\<close>; a \<^verbatim>\<open>try\<close> block is \<open>catchM\<close>, which keeps the state changes
  made before the exception.  Unsigned 64-bit integers are natural numbers with the wrap-around written
  out, sequence numbers and floating-point numbers are words.  A \<^verbatim>\<open>std::map\<close> or \<^verbatim>\<open>std::set\<close> is a list in
  key order; the two hash maps of the publisher are kept in that order too, since the order of messages to
  different topics is not part of any result.  A virtual interface is a record of operations
  (\<open>BaseChain\<close>, \<open>Storage\<close>) with its contract as a locale.  Code of other packages is a parameter: jsoncpp's
  writer and reader and the encoder of protocol buffers (\<open>codec\<close>), UniValue and the strict reader
  (\<open>zmq_lib\<close>), eth-utils with the generated contract constants (\<open>eth_lib\<close>), what
  websocketpp does in each state of a connection (\<open>ws_lib\<close>), whether \<^verbatim>\<open>StopListening\<close> of the HTTP server waits
  for its handlers (\<open>waits\<close> in \<^verbatim>\<open>Shutdown\<close>), the hex and base64 functions
  (\<open>core_lib\<close>), the RPC stubs (\<open>EthRpcClient\<close>, \<open>CoreRpcClient\<close>, \<open>rpc_stub\<close>), mypp and MySQL (\<open>mypp_lib\<close>,
  \<open>my_outcomes\<close>), the outcome of a send on the socket (\<open>zp_outcomes\<close>), and the order \<^verbatim>\<open>std::sort\<close> gives to
  equal elements (\<open>el_sort\<close>).  What a theorem needs of them is a named hypothesis, such as \<open>codec_ok\<close> (a
  stored block is read back), \<open>reader_ok\<close> (the strict reader accepts objects only), \<open>ws_documented\<close> (a message is sent on an open connection
  only) or \<open>eth_node\<close> (the answers of a node), and is instantiated in its witness.

  \<^bold>\<open>The theories and the code they model.\<close>
  \<^item> \<^verbatim>\<open>Prelude\<close>: programs, errors, integer widths, ordered maps and their lemmas.  \<^verbatim>\<open>CxxString\<close>:
    \<^verbatim>\<open>std::string\<close> searching and cutting.  \<^verbatim>\<open>Doubles\<close>: sums and quotients of \<^verbatim>\<open>double\<close>.  \<^verbatim>\<open>Json\<close>,
    \<^verbatim>\<open>JsonConv\<close>: \<^verbatim>\<open>Json::Value\<close>, \<^verbatim>\<open>src/jsonutils.cpp\<close> and the conversions.
  \<^item> \<^verbatim>\<open>Database\<close> (\<^verbatim>\<open>src/database.cpp\<close>): opening, the cache of prepared statements, their handles,
    parameters and columns, over what SQLite answers; a statement that is handed out has no parameters left
    from its last use.
  \<^item> \<^verbatim>\<open>BlockData\<close> (\<^verbatim>\<open>src/blockdata.cpp\<close>): blocks, moves and their serialisation.
  \<^item> \<^verbatim>\<open>Chainstate\<close> (\<^verbatim>\<open>src/chainstate.cpp\<close>): the tables as lists of rows, the SQL statements as functions
    on them, with the unique keys and the savepoints of SQLite.  \<^verbatim>\<open>ChainstateFork\<close> has the invariant and
    the equivalence of \<^verbatim>\<open>GetForkBranch\<close> with following parent links, \<^verbatim>\<open>ChainstateTip\<close>, \<^verbatim>\<open>ChainstateOps\<close>
    and \<^verbatim>\<open>ChainstateData\<close> what the write operations do and that they keep the invariant.
  \<^item> \<^verbatim>\<open>BaseChain\<close> (\<^verbatim>\<open>src/basechain.hpp\<close>): the interface, its contract \<open>base_chain\<close> and the callbacks.
    \<^verbatim>\<open>TestBaseChain\<close> (\<^verbatim>\<open>src/testutils.cpp\<close>): the base chain of the tests, which keeps the contract.
  \<^item> \<^verbatim>\<open>BlockCache\<close> (\<^verbatim>\<open>src/blockcache.cpp\<close>, \<^verbatim>\<open>src/cache/mysql.cpp\<close>): the cache and its two storages; the
    locale \<open>block_storage\<close> is the contract of a storage, \<open>block_cache\<close> shows that a cache is a base chain.
  \<^item> \<^verbatim>\<open>ZmqPub\<close> (\<^verbatim>\<open>src/zmqpub.cpp\<close>), with \<^verbatim>\<open>ZmqContent\<close> and \<^verbatim>\<open>PubSend\<close>: the publisher, the content of its
    messages, and that sending succeeds.  \<^verbatim>\<open>Subscriber\<close> (\<^verbatim>\<open>src/testutils.cpp\<close>): the other end of the
    socket, which decodes and checks what the publisher sends.  \<^verbatim>\<open>Pending\<close> (\<^verbatim>\<open>src/pending.cpp\<close>): the manager of pending moves and
    the abstract machine it refines.
  \<^item> \<^verbatim>\<open>Sync\<close> (\<^verbatim>\<open>src/sync.cpp\<close>): the worker.  \<^verbatim>\<open>SyncStep\<close>, \<^verbatim>\<open>SyncClient\<close> and \<^verbatim>\<open>SyncCatchUp\<close> show in the locale
    \<open>sync_client\<close> that its passes keep the invariant, make progress and catch up with the base chain, for
    every base chain and every owner of the callbacks that keep their contracts.
  \<^item> \<^verbatim>\<open>Controller\<close>, \<^verbatim>\<open>Rpc\<close> (\<^verbatim>\<open>src/controller.cpp\<close>): the notifications, the RPC methods and the life cycle.
    \<^verbatim>\<open>ControllerPush\<close>, \<^verbatim>\<open>ControllerSync\<close> and \<^verbatim>\<open>ControllerRun\<close>: what is sent is a path a subscriber can
    follow, and the controller is a client of the worker.  \<^verbatim>\<open>RpcProofs\<close>, \<^verbatim>\<open>RpcTotal\<close>: the answers of the
    methods, and that they return.  \<^verbatim>\<open>RunMachine\<close>: the running program as a state machine whose steps
    are the passes of the worker, the callbacks of the base chain, RPC calls and reorganisations of the base
    chain, its invariant, and the databases that runs leave to the next one.  \<^verbatim>\<open>Shutdown\<close>: the threads of a
    run with the mutex of the controller as a step relation.
  \<^item> \<^verbatim>\<open>RpcUtils\<close> (\<^verbatim>\<open>src/rpcutils.cpp\<close>): the headers of an RPC client.
  \<^item> \<^verbatim>\<open>CoreChain\<close> (\<^verbatim>\<open>xayacore/corechain.cpp\<close>), with \<^verbatim>\<open>CoreChainProofs\<close> and \<^verbatim>\<open>CoreTypes\<close>: the connector to
    Xaya Core over a node that may change between any two calls.
  \<^item> \<^verbatim>\<open>EthLib\<close>, \<^verbatim>\<open>EthPending\<close>, \<^verbatim>\<open>WebSocket\<close>, \<^verbatim>\<open>EthChain\<close> (\<^verbatim>\<open>eth/hexutils.cpp\<close>, \<^verbatim>\<open>eth/pending.cpp\<close>,
    \<^verbatim>\<open>eth/websocket.cpp\<close>, \<^verbatim>\<open>eth/ethchain.cpp\<close>), with \<^verbatim>\<open>EthProofs\<close>, \<^verbatim>\<open>EthPendingProofs\<close> and \<^verbatim>\<open>WebSocketProofs\<close>:
    the connector to Ethereum, its pending moves and its subscriptions, from the events of the websocket on.
  \<^item> \<^verbatim>\<open>Programs\<close> (\<^verbatim>\<open>eth/main.cpp\<close>, \<^verbatim>\<open>xayacore/main.cpp\<close>), with \<^verbatim>\<open>ProgramProofs\<close>: the two programs from their
    flags on, put together from all of the above.
  \<^item> \<^verbatim>\<open>PropStore\<close>, \<^verbatim>\<open>PropPublish\<close>, \<^verbatim>\<open>PropControl\<close>, \<^verbatim>\<open>PropSync\<close>, \<^verbatim>\<open>PropMachine\<close>, \<^verbatim>\<open>PropShutdown\<close>, \<^verbatim>\<open>PropConnect\<close>,
    \<^verbatim>\<open>PropWebSocket\<close> and this theory state the properties; \<^verbatim>\<open>Examples\<close>, \<^verbatim>\<open>ConnectExamples\<close> and \<^verbatim>\<open>ProgramExamples\<close> have the concrete chains and nodes
    they are applied to.

  \<^bold>\<open>What is shown.\<close>  For the storage: the invariant of the tables in every reachable state, the effect of
  every operation on every branch, atomic updates, round trips of blocks, and that a cache cannot be told
  from its base chain.  For the publisher: each tracked game gets its moves in order, sequence numbers
  are consecutive, a subscriber gets exactly what was sent on its topic, pending moves are delivered in order and not before their tip.  For the controller:
  notifications are paths, RPC answers agree with the chain, and the requests on which the process ends.
  For the worker: it catches up, with a bound on the passes.  For the running program: in every state that
  an interleaving of its threads and of reorganisations can reach, the chain state is valid, the
  notifications lead to the current tip, no operation ends the process, and the worker can catch up, also
  after it was stopped and started again on the database it left; a stop takes everything down, and returns
  exactly if no handler waits for the controller, where the HTTP server waits for its handlers.  For the connectors: they keep the contract of
  a base chain, a range of blocks is one consistent chain, the blocks can be stored and published, and
  the websocket reports the heads its node announces.  For the
  programs: from the command line to the messages a subscriber sees.

  \<^bold>\<open>Bounds and fuel.\<close>  The loop of \<^verbatim>\<open>GetForkBranch\<close> runs at most once per stored row plus one.
  \<open>Sync_run n\<close> is \<open>n\<close> passes of the worker; \<open>passes_needed\<close> of them are enough, and fewer than one more
  than the height of the tip from an empty database.  \<open>has_room\<close> keeps the branch numbers below the largest
  64-bit integer: a pass uses at most \<open>step_cost\<close> of them.  The loops of \<^verbatim>\<open>CoreChain::GetBlockRange\<close> end for
  a bound above the height of the node's tip if the node does not change, and one attempt of
  \<^verbatim>\<open>EthChain::GetBlockRange\<close> is enough then.  \<open>height_limit\<close> bounds the heights of the blocks a run
  meets.  All other loops are structural recursions or have a termination proof.

  \<^bold>\<open>What is not modelled.\<close>  The threads inside an operation and the time they wait: operations are atomic
  where the code holds the lock of the data it uses, and the passes of the worker, the callbacks and the RPC methods are
  separate steps; messages of a request or of pending moves between two messages of one tip update are
  therefore not among the interleavings.  The network loops of ZeroMQ, websocketpp and HTTP; the SQLite library
  and the directory of its file; logging, the parser of the command line, and the
  Solidity contracts.  The tests are not modelled, apart from the base chain and the subscriber they
  use.
\<close>

section \<open>The programs as a whole\<close>


definition ex_mypp :: mypp_lib where
  "ex_mypp = \<lparr>mypp_parse = (\<lambda>_. None), mypp_connect = (\<lambda>_ _. None)\<rparr>"

lemma ex_reader_ok: "reader_ok ex_reader"
  by (simp add: reader_ok_def ex_reader_def members_def smap_ok_def)




end
